(* ===== verification/Prelude.thy ===== *)
theory Prelude
  imports
    "HOL-Library.Word"
    "HOL-Library.Char_ord"
    "HOL-Library.List_Lexorder"
    "HOL-Library.Product_Lexorder"
    "HOL-Library.Option_ord"
begin

text \<open>
  Shared vocabulary of the development: Rust's fixed-width integers as words, its
  \<open>Result\<close> as a sum whose left side is the error, the \<open>?\<close> operator as
  \<open>try_bind\<close>, checked and saturating arithmetic, and the string helpers the components
  use.  A Rust \<open>String\<close> is its UTF-8 byte sequence, so it is a \<^typ>\<open>string\<close> (a list
  of 8-bit characters); \<open>List_Lexorder\<close> over \<open>Char_ord\<close> is then Rust's bytewise
  string order, \<open>Product_Lexorder\<close> its tuple order and \<open>Option_ord\<close> its
  \<open>None < Some\<close> order.
\<close>

named_theorems result_simps \<open>evaluation of the error-propagation combinators\<close>

section \<open>Machine types\<close>

type_synonym u8 = "8 word"
type_synonym u16 = "16 word"
type_synonym u32 = "32 word"
type_synonym u64 = "64 word"
type_synonym uuid = "128 word"
type_synonym bytes = "u8 list"

section \<open>Result and the question-mark operator\<close>

type_synonym ('e, 'a) result = "'e + 'a"

abbreviation Err :: "'e \<Rightarrow> ('e, 'a) result" where "Err \<equiv> Inl"
abbreviation Ok :: "'a \<Rightarrow> ('e, 'a) result" where "Ok \<equiv> Inr"

definition try_bind :: "('e, 'a) result \<Rightarrow> ('a \<Rightarrow> ('e, 'b) result) \<Rightarrow> ('e, 'b) result" where
  "try_bind r f = (case r of Inl e \<Rightarrow> Inl e | Inr x \<Rightarrow> f x)"

lemma try_bind_Err [simp, result_simps]: "try_bind (Err e) f = Err e"
  by (simp add: try_bind_def)

lemma try_bind_Ok [simp, result_simps]: "try_bind (Ok x) f = f x"
  by (simp add: try_bind_def)

lemma try_bind_eq_Ok [simp]:
  "try_bind r f = Ok y \<longleftrightarrow> (\<exists>x. r = Ok x \<and> f x = Ok y)"
  by (cases r) auto

lemma try_bind_split:
  "P (try_bind r f) \<longleftrightarrow> (\<forall>e. r = Err e \<longrightarrow> P (Err e)) \<and> (\<forall>x. r = Ok x \<longrightarrow> P (f x))"
  by (cases r) auto

definition ensure :: "bool \<Rightarrow> 'e \<Rightarrow> ('e, unit) result" where
  "ensure b e = (if b then Ok () else Err e)"

lemma ensure_simps [simp, result_simps]:
  "ensure True e = Ok ()" "ensure False e = Err e"
  by (simp_all add: ensure_def)

lemma ensure_eq_Ok [simp]: "ensure b e = Ok u \<longleftrightarrow> b"
  by (simp add: ensure_def)

lemma ensure_eq_Err [simp]: "ensure b e = Err e' \<longleftrightarrow> \<not> b \<and> e' = e"
  by (auto simp: ensure_def)

definition ok_or :: "'a option \<Rightarrow> 'e \<Rightarrow> ('e, 'a) result" where
  "ok_or o1 e = (case o1 of None \<Rightarrow> Err e | Some x \<Rightarrow> Ok x)"

lemma ok_or_simps [simp, result_simps]:
  "ok_or None e = Err e" "ok_or (Some x) e = Ok x"
  by (simp_all add: ok_or_def)

lemma ok_or_eq_Ok [simp]: "ok_or o1 e = Ok x \<longleftrightarrow> o1 = Some x"
  by (cases o1) auto

lemma ok_or_eq_Err [simp]: "ok_or o1 e = Err e' \<longleftrightarrow> o1 = None \<and> e' = e"
  by (cases o1) auto

definition map_err :: "('e \<Rightarrow> 'f) \<Rightarrow> ('e, 'a) result \<Rightarrow> ('f, 'a) result" where
  "map_err g r = (case r of Inl e \<Rightarrow> Inl (g e) | Inr x \<Rightarrow> Inr x)"

lemma map_err_simps [simp, result_simps]:
  "map_err g (Err e) = Err (g e)" "map_err g (Ok x) = Ok x"
  by (simp_all add: map_err_def)

lemma map_err_eq_Ok [simp]: "map_err g r = Ok x \<longleftrightarrow> r = Ok x"
  by (cases r) auto

definition is_ok :: "('e, 'a) result \<Rightarrow> bool" where
  "is_ok r = (case r of Inl _ \<Rightarrow> False | Inr _ \<Rightarrow> True)"

lemma is_ok_simps [simp, result_simps]: "is_ok (Err e) = False" "is_ok (Ok x) = True"
  by (simp_all add: is_ok_def)

lemma is_ok_iff: "is_ok r \<longleftrightarrow> (\<exists>x. r = Ok x)"
  by (cases r) auto

text \<open>A \<open>for\<close> loop whose body ends in \<open>?\<close>: the first error leaves the loop.\<close>

fun try_each :: "('a \<Rightarrow> ('e, unit) result) \<Rightarrow> 'a list \<Rightarrow> ('e, unit) result" where
  "try_each f [] = Ok ()"
| "try_each f (x # xs) = try_bind (f x) (\<lambda>_. try_each f xs)"

lemma try_each_eq_Ok [simp]: "try_each f xs = Ok u \<longleftrightarrow> (\<forall>x \<in> set xs. f x = Ok ())"
  by (induction xs) auto

fun try_collect :: "('a \<Rightarrow> ('e, 'b) result) \<Rightarrow> 'a list \<Rightarrow> ('e, 'b list) result" where
  "try_collect f [] = Ok []"
| "try_collect f (x # xs) =
     try_bind (f x) (\<lambda>y. try_bind (try_collect f xs) (\<lambda>ys. Ok (y # ys)))"

lemma try_collect_eq_Ok:
  "try_collect f xs = Ok ys \<longleftrightarrow> list_all2 (\<lambda>x y. f x = Ok y) xs ys"
  by (induction xs arbitrary: ys) (auto simp: list_all2_Cons1)

section \<open>Integer arithmetic\<close>

definition checked_add :: "'a::len word \<Rightarrow> 'a word \<Rightarrow> 'a word option" where
  "checked_add a b = (if unat a + unat b < 2 ^ LENGTH('a) then Some (a + b) else None)"

definition saturating_add :: "'a::len word \<Rightarrow> 'a word \<Rightarrow> 'a word" where
  "saturating_add a b = (if unat a + unat b < 2 ^ LENGTH('a) then a + b else - 1)"

definition saturating_sub :: "'a::len word \<Rightarrow> 'a word \<Rightarrow> 'a word" where
  "saturating_sub a b = (if b \<le> a then a - b else 0)"

lemma checked_add_Some:
  assumes "checked_add a b = Some c"
  shows "unat c = unat a + unat b"
  using assms by (auto simp: checked_add_def unat_word_ariths split: if_splits)

lemma checked_add_one_less:
  assumes "checked_add a 1 = Some c"
  shows "a < c"
  using checked_add_Some [OF assms] by (simp add: word_less_nat_alt)

lemma unat_saturating_add:
  "unat (saturating_add a b :: 'a::len word) = min (unat a + unat b) (2 ^ LENGTH('a) - 1)"
proof (cases "unat a + unat b < 2 ^ LENGTH('a)")
  case True
  then show ?thesis by (simp add: saturating_add_def unat_word_ariths)
next
  case False
  then show ?thesis
    by (simp add: saturating_add_def unsigned_minus_1_eq_mask mask_eq_exp_minus_1)
qed

lemma unat_saturating_sub: "unat (saturating_sub a b) = unat a - unat b"
  by (auto simp: saturating_sub_def unat_sub word_le_nat_alt)

section \<open>Strings and lists\<close>

definition strip_prefix :: "string \<Rightarrow> string \<Rightarrow> string option" where
  "strip_prefix p s = (if take (length p) s = p then Some (drop (length p) s) else None)"

lemma strip_prefix_append [simp]: "strip_prefix p (p @ s) = Some s"
  by (simp add: strip_prefix_def)

lemma strip_prefix_eq_Some: "strip_prefix p s = Some r \<longleftrightarrow> s = p @ r"
  by (auto simp: strip_prefix_def) (metis append_take_drop_id)

lemma option_eqI: "(\<And>v. a = Some v \<longleftrightarrow> b = Some v) \<Longrightarrow> a = b"
  by (cases a; cases b) auto

lemma find_SomeD: "List.find P xs = Some x \<Longrightarrow> x \<in> set xs \<and> P x"
  by (auto simp: find_Some_iff)

lemma find_distinct_key:
  assumes "distinct (map k xs)" and "x \<in> set xs"
  shows "List.find (\<lambda>y. k y = k x) xs = Some x"
  using assms by (induction xs) (auto simp: rev_image_eqI)

section \<open>Decimal text\<close>

text \<open>Rust's \<open>Display\<close> for unsigned integers, and \<open>u8::is_ascii_digit\<close>.\<close>

fun decimal :: "nat \<Rightarrow> string" where
  "decimal n = (if n < 10 then [char_of (48 + n)]
     else decimal (n div 10) @ [char_of (48 + n mod 10)])"

declare decimal.simps [simp del]

definition is_ascii_digit :: "char \<Rightarrow> bool" where
  "is_ascii_digit c = (48 \<le> (of_char c :: nat) \<and> (of_char c :: nat) \<le> 57)"

definition digit_value :: "char \<Rightarrow> nat" where
  "digit_value c = of_char c - 48"

definition decimal_value :: "string \<Rightarrow> nat" where
  "decimal_value s = foldl (\<lambda>acc c. acc * 10 + digit_value c) 0 s"

lemma digit_char:
  assumes "n < 10"
  shows "is_ascii_digit (char_of (48 + n))" and "digit_value (char_of (48 + n)) = n"
  using assms by (simp_all add: is_ascii_digit_def digit_value_def)

lemma decimal_nonempty [simp]: "decimal n \<noteq> []"
  by (subst decimal.simps) simp

lemma decimal_digits: "\<forall>c \<in> set (decimal n). is_ascii_digit c"
proof (induction n rule: decimal.induct)
  case (1 n)
  then show ?case
    by (cases "n < 10") (auto simp: decimal.simps [of n] digit_char)
qed

lemma decimal_value_decimal [simp]: "decimal_value (decimal n) = n"
proof (induction n rule: decimal.induct)
  case (1 n)
  then show ?case
    by (cases "n < 10") (simp_all add: decimal.simps [of n] decimal_value_def digit_char)
qed

section \<open>Hash maps built from rows\<close>

text \<open>
  \<open>extend\<close> and \<open>collect\<close> on a \<open>HashMap\<close>: rows are inserted in order, a
  later row replaces an earlier one with the same key.
\<close>

definition map_extend :: "('k \<rightharpoonup> 'v) \<Rightarrow> ('v \<Rightarrow> 'k) \<Rightarrow> 'v list \<Rightarrow> ('k \<rightharpoonup> 'v)" where
  "map_extend m key xs = foldl (\<lambda>m x. m(key x \<mapsto> x)) m xs"

lemma map_extend_Nil [simp]: "map_extend m key [] = m"
  by (simp add: map_extend_def)

lemma map_extend_Cons [simp]: "map_extend m key (x # xs) = map_extend (m(key x \<mapsto> x)) key xs"
  by (simp add: map_extend_def)

lemma map_extend_other: "k \<notin> key ` set xs \<Longrightarrow> map_extend m key xs k = m k"
  by (induction xs arbitrary: m) auto

lemma map_extend_empty_None: "map_extend Map.empty key xs k = None \<longleftrightarrow> k \<notin> key ` set xs"
proof (induction xs rule: rev_induct)
  case (snoc x xs)
  then show ?case by (auto simp: map_extend_def)
qed simp

lemma map_extend_key:
  assumes "map_extend m key xs k = Some x" and "\<And>y. m k = Some y \<Longrightarrow> key y = k"
  shows "key x = k"
  using assms
proof (induction xs arbitrary: m)
  case (Cons y ys)
  from Cons.prems(1) have "map_extend (m(key y \<mapsto> y)) key ys k = Some x" by simp
  then show ?case by (rule Cons.IH) (use Cons.prems(2) in \<open>auto split: if_splits\<close>)
qed simp

lemma map_extend_in:
  assumes "distinct (map key xs)" and "x \<in> set xs"
  shows "map_extend m key xs (key x) = Some x"
  using assms
proof (induction xs arbitrary: m)
  case (Cons y xs)
  then show ?case
    by (cases "x = y") (auto simp: map_extend_other)
qed simp

lemma map_extend_empty_eq_Some:
  assumes "distinct (map key xs)"
  shows "map_extend Map.empty key xs k = Some x \<longleftrightarrow> x \<in> set xs \<and> key x = k"
proof
  assume h: "map_extend Map.empty key xs k = Some x"
  then have "k \<in> key ` set xs" using map_extend_other [of k key xs Map.empty] by auto
  then obtain y where "y \<in> set xs" "key y = k" by auto
  with map_extend_in [OF assms, of y Map.empty] h show "x \<in> set xs \<and> key x = k" by auto
next
  assume "x \<in> set xs \<and> key x = k"
  with map_extend_in [OF assms, of x Map.empty] show "map_extend Map.empty key xs k = Some x" by auto
qed

lemma map_extend_empty_find:
  assumes "distinct (map key xs)"
  shows "map_extend Map.empty key xs k = List.find (\<lambda>x. key x = k) xs"
proof (cases "List.find (\<lambda>x. key x = k) xs")
  case None
  then have "k \<notin> key ` set xs" by (auto simp: find_None_iff)
  with None show ?thesis by (simp add: map_extend_other)
next
  case (Some x)
  then show ?thesis
    using map_extend_empty_eq_Some [OF assms] find_SomeD [OF Some] by auto
qed

end
