(* ===== verification/Block_Ref.thy ===== *)
theory Block_Ref
  imports Prelude
begin

text \<open>
  Content-addressed block references (\<open>crates/sentinel-common/src/block_ref.rs\<close>): the
  digest-length invariant, the total order inventories are walked in, and the printed
  locator with its parser.  A Rust string is the list of its bytes.
\<close>

section \<open>Data\<close>

datatype block_namespace = Blob | Chunk | FsTrash | Manifest

datatype hash_algorithm = Sha256 | Blake3_128 | Blake3_256

datatype block_ref = BlockRef
  (br_namespace: block_namespace)
  (br_algorithm: hash_algorithm)
  (br_digest: bytes)
  (br_size_bytes: u64)
  (br_chunk_profile: "string option")
  (br_version: u16)

datatype block_ref_error =
    DigestLength hash_algorithm nat nat
  | TooFewSegments nat
  | UnknownNamespace string
  | BadVersion string
  | UnknownAlgorithm string
  | InvalidHex string

fun namespace_label :: "block_namespace \<Rightarrow> string" where
  "namespace_label Blob = ''cas-blob''"
| "namespace_label Chunk = ''artifact-chunk''"
| "namespace_label FsTrash = ''fs-trash''"
| "namespace_label Manifest = ''manifest''"

definition namespace_from_label :: "string \<Rightarrow> block_namespace option" where
  "namespace_from_label s =
     (if s = ''cas-blob'' then Some Blob
      else if s = ''artifact-chunk'' then Some Chunk
      else if s = ''fs-trash'' then Some FsTrash
      else if s = ''manifest'' then Some Manifest
      else None)"

fun digest_len :: "hash_algorithm \<Rightarrow> nat" where
  "digest_len Sha256 = 32"
| "digest_len Blake3_256 = 32"
| "digest_len Blake3_128 = 16"

fun algorithm_label :: "hash_algorithm \<Rightarrow> string" where
  "algorithm_label Sha256 = ''sha256''"
| "algorithm_label Blake3_128 = ''blake3-128''"
| "algorithm_label Blake3_256 = ''blake3-256''"

definition algorithm_from_label :: "string \<Rightarrow> hash_algorithm option" where
  "algorithm_from_label s =
     (if s = ''sha256'' then Some Sha256
      else if s = ''blake3-128'' then Some Blake3_128
      else if s = ''blake3-256'' then Some Blake3_256
      else None)"

section \<open>The derived total order\<close>

fun namespace_rank :: "block_namespace \<Rightarrow> nat" where
  "namespace_rank Blob = 0"
| "namespace_rank Chunk = 1"
| "namespace_rank FsTrash = 2"
| "namespace_rank Manifest = 3"

fun algorithm_rank :: "hash_algorithm \<Rightarrow> nat" where
  "algorithm_rank Sha256 = 0"
| "algorithm_rank Blake3_128 = 1"
| "algorithm_rank Blake3_256 = 2"

lemma rank_inject [simp]:
  "namespace_rank a = namespace_rank b \<longleftrightarrow> a = b" "algorithm_rank c = algorithm_rank d \<longleftrightarrow> c = d"
  by (cases a; cases b; simp) (cases c; cases d; simp)

definition block_key ::
  "block_ref \<Rightarrow> nat \<times> nat \<times> bytes \<times> u64 \<times> string option \<times> u16" where
  "block_key r = (namespace_rank (br_namespace r), algorithm_rank (br_algorithm r), br_digest r,
     br_size_bytes r, br_chunk_profile r, br_version r)"

lemma block_key_inject [simp]: "block_key a = block_key b \<longleftrightarrow> a = b"
  by (cases a; cases b) (simp add: block_key_def)

instantiation block_namespace :: linorder
begin

definition less_eq_block_namespace :: "block_namespace \<Rightarrow> block_namespace \<Rightarrow> bool" where
  "less_eq_block_namespace a b \<longleftrightarrow> namespace_rank a \<le> namespace_rank b"

definition less_block_namespace :: "block_namespace \<Rightarrow> block_namespace \<Rightarrow> bool" where
  "less_block_namespace a b \<longleftrightarrow> namespace_rank a < namespace_rank b"

instance
  by standard (auto simp: less_eq_block_namespace_def less_block_namespace_def)

end

instantiation block_ref :: linorder
begin

definition less_eq_block_ref :: "block_ref \<Rightarrow> block_ref \<Rightarrow> bool" where
  "less_eq_block_ref a b \<longleftrightarrow> block_key a \<le> block_key b"

definition less_block_ref :: "block_ref \<Rightarrow> block_ref \<Rightarrow> bool" where
  "less_block_ref a b \<longleftrightarrow> block_key a < block_key b"

instance
proof
  fix a b c :: block_ref
  show "a < b \<longleftrightarrow> a \<le> b \<and> \<not> b \<le> a" unfolding less_block_ref_def less_eq_block_ref_def by (rule less_le_not_le)
  show "a \<le> a" unfolding less_eq_block_ref_def by (rule order_refl)
  show "a \<le> c" if "a \<le> b" "b \<le> c" using that unfolding less_eq_block_ref_def by (rule order_trans)
  show "a = b" if "a \<le> b" "b \<le> a"
    using order_antisym [OF that [unfolded less_eq_block_ref_def]] by simp
  show "a \<le> b \<or> b \<le> a" unfolding less_eq_block_ref_def by (rule linear)
qed

end

section \<open>Construction\<close>

definition block_ref_new ::
  "block_namespace \<Rightarrow> hash_algorithm \<Rightarrow> bytes \<Rightarrow> u64 \<Rightarrow> string option \<Rightarrow> u16
   \<Rightarrow> (block_ref_error, block_ref) result" where
  "block_ref_new ns alg digest size_bytes profile version =
     (let expected = digest_len alg in
      if length digest \<noteq> expected then Err (DigestLength alg expected (length digest))
      else Ok (BlockRef ns alg digest size_bytes profile version))"

definition chunk_blake3_128 :: "bytes \<Rightarrow> u64 \<Rightarrow> string \<Rightarrow> block_ref" where
  "chunk_blake3_128 hash size_bytes profile = BlockRef Chunk Blake3_128 hash size_bytes (Some profile) 1"

definition blob_sha256 :: "bytes \<Rightarrow> u64 \<Rightarrow> block_ref" where
  "blob_sha256 hash size_bytes = BlockRef Blob Sha256 hash size_bytes None 1"

definition block_ref_wf :: "block_ref \<Rightarrow> bool" where
  "block_ref_wf r \<longleftrightarrow> length (br_digest r) = digest_len (br_algorithm r)"

section \<open>Locator strings\<close>

definition hex_digit :: "nat \<Rightarrow> char" where
  "hex_digit n = (if n < 10 then char_of (48 + n) else char_of (87 + n))"

definition hex_byte :: "u8 \<Rightarrow> string" where
  "hex_byte b = [hex_digit (unat b div 16), hex_digit (unat b mod 16)]"

definition hex_string :: "bytes \<Rightarrow> string" where
  "hex_string bs = concat (map hex_byte bs)"

definition block_ref_display :: "block_ref \<Rightarrow> string" where
  "block_ref_display r =
     namespace_label (br_namespace r) @ '':v'' @ decimal (unat (br_version r)) @ '':''
     @ algorithm_label (br_algorithm r) @ '':''
     @ (case br_chunk_profile r of Some profile \<Rightarrow> profile @ '':'' | None \<Rightarrow> [])
     @ hex_string (br_digest r)"

text \<open>\<open>str::split(':')\<close>, \<open>join\<close>, \<open>char::to_digit(16)\<close> and \<open>str::parse::<u16>\<close>.\<close>

fun split_on :: "char \<Rightarrow> string \<Rightarrow> string list" where
  "split_on d [] = [[]]"
| "split_on d (c # cs) =
     (if c = d then [] # split_on d cs
      else case split_on d cs of p # ps \<Rightarrow> (c # p) # ps | [] \<Rightarrow> [[c]])"

fun join_with :: "string \<Rightarrow> string list \<Rightarrow> string" where
  "join_with sep [] = []"
| "join_with sep [p] = p"
| "join_with sep (p # q # ps) = p @ sep @ join_with sep (q # ps)"

definition to_digit16 :: "char \<Rightarrow> nat option" where
  "to_digit16 c =
     (let n = of_char c :: nat in
      if 48 \<le> n \<and> n \<le> 57 then Some (n - 48)
      else if 97 \<le> n \<and> n \<le> 102 then Some (n - 87)
      else if 65 \<le> n \<and> n \<le> 70 then Some (n - 55)
      else None)"

definition parse_u16 :: "string \<Rightarrow> u16 option" where
  "parse_u16 s =
     (let digits = (case s of CHR ''+'' # ds \<Rightarrow> ds | _ \<Rightarrow> s) in
      if digits = [] \<or> \<not> list_all is_ascii_digit digits \<or> decimal_value digits \<ge> 2 ^ 16 then None
      else Some (of_nat (decimal_value digits)))"

fun decode_hex_pairs :: "string \<Rightarrow> bytes option" where
  "decode_hex_pairs [] = Some []"
| "decode_hex_pairs [c] = None"
| "decode_hex_pairs (a # b # cs) =
     Option.bind (to_digit16 a) (\<lambda>hi.
     Option.bind (to_digit16 b) (\<lambda>lo.
     Option.bind (decode_hex_pairs cs) (\<lambda>rest.
     Some (of_nat (hi * 16 + lo) # rest))))"

definition decode_hex :: "string \<Rightarrow> bytes option" where
  "decode_hex s = (if s = [] \<or> length s mod 2 \<noteq> 0 then None else decode_hex_pairs s)"

definition block_ref_from_str :: "string \<Rightarrow> (block_ref_error, block_ref) result" where
  "block_ref_from_str s =
     (let parts = split_on (CHR '':'') s in
      if length parts < 4 then Err (TooFewSegments (length parts))
      else
        try_bind (ok_or (namespace_from_label (parts ! 0)) (UnknownNamespace (parts ! 0))) (\<lambda>ns.
        try_bind (ok_or (Option.bind (strip_prefix ''v'' (parts ! 1)) parse_u16) (BadVersion (parts ! 1))) (\<lambda>version.
        try_bind (ok_or (algorithm_from_label (parts ! 2)) (UnknownAlgorithm (parts ! 2))) (\<lambda>alg.
        let end_seg = length parts - 1;
            hex = parts ! end_seg;
            profile = (if end_seg > 3 then Some (join_with '':'' (take (end_seg - 3) (drop 3 parts))) else None) in
        try_bind (ok_or (decode_hex hex) (InvalidHex hex)) (\<lambda>digest.
        block_ref_new ns alg digest 0 profile version)))))"

section \<open>Splitting and joining\<close>

lemma split_on_nonempty [simp]: "split_on d s \<noteq> []"
  by (induction s) (auto split: list.splits)

lemma split_on_no_sep: "d \<notin> set s \<Longrightarrow> split_on d s = [s]"
  by (induction s) auto

lemma split_on_append_sep: "split_on d (s @ d # t) = split_on d s @ split_on d t"
proof (induction s)
  case (Cons c s)
  then show ?case
    by (cases "split_on d s") auto
qed simp

lemma join_split: "join_with [d] (split_on d s) = s"
proof (induction s)
  case (Cons c s)
  obtain p ps where "split_on d s = p # ps" by (cases "split_on d s") auto
  with Cons show ?case by (cases ps) auto
qed simp

section \<open>Hexadecimal\<close>

lemma to_digit16_hex_digit: "n < 16 \<Longrightarrow> to_digit16 (hex_digit n) = Some n"
  by (auto simp: to_digit16_def hex_digit_def Let_def)

lemma hex_digit_not_colon: "n < 16 \<Longrightarrow> hex_digit n \<noteq> CHR '':''"
proof -
  have "(of_char (CHR '':'') :: nat) = 58" by code_simp
  then show "n < 16 \<Longrightarrow> hex_digit n \<noteq> CHR '':''"
    by (auto simp: hex_digit_def dest: arg_cong [where f = "of_char :: char \<Rightarrow> nat"])
qed

lemma u8_div_mod: "unat (b :: u8) div 16 < 16" "unat b mod 16 < 16"
  using unsigned_less [of b, where ?'a = nat] by (auto simp: less_mult_imp_div_less)

lemma decode_hex_pairs_hex_string: "decode_hex_pairs (hex_string bs) = Some bs"
proof (induction bs)
  case (Cons b bs)
  have "(of_nat (unat b div 16 * 16 + unat b mod 16) :: u8) = b" by (simp add: div_mult_mod_eq)
  with Cons show ?case
    by (simp add: hex_string_def hex_byte_def to_digit16_hex_digit u8_div_mod del: of_nat_add of_nat_mult)
qed (simp add: hex_string_def)

lemma length_hex_string [simp]: "length (hex_string bs) = 2 * length bs"
  by (induction bs) (simp_all add: hex_string_def hex_byte_def)

lemma decode_hex_hex_string: "bs \<noteq> [] \<Longrightarrow> decode_hex (hex_string bs) = Some bs"
proof -
  assume "bs \<noteq> []"
  then have "hex_string bs \<noteq> []" by (metis length_0_conv length_hex_string mult_eq_0_iff zero_neq_numeral)
  then show ?thesis by (simp add: decode_hex_def decode_hex_pairs_hex_string)
qed

lemma hex_string_no_colon: "CHR '':'' \<notin> set (hex_string bs)"
proof (induction bs)
  case (Cons b bs)
  then show ?case
    using hex_digit_not_colon [OF u8_div_mod(1), of b] hex_digit_not_colon [OF u8_div_mod(2), of b]
    by (auto simp: hex_string_def hex_byte_def)
qed (simp add: hex_string_def)

section \<open>The locator round trip\<close>

lemma label_round_trip [simp]:
  "namespace_from_label (namespace_label ns) = Some ns" "algorithm_from_label (algorithm_label alg) = Some alg"
  by (cases ns; simp add: namespace_from_label_def) (cases alg; simp add: algorithm_from_label_def)

lemma label_no_colon: "CHR '':'' \<notin> set (namespace_label ns)" "CHR '':'' \<notin> set (algorithm_label alg)"
  by (cases ns; simp) (cases alg; simp)

lemma decimal_plain: "CHR '':'' \<notin> set (decimal n)" "CHR ''+'' \<notin> set (decimal n)"
  using decimal_digits [of n] by (auto simp: is_ascii_digit_def)

lemma parse_u16_decimal: "parse_u16 (decimal (unat (v :: u16))) = Some v"
proof -
  obtain c cs where d: "decimal (unat v) = c # cs" by (cases "decimal (unat v)") auto
  have "c \<noteq> CHR ''+''" using decimal_plain(2) [of "unat v"] by (auto simp: d)
  then have "(case decimal (unat v) of CHR ''+'' # ds \<Rightarrow> ds | _ \<Rightarrow> decimal (unat v)) = decimal (unat v)"
    unfolding d by (cases "c = CHR ''+''") (auto split: char.splits bool.splits)
  moreover have "list_all is_ascii_digit (decimal (unat v))" using decimal_digits by (simp add: list_all_iff)
  moreover have "unat v < 2 ^ 16" using unsigned_less [of v, where ?'a = nat] by simp
  ultimately show ?thesis by (simp add: parse_u16_def)
qed

lemma split_display:
  "split_on (CHR '':'') (block_ref_display r) =
     [namespace_label (br_namespace r), CHR ''v'' # decimal (unat (br_version r)), algorithm_label (br_algorithm r)]
     @ (case br_chunk_profile r of Some profile \<Rightarrow> split_on (CHR '':'') profile | None \<Rightarrow> [])
     @ [hex_string (br_digest r)]"
proof -
  let ?c = "CHR '':''"
  have v: "?c \<notin> set (CHR ''v'' # decimal (unat (br_version r)))" using decimal_plain by simp
  have eq: "block_ref_display r = namespace_label (br_namespace r) @ ?c #
      ((CHR ''v'' # decimal (unat (br_version r))) @ ?c # (algorithm_label (br_algorithm r) @ ?c #
        ((case br_chunk_profile r of Some profile \<Rightarrow> profile @ [?c] | None \<Rightarrow> []) @ hex_string (br_digest r))))"
    by (simp add: block_ref_display_def split: option.splits)
  have tl: "split_on ?c ((case br_chunk_profile r of Some profile \<Rightarrow> profile @ [?c] | None \<Rightarrow> []) @ hex_string (br_digest r))
      = (case br_chunk_profile r of Some profile \<Rightarrow> split_on ?c profile | None \<Rightarrow> []) @ [hex_string (br_digest r)]"
    by (cases "br_chunk_profile r")
      (simp_all add: split_on_append_sep split_on_no_sep hex_string_no_colon)
  show ?thesis
    unfolding eq split_on_append_sep tl
    by (simp only: split_on_no_sep [OF label_no_colon(1)] split_on_no_sep [OF label_no_colon(2)]
        split_on_no_sep [OF v] append.simps)
qed

lemma from_str_display:
  assumes "block_ref_wf r"
  shows "block_ref_from_str (block_ref_display r)
    = Ok (BlockRef (br_namespace r) (br_algorithm r) (br_digest r) 0 (br_chunk_profile r) (br_version r))"
proof -
  have ne: "br_digest r \<noteq> []" using assms by (cases "br_algorithm r") (auto simp: block_ref_wf_def)
  have new: "block_ref_new (br_namespace r) (br_algorithm r) (br_digest r) 0 p (br_version r)
      = Ok (BlockRef (br_namespace r) (br_algorithm r) (br_digest r) 0 p (br_version r))" for p
    using assms by (simp add: block_ref_new_def block_ref_wf_def)
  have v: "strip_prefix ''v'' (CHR ''v'' # s) = Some s" for s using strip_prefix_append [of "''v''" s] by simp
  show ?thesis
  proof (cases "br_chunk_profile r")
    case None
    then show ?thesis
      unfolding block_ref_from_str_def split_display Let_def
      by (simp add: v parse_u16_decimal decode_hex_hex_string [OF ne] new)
  next
    case (Some profile)
    obtain q qs where q: "split_on (CHR '':'') profile = q # qs" by (cases "split_on (CHR '':'') profile") auto
    have "join_with '':'' (q # qs) = profile" using join_split [of "CHR '':''" profile] by (simp add: q)
    with Some q show ?thesis
      unfolding block_ref_from_str_def split_display Let_def
      by (simp add: v parse_u16_decimal decode_hex_hex_string [OF ne] new nth_append)
  qed
qed

text \<open>
   The locator is a faithful, size-blind name: parsing the printed form of any reference
  whose digest has the length of its algorithm returns that reference with size 0, whatever
  characters its chunk profile contains; and whatever parses has the right digest length and
  is printed and parsed back unchanged.
\<close>

theorem block_ref_locator_roundtrip:
  "(block_ref_wf r \<longrightarrow> block_ref_from_str (block_ref_display r)
      = Ok (BlockRef (br_namespace r) (br_algorithm r) (br_digest r) 0 (br_chunk_profile r) (br_version r)))
   \<and> (block_ref_from_str s = Ok q \<longrightarrow>
        block_ref_wf q \<and> br_size_bytes q = 0 \<and> block_ref_from_str (block_ref_display q) = Ok q)"
proof (intro conjI impI)
  show "block_ref_wf r \<Longrightarrow> block_ref_from_str (block_ref_display r)
      = Ok (BlockRef (br_namespace r) (br_algorithm r) (br_digest r) 0 (br_chunk_profile r) (br_version r))"
    by (rule from_str_display)
  assume "block_ref_from_str s = Ok q"
  then show wf: "block_ref_wf q" and size: "br_size_bytes q = 0"
    by (auto simp: block_ref_from_str_def block_ref_new_def block_ref_wf_def Let_def split: if_splits)
  show "block_ref_from_str (block_ref_display q) = Ok q"
    using from_str_display [OF wf] size by (cases q) simp
qed

theorem block_ref_locator_roundtrip_witness:
  "block_ref_from_str (block_ref_display (chunk_blake3_128 (replicate 16 60) 4096 ''gear-v1:16k''))
     = Ok (chunk_blake3_128 (replicate 16 60) 0 ''gear-v1:16k'')"
  using block_ref_locator_roundtrip [of "chunk_blake3_128 (replicate 16 60) 4096 ''gear-v1:16k''"]
  by (simp add: block_ref_wf_def chunk_blake3_128_def)

end
