(* ===== verification/Ordered_Map.thy ===== *)
theory Ordered_Map
  imports Prelude
begin

text \<open>
  Ordered key-value tables: the \<open>BTreeMap\<close>s of the program and the tables of its embedded
  stores, as association lists in ascending key order.  The laws a client may rely on form
  the locale \<open>kv_table\<close>; the association lists interpret it.
\<close>

section \<open>The contract\<close>

locale kv_table =
  fixes empty :: 't
    and get :: "'t \<Rightarrow> 'k::linorder \<Rightarrow> 'v option"
    and ins :: "'k \<Rightarrow> 'v \<Rightarrow> 't \<Rightarrow> 't"
    and rem :: "'k \<Rightarrow> 't \<Rightarrow> 't"
    and entries :: "'t \<Rightarrow> ('k \<times> 'v) list"
    and wf :: "'t \<Rightarrow> bool"
  assumes wf_empty: "wf empty" and wf_ins: "wf t \<Longrightarrow> wf (ins k v t)" and wf_rem: "wf t \<Longrightarrow> wf (rem k t)"
    and get_empty: "get empty k = None"
    and get_ins: "wf t \<Longrightarrow> get (ins k v t) k' = (if k' = k then Some v else get t k')"
    and get_rem: "wf t \<Longrightarrow> get (rem k t) k' = (if k' = k then None else get t k')"
    and entries_sorted: "wf t \<Longrightarrow> sorted_wrt (<) (map fst (entries t))"
    and entries_get: "wf t \<Longrightarrow> (k, v) \<in> set (entries t) \<longleftrightarrow> get t k = Some v"
begin

definition ins_all :: "('r \<Rightarrow> 'k) \<Rightarrow> ('r \<Rightarrow> 'v) \<Rightarrow> 'r list \<Rightarrow> 't \<Rightarrow> 't" where
  "ins_all key val rows t = foldl (\<lambda>t r. ins (key r) (val r) t) t rows"

lemma ins_all_simps [simp]:
  "ins_all key val [] t = t"
  "ins_all key val (r # rows) t = ins_all key val rows (ins (key r) (val r) t)"
  by (simp_all add: ins_all_def)

lemma wf_ins_all: "wf t \<Longrightarrow> wf (ins_all key val rows t)"
  by (induction rows arbitrary: t) (simp_all add: wf_ins)

lemma get_ins_all:
  assumes "wf t" and "distinct (map key rows)"
  shows "get (ins_all key val rows t) k = Some v \<longleftrightarrow>
    (\<exists>r \<in> set rows. key r = k \<and> val r = v) \<or> (k \<notin> key ` set rows \<and> get t k = Some v)"
  using assms
proof (induction rows arbitrary: t)
  case (Cons r rows)
  then show ?case using wf_ins [of t "key r" "val r"] get_ins [of t "key r" "val r" k] by auto
qed simp

lemma entries_unique:
  assumes "wf t" and "sorted_wrt (<) (map fst es)" and "\<And>k v. (k, v) \<in> set es \<longleftrightarrow> get t k = Some v"
  shows "entries t = es"
proof -
  have s: "set es = set (entries t)" using assms(1,3) entries_get by auto
  have m: "map fst (entries t) = map fst es"
    using assms(2) entries_sorted [OF assms(1)] s by (metis set_map strict_sorted_equal)
  have "inj_on fst (set es)" using assms(2) by (auto simp: strict_sorted_iff distinct_map)
  with m s show ?thesis using inj_on_map_eq_map [of fst "entries t" es] by simp
qed

lemma entries_ins_all_empty:
  assumes "sorted_wrt (<) (map key rows)"
  shows "entries (ins_all key val rows empty) = map (\<lambda>r. (key r, val r)) rows"
proof (rule entries_unique)
  have d: "distinct (map key rows)" using assms by (simp add: strict_sorted_iff)
  show "wf (ins_all key val rows empty)" by (rule wf_ins_all [OF wf_empty])
  have "map fst (map (\<lambda>r. (key r, val r)) rows) = map key rows" by simp
  with assms show "sorted_wrt (<) (map fst (map (\<lambda>r. (key r, val r)) rows))" by (simp only:)
  show "(k, v) \<in> set (map (\<lambda>r. (key r, val r)) rows) \<longleftrightarrow> get (ins_all key val rows empty) k = Some v" for k v
    unfolding get_ins_all [OF wf_empty d] by (auto simp: get_empty)
qed

end

section \<open>Association lists in key order\<close>

type_synonym ('k, 'v) omap = "('k \<times> 'v) list"

definition om_get :: "('k, 'v) omap \<Rightarrow> 'k \<Rightarrow> 'v option" where
  "om_get m = map_of m"

fun om_insert :: "'k::linorder \<Rightarrow> 'v \<Rightarrow> ('k, 'v) omap \<Rightarrow> ('k, 'v) omap" where
  "om_insert k v [] = [(k, v)]"
| "om_insert k v ((k', v') # m) =
     (if k < k' then (k, v) # (k', v') # m
      else if k = k' then (k, v) # m
      else (k', v') # om_insert k v m)"

definition om_remove :: "'k \<Rightarrow> ('k, 'v) omap \<Rightarrow> ('k, 'v) omap" where
  "om_remove k m = filter (\<lambda>p. fst p \<noteq> k) m"

definition om_wf :: "('k::linorder, 'v) omap \<Rightarrow> bool" where
  "om_wf m \<longleftrightarrow> sorted_wrt (<) (map fst m)"

definition om_values :: "('k, 'v) omap \<Rightarrow> 'v list" where
  "om_values m = map snd m"

lemma om_get_Cons [simp]: "om_get ((k, v) # m) k' = (if k' = k then Some v else om_get m k')"
  by (simp add: om_get_def)

lemma om_insert_keys: "set (map fst (om_insert k v m)) = insert k (set (map fst m))"
  by (induction k v m rule: om_insert.induct) auto

lemma om_insert_wf: "om_wf m \<Longrightarrow> om_wf (om_insert k v m)"
proof (induction m)
  case (Cons p m)
  then show ?case
    using om_insert_keys [of k v m] by (cases p) (fastforce simp: om_wf_def)
qed (simp add: om_wf_def)

lemma om_get_insert: "om_wf m \<Longrightarrow> om_get (om_insert k v m) k' = (if k' = k then Some v else om_get m k')"
  by (induction m) (auto simp: om_wf_def om_get_def)

lemma om_remove_wf: "om_wf m \<Longrightarrow> om_wf (om_remove k m)"
  by (simp add: om_wf_def om_remove_def sorted_wrt_map sorted_wrt_filter)

lemma om_get_remove: "om_get (om_remove k m) k' = (if k' = k then None else om_get m k')"
  by (induction m) (auto simp: om_remove_def om_get_def)

lemma om_wf_distinct: "om_wf m \<Longrightarrow> distinct (map fst m)"
  by (simp add: om_wf_def strict_sorted_iff)

interpretation om: kv_table "[]" om_get om_insert om_remove id om_wf
proof unfold_locales
  fix t :: "('k::linorder, 'v) omap" and k v
  assume "om_wf t"
  then show "(k, v) \<in> set (id t) \<longleftrightarrow> om_get t k = Some v"
    by (simp add: om_get_def om_wf_distinct)
next
  fix t :: "('k::linorder, 'v) omap"
  assume "om_wf t"
  then show "sorted_wrt (<) (map fst (id t))" by (simp add: om_wf_def)
qed (simp_all add: om_insert_wf om_remove_wf om_get_insert om_get_remove, simp_all add: om_wf_def om_get_def)

lemmas om_get_simps [simp] = om.get_empty om.get_ins om.get_rem
lemmas om_wf_intros [simp, intro] = om.wf_empty om.wf_ins om.wf_rem

text \<open>Refilling a cleared table with rows in order.\<close>

definition om_fill :: "('r \<Rightarrow> 'k::linorder) \<Rightarrow> ('r \<Rightarrow> 'v) \<Rightarrow> 'r list \<Rightarrow> ('k, 'v) omap" where
  "om_fill key val rows = foldl (\<lambda>t r. om_insert (key r) (val r) t) [] rows"

lemma om_fill_wf [simp]: "om_wf (om_fill key val rows)"
  unfolding om_fill_def using om.wf_ins_all [OF om.wf_empty] by (simp add: om.ins_all_def)

lemma om_get_fill:
  assumes "distinct (map key rows)"
  shows "om_get (om_fill key val rows) k = Some v \<longleftrightarrow> (\<exists>r \<in> set rows. key r = k \<and> val r = v)"
  using om.get_ins_all [OF om.wf_empty assms, of val k v]
  by (simp add: om_fill_def om.ins_all_def om.get_empty)

lemma om_fill_sorted:
  assumes "sorted_wrt (<) (map key rows)"
  shows "om_fill key val rows = map (\<lambda>r. (key r, val r)) rows"
  using om.entries_ins_all_empty [OF assms, of val] by (simp add: om_fill_def om.ins_all_def)

lemma om_insert_not_Nil [simp]: "om_insert k v m \<noteq> []"
  by (cases m) (auto split: if_splits)

text \<open>\<open>retain\<close> and value updates over a whole table.\<close>

definition om_map :: "('v \<Rightarrow> 'w) \<Rightarrow> ('k, 'v) omap \<Rightarrow> ('k, 'w) omap" where
  "om_map f m = map (\<lambda>(k, v). (k, f v)) m"

definition om_retain :: "('v \<Rightarrow> bool) \<Rightarrow> ('k, 'v) omap \<Rightarrow> ('k, 'v) omap" where
  "om_retain P m = filter (\<lambda>(k, v). P v) m"

lemma om_map_keys [simp]: "map fst (om_map f m) = map fst m"
  by (induction m) (auto simp: om_map_def)

lemma om_map_wf [simp]: "om_wf (om_map f m) \<longleftrightarrow> om_wf m"
  by (simp only: om_wf_def om_map_keys)

lemma om_get_map [simp]: "om_get (om_map f m) k = map_option f (om_get m k)"
  by (induction m) (auto simp: om_map_def om_get_def)

lemma om_retain_wf: "om_wf m \<Longrightarrow> om_wf (om_retain P m)"
  by (simp add: om_wf_def om_retain_def sorted_wrt_map sorted_wrt_filter)

lemma om_get_retain:
  assumes "om_wf m"
  shows "om_get (om_retain P m) k = (case om_get m k of Some v \<Rightarrow> if P v then Some v else None | None \<Rightarrow> None)"
proof (rule option_eqI)
  fix v
  have "om_get (om_retain P m) k = Some v \<longleftrightarrow> (k, v) \<in> set (om_retain P m)"
    using om.entries_get [OF om_retain_wf [OF assms]] by simp
  also have "\<dots> \<longleftrightarrow> (k, v) \<in> set m \<and> P v" by (simp add: om_retain_def)
  also have "\<dots> \<longleftrightarrow> om_get m k = Some v \<and> P v" using om.entries_get [OF assms] by simp
  finally show "om_get (om_retain P m) k = Some v \<longleftrightarrow>
      (case om_get m k of Some v \<Rightarrow> if P v then Some v else None | None \<Rightarrow> None) = Some v"
    by (auto split: option.splits)
qed

lemma om_eqI: "om_wf m \<Longrightarrow> om_wf m' \<Longrightarrow> om_get m = om_get m' \<Longrightarrow> m = m'"
  using om.entries_unique [of m m'] om.entries_get [of m'] by (simp add: om_wf_def)

lemma om_get_set: "om_wf m \<Longrightarrow> om_get m k = Some v \<longleftrightarrow> (k, v) \<in> set m"
  by (simp add: om_get_def om_wf_distinct)

lemma om_values_set: "om_wf m \<Longrightarrow> v \<in> set (om_values m) \<longleftrightarrow> (\<exists>k. om_get m k = Some v)"
  by (force simp: om_get_set om_values_def)

end
