(* ===== verification/Scope.thy ===== *)
theory Scope
  imports Prelude
begin

text \<open>
  Owner scopes and node identities: \<open>StateTransferScope\<close>, \<open>AgentId\<close> and
  \<open>NodeId\<close> of \<open>crates/sentinel-common\<close>.  The wire form of a scope is the one string
  that the control RPCs, the durable tables and the canonical snapshot order all key on.
\<close>

section \<open>Node identity\<close>

datatype node_id = NodeId (node_uuid: uuid)

text \<open>\<open>NodeId\<close> derives \<open>Ord\<close> over its \<open>Uuid\<close>.\<close>

instantiation node_id :: linorder
begin

definition less_eq_node_id :: "node_id \<Rightarrow> node_id \<Rightarrow> bool" where
  "less_eq_node_id a b = (node_uuid a \<le> node_uuid b)"

definition less_node_id :: "node_id \<Rightarrow> node_id \<Rightarrow> bool" where
  "less_node_id a b = (node_uuid a < node_uuid b)"

instance
  by standard (auto simp: less_eq_node_id_def less_node_id_def node_id.expand)

end

section \<open>Agent identity\<close>

datatype agent_id = AgentId (agent_number: u16)

definition agent_display :: "agent_id \<Rightarrow> string" where
  "agent_display a = ''AGENT-'' @
     (let d = decimal (unat (agent_number a)) in replicate (2 - length d) (CHR ''0'') @ d)"

section \<open>State-transfer scopes\<close>

datatype state_transfer_scope = World | NanoContainer string

definition for_agent :: "string \<Rightarrow> state_transfer_scope" where
  "for_agent a = NanoContainer a"

definition for_aggregate :: "string \<Rightarrow> state_transfer_scope" where
  "for_aggregate aggregate_id =
     (case strip_prefix ''AGENT-'' aggregate_id of
        Some rest \<Rightarrow>
          if rest \<noteq> [] \<and> list_all is_ascii_digit rest
          then NanoContainer aggregate_id else World
      | None \<Rightarrow> World)"

fun to_wire :: "state_transfer_scope \<Rightarrow> string" where
  "to_wire World = ''world''"
| "to_wire (NanoContainer i) = ''nano:'' @ i"

definition from_wire :: "string \<Rightarrow> state_transfer_scope option" where
  "from_wire s =
     (if s = ''world'' then Some World
      else case strip_prefix ''nano:'' s of
             Some i \<Rightarrow> if i \<noteq> [] then Some (NanoContainer i) else None
           | None \<Rightarrow> None)"

lemma to_wire_inject [simp]: "to_wire s = to_wire t \<longleftrightarrow> s = t"
  by (cases s; cases t) auto

lemma from_wire_to_wire: "s \<noteq> NanoContainer [] \<Longrightarrow> from_wire (to_wire s) = Some s"
  by (cases s) (auto simp: from_wire_def strip_prefix_def)

lemma to_wire_from_wire: "from_wire w = Some s \<Longrightarrow> to_wire s = w \<and> s \<noteq> NanoContainer []"
  by (auto simp: from_wire_def strip_prefix_eq_Some split: if_splits option.splits)

lemma agent_display_prefix:
  "\<exists>rest. agent_display a = ''AGENT-'' @ rest \<and> rest \<noteq> [] \<and> list_all is_ascii_digit rest"
proof -
  have zero: "is_ascii_digit (CHR ''0'')" by (simp add: is_ascii_digit_def)
  let ?d = "decimal (unat (agent_number a))"
  have "list_all is_ascii_digit (replicate (2 - length ?d) (CHR ''0'') @ ?d)"
    using decimal_digits [of "unat (agent_number a)"] zero by (auto simp: list_all_iff)
  then show ?thesis unfolding agent_display_def Let_def by auto
qed

text \<open>
   The wire form is a bijection between the scopes a handler accepts and the strings it
  accepts: parsing is defined exactly on the encodings of the world scope and of the
  container scopes with a non-empty name, and inverts the encoding there.
\<close>

theorem scope_wire_roundtrip:
  "from_wire w = Some s \<longleftrightarrow> w = to_wire s \<and> s \<noteq> NanoContainer []"
  using to_wire_from_wire from_wire_to_wire by metis

text \<open>
  Every event aggregate that names an agent in its display form is fenced under that
  agent's own container scope, the one \<open>for_agent\<close> yields, and every other aggregate
  under the world scope: an aggregate is never attributed to a container other than its own.
\<close>

theorem aggregate_scope_classification:
  "for_aggregate (agent_display a) = for_agent (agent_display a) \<and>
   (for_aggregate g = World \<or> for_aggregate g = for_agent g)"
proof -
  from agent_display_prefix [of a] obtain rest
    where "agent_display a = ''AGENT-'' @ rest" "rest \<noteq> []" "list_all is_ascii_digit rest" by blast
  then have "for_aggregate (agent_display a) = for_agent (agent_display a)"
    unfolding for_aggregate_def by (simp only: strip_prefix_append) (simp add: for_agent_def)
  then show ?thesis by (auto simp: for_aggregate_def for_agent_def split: option.splits)
qed

end
