(* ===== verification/Block_Map.thy ===== *)
theory Block_Map
  imports Block_Ref Ordered_Map Scope
begin

text \<open>
  The distributed block map (\<open>crates/sentinel-common/src/block_map.rs\<close>): for every block
  the nodes that advertise holding it, each slot a last-writer-wins register ordered by
  incarnation and CAS generation.  The outer \<open>HashMap\<close> is a key-ordered list; where its
  iteration order shows in a result, the order is an argument.
\<close>

section \<open>Last-writer-wins merging\<close>

text \<open>
  The contract shared by the block map and the CAS inventory: applying a statement replaces
  the slot of its key exactly when its rank is strictly higher.
\<close>

locale lww_merge =
  fixes key :: "'a \<Rightarrow> 'k" and rank :: "'a \<Rightarrow> 'r::linorder" and slot :: "'a \<Rightarrow> 's" and srank :: "'s \<Rightarrow> 'r"
    and app :: "'m \<Rightarrow> 'a \<Rightarrow> 'm" and view :: "'m \<Rightarrow> 'k \<Rightarrow> 's option" and wf :: "'m \<Rightarrow> bool"
  assumes srank_slot: "srank (slot a) = rank a"
    and wf_app: "wf m \<Longrightarrow> wf (app m a)"
    and view_app: "wf m \<Longrightarrow> view (app m a) k =
      (if k = key a \<and> (\<forall>s. view m k = Some s \<longrightarrow> srank s < rank a) then Some (slot a) else view m k)"
begin

lemma wf_fold: "wf m \<Longrightarrow> wf (foldl app m as)"
  by (induction as arbitrary: m) (simp_all add: wf_app)

lemma app_grows:
  assumes "wf m" and "view m k = Some s"
  shows "\<exists>s'. view (app m a) k = Some s' \<and> srank s \<le> srank s'"
  using assms by (auto simp: view_app srank_slot)

lemma fold_grows:
  "wf m \<Longrightarrow> view m k = Some s \<Longrightarrow> \<exists>s'. view (foldl app m as) k = Some s' \<and> srank s \<le> srank s'"
proof (induction as arbitrary: m s)
  case (Cons a as)
  from app_grows [OF Cons.prems, of a] obtain s1 where
    "view (app m a) k = Some s1" "srank s \<le> srank s1" by blast
  with Cons.IH [OF wf_app [OF Cons.prems(1)], of a s1] show ?case by fastforce
qed auto

lemma fold_upper:
  "wf m \<Longrightarrow> a \<in> set as \<Longrightarrow> \<exists>s. view (foldl app m as) (key a) = Some s \<and> rank a \<le> srank s"
proof (induction as arbitrary: m)
  case (Cons b as)
  show ?case
  proof (cases "a = b")
    case True
    have "\<exists>s. view (app m b) (key a) = Some s \<and> rank a \<le> srank s"
      using Cons.prems(1) True by (cases "view m (key b)") (auto simp: view_app srank_slot not_less)
    then obtain s where s: "view (app m b) (key a) = Some s" "rank a \<le> srank s" by blast
    from fold_grows [OF wf_app [OF Cons.prems(1)] s(1), of as] s(2) show ?thesis by fastforce
  next
    case False
    with Cons show ?thesis using wf_app by auto
  qed
qed simp

lemma fold_origin:
  "wf m \<Longrightarrow> view (foldl app m as) k = Some s \<Longrightarrow>
   view m k = Some s \<or> ((\<forall>s0. view m k = Some s0 \<longrightarrow> srank s0 < srank s) \<and> (\<exists>a \<in> set as. key a = k \<and> s = slot a))"
proof (induction as arbitrary: m)
  case (Cons b as)
  from Cons.IH [OF wf_app [OF Cons.prems(1)], of b] Cons.prems(2)
  have "view (app m b) k = Some s \<or> ((\<forall>s0. view (app m b) k = Some s0 \<longrightarrow> srank s0 < srank s)
      \<and> (\<exists>a \<in> set as. key a = k \<and> s = slot a))" by simp
  then show ?case
  proof
    assume "view (app m b) k = Some s"
    then show ?thesis using Cons.prems(1) by (auto simp: view_app srank_slot split: if_splits)
  next
    assume h: "(\<forall>s0. view (app m b) k = Some s0 \<longrightarrow> srank s0 < srank s)
      \<and> (\<exists>a \<in> set as. key a = k \<and> s = slot a)"
    have "srank s0 < srank s" if "view m k = Some s0" for s0
      using app_grows [OF Cons.prems(1) that, of b] h by fastforce
    with h show ?thesis by auto
  qed
qed simp

lemma fold_unknown: "wf m \<Longrightarrow> view (foldl app m as) k = None \<longleftrightarrow> view m k = None \<and> k \<notin> key ` set as"
proof -
  assume wf: "wf m"
  show ?thesis
  proof
    assume n: "view (foldl app m as) k = None"
    have "view m k = None"
      using fold_grows [OF wf, of k _ as] n by (cases "view m k") auto
    moreover have "k \<notin> key ` set as" using fold_upper [OF wf, of _ as] n by fastforce
    ultimately show "view m k = None \<and> k \<notin> key ` set as" ..
  next
    assume "view m k = None \<and> k \<notin> key ` set as"
    then show "view (foldl app m as) k = None"
      using fold_origin [OF wf, of as k] by (cases "view (foldl app m as) k") auto
  qed
qed

text \<open>Replicas that applied the same statements, in any order and multiplicity, agree.\<close>

lemma fold_converges:
  assumes wf: "wf m" "wf m'" and start: "view m = view m'" and set: "set as = set bs"
    and ties: "\<And>a b. a \<in> set as \<Longrightarrow> b \<in> set as \<Longrightarrow> key a = key b \<Longrightarrow> rank a = rank b \<Longrightarrow> slot a = slot b"
  shows "view (foldl app m as) = view (foldl app m' bs)"
proof
  fix k
  have iff: "view (foldl app m as) k = None \<longleftrightarrow> view (foldl app m' bs) k = None"
    by (simp only: fold_unknown [OF wf(1)] fold_unknown [OF wf(2)] start set)
  show "view (foldl app m as) k = view (foldl app m' bs) k"
  proof (cases "view (foldl app m as) k")
    case None
    with iff show ?thesis by simp
  next
    case (Some s)
    with iff obtain s' where s': "view (foldl app m' bs) k = Some s'" by auto
    note o = fold_origin [OF wf(1) Some] fold_origin [OF wf(2) s']
    have up: "rank a \<le> srank s \<and> rank a \<le> srank s'" if "a \<in> set as" "key a = k" for a
      using fold_upper [OF wf(1) that(1)] fold_upper [OF wf(2), of a bs] that set Some s' by fastforce
    have "s = s'"
    proof (cases "view m k = Some s")
      case True
      then have m': "view m' k = Some s" using start by simp
      show ?thesis
      proof (rule ccontr)
        assume "s \<noteq> s'"
        with m' o(2) obtain b where "b \<in> set bs" "key b = k" "s' = slot b" "srank s < srank s'" by auto
        with up set srank_slot [of b] show False by fastforce
      qed
    next
      case False
      with o(1) obtain a where a: "a \<in> set as" "key a = k" "s = slot a"
        and lt: "\<forall>s0. view m k = Some s0 \<longrightarrow> srank s0 < srank s" by blast
      show ?thesis
      proof (cases "view m' k = Some s'")
        case True
        with lt start have "srank s' < srank s" by simp
        with up [OF a(1,2)] a(3) srank_slot [of a] show ?thesis by simp
      next
        case False
        with o(2) set obtain b where b: "b \<in> set as" "key b = k" "s' = slot b" by blast
        from up [OF a(1,2)] up [OF b(1,2)] have "rank a = rank b"
          by (simp add: a(3) b(3) srank_slot)
        with ties [OF a(1) b(1)] a(2,3) b(2,3) show ?thesis by simp
      qed
    qed
    with Some s' show ?thesis by simp
  qed
qed

end

section \<open>Data\<close>

record holder_record =
  hr_boot_id :: uuid
  hr_cas_generation :: u64

datatype holder_action = Add | Remove

record holder_advertisement =
  ha_block_ref :: block_ref
  ha_node_id :: node_id
  ha_boot_id :: uuid
  ha_incarnation :: u64
  ha_cas_generation :: u64
  ha_action :: holder_action
  ha_expires_after :: u64

record holder_slot =
  hs_boot_id :: uuid
  hs_incarnation :: u64
  hs_cas_generation :: u64
  hs_present :: bool
  hs_expires_after :: u64

type_synonym holder_slots = "(node_id, holder_slot) omap"
type_synonym block_map = "(block_ref, holder_slots) omap"

definition adv_freshness :: "holder_advertisement \<Rightarrow> u64 \<times> u64" where
  "adv_freshness a = (ha_incarnation a, ha_cas_generation a)"

definition slot_freshness :: "holder_slot \<Rightarrow> u64 \<times> u64" where
  "slot_freshness s = (hs_incarnation s, hs_cas_generation s)"

section \<open>Operations\<close>

definition slot_of_adv :: "holder_advertisement \<Rightarrow> holder_slot" where
  "slot_of_adv a = \<lparr>hs_boot_id = ha_boot_id a, hs_incarnation = ha_incarnation a,
     hs_cas_generation = ha_cas_generation a, hs_present = (ha_action a = Add),
     hs_expires_after = ha_expires_after a\<rparr>"

definition entry_or_default :: "block_map \<Rightarrow> block_ref \<Rightarrow> holder_slots" where
  "entry_or_default m b = (case om_get m b of Some h \<Rightarrow> h | None \<Rightarrow> [])"

definition apply_advertisement :: "block_map \<Rightarrow> holder_advertisement \<Rightarrow> bool \<times> block_map" where
  "apply_advertisement m a =
     (let holders = entry_or_default m (ha_block_ref a) in
      if (case om_get holders (ha_node_id a) of
            Some existing \<Rightarrow> slot_freshness existing \<ge> adv_freshness a
          | None \<Rightarrow> False)
      then (False, m)
      else (True, om_insert (ha_block_ref a) (om_insert (ha_node_id a) (slot_of_adv a) holders) m))"

definition add_holder :: "block_map \<Rightarrow> block_ref \<Rightarrow> node_id \<Rightarrow> holder_record \<Rightarrow> bool \<times> block_map" where
  "add_holder m b n r = apply_advertisement m
     \<lparr>ha_block_ref = b, ha_node_id = n, ha_boot_id = hr_boot_id r, ha_incarnation = 0,
      ha_cas_generation = hr_cas_generation r, ha_action = Add, ha_expires_after = - 1\<rparr>"

definition remove_holder :: "block_map \<Rightarrow> block_ref \<Rightarrow> node_id \<Rightarrow> bool \<times> block_map" where
  "remove_holder m b n =
     (case om_get m b of
        None \<Rightarrow> (False, m)
      | Some holders \<Rightarrow>
          (let removed = (case om_get holders n of Some s \<Rightarrow> hs_present s | None \<Rightarrow> False);
               holders' = om_remove n holders
           in (removed, if holders' = [] then om_remove b m else om_insert b holders' m)))"

definition present_slots :: "holder_slots \<Rightarrow> holder_slots" where
  "present_slots h = filter (\<lambda>(n, s). hs_present s) h"

definition holders :: "block_map \<Rightarrow> block_ref \<Rightarrow> node_id list" where
  "holders m b = (case om_get m b of Some h \<Rightarrow> map fst (present_slots h) | None \<Rightarrow> [])"

definition holder_records :: "block_map \<Rightarrow> block_ref \<Rightarrow> (node_id \<times> holder_record) list" where
  "holder_records m b =
     (case om_get m b of
        Some h \<Rightarrow> map (\<lambda>(n, s). (n, \<lparr>hr_boot_id = hs_boot_id s, hr_cas_generation = hs_cas_generation s\<rparr>))
                    (present_slots h)
      | None \<Rightarrow> [])"

definition any_present :: "holder_slots \<Rightarrow> bool" where
  "any_present h = list_ex (\<lambda>(n, s). hs_present s) h"

definition has_holder :: "block_map \<Rightarrow> block_ref \<Rightarrow> bool" where
  "has_holder m b = (case om_get m b of Some h \<Rightarrow> any_present h | None \<Rightarrow> False)"

definition block_count :: "block_map \<Rightarrow> nat" where
  "block_count m = length (filter any_present (om_values m))"

definition holder_entry_count :: "block_map \<Rightarrow> nat" where
  "holder_entry_count m = sum_list (map (\<lambda>h. length (present_slots h)) (om_values m))"

text \<open>\<open>order\<close> is the iteration order of the \<open>HashMap\<close>'s keys.\<close>

definition blocks :: "block_ref list \<Rightarrow> block_map \<Rightarrow> block_ref list" where
  "blocks order m = sort_key block_ref_display (filter (has_holder m) order)"

definition find_blob_ref :: "block_ref list \<Rightarrow> block_map \<Rightarrow> bytes \<Rightarrow> block_ref option" where
  "find_blob_ref order m hash =
     List.find (\<lambda>r. br_namespace r = Blob \<and> br_algorithm r = Sha256 \<and> br_digest r = hash)
       (filter (has_holder m) order)"

definition unexpired :: "u64 \<Rightarrow> holder_slots \<Rightarrow> holder_slots" where
  "unexpired now h = om_retain (\<lambda>s. hs_expires_after s > now) h"

definition prune_expired :: "block_map \<Rightarrow> u64 \<Rightarrow> nat \<times> block_map" where
  "prune_expired m now =
     (sum_list (map (\<lambda>(b, h). length h - length (unexpired now h)) m),
      om_retain (\<lambda>h. h \<noteq> []) (om_map (unexpired now) m))"

section \<open>The map as a family of registers\<close>

definition map_wf :: "block_map \<Rightarrow> bool" where
  "map_wf m \<longleftrightarrow> om_wf m \<and> (\<forall>b h. om_get m b = Some h \<longrightarrow> om_wf h \<and> h \<noteq> [])"

definition slot_at :: "block_map \<Rightarrow> block_ref \<times> node_id \<Rightarrow> holder_slot option" where
  "slot_at m bn = Option.bind (om_get m (fst bn)) (\<lambda>h. om_get h (snd bn))"

lemma entry_or_default_wf: "map_wf m \<Longrightarrow> om_wf (entry_or_default m b)"
  by (auto simp: entry_or_default_def map_wf_def split: option.splits)

lemma entry_or_default_get: "om_get (entry_or_default m b) n = slot_at m (b, n)"
  by (simp add: entry_or_default_def slot_at_def split: option.splits)

lemma map_wf_insert: "map_wf m \<Longrightarrow> om_wf h \<Longrightarrow> h \<noteq> [] \<Longrightarrow> map_wf (om_insert b h m)"
  by (auto simp: map_wf_def)

lemma slot_at_insert:
  "map_wf m \<Longrightarrow> slot_at (om_insert b h m) (b', n) = (if b' = b then om_get h n else slot_at m (b', n))"
  by (simp add: slot_at_def map_wf_def)

definition adv_key :: "holder_advertisement \<Rightarrow> block_ref \<times> node_id" where
  "adv_key a = (ha_block_ref a, ha_node_id a)"

lemma apply_advertisement_cases:
  assumes "map_wf m"
  shows "apply_advertisement m a =
    (if \<forall>s. slot_at m (adv_key a) = Some s \<longrightarrow> slot_freshness s < adv_freshness a
     then (True, om_insert (ha_block_ref a)
              (om_insert (ha_node_id a) (slot_of_adv a) (entry_or_default m (ha_block_ref a))) m)
     else (False, m))"
  by (auto simp: apply_advertisement_def Let_def entry_or_default_get adv_key_def not_le split: option.splits)

interpretation gossip: lww_merge adv_key adv_freshness slot_of_adv slot_freshness
  "\<lambda>m a. snd (apply_advertisement m a)" slot_at map_wf
proof
  fix a show "slot_freshness (slot_of_adv a) = adv_freshness a"
    by (simp add: slot_freshness_def slot_of_adv_def adv_freshness_def)
next
  fix m a assume "map_wf m"
  then show "map_wf (snd (apply_advertisement m a))"
    by (auto simp: apply_advertisement_cases intro!: map_wf_insert om_insert_wf entry_or_default_wf)
next
  fix m a and k :: "block_ref \<times> node_id" assume wf: "map_wf m"
  show "slot_at (snd (apply_advertisement m a)) k =
    (if k = adv_key a \<and> (\<forall>s. slot_at m k = Some s \<longrightarrow> slot_freshness s < adv_freshness a)
     then Some (slot_of_adv a) else slot_at m k)"
    using wf entry_or_default_wf [OF wf, of "ha_block_ref a"]
    by (cases k) (auto simp: apply_advertisement_cases slot_at_insert adv_key_def entry_or_default_get)
qed

lemma map_wf_empty [simp]: "map_wf []"
  by (simp add: map_wf_def)

abbreviation apply_all :: "block_map \<Rightarrow> holder_advertisement list \<Rightarrow> block_map" where
  "apply_all m as \<equiv> foldl (\<lambda>m a. snd (apply_advertisement m a)) m as"

section \<open>Convergence\<close>

lemma holders_iff: "map_wf m \<Longrightarrow> n \<in> set (holders m b) \<longleftrightarrow> (\<exists>s. slot_at m (b, n) = Some s \<and> hs_present s)"
proof -
  assume wf: "map_wf m"
  show ?thesis
  proof (cases "om_get m b")
    case None
    then show ?thesis by (simp add: holders_def slot_at_def)
  next
    case (Some h)
    then have "om_wf h" using wf by (simp add: map_wf_def)
    then have "(n, s) \<in> set h \<longleftrightarrow> om_get h n = Some s" for n s using om.entries_get [of h] by simp
    with Some show ?thesis by (force simp: holders_def slot_at_def present_slots_def)
  qed
qed

lemma holders_sorted: "map_wf m \<Longrightarrow> sorted_wrt (<) (holders m b)"
  by (auto simp: holders_def present_slots_def map_wf_def om_wf_def sorted_wrt_map
      intro: sorted_wrt_filter split: option.splits)

lemma holders_determined: "map_wf m \<Longrightarrow> map_wf m' \<Longrightarrow> slot_at m = slot_at m' \<Longrightarrow> holders m b = holders m' b"
  using holders_iff holders_sorted by (metis (no_types, opaque_lifting) set_eqI strict_sorted_equal)

text \<open>
  C31. Holder gossip converges: two replicas that start from the same slots and apply the same
  set of advertisements, in any order and with any repetitions, end with the same slots and
  report the same holders of every block, provided no node issues two different statements
  about a block with one freshness.
\<close>

theorem gossip_converges:
  assumes "map_wf m" and "map_wf m'" and "slot_at m = slot_at m'" and "set as = set bs"
    and "\<forall>a \<in> set as. \<forall>b \<in> set as. adv_key a = adv_key b \<and> adv_freshness a = adv_freshness b \<longrightarrow>
      slot_of_adv a = slot_of_adv b"
  shows "slot_at (apply_all m as) = slot_at (apply_all m' bs)
    \<and> holders (apply_all m as) r = holders (apply_all m' bs) r"
proof
  show eq: "slot_at (apply_all m as) = slot_at (apply_all m' bs)"
    by (rule gossip.fold_converges [OF assms(1,2,3,4)]) (use assms(5) in blast)
  show "holders (apply_all m as) r = holders (apply_all m' bs) r"
    by (rule holders_determined [OF gossip.wf_fold [OF assms(1)] gossip.wf_fold [OF assms(2)] eq])
qed

definition ex_adv :: "u64 \<Rightarrow> holder_action \<Rightarrow> holder_advertisement" where
  "ex_adv g act = \<lparr>ha_block_ref = blob_sha256 (replicate 32 7) 1024, ha_node_id = NodeId 3, ha_boot_id = 1,
     ha_incarnation = 1, ha_cas_generation = g, ha_action = act, ha_expires_after = - 1\<rparr>"

theorem gossip_converges_witness:
  "holders (apply_all [] [ex_adv 1 Add, ex_adv 2 Remove]) (blob_sha256 (replicate 32 7) 1024)
   = holders (apply_all [] [ex_adv 2 Remove, ex_adv 1 Add, ex_adv 1 Add]) (blob_sha256 (replicate 32 7) 1024)"
  by (rule gossip_converges [THEN conjunct2])
    (auto simp: ex_adv_def adv_key_def adv_freshness_def slot_of_adv_def)

text \<open>
  C32. A removal suppresses every older addition: after a removal has been applied, no
  sequence of advertisements of that node and block that are not strictly fresher makes the
  node a holder again.
\<close>

theorem removal_suppresses_older_add:
  assumes "map_wf m" and "ha_action a = Remove" and "fst (apply_advertisement m a)"
    and "\<forall>b \<in> set bs. adv_key b = adv_key a \<longrightarrow> adv_freshness b \<le> adv_freshness a"
  shows "ha_node_id a \<notin> set (holders (apply_all (snd (apply_advertisement m a)) bs) (ha_block_ref a))"
proof -
  let ?m = "snd (apply_advertisement m a)"
  have wf: "map_wf ?m" by (rule gossip.wf_app [OF assms(1)])
  have s: "slot_at ?m (adv_key a) = Some (slot_of_adv a)"
    using assms(1,3) gossip.view_app [OF assms(1), of a "adv_key a"]
    by (auto simp: apply_advertisement_cases split: if_splits)
  have "slot_at (apply_all ?m bs) (adv_key a) = Some (slot_of_adv a)"
  proof -
    obtain s' where s': "slot_at (apply_all ?m bs) (adv_key a) = Some s'"
      using gossip.fold_grows [OF wf s] by blast
    have "\<not> adv_freshness a < slot_freshness (slot_of_adv b)" if "b \<in> set bs" "adv_key b = adv_key a" for b
      using that assms(4) gossip.srank_slot by (metis leD)
    with gossip.fold_origin [OF wf s'] s gossip.srank_slot [of a] have "s' = slot_of_adv a" by auto
    with s' show ?thesis by simp
  qed
  then show ?thesis
    using assms(2) holders_iff [OF gossip.wf_fold [OF wf], of "ha_node_id a" bs "ha_block_ref a"]
    by (simp add: adv_key_def slot_of_adv_def)
qed

theorem removal_suppresses_older_add_witness:
  "NodeId 3 \<notin> set (holders (apply_all (snd (apply_advertisement [] (ex_adv 2 Remove))) [ex_adv 1 Add])
     (blob_sha256 (replicate 32 7) 1024))"
  using removal_suppresses_older_add [of "[]" "ex_adv 2 Remove" "[ex_adv 1 Add]"]
  by (simp add: ex_adv_def adv_freshness_def apply_advertisement_def entry_or_default_def)

section \<open>Removal and pruning\<close>

definition slot_count :: "block_map \<Rightarrow> nat" where
  "slot_count m = sum_list (map length (om_values m))"

lemma unexpired_wf: "om_wf h \<Longrightarrow> om_wf (unexpired now h)"
  by (simp add: unexpired_def om_retain_wf)

lemma length_unexpired: "length (unexpired now h) \<le> length h"
  by (simp add: unexpired_def om_retain_def)

lemma slot_count_prune:
  "sum_list (map (\<lambda>(b, h). length h - length (unexpired now h)) m)
     + slot_count (om_retain (\<lambda>h. h \<noteq> []) (om_map (unexpired now) m)) = slot_count m"
proof (induction m)
  case (Cons p m)
  then show ?case
    using length_unexpired [of now "snd p"]
    by (cases p) (auto simp: slot_count_def om_values_def om_retain_def om_map_def)
qed (simp add: slot_count_def om_values_def om_retain_def om_map_def)

text \<open>
  Pruning drops exactly the slots whose deadline has passed, keeps every other slot
  unchanged, keeps the map well formed, and returns the number of slots it dropped.
\<close>

theorem prune_expired_exact:
  assumes "map_wf m"
  shows "map_wf (snd (prune_expired m now))
    \<and> slot_at (snd (prune_expired m now)) bn =
        (case slot_at m bn of Some s \<Rightarrow> if hs_expires_after s > now then Some s else None | None \<Rightarrow> None)
    \<and> fst (prune_expired m now) + slot_count (snd (prune_expired m now)) = slot_count m"
proof -
  have wf: "om_wf m" "om_wf (om_map (unexpired now) m)" using assms by (simp_all add: map_wf_def)
  have get: "om_get (snd (prune_expired m now)) b =
      (case om_get m b of Some h \<Rightarrow> if unexpired now h \<noteq> [] then Some (unexpired now h) else None | None \<Rightarrow> None)" for b
    by (simp add: prune_expired_def om_get_retain [OF wf(2)] split: option.splits)
  have inner: "om_wf h" if "om_get m b = Some h" for b h using assms that by (simp add: map_wf_def)
  have "map_wf (snd (prune_expired m now))"
    unfolding map_wf_def get using wf inner
    by (auto simp: prune_expired_def om_retain_wf unexpired_wf split: option.splits if_splits)
  moreover have "slot_at (snd (prune_expired m now)) bn =
      (case slot_at m bn of Some s \<Rightarrow> if hs_expires_after s > now then Some s else None | None \<Rightarrow> None)"
  proof (cases "om_get m (fst bn)")
    case (Some h)
    have "om_get (unexpired now h) n =
        (case om_get h n of Some s \<Rightarrow> if hs_expires_after s > now then Some s else None | None \<Rightarrow> None)" for n
      unfolding unexpired_def by (rule om_get_retain [OF inner [OF Some]])
    moreover have "om_get [] n = (None :: holder_slot option)" for n :: node_id by simp
    ultimately show ?thesis using Some by (auto simp: slot_at_def get)
  qed (simp add: slot_at_def get)
  moreover have "fst (prune_expired m now) + slot_count (snd (prune_expired m now)) = slot_count m"
    by (simp add: prune_expired_def slot_count_prune)
  ultimately show ?thesis by blast
qed

theorem prune_expired_exact_witness:
  "(let m = snd (apply_advertisement [] ((ex_adv 1 Add)\<lparr>ha_expires_after := 5\<rparr>)) in
    map_wf m \<and> fst (prune_expired m 5) + slot_count (snd (prune_expired m 5)) = 1)"
proof -
  let ?a = "(ex_adv 1 Add)\<lparr>ha_expires_after := 5\<rparr>"
  let ?m = "snd (apply_advertisement [] ?a)"
  have "map_wf ?m" by (rule gossip.wf_app [OF map_wf_empty])
  moreover have "slot_count ?m = 1"
    by (simp add: slot_count_def om_values_def apply_advertisement_def entry_or_default_def)
  ultimately show ?thesis using prune_expired_exact [of ?m 5] by (simp add: Let_def)
qed

text \<open>Removing a holder locally clears exactly its slot.\<close>

lemma remove_holder_view:
  assumes "map_wf m"
  shows "map_wf (snd (remove_holder m b n))"
    and "slot_at (snd (remove_holder m b n)) bn = (if bn = (b, n) then None else slot_at m bn)"
    and "fst (remove_holder m b n) \<longleftrightarrow> n \<in> set (holders m b)"
proof -
  have wf: "om_wf m" using assms by (simp add: map_wf_def)
  have inner: "om_wf h" if "om_get m b = Some h" for h using assms that by (simp add: map_wf_def)
  show "map_wf (snd (remove_holder m b n))"
    using assms inner by (auto simp: remove_holder_def map_wf_def Let_def split: option.splits)
  show "fst (remove_holder m b n) \<longleftrightarrow> n \<in> set (holders m b)"
    unfolding holders_iff [OF assms] by (auto simp: remove_holder_def slot_at_def Let_def split: option.splits)
  show "slot_at (snd (remove_holder m b n)) bn = (if bn = (b, n) then None else slot_at m bn)"
  proof (cases "om_get m b")
    case None
    then show ?thesis by (cases bn) (simp add: remove_holder_def slot_at_def)
  next
    case (Some h)
    have rem: "om_get (om_remove n h) k = (if k = n then None else om_get h k)" for k
      using inner [OF Some] by simp
    have empty: "om_get h k = None" if "om_remove n h = []" "k \<noteq> n" for k
      using rem [of k] that by simp
    obtain b' n' where bn: "bn = (b', n')" by (cases bn)
    show ?thesis
      using Some wf rem empty unfolding bn
      by (auto simp: remove_holder_def slot_at_def Let_def)
  qed
qed

end
