(* ===== verification/Codec.thy ===== *)
theory Codec
  imports Prelude
begin

text \<open>
  Byte-level encoding shared by the owner snapshots and the control frames: big-endian
  integers, UTF-8 strings, and the theory of prefix codes.  The locale
  \<open>prefix_code\<close> is the contract every field encoder keeps: an encoded value can be
  split off the front of a byte stream in one way only.  Its lemmas lift the contract from
  a field to a list of fields, so the injectivity of a whole canonical payload follows
  from the encoders of its fields.
\<close>

section \<open>Big-endian integers\<close>

definition be_bytes :: "nat \<Rightarrow> 'a::len word \<Rightarrow> bytes" where
  "be_bytes n w = map (\<lambda>i. ucast (drop_bit (8 * (n - Suc i)) w)) [0..<n]"

definition be_value :: "bytes \<Rightarrow> nat" where
  "be_value bs = foldl (\<lambda>acc b. acc * 256 + unat b) 0 bs"

lemma length_be_bytes [simp]: "length (be_bytes n w) = n"
  by (simp add: be_bytes_def)

lemma be_bytes_Suc: "be_bytes (Suc n) w = be_bytes n (drop_bit 8 w) @ [ucast w]"
proof -
  have "drop_bit (8 * (n - i)) w = drop_bit (8 * (n - Suc i)) (drop_bit 8 w)" if "i < n" for i
  proof -
    from that have "8 * (n - i) = 8 * (n - Suc i) + 8" by simp
    then show ?thesis by (simp only: drop_bit_drop_bit)
  qed
  then show ?thesis by (simp add: be_bytes_def)
qed

lemma be_value_snoc: "be_value (bs @ [b]) = be_value bs * 256 + unat b"
  by (simp add: be_value_def)

lemma be_value_be_bytes: "be_value (be_bytes n w) = unat w mod 256 ^ n"
proof (induction n arbitrary: w)
  case 0
  then show ?case by (simp add: be_bytes_def be_value_def)
next
  case (Suc n)
  have "unat (drop_bit 8 w) = unat w div 256"
    by (simp only: unsigned_drop_bit_eq take_bit_nat_eq_self [OF unsigned_less])
      (simp add: drop_bit_eq_div)
  then have "be_value (be_bytes (Suc n) w) = (unat w div 256 mod 256 ^ n) * 256 + unat w mod 256"
    by (simp add: be_bytes_Suc be_value_snoc Suc.IH unsigned_ucast_eq take_bit_eq_mod)
  also have "\<dots> = unat w mod 256 ^ Suc n"
    by (simp add: mod_mult2_eq mult.commute)
  finally show ?case .
qed

lemma be_bytes_inject:
  fixes v w :: "'a::len word"
  assumes "LENGTH('a) \<le> 8 * n" and "be_bytes n v = be_bytes n w"
  shows "v = w"
proof -
  have "unat u < 256 ^ n" for u :: "'a word"
  proof -
    have "(2::nat) ^ LENGTH('a) \<le> 2 ^ (8 * n)" by (rule power_increasing) (use assms(1) in auto)
    also have "\<dots> = 256 ^ n" by (simp add: power_mult)
    finally show ?thesis using unsigned_less [of u] by (rule less_le_trans [rotated])
  qed
  with assms(2) have "unat v = unat w" by (metis be_value_be_bytes mod_less)
  then show ?thesis by (simp add: word_unat_eq_iff)
qed

section \<open>Strings as UTF-8 bytes\<close>

definition string_bytes :: "string \<Rightarrow> bytes" where
  "string_bytes s = map of_char s"

lemma length_string_bytes [simp]: "length (string_bytes s) = length s"
  by (simp add: string_bytes_def)

lemma of_char_u8_inject: "(of_char c :: u8) = of_char d \<longleftrightarrow> c = d"
proof
  assume eq: "(of_char c :: u8) = of_char d"
  have "unat (of_nat (of_char e) :: u8) = of_char e" for e
    by (simp only: unsigned_of_nat) (simp add: take_bit_eq_mod)
  with eq have "(of_char c :: nat) = of_char d" by (metis of_nat_of_char)
  then show "c = d" by simp
qed simp

lemma string_bytes_inject [simp]: "string_bytes s = string_bytes t \<longleftrightarrow> s = t"
  by (simp add: string_bytes_def inj_map_eq_map inj_def of_char_u8_inject)

section \<open>Prefix codes\<close>

locale prefix_code =
  fixes enc :: "'a \<Rightarrow> ('e, bytes) result"
  assumes split_unique:
    "enc x = Ok a \<Longrightarrow> enc y = Ok b \<Longrightarrow> a @ r = b @ s \<Longrightarrow> x = y \<and> r = s"
begin

lemma enc_inject: "enc x = Ok a \<Longrightarrow> enc y = Ok a \<Longrightarrow> x = y"
  using split_unique [where r = "[]" and s = "[]"] by blast

lemma concat_split_unique:
  assumes "try_collect enc xs = Ok as" and "try_collect enc ys = Ok bs"
    and "length xs = length ys" and "concat as @ r = concat bs @ s"
  shows "xs = ys \<and> r = s"
  using assms
proof (induction xs arbitrary: ys as bs)
  case Nil
  then show ?case by (simp add: try_collect_eq_Ok)
next
  case (Cons x xs)
  then obtain y ys' where ys: "ys = y # ys'" by (cases ys) auto
  from Cons.prems(1) obtain a as' where a: "enc x = Ok a" "try_collect enc xs = Ok as'"
    "as = a # as'" by auto
  from Cons.prems(2) obtain b bs' where b: "enc y = Ok b" "try_collect enc ys' = Ok bs'"
    "bs = b # bs'" by (auto simp: ys)
  from Cons.prems(4) have "a @ (concat as' @ r) = b @ (concat bs' @ s)"
    by (simp add: a b)
  with a(1) b(1) have "x = y" and "concat as' @ r = concat bs' @ s"
    using split_unique by blast+
  with Cons.IH [OF a(2) b(2)] Cons.prems(3) show ?case by (simp add: ys)
qed

end

text \<open>Two prefix codes in sequence, and a prefix code read through an injective view.\<close>

lemma prefix_code_seq:
  fixes f :: "'a \<Rightarrow> ('e, bytes) result" and g :: "'b \<Rightarrow> ('e, bytes) result"
  assumes f: "prefix_code f" and g: "prefix_code g"
  shows "prefix_code (\<lambda>p. try_bind (f (fst p)) (\<lambda>a. try_bind (g (snd p)) (\<lambda>b. Ok (a @ b))))"
    (is "prefix_code ?h")
proof
  fix p q and a b r s :: bytes
  assume "?h p = Ok a" and "?h q = Ok b" and eq: "a @ r = b @ s"
  then obtain a1 a2 b1 b2 where fa: "f (fst p) = Ok a1" "f (fst q) = Ok b1"
    and ga: "g (snd p) = Ok a2" "g (snd q) = Ok b2" and ab: "a = a1 @ a2" "b = b1 @ b2"
    by auto
  from eq ab have "a1 @ (a2 @ r) = b1 @ (b2 @ s)" by simp
  from prefix_code.split_unique [OF f fa this]
  have x: "fst p = fst q" and "a2 @ r = b2 @ s" by auto
  from prefix_code.split_unique [OF g ga this(2)] x show "p = q \<and> r = s"
    by (auto simp: prod_eq_iff)
qed

lemma prefix_code_inj:
  assumes "prefix_code f" and "\<And>x y. view x = view y \<Longrightarrow> x = y"
  shows "prefix_code (\<lambda>x. f (view x))"
  using assms unfolding prefix_code_def by blast

lemma prefix_code_fixed:
  assumes "\<And>x. length (f x) = n" and "\<And>x y. f x = f y \<Longrightarrow> x = y"
  shows "prefix_code (\<lambda>x. Ok (f x))"
proof
  fix x y a b r s
  assume "(Ok (f x) :: ('e, bytes) result) = Ok a" "(Ok (f y) :: ('e, bytes) result) = Ok b"
    and "a @ r = b @ s"
  then have "f x @ r = f y @ s" by simp
  then have "f x = f y \<and> r = s" by (rule append_eq_append_conv [THEN iffD1, rotated]) (simp add: assms(1))
  then show "x = y \<and> r = s" using assms(2) by blast
qed

interpretation u32_be: prefix_code "\<lambda>w. Ok (be_bytes 4 (w :: u32))"
  by (rule prefix_code_fixed [where n = 4]) (auto intro: be_bytes_inject [where n = 4])

interpretation u64_be: prefix_code "\<lambda>w. Ok (be_bytes 8 (w :: u64))"
  by (rule prefix_code_fixed [where n = 8]) (auto intro: be_bytes_inject [where n = 8])

interpretation uuid_be: prefix_code "\<lambda>w. Ok (be_bytes 16 (w :: uuid))"
  by (rule prefix_code_fixed [where n = 16]) (auto intro: be_bytes_inject [where n = 16])

end
