(* ===== verification/Anti_Entropy.thy ===== *)
theory Anti_Entropy
  imports Block_Map Codec
begin

unbundle bit_operations_syntax

text \<open>
  Leveled anti-entropy over a node's CAS inventory
  (\<open>crates/sentinel-common/src/anti_entropy.rs\<close>): generation summaries, bounded inventory
  pages and the on-demand reconcile query.
\<close>

section \<open>Definitions\<close>

type_synonym cas_inventory = "(block_ref, u64) omap"

definition FNV_PRIME :: u64 where "FNV_PRIME = 0x100000001B3"

definition fnv_lane :: "u64 \<Rightarrow> bytes \<Rightarrow> u64" where
  "fnv_lane basis bs = foldl (\<lambda>h b. (h XOR ucast b) * FNV_PRIME) basis bs"

definition le_bytes :: "nat \<Rightarrow> 'a::len word \<Rightarrow> bytes" where
  "le_bytes n w = rev (be_bytes n w)"

definition block_fingerprint :: "block_ref \<Rightarrow> bytes" where
  "block_fingerprint b =
     (let s = string_bytes (block_ref_display b);
          hi = fnv_lane 0xcbf29ce484222325 s;
          lo = fnv_lane 0x9e3779b97f4a7c15 s
      in le_bytes 8 hi @ le_bytes 8 lo)"

record generation_summary =
  sm_namespace :: block_namespace
  sm_chunk_profile :: "string option"
  sm_block_count :: u64
  sm_max_generation :: u64
  sm_fingerprint :: bytes

record inventory_page =
  pg_entries :: "(block_ref \<times> u64) list"
  pg_next :: "block_ref option"

definition inv_insert :: "cas_inventory \<Rightarrow> block_ref \<Rightarrow> u64 \<Rightarrow> bool \<times> cas_inventory" where
  "inv_insert iv b g =
     (case om_get iv b of
        Some g' \<Rightarrow> if g' \<ge> g then (False, iv) else (True, om_insert b g iv)
      | None \<Rightarrow> (True, om_insert b g iv))"

definition inv_remove :: "cas_inventory \<Rightarrow> block_ref \<Rightarrow> bool \<times> cas_inventory" where
  "inv_remove iv b = (om_get iv b \<noteq> None, om_remove b iv)"

definition inv_contains :: "cas_inventory \<Rightarrow> block_ref \<Rightarrow> bool" where
  "inv_contains iv b \<longleftrightarrow> om_get iv b \<noteq> None"

type_synonym group_key = "block_namespace \<times> string option"
type_synonym group_accumulator = "u64 \<times> u64 \<times> bytes"

definition group_key_of :: "block_ref \<Rightarrow> group_key" where
  "group_key_of b = (br_namespace b, br_chunk_profile b)"

definition xor_bytes :: "bytes \<Rightarrow> bytes \<Rightarrow> bytes" where
  "xor_bytes xs ys = map2 (\<lambda>x y. x XOR y) xs ys"

definition accumulate :: "(group_key, group_accumulator) omap \<Rightarrow> block_ref \<times> u64 \<Rightarrow> (group_key, group_accumulator) omap" where
  "accumulate groups e =
     (let key = group_key_of (fst e);
          acc = (case om_get groups key of Some a \<Rightarrow> a | None \<Rightarrow> (0, 0, replicate 16 0))
      in om_insert key
           (fst acc + 1, max (fst (snd acc)) (snd e),
            xor_bytes (snd (snd acc)) (block_fingerprint (fst e))) groups)"

definition summary_of :: "group_key \<times> group_accumulator \<Rightarrow> generation_summary" where
  "summary_of ga = \<lparr>sm_namespace = fst (fst ga), sm_chunk_profile = snd (fst ga),
     sm_block_count = fst (snd ga), sm_max_generation = fst (snd (snd ga)),
     sm_fingerprint = snd (snd (snd ga))\<rparr>"

definition summaries :: "cas_inventory \<Rightarrow> generation_summary list" where
  "summaries iv = map summary_of (foldl accumulate [] iv)"

definition page :: "cas_inventory \<Rightarrow> block_ref option \<Rightarrow> u64 \<Rightarrow> inventory_page" where
  "page iv after limit =
     (let ranged = (case after of Some b \<Rightarrow> filter (\<lambda>(k, g). b \<le> k) iv | None \<Rightarrow> iv);
          entries = take (unat (saturating_add limit 1)) ranged
      in if length entries > unat limit
         then \<lparr>pg_entries = butlast entries, pg_next = Some (fst (last entries))\<rparr>
         else \<lparr>pg_entries = entries, pg_next = None\<rparr>)"

definition held_among :: "cas_inventory \<Rightarrow> block_ref list \<Rightarrow> block_ref list" where
  "held_among iv suspected = sort (filter (inv_contains iv) suspected)"

section \<open>Inventories converge\<close>

interpretation inventory: lww_merge fst snd snd id "\<lambda>iv (b, g). snd (inv_insert iv b g)"
  "om_get :: cas_inventory \<Rightarrow> _" om_wf
  by standard (auto simp: inv_insert_def split: option.splits prod.splits)

abbreviation insert_all :: "cas_inventory \<Rightarrow> (block_ref \<times> u64) list \<Rightarrow> cas_inventory" where
  "insert_all iv xs \<equiv> foldl (\<lambda>i (b, g). snd (inv_insert i b g)) iv xs"

text \<open>
   Recording holdings is order-independent: inserting the same set of block and generation
  pairs in any order and multiplicity gives the identical inventory, which keeps for every
  block at least the highest generation inserted, so two nodes with equal holdings send equal
  summaries.
\<close>

theorem inventory_insert_converges:
  assumes "om_wf iv" and "set xs = set ys"
  shows "insert_all iv xs = insert_all iv ys
    \<and> (\<forall>(b, g) \<in> set xs. \<exists>g' \<ge> g. om_get (insert_all iv xs) b = Some g')"
proof -
  have "om_get (insert_all iv xs) = om_get (insert_all iv ys)"
    by (rule inventory.fold_converges [OF assms(1,1) refl assms(2)])
  then have "insert_all iv xs = insert_all iv ys" by (intro om_eqI inventory.wf_fold assms(1))
  moreover have "\<exists>g' \<ge> g. om_get (insert_all iv xs) b = Some g'" if "(b, g) \<in> set xs" for b g
    using inventory.fold_upper [OF assms(1) that] by auto
  ultimately show ?thesis by blast
qed

theorem inventory_insert_converges_witness:
  "(let b = blob_sha256 (replicate 32 7) 1 in
    insert_all [] [(b, 1), (b, 2)] = insert_all [] [(b, 2), (b, 1), (b, 2)])"
proof -
  have "om_wf ([] :: cas_inventory)" by simp
  from inventory_insert_converges [OF this, of
      "[(blob_sha256 (replicate 32 7) 1, 1), (blob_sha256 (replicate 32 7) 1, 2)]"
      "[(blob_sha256 (replicate 32 7) 1, 2), (blob_sha256 (replicate 32 7) 1, 1), (blob_sha256 (replicate 32 7) 1, 2)]"]
  show ?thesis unfolding Let_def by auto
qed

section \<open>Pagination\<close>

text \<open>The walk a peer makes: follow the cursors until a page has none.\<close>

fun walk_pages :: "nat \<Rightarrow> cas_inventory \<Rightarrow> block_ref option \<Rightarrow> u64 \<Rightarrow> (block_ref \<times> u64) list list option" where
  "walk_pages 0 iv after limit = None"
| "walk_pages (Suc fuel) iv after limit =
     (let p = page iv after limit in
      case pg_next p of
        None \<Rightarrow> Some [pg_entries p]
      | Some c \<Rightarrow> map_option ((#) (pg_entries p)) (walk_pages fuel iv (Some c) limit))"

definition page_of :: "u64 \<Rightarrow> (block_ref \<times> u64) list \<Rightarrow> inventory_page" where
  "page_of limit ranged = (if length ranged > unat limit
     then \<lparr>pg_entries = take (unat limit) ranged, pg_next = Some (fst (ranged ! unat limit))\<rparr>
     else \<lparr>pg_entries = ranged, pg_next = None\<rparr>)"

lemma page_eq:
  assumes "length iv < 2 ^ 64 - 1"
  shows "page iv after limit = page_of limit (case after of Some b \<Rightarrow> filter (\<lambda>(k, g). b \<le> k) iv | None \<Rightarrow> iv)"
proof -
  define rg where "rg = (case after of Some b \<Rightarrow> filter (\<lambda>(k, g). b \<le> k) iv | None \<Rightarrow> iv)"
  have "length rg \<le> length iv" by (auto simp: rg_def split: option.splits)
  then have len: "length rg < 2 ^ 64 - 1" using assms by simp
  have sat: "unat (saturating_add limit 1) = min (unat limit + 1) (2 ^ 64 - 1)"
    by (simp add: unat_saturating_add)
  show ?thesis
  proof (cases "length rg > unat limit")
    case True
    then have t: "take (unat (saturating_add limit 1)) rg = take (unat limit) rg @ [rg ! unat limit]"
      using len by (simp add: sat take_Suc_conv_app_nth)
    show ?thesis unfolding page_def Let_def rg_def [symmetric] t using True by (simp add: page_of_def)
  next
    case False
    then have t: "take (unat (saturating_add limit 1)) rg = rg" using len by (simp add: sat)
    show ?thesis unfolding page_def Let_def rg_def [symmetric] t using False by (simp add: page_of_def)
  qed
qed

lemma filter_from_cursor:
  assumes "om_wf iv" and "i < length iv"
  shows "filter (\<lambda>(k, g). fst (iv ! i) \<le> k) iv = drop i iv"
proof -
  have s: "sorted_wrt (<) (map fst iv)" using assms(1) by (simp add: om_wf_def)
  have lo: "\<not> fst (iv ! i) \<le> fst (iv ! j)" if "j < i" for j
    using sorted_wrt_nth_less [OF s, of j i] that assms(2) by simp
  have hi: "fst (iv ! i) \<le> fst (iv ! j)" if "i \<le> j" "j < length iv" for j
    using sorted_wrt_nth_less [OF s, of i j] that by (cases "i = j") auto
  have "\<forall>p \<in> set (take i iv). \<not> fst (iv ! i) \<le> fst p"
    unfolding all_set_conv_all_nth using lo assms(2) by simp
  then have "filter (\<lambda>p. fst (iv ! i) \<le> fst p) (take i iv) = []" by (simp add: filter_empty_conv)
  moreover have "\<forall>p \<in> set (drop i iv). fst (iv ! i) \<le> fst p"
    unfolding all_set_conv_all_nth using hi by simp
  then have "filter (\<lambda>p. fst (iv ! i) \<le> fst p) (drop i iv) = drop i iv" by (simp add: filter_id_conv)
  ultimately have "filter (\<lambda>p. fst (iv ! i) \<le> fst p) iv = drop i iv"
    by (metis append_Nil append_take_drop_id filter_append)
  then show ?thesis by (simp add: case_prod_unfold)
qed

lemma walk_from:
  assumes "om_wf iv" and "length iv < 2 ^ 64 - 1" and "limit \<noteq> 0" and "i < length iv" and "length iv - i \<le> fuel"
  shows "\<exists>ps. walk_pages (Suc fuel) iv (Some (fst (iv ! i))) limit = Some ps \<and> concat ps = drop i iv
    \<and> (\<forall>p \<in> set ps. length p \<le> unat limit)"
  using assms(4,5)
proof (induction fuel arbitrary: i)
  case (Suc fuel)
  let ?p = "page_of limit (drop i iv)"
  have p: "page iv (Some (fst (iv ! i))) limit = ?p"
    by (simp add: page_eq [OF assms(2)] filter_from_cursor [OF assms(1) Suc.prems(1)])
  show ?case
  proof (cases "length (drop i iv) > unat limit")
    case False
    then show ?thesis unfolding walk_pages.simps(2) [of "Suc fuel"] Let_def p by (simp add: page_of_def)
  next
    case True
    let ?i = "i + unat limit"
    have pos: "0 < unat limit" using assms(3) by (simp add: unat_gt_0)
    have i: "?i < length iv" "length iv - ?i \<le> fuel" using True pos Suc.prems by auto
    from Suc.IH [OF i] obtain ps where ps: "walk_pages (Suc fuel) iv (Some (fst (iv ! ?i))) limit = Some ps"
      "concat ps = drop ?i iv" "\<forall>p \<in> set ps. length p \<le> unat limit" by blast
    have "drop i iv ! unat limit = iv ! ?i" using True by simp
    moreover have "take (unat limit) (drop i iv) @ drop ?i iv = drop i iv"
      by (metis add.commute append_take_drop_id drop_drop)
    ultimately show ?thesis
      using True ps unfolding walk_pages.simps(2) [of "Suc fuel"] Let_def p
      by (simp add: page_of_def del: walk_pages.simps)
  qed
qed simp

text \<open>
  C33. Paging is complete and bounded: with a non-zero limit, following the cursors from the
  start ends after at most one page per entry, no page is longer than the limit, and the
  pages concatenate to the whole inventory in order, with no block skipped or repeated.
\<close>

theorem inventory_pages_complete:
  assumes "om_wf iv" and "length iv < 2 ^ 64 - 1" and "limit \<noteq> 0"
  shows "\<exists>ps. walk_pages (Suc (length iv)) iv None limit = Some ps \<and> concat ps = iv
    \<and> (\<forall>p \<in> set ps. length p \<le> unat limit)"
proof (cases "length iv > unat limit")
  case True
  have pos: "0 < unat limit" using assms(3) by (simp add: unat_gt_0)
  obtain n where n: "length iv = Suc n" using True by (cases "length iv") auto
  have "length iv - unat limit \<le> n" using pos n by simp
  from walk_from [OF assms True this] obtain ps where
    ps: "walk_pages (Suc n) iv (Some (fst (iv ! unat limit))) limit = Some ps"
      "concat ps = drop (unat limit) iv" "\<forall>p \<in> set ps. length p \<le> unat limit" by blast
  have "page iv None limit = page_of limit iv" by (simp add: page_eq [OF assms(2)])
  with True ps show ?thesis
    unfolding walk_pages.simps(2) [of "length iv"] Let_def n [symmetric]
    by (simp add: page_of_def n [symmetric] del: walk_pages.simps)
next
  case False
  have "page iv None limit = page_of limit iv" by (simp add: page_eq [OF assms(2)])
  with False show ?thesis by (simp add: page_of_def)
qed

theorem inventory_pages_complete_witness:
  "(let iv = [(blob_sha256 (replicate 32 1) 1, 1), (blob_sha256 (replicate 32 2) 1, 5), (blob_sha256 (replicate 32 3) 1, 2)] in
    \<exists>ps. walk_pages 4 iv None 2 = Some ps \<and> concat ps = iv)"
proof -
  let ?iv = "[(blob_sha256 (replicate 32 1) 1, 1), (blob_sha256 (replicate 32 2) 1, 5), (blob_sha256 (replicate 32 3) 1, 2)] :: cas_inventory"
  have "replicate (Suc n) a < replicate (Suc n) b" if "a < b" for n and a b :: u8
    using that by (simp add: less_list_code)
  then have lt: "replicate 32 a < replicate 32 b" if "a < b" for a b :: u8
    using that by (metis Suc_numeral semiring_norm(2) semiring_norm(8) numeral_eq_Suc)
  have "om_wf ?iv"
    by (simp add: om_wf_def less_block_ref_def block_key_def blob_sha256_def lt)
  moreover have "Suc (length ?iv) = 4" "length ?iv < 2 ^ 64 - 1" "(2 :: u64) \<noteq> 0" by simp_all
  ultimately show ?thesis using inventory_pages_complete [of ?iv 2] unfolding Let_def by metis
qed

section \<open>Summaries\<close>

definition group_rows :: "group_key \<Rightarrow> cas_inventory \<Rightarrow> cas_inventory" where
  "group_rows key iv = filter (\<lambda>(b, g). group_key_of b = key) iv"

definition group_summary :: "group_key \<Rightarrow> cas_inventory \<Rightarrow> group_accumulator" where
  "group_summary key iv =
     (of_nat (length (group_rows key iv)), foldl max 0 (map snd (group_rows key iv)),
      foldl xor_bytes (replicate 16 0) (map (\<lambda>(b, g). block_fingerprint b) (group_rows key iv)))"

lemma accumulate_table:
  "om_wf (foldl accumulate [] iv) \<and>
   om_get (foldl accumulate [] iv) key = (if group_rows key iv = [] then None else Some (group_summary key iv))"
proof (induction iv arbitrary: key rule: rev_induct)
  case (snoc e iv)
  obtain b g where e: "e = (b, g)" by (cases e)
  have wf: "om_wf (foldl accumulate [] iv)" and get:
    "om_get (foldl accumulate [] iv) k = (if group_rows k iv = [] then None else Some (group_summary k iv))" for k
    using snoc.IH by blast+
  define T where "T = foldl accumulate [] iv"
  let ?k = "group_key_of b"
  have grp: "group_rows k (iv @ [e]) = group_rows k iv @ (if ?k = k then [e] else [])" for k
    by (simp add: group_rows_def e)
  have other: "group_summary k (iv @ [e]) = group_summary k iv" if "?k \<noteq> k" for k
    using that by (simp add: group_summary_def grp)
  have T: "om_wf T" "om_get T k = (if group_rows k iv = [] then None else Some (group_summary k iv))" for k
    using wf get by (simp_all add: T_def)
  have "(case om_get T ?k of Some a \<Rightarrow> a | None \<Rightarrow> (0, 0, replicate 16 0)) = group_summary ?k iv"
    by (simp add: T group_summary_def)
  then have "accumulate T e = om_insert ?k (group_summary ?k (iv @ [e])) T"
    by (simp add: accumulate_def e Let_def) (simp add: group_summary_def grp [unfolded e] add.commute)
  then have "foldl accumulate [] (iv @ [e]) = om_insert ?k (group_summary ?k (iv @ [e])) T"
    by (simp add: T_def)
  then show ?case using T by (simp add: grp other)
qed (simp add: group_rows_def)

text \<open>
   The summaries are exact: there is one per non-empty group of namespace and chunk
  profile, in ascending group order, and it carries the number of blocks of the group, their
  highest generation and the XOR of their fingerprints.
\<close>

theorem summaries_exact:
  "summaries iv = map (\<lambda>key. summary_of (key, group_summary key iv))
     (sorted_list_of_set ((\<lambda>(b, g). group_key_of b) ` set iv))"
proof -
  let ?t = "foldl accumulate [] iv"
  let ?K = "(\<lambda>(b, g). group_key_of b) ` set iv"
  have wf: "om_wf ?t" and get: "om_get ?t k = (if group_rows k iv = [] then None else Some (group_summary k iv))" for k
    using accumulate_table by blast+
  have ne: "group_rows k iv \<noteq> [] \<longleftrightarrow> k \<in> ?K" for k by (force simp: group_rows_def filter_empty_conv)
  have "?t = map (\<lambda>key. (key, group_summary key iv)) (sorted_list_of_set ?K)"
  proof (rule om.entries_unique [OF wf, unfolded id_apply])
    have "map fst (map (\<lambda>key. (key, group_summary key iv)) (sorted_list_of_set ?K)) = sorted_list_of_set ?K"
      by (simp add: comp_def)
    then show "sorted_wrt (<) (map fst (map (\<lambda>key. (key, group_summary key iv)) (sorted_list_of_set ?K)))"
      by (simp only: strict_sorted_list_of_set)
    show "(k, v) \<in> set (map (\<lambda>key. (key, group_summary key iv)) (sorted_list_of_set ?K)) \<longleftrightarrow> om_get ?t k = Some v" for k v
    proof -
      have "(k, v) \<in> set (map (\<lambda>key. (key, group_summary key iv)) (sorted_list_of_set ?K))
          \<longleftrightarrow> k \<in> ?K \<and> v = group_summary k iv" unfolding set_map set_sorted_list_of_set [OF finite_imageI [OF finite_set]] by blast
      then show ?thesis unfolding get using ne [of k] by auto
    qed
  qed
  then show ?thesis by (simp add: summaries_def)
qed

text \<open>What a reconcile query answers.\<close>

lemma held_among_exact: "set (held_among iv bs) = {b \<in> set bs. om_get iv b \<noteq> None}" "sorted (held_among iv bs)"
  by (auto simp: held_among_def inv_contains_def)

end
