(* ===== verification/Peer_Registry.thy ===== *)
theory Peer_Registry
  imports Block_Ref Ordered_Map Scope
begin

text \<open>
  Certificate-pinned peers: \<open>CertFingerprint\<close> (\<open>cert.rs\<close>), \<open>PeerRegistry\<close>
  (\<open>server.rs\<close>) and the resolved, durable peer table of
  \<open>services/sentinel-daemon/src/cluster_control.rs\<close>.  A connection is an opaque value.
  The hash maps are key-ordered tables: a node has at most one certificate, so no result
  depends on their iteration order.  Socket addresses are parsed and printed by the standard library, here the parameters \<open>parse_addr\<close> and
  \<open>show_addr\<close>.
\<close>

section \<open>Fingerprints\<close>

datatype cert_fingerprint = CertFingerprint (fp_bytes: bytes)

instantiation cert_fingerprint :: linorder
begin

definition less_eq_cert_fingerprint :: "cert_fingerprint \<Rightarrow> cert_fingerprint \<Rightarrow> bool" where
  "less_eq_cert_fingerprint a b = (fp_bytes a \<le> fp_bytes b)"

definition less_cert_fingerprint :: "cert_fingerprint \<Rightarrow> cert_fingerprint \<Rightarrow> bool" where
  "less_cert_fingerprint a b = (fp_bytes a < fp_bytes b)"

instance
  by standard (auto simp: less_eq_cert_fingerprint_def less_cert_fingerprint_def cert_fingerprint.expand)

end

definition of_der :: "(bytes \<Rightarrow> bytes) \<Rightarrow> bytes \<Rightarrow> cert_fingerprint" where
  "of_der sha der = CertFingerprint (sha der)"

definition to_hex :: "cert_fingerprint \<Rightarrow> string" where
  "to_hex fp = hex_string (fp_bytes fp)"

text \<open>\<open>str::trim\<close>: the UTF-8 encodings of Unicode white space, stripped at both ends.\<close>

definition white_space :: "string list" where
  "white_space =
     map (\<lambda>n. [char_of (n :: nat)]) [9, 10, 11, 12, 13, 32]
     @ map (map (char_of :: nat \<Rightarrow> char))
         ([[0xC2, 0x85], [0xC2, 0xA0], [0xE1, 0x9A, 0x80]]
          @ map (\<lambda>n. [0xE2, 0x80, n]) [0x80, 0x81, 0x82, 0x83, 0x84, 0x85, 0x86, 0x87, 0x88, 0x89, 0x8A,
              0xA8, 0xA9, 0xAF]
          @ [[0xE2, 0x81, 0x9F], [0xE3, 0x80, 0x80]])"

function strip_front :: "string list \<Rightarrow> string \<Rightarrow> string" where
  "strip_front ws s =
     (case List.find (\<lambda>w. w \<noteq> [] \<and> take (length w) s = w) ws of
        Some w \<Rightarrow> strip_front ws (drop (length w) s)
      | None \<Rightarrow> s)"
  by pat_completeness auto
termination
proof (relation "measure (length \<circ> snd)")
  fix ws s w
  assume "List.find (\<lambda>w. w \<noteq> [] \<and> take (length w) s = w) ws = Some w"
  then have "w \<noteq> []" and "take (length w) s = w" by (auto dest: find_SomeD)
  then have "s \<noteq> []" and "0 < length w" by auto
  then show "((ws, drop (length w) s), (ws, s)) \<in> measure (length \<circ> snd)" by simp
qed simp

declare strip_front.simps [simp del]

definition trim :: "string \<Rightarrow> string" where
  "trim s = rev (strip_front (map rev white_space) (rev (strip_front white_space s)))"

text \<open>\<open>u8::from_str_radix(s, 16)\<close> on a two-byte string: a leading plus sign is allowed.\<close>

definition parse_hex_u8 :: "char \<Rightarrow> char \<Rightarrow> u8 option" where
  "parse_hex_u8 a b =
     (if a = CHR ''+'' then map_option of_nat (to_digit16 b)
      else Option.bind (to_digit16 a) (\<lambda>hi. Option.bind (to_digit16 b) (\<lambda>lo. Some (of_nat (hi * 16 + lo)))))"

fun parse_hex_pairs :: "string \<Rightarrow> bytes option" where
  "parse_hex_pairs [] = Some []"
| "parse_hex_pairs [c] = None"
| "parse_hex_pairs (a # b # cs) =
     Option.bind (parse_hex_u8 a b) (\<lambda>v. Option.bind (parse_hex_pairs cs) (\<lambda>vs. Some (v # vs)))"

definition from_hex :: "string \<Rightarrow> cert_fingerprint option" where
  "from_hex s =
     (let t = trim s in
      if length t \<noteq> 64 then None else map_option CertFingerprint (parse_hex_pairs t))"

section \<open>The registry\<close>

record authenticated_peer =
  ap_fingerprint :: cert_fingerprint
  ap_node_id :: node_id

record 'c peer_registry =
  pr_bindings :: "(cert_fingerprint, node_id) omap"
  pr_connections :: "(cert_fingerprint, (u64, 'c) omap) omap"
  pr_next_connection_id :: u64

datatype peer_error =
    CertificateBound cert_fingerprint node_id
  | NodeBound node_id cert_fingerprint
  | ConnectionIdExhausted
  | BadPeerAddress string string
  | MalformedFingerprint string
  | ConflictingDefinitions node_id
  | DifferentBinding node_id
  | PeersUnreadable
  | PeersNotPersisted

definition registry_default :: "'c peer_registry" where
  "registry_default = \<lparr>pr_bindings = [], pr_connections = [], pr_next_connection_id = 0\<rparr>"

definition authorize ::
  "'c peer_registry \<Rightarrow> cert_fingerprint \<Rightarrow> node_id \<Rightarrow> (peer_error, 'c peer_registry) result" where
  "authorize r fp n =
     (case om_get (pr_bindings r) fp of
        Some existing \<Rightarrow> if existing \<noteq> n then Err (CertificateBound fp existing) else Ok r
      | None \<Rightarrow>
          (case List.find (\<lambda>b. snd b = n) (pr_bindings r) of
             Some b \<Rightarrow> Err (NodeBound n (fst b))
           | None \<Rightarrow> Ok (r\<lparr>pr_bindings := om_insert fp n (pr_bindings r)\<rparr>)))"

fun authorize_all ::
  "'c peer_registry \<Rightarrow> (cert_fingerprint \<times> node_id) list \<Rightarrow> (peer_error, 'c peer_registry) result" where
  "authorize_all r [] = Ok r"
| "authorize_all r ((fp, n) # bs) = try_bind (authorize r fp n) (\<lambda>r'. authorize_all r' bs)"

definition registry_new :: "(cert_fingerprint \<times> node_id) list \<Rightarrow> (peer_error, 'c peer_registry) result" where
  "registry_new bs = authorize_all registry_default bs"

text \<open>\<open>revoke\<close> returns the connections it closes; their number is the source's result.\<close>

definition revoke :: "'c peer_registry \<Rightarrow> node_id \<Rightarrow> 'c list \<times> 'c peer_registry" where
  "revoke r n =
     (let fps = map fst (filter (\<lambda>b. snd b = n) (pr_bindings r));
          closed = concat (map (\<lambda>fp. case om_get (pr_connections r) fp of
                                  Some cs \<Rightarrow> om_values cs | None \<Rightarrow> []) fps)
      in (closed, r\<lparr>pr_bindings := foldl (\<lambda>m fp. om_remove fp m) (pr_bindings r) fps,
                    pr_connections := foldl (\<lambda>m fp. om_remove fp m) (pr_connections r) fps\<rparr>))"

definition resolve :: "'c peer_registry \<Rightarrow> cert_fingerprint \<Rightarrow> authenticated_peer option" where
  "resolve r fp = map_option (\<lambda>n. \<lparr>ap_fingerprint = fp, ap_node_id = n\<rparr>) (om_get (pr_bindings r) fp)"

definition fingerprints :: "'c peer_registry \<Rightarrow> cert_fingerprint list" where
  "fingerprints r = map fst (pr_bindings r)"

definition register_connection ::
  "'c peer_registry \<Rightarrow> cert_fingerprint \<Rightarrow> 'c
   \<Rightarrow> (peer_error, (authenticated_peer \<times> u64) option \<times> 'c peer_registry) result" where
  "register_connection r fp conn =
     (case om_get (pr_bindings r) fp of
        None \<Rightarrow> Ok (None, r)
      | Some n \<Rightarrow>
          try_bind (ok_or (checked_add (pr_next_connection_id r) 1) ConnectionIdExhausted) (\<lambda>nxt.
          let cid = pr_next_connection_id r;
              cs = (case om_get (pr_connections r) fp of Some cs \<Rightarrow> cs | None \<Rightarrow> []) in
          Ok (Some (\<lparr>ap_fingerprint = fp, ap_node_id = n\<rparr>, cid),
              r\<lparr>pr_next_connection_id := nxt,
                pr_connections := om_insert fp (om_insert cid conn cs) (pr_connections r)\<rparr>)))"

definition unregister_connection :: "'c peer_registry \<Rightarrow> cert_fingerprint \<Rightarrow> u64 \<Rightarrow> 'c peer_registry" where
  "unregister_connection r fp cid =
     (case om_get (pr_connections r) fp of
        None \<Rightarrow> r
      | Some cs \<Rightarrow>
          (let cs' = om_remove cid cs in
           r\<lparr>pr_connections := (if cs' = [] then om_remove fp (pr_connections r)
                                else om_insert fp cs' (pr_connections r))\<rparr>))"

section \<open>The registry invariant\<close>

abbreviation bound_node :: "'c peer_registry \<Rightarrow> cert_fingerprint \<Rightarrow> node_id option" where
  "bound_node r \<equiv> om_get (pr_bindings r)"

definition registry_wf :: "'c peer_registry \<Rightarrow> bool" where
  "registry_wf r \<longleftrightarrow> om_wf (pr_bindings r) \<and> om_wf (pr_connections r)
     \<and> (\<forall>fp fp' n. bound_node r fp = Some n \<and> bound_node r fp' = Some n \<longrightarrow> fp = fp')
     \<and> (\<forall>fp cs. om_get (pr_connections r) fp = Some cs \<longrightarrow> om_wf cs \<and> cs \<noteq> [] \<and> bound_node r fp \<noteq> None
          \<and> (\<forall>cid conn. om_get cs cid = Some conn \<longrightarrow> cid < pr_next_connection_id r))"

definition tracked :: "'c peer_registry \<Rightarrow> cert_fingerprint \<Rightarrow> u64 \<Rightarrow> 'c \<Rightarrow> bool" where
  "tracked r fp cid conn \<longleftrightarrow> (\<exists>cs. om_get (pr_connections r) fp = Some cs \<and> om_get cs cid = Some conn)"

lemma registry_wf_default [simp]: "registry_wf registry_default"
  by (simp add: registry_wf_def registry_default_def)

lemma find_node_None:
  "registry_wf r \<Longrightarrow> List.find (\<lambda>b. snd b = n) (pr_bindings r) = None \<longleftrightarrow> (\<forall>fp. bound_node r fp \<noteq> Some n)"
  by (auto simp: find_None_iff om_get_set registry_wf_def)

lemma authorize_Ok:
  assumes "registry_wf r"
  shows "authorize r fp n = Ok r' \<longleftrightarrow>
      bound_node r fp = Some n \<and> r' = r
      \<or> bound_node r fp = None \<and> (\<forall>fp'. bound_node r fp' \<noteq> Some n)
        \<and> r' = r\<lparr>pr_bindings := om_insert fp n (pr_bindings r)\<rparr>"
  using find_node_None [OF assms, of n]
  by (cases "bound_node r fp"; cases "List.find (\<lambda>b. snd b = n) (pr_bindings r)")
    (auto simp: authorize_def)

lemma registry_wf_authorize:
  assumes "registry_wf r" and "authorize r fp n = Ok r'"
  shows "registry_wf r'"
proof (cases "bound_node r fp")
  case None
  with assms have "r' = r\<lparr>pr_bindings := om_insert fp n (pr_bindings r)\<rparr>"
    and "\<forall>fp'. bound_node r fp' \<noteq> Some n" by (auto simp: authorize_Ok)
  then show ?thesis using assms(1) unfolding registry_wf_def by auto
qed (use assms in \<open>auto simp: authorize_Ok\<close>)

lemma om_remove_all:
  "om_wf m \<Longrightarrow> om_wf (foldl (\<lambda>m k. om_remove k m) m ks)"
  "om_wf m \<Longrightarrow> om_get (foldl (\<lambda>m k. om_remove k m) m ks) k' = (if k' \<in> set ks then None else om_get m k')"
  by (induction ks arbitrary: m) auto

lemma revoke_view:
  assumes "registry_wf r" and "revoke r n = (closed, r')"
  shows "registry_wf r'"
    and "bound_node r' fp = (if bound_node r fp = Some n then None else bound_node r fp)"
    and "tracked r' fp cid conn \<longleftrightarrow> tracked r fp cid conn \<and> bound_node r fp \<noteq> Some n"
    and "set closed = {conn. \<exists>fp cid. tracked r fp cid conn \<and> bound_node r fp = Some n}"
proof -
  define fps where "fps = map fst (filter (\<lambda>b. snd b = n) (pr_bindings r))"
  have wf: "om_wf (pr_bindings r)" "om_wf (pr_connections r)" using assms(1) by (simp_all add: registry_wf_def)
  have fps: "fp \<in> set fps \<longleftrightarrow> bound_node r fp = Some n" for fp
    using om_get_set [OF wf(1), of fp n] by (force simp: fps_def)
  have b: "bound_node r' fp = (if bound_node r fp = Some n then None else bound_node r fp)"
    and c: "om_get (pr_connections r') fp = (if bound_node r fp = Some n then None else om_get (pr_connections r) fp)"
    and wf': "om_wf (pr_bindings r')" "om_wf (pr_connections r')"
    and next': "pr_next_connection_id r' = pr_next_connection_id r" for fp
    using assms(2) om_remove_all [OF wf(1)] om_remove_all [OF wf(2)]
    by (auto simp: revoke_def Let_def fps_def [symmetric] fps)
  show "registry_wf r'" using assms(1) unfolding registry_wf_def b c next' by (simp add: wf')
  show "bound_node r' fp = (if bound_node r fp = Some n then None else bound_node r fp)" by (rule b)
  show "tracked r' fp cid conn \<longleftrightarrow> tracked r fp cid conn \<and> bound_node r fp \<noteq> Some n"
    by (simp add: tracked_def c)
  have closed: "conn \<in> set closed \<longleftrightarrow>
      (\<exists>fp cs. bound_node r fp = Some n \<and> om_get (pr_connections r) fp = Some cs \<and> conn \<in> set (om_values cs))" for conn
    using assms(2) by (force simp: revoke_def Let_def fps_def [symmetric] fps split: option.splits)
  have "conn \<in> set (om_values cs) \<longleftrightarrow> (\<exists>cid. om_get cs cid = Some conn)"
    if "om_get (pr_connections r) fp = Some cs" for conn fp cs
    by (rule om_values_set) (use assms(1) that in \<open>unfold registry_wf_def, blast\<close>)
  then show "set closed = {conn. \<exists>fp cid. tracked r fp cid conn \<and> bound_node r fp = Some n}"
    unfolding set_eq_iff mem_Collect_eq tracked_def closed by metis
qed

lemma register_view:
  assumes "registry_wf r" and "register_connection r fp conn = Ok (res, r')"
  shows "registry_wf r' \<and> pr_bindings r' = pr_bindings r
    \<and> (case res of
         None \<Rightarrow> bound_node r fp = None \<and> r' = r
       | Some (p, cid) \<Rightarrow> resolve r fp = Some p
           \<and> (\<forall>fp' c k. tracked r' fp' c k \<longleftrightarrow> tracked r fp' c k \<or> (fp', c, k) = (fp, cid, conn)))"
proof (cases "bound_node r fp")
  case None
  with assms show ?thesis by (auto simp: register_connection_def)
next
  case (Some n)
  define cs where "cs = (case om_get (pr_connections r) fp of Some cs \<Rightarrow> cs | None \<Rightarrow> [])"
  obtain nxt where nxt: "checked_add (pr_next_connection_id r) 1 = Some nxt"
    and r': "r' = r\<lparr>pr_next_connection_id := nxt,
       pr_connections := om_insert fp (om_insert (pr_next_connection_id r) conn cs) (pr_connections r)\<rparr>"
    and res: "res = Some (\<lparr>ap_fingerprint = fp, ap_node_id = n\<rparr>, pr_next_connection_id r)"
    using assms(2) Some by (auto simp: register_connection_def cs_def Let_def)
  have lt: "pr_next_connection_id r < nxt" by (rule checked_add_one_less [OF nxt])
  have cs: "om_wf cs" "om_get cs c = Some k \<Longrightarrow> c < pr_next_connection_id r"
      "om_get cs c = Some k \<longleftrightarrow> tracked r fp c k" for c k
    using assms(1) by (auto simp: cs_def registry_wf_def tracked_def split: option.splits)
  have wf: "om_wf (pr_connections r)" using assms(1) by (simp add: registry_wf_def)
  have fresh: "\<not> tracked r fp (pr_next_connection_id r) k" for k using cs(2,3) less_irrefl by metis
  have "tracked r' fp' c k \<longleftrightarrow> tracked r fp' c k \<or> (fp', c, k) = (fp, pr_next_connection_id r, conn)" for fp' c k
  proof (cases "fp' = fp")
    case True
    then have "tracked r' fp' c k \<longleftrightarrow> om_get (om_insert (pr_next_connection_id r) conn cs) c = Some k"
      using wf by (simp add: tracked_def r')
    also have "\<dots> \<longleftrightarrow> tracked r fp c k \<or> (c, k) = (pr_next_connection_id r, conn)"
      using cs(1,3) fresh [of k] by auto
    finally show ?thesis using True by simp
  qed (simp add: tracked_def r' wf)
  moreover have "registry_wf r'"
    using assms(1) cs(1) Some unfolding registry_wf_def r'
    by (auto intro: lt less_trans [OF cs(2) lt] less_trans [OF _ lt] split: if_splits)
  ultimately show ?thesis using Some by (simp add: r' res resolve_def)
qed

lemma unregister_view:
  assumes "registry_wf r"
  shows "registry_wf (unregister_connection r fp cid)"
    and "pr_bindings (unregister_connection r fp cid) = pr_bindings r"
    and "tracked (unregister_connection r fp cid) fp' c k \<longleftrightarrow> tracked r fp' c k \<and> (fp', c) \<noteq> (fp, cid)"
proof -
  have "registry_wf (unregister_connection r fp cid)
    \<and> (tracked (unregister_connection r fp cid) fp' c k \<longleftrightarrow> tracked r fp' c k \<and> (fp', c) \<noteq> (fp, cid))"
  proof (cases "om_get (pr_connections r) fp")
    case None
    then show ?thesis using assms by (auto simp: unregister_connection_def tracked_def)
  next
    case (Some cs)
    have wf: "om_wf cs" "om_wf (pr_connections r)" using assms Some by (auto simp: registry_wf_def)
    have "om_get cs c = None" if "om_remove cid cs = []" "c \<noteq> cid" for c
      using that om.get_rem [OF wf(1), of cid c] by simp
    then show ?thesis
      using assms Some wf by (auto simp: unregister_connection_def Let_def tracked_def registry_wf_def split: if_splits)
  qed
  then show "registry_wf (unregister_connection r fp cid)"
    and "tracked (unregister_connection r fp cid) fp' c k \<longleftrightarrow> tracked r fp' c k \<and> (fp', c) \<noteq> (fp, cid)"
    by blast+
  show "pr_bindings (unregister_connection r fp cid) = pr_bindings r"
    by (simp add: unregister_connection_def Let_def split: option.splits)
qed

inductive registry_step :: "'c peer_registry \<Rightarrow> 'c peer_registry \<Rightarrow> bool" where
  step_authorize: "authorize r fp n = Ok r' \<Longrightarrow> registry_step r r'"
| step_revoke: "revoke r n = (closed, r') \<Longrightarrow> registry_step r r'"
| step_register: "register_connection r fp conn = Ok (res, r') \<Longrightarrow> registry_step r r'"
| step_unregister: "registry_step r (unregister_connection r fp cid)"

lemma registry_wf_run: "registry_step\<^sup>*\<^sup>* r r' \<Longrightarrow> registry_wf r \<Longrightarrow> registry_wf r'"
proof (induction rule: rtranclp_induct)
  case (step y z)
  from step(2) step(3) [OF step(4)] show ?case
    by cases (auto intro: registry_wf_authorize revoke_view(1) unregister_view(1) dest: register_view)
qed

text \<open>
  C35. Trust in a peer is one-to-one and revocable: however peers are authorised, revoked,
  connected and disconnected, two certificates never resolve to one node and every live
  session belongs to a certificate that is still authorised; a revocation closes exactly the
  sessions of that node, leaves none of its certificates resolvable and touches no other peer.
\<close>

theorem peer_trust_revocable:
  assumes "registry_step\<^sup>*\<^sup>* registry_default r" and "revoke r n = (closed, r')"
  shows "(resolve r fp = Some p \<and> resolve r fp' = Some p' \<and> ap_node_id p = ap_node_id p' \<longrightarrow> fp = fp')
    \<and> (tracked r fp cid conn \<longrightarrow> resolve r fp \<noteq> None)
    \<and> resolve r' fp = (if map_option ap_node_id (resolve r fp) = Some n then None else resolve r fp)
    \<and> (tracked r' fp cid conn \<longleftrightarrow> tracked r fp cid conn \<and> map_option ap_node_id (resolve r fp) \<noteq> Some n)
    \<and> set closed = {conn. \<exists>fp cid. tracked r fp cid conn \<and> map_option ap_node_id (resolve r fp) = Some n}"
proof -
  have wf: "registry_wf r" using registry_wf_run [OF assms(1)] by simp
  have node: "map_option ap_node_id (resolve r fp) = bound_node r fp" for fp
    by (simp add: resolve_def option.map_comp comp_def option.map_ident)
  show ?thesis
    unfolding node revoke_view(3,4) [OF wf assms(2)]
    using wf revoke_view(2) [OF wf assms(2), of fp]
    by (auto simp: resolve_def registry_wf_def tracked_def)
qed

theorem peer_trust_revocable_witness:
  "\<exists>r :: nat peer_registry. registry_step\<^sup>*\<^sup>* registry_default r \<and> tracked r (CertFingerprint [1]) 0 9
     \<and> set (fst (revoke r (NodeId 1))) = {9}"
proof -
  let ?b = "[(CertFingerprint [1], NodeId 1)]"
  let ?r1 = "registry_default\<lparr>pr_bindings := ?b\<rparr> :: nat peer_registry"
  let ?r2 = "\<lparr>pr_bindings = ?b, pr_connections = [(CertFingerprint [1], [(0, 9)])], pr_next_connection_id = 1\<rparr> :: nat peer_registry"
  have "registry_step registry_default ?r1"
    by (rule step_authorize [of _ "CertFingerprint [1]" "NodeId 1"]) (simp add: authorize_def registry_default_def)
  moreover have "registry_step ?r1 ?r2"
    by (rule step_register [of _ "CertFingerprint [1]" 9 "Some (\<lparr>ap_fingerprint = CertFingerprint [1], ap_node_id = NodeId 1\<rparr>, 0)"])
      (simp add: register_connection_def registry_default_def checked_add_def)
  ultimately have run: "registry_step\<^sup>*\<^sup>* registry_default ?r2" by simp
  have t: "tracked ?r2 fp cid conn \<longleftrightarrow> (fp, cid, conn) = (CertFingerprint [1], 0, 9)" for fp cid conn
    by (auto simp: tracked_def om_get_def)
  obtain closed r' where rv: "revoke ?r2 (NodeId 1) = (closed, r')" by fastforce
  have "set closed = {9}"
    using peer_trust_revocable [OF run rv] unfolding t by (simp add: resolve_def om_get_def)
  with run t rv show ?thesis by (intro exI [of _ ?r2]) simp
qed

end
