(* ===== verification/Cluster_Peers.thy ===== *)
theory Cluster_Peers
  imports Peer_Registry
begin

text \<open>
  The peer table of \<open>services/sentinel-daemon/src/cluster_control.rs\<close>: configured and
  provisioned peers, their live trust in the peer registry, and the durable
  \<open>control-peers.json\<close>.  The file holds the peers it decodes to, or is garbled.  A write
  of the file goes through a temporary file and a rename, so it can fail before or after the
  new contents are visible.
\<close>

section \<open>Data\<close>

record socket_addr =
  sa_ip :: bytes
  sa_port :: u16

record control_peer =
  cp_node_id :: node_id
  cp_alias :: string
  cp_addr :: string
  cp_cert_fingerprint :: string

record resolved_peer =
  rv_node_id :: node_id
  rv_alias :: string
  rv_addr :: socket_addr
  rv_pull_addr :: socket_addr
  rv_fingerprint :: cert_fingerprint

datatype peer_file = PeersAbsent | PeersFile "control_peer list" | PeersGarbled

datatype persist_fate = Persisted | FailedBeforeRename | FailedAfterRename

record 'c cluster_peers =
  ct_peers :: "(node_id, resolved_peer) omap"
  ct_registry :: "'c peer_registry"
  ct_file :: peer_file

type_synonym addr_parser = "string \<Rightarrow> socket_addr option"

definition pull_addr_of :: "socket_addr \<Rightarrow> socket_addr" where
  "pull_addr_of a = a\<lparr>sa_port := sa_port a + 1\<rparr>"

section \<open>Operations\<close>

definition from_config :: "addr_parser \<Rightarrow> control_peer \<Rightarrow> (peer_error, resolved_peer) result" where
  "from_config parse_addr peer =
     try_bind (ok_or (parse_addr (cp_addr peer)) (BadPeerAddress (cp_alias peer) (cp_addr peer))) (\<lambda>addr.
     try_bind (ok_or (from_hex (cp_cert_fingerprint peer)) (MalformedFingerprint (cp_alias peer))) (\<lambda>fp.
     Ok \<lparr>rv_node_id = cp_node_id peer, rv_alias = cp_alias peer, rv_addr = addr,
         rv_pull_addr = pull_addr_of addr, rv_fingerprint = fp\<rparr>))"

definition to_config :: "(socket_addr \<Rightarrow> string) \<Rightarrow> resolved_peer \<Rightarrow> control_peer" where
  "to_config show_addr p = \<lparr>cp_node_id = rv_node_id p, cp_alias = rv_alias p,
     cp_addr = show_addr (rv_addr p), cp_cert_fingerprint = to_hex (rv_fingerprint p)\<rparr>"

definition load_persisted_peers :: "bool \<Rightarrow> peer_file \<Rightarrow> (peer_error, control_peer list) result" where
  "load_persisted_peers readable file =
     (case file of
        PeersAbsent \<Rightarrow> Ok []
      | PeersFile ps \<Rightarrow> if readable then Ok ps else Err PeersUnreadable
      | PeersGarbled \<Rightarrow> Err PeersUnreadable)"

definition persist_peers ::
  "(socket_addr \<Rightarrow> string) \<Rightarrow> persist_fate \<Rightarrow> (node_id, resolved_peer) omap \<Rightarrow> peer_file
   \<Rightarrow> (peer_error, unit) result \<times> peer_file" where
  "persist_peers show_addr fate peers file =
     (let written = PeersFile (map (to_config show_addr) (om_values peers)) in
      case fate of
        Persisted \<Rightarrow> (Ok (), written)
      | FailedBeforeRename \<Rightarrow> (Err PeersNotPersisted, file)
      | FailedAfterRename \<Rightarrow> (Err PeersNotPersisted, written))"

text \<open>The peers \<open>start\<close> resolves from the configuration and the file.\<close>

fun resolve_peers ::
  "addr_parser \<Rightarrow> control_peer list \<Rightarrow> (node_id, resolved_peer) omap
   \<Rightarrow> (peer_error, (node_id, resolved_peer) omap) result" where
  "resolve_peers parse_addr [] resolved = Ok resolved"
| "resolve_peers parse_addr (c # cs) resolved =
     try_bind (from_config parse_addr c) (\<lambda>p.
     if (case om_get resolved (rv_node_id p) of Some existing \<Rightarrow> existing \<noteq> p | None \<Rightarrow> False)
     then Err (ConflictingDefinitions (rv_node_id p))
     else resolve_peers parse_addr cs (om_insert (rv_node_id p) p resolved))"

definition start_peers ::
  "addr_parser \<Rightarrow> bool \<Rightarrow> control_peer list \<Rightarrow> peer_file \<Rightarrow> (peer_error, 'c cluster_peers) result" where
  "start_peers parse_addr readable configured file =
     try_bind (load_persisted_peers readable file) (\<lambda>persisted.
     try_bind (resolve_peers parse_addr (configured @ persisted) []) (\<lambda>resolved.
     try_bind (registry_new (map (\<lambda>p. (rv_fingerprint p, rv_node_id p)) (om_values resolved))) (\<lambda>reg.
     Ok \<lparr>ct_peers = resolved, ct_registry = reg, ct_file = file\<rparr>)))"

definition configured_peers :: "'c cluster_peers \<Rightarrow> (node_id \<times> string) list" where
  "configured_peers s = map (\<lambda>p. (rv_node_id p, rv_alias p)) (om_values (ct_peers s))"

definition add_peer ::
  "addr_parser \<Rightarrow> (socket_addr \<Rightarrow> string) \<Rightarrow> persist_fate \<Rightarrow> control_peer \<Rightarrow> 'c cluster_peers
   \<Rightarrow> (peer_error, unit) result \<times> 'c cluster_peers" where
  "add_peer parse_addr show_addr fate c s =
     (case from_config parse_addr c of
        Err e \<Rightarrow> (Err e, s)
      | Ok p \<Rightarrow>
          (case om_get (ct_peers s) (rv_node_id p) of
             Some existing \<Rightarrow> (if existing = p then Ok () else Err (DifferentBinding (rv_node_id p)), s)
           | None \<Rightarrow>
               (case authorize (ct_registry s) (rv_fingerprint p) (rv_node_id p) of
                  Err e \<Rightarrow> (Err e, s)
                | Ok reg \<Rightarrow>
                    let peers = om_insert (rv_node_id p) p (ct_peers s) in
                    (case persist_peers show_addr fate peers (ct_file s) of
                       (Ok _, file) \<Rightarrow> (Ok (), \<lparr>ct_peers = peers, ct_registry = reg, ct_file = file\<rparr>)
                     | (Err e, file) \<Rightarrow>
                         (Err e, \<lparr>ct_peers = om_remove (rv_node_id p) peers,
                                  ct_registry = snd (revoke reg (rv_node_id p)), ct_file = file\<rparr>)))))"

definition remove_peer ::
  "(socket_addr \<Rightarrow> string) \<Rightarrow> persist_fate \<Rightarrow> node_id \<Rightarrow> 'c cluster_peers
   \<Rightarrow> (peer_error, unit) result \<times> 'c cluster_peers" where
  "remove_peer show_addr fate n s =
     (case om_get (ct_peers s) n of
        None \<Rightarrow> (Ok (), s)
      | Some removed \<Rightarrow>
          let peers = om_remove n (ct_peers s) in
          (case persist_peers show_addr fate peers (ct_file s) of
             (Err e, file) \<Rightarrow> (Err e, s\<lparr>ct_peers := om_insert n removed peers, ct_file := file\<rparr>)
           | (Ok _, file) \<Rightarrow>
               (Ok (), \<lparr>ct_peers = peers, ct_registry = snd (revoke (ct_registry s) n), ct_file = file\<rparr>)))"

section \<open>Live trust agrees with the table\<close>

definition peers_agree :: "'c cluster_peers \<Rightarrow> bool" where
  "peers_agree s \<longleftrightarrow> om_wf (ct_peers s) \<and> registry_wf (ct_registry s)
     \<and> (\<forall>n p. om_get (ct_peers s) n = Some p \<longrightarrow> rv_node_id p = n)
     \<and> (\<forall>fp n. bound_node (ct_registry s) fp = Some n \<longleftrightarrow>
          (\<exists>p. om_get (ct_peers s) n = Some p \<and> rv_fingerprint p = fp))"

lemma om_remove_insert: "om_wf m \<Longrightarrow> om_get m k = None \<Longrightarrow> om_remove k (om_insert k v m) = m"
  by (rule om_eqI) auto

lemma om_insert_remove: "om_wf m \<Longrightarrow> om_get m k = Some v \<Longrightarrow> om_insert k v (om_remove k m) = m"
  by (rule om_eqI) auto

lemma persist_cases:
  "persist_peers sh fate peers file = (r, file') \<longleftrightarrow>
     (fate = Persisted \<and> r = Ok () \<and> file' = PeersFile (map (to_config sh) (om_values peers)))
   \<or> (fate = FailedBeforeRename \<and> r = Err PeersNotPersisted \<and> file' = file)
   \<or> (fate = FailedAfterRename \<and> r = Err PeersNotPersisted \<and> file' = PeersFile (map (to_config sh) (om_values peers)))"
  by (cases fate) (auto simp: persist_peers_def)

lemma peers_agree_nodes: "peers_agree s \<Longrightarrow> om_get (ct_peers s) n = None \<Longrightarrow> bound_node (ct_registry s) fp \<noteq> Some n"
  by (simp add: peers_agree_def)

lemma peers_agree_id: "peers_agree s \<Longrightarrow> om_get (ct_peers s) n = Some p \<Longrightarrow> rv_node_id p = n"
  by (simp add: peers_agree_def)

lemma peers_agree_bound: "peers_agree s \<Longrightarrow> om_get (ct_peers s) n = Some p \<Longrightarrow> bound_node (ct_registry s) (rv_fingerprint p) = Some n"
  unfolding peers_agree_def by blast

text \<open>Authorising a new node and revoking it again restores the registry exactly.\<close>

lemma revoke_authorized:
  assumes "registry_wf r" and "\<forall>fp'. bound_node r fp' \<noteq> Some n" and "authorize r fp n = Ok r'"
  shows "snd (revoke r' n) = r"
proof -
  have b: "bound_node r fp = None" and r': "r' = r\<lparr>pr_bindings := om_insert fp n (pr_bindings r)\<rparr>"
    using assms by (auto simp: authorize_Ok)
  obtain closed r2 where rv: "revoke r' n = (closed, r2)" by fastforce
  note wf' = registry_wf_authorize [OF assms(1,3)]
  have wf: "om_wf (pr_bindings r)" "om_wf (pr_connections r)" using assms(1) by (simp_all add: registry_wf_def)
  have wf2: "om_wf (pr_bindings r2)" "om_wf (pr_connections r2)"
    using revoke_view(1) [OF wf' rv] by (simp_all add: registry_wf_def)
  have "pr_bindings r2 = pr_bindings r"
    using revoke_view(2) [OF wf' rv] b assms(2) wf by (intro om_eqI wf wf2) (auto simp: r')
  moreover have "pr_connections r2 = pr_connections r"
  proof (rule om_eqI [OF wf2(2) wf(2)], rule ext)
    fix fp'
    have "om_get (pr_connections r) fp = None"
      using assms(1) b unfolding registry_wf_def by (metis option.exhaust)
    then show "om_get (pr_connections r2) fp' = om_get (pr_connections r) fp'"
      using rv wf b assms(2) om_remove_all(2) [OF wf(2)]
      by (auto simp: revoke_def Let_def r' om_get_set [symmetric] split: if_splits)
  qed
  moreover have "pr_next_connection_id r2 = pr_next_connection_id r"
    using rv by (auto simp: revoke_def Let_def r')
  ultimately show ?thesis by (simp add: rv)
qed

lemma peers_agree_add:
  assumes "peers_agree s" and "om_get (ct_peers s) (rv_node_id p) = None"
    and "authorize (ct_registry s) (rv_fingerprint p) (rv_node_id p) = Ok reg"
  shows "peers_agree \<lparr>ct_peers = om_insert (rv_node_id p) p (ct_peers s), ct_registry = reg, ct_file = f\<rparr>"
proof -
  have wf: "registry_wf (ct_registry s)" "om_wf (ct_peers s)" using assms(1) by (simp_all add: peers_agree_def)
  have none: "\<forall>fp. bound_node (ct_registry s) fp \<noteq> Some (rv_node_id p)"
    using peers_agree_nodes [OF assms(1,2)] by blast
  then have reg: "reg = (ct_registry s)\<lparr>pr_bindings := om_insert (rv_fingerprint p) (rv_node_id p) (pr_bindings (ct_registry s))\<rparr>"
    and b: "bound_node (ct_registry s) (rv_fingerprint p) = None"
    using assms(3) by (auto simp: authorize_Ok [OF wf(1)])
  have "om_wf (pr_bindings (ct_registry s))" using wf(1) by (simp add: registry_wf_def)
  moreover have "rv_fingerprint q \<noteq> rv_fingerprint p" if "om_get (ct_peers s) m = Some q" for m q
    using assms(1) b that unfolding peers_agree_def by (metis option.distinct(1))
  ultimately show ?thesis
    using assms(1,2) none b registry_wf_authorize [OF wf(1) assms(3)] wf(2)
    unfolding peers_agree_def by (auto simp: reg)
qed

lemma peers_agree_remove:
  assumes "peers_agree s"
  shows "peers_agree \<lparr>ct_peers = om_remove n (ct_peers s), ct_registry = snd (revoke (ct_registry s) n), ct_file = f\<rparr>"
proof -
  obtain closed r' where rv: "revoke (ct_registry s) n = (closed, r')" by fastforce
  have wf: "registry_wf (ct_registry s)" "om_wf (ct_peers s)" using assms by (simp_all add: peers_agree_def)
  have "m = m'" if "om_get (ct_peers s) m = Some p" "om_get (ct_peers s) m' = Some q"
    "rv_fingerprint p = rv_fingerprint q" for m m' p q
    using assms that unfolding peers_agree_def by (metis option.inject)
  then show ?thesis
    using assms revoke_view(1,2) [OF wf(1) rv] wf(2) unfolding peers_agree_def
    by (auto simp: rv split: if_splits)
qed

lemma peers_agree_file [simp]:
  "peers_agree (s\<lparr>ct_file := f\<rparr>) = peers_agree s"
  "peers_agree \<lparr>ct_peers = ct_peers s, ct_registry = ct_registry s, ct_file = f\<rparr> = peers_agree s"
  by (simp_all add: peers_agree_def)

text \<open>The two operations on an agreeing state, as the states they can end in.\<close>

lemma add_peer_cases:
  assumes "peers_agree s" and "add_peer parse_addr show_addr fate c s = (res, s')"
  obtains (refused) e where "res = Err e" "s' = s"
  | (known) p where "res = Ok ()" "s' = s" "from_config parse_addr c = Ok p" "om_get (ct_peers s) (rv_node_id p) = Some p"
  | (unsaved) f where "res = Err PeersNotPersisted" "s' = s\<lparr>ct_file := f\<rparr>"
      "fate \<noteq> FailedAfterRename \<longrightarrow> f = ct_file s"
  | (added) p reg where "res = Ok ()" "fate = Persisted" "from_config parse_addr c = Ok p"
      "om_get (ct_peers s) (rv_node_id p) = None"
      "authorize (ct_registry s) (rv_fingerprint p) (rv_node_id p) = Ok reg"
      "s' = \<lparr>ct_peers = om_insert (rv_node_id p) p (ct_peers s), ct_registry = reg,
         ct_file = PeersFile (map (to_config show_addr) (om_values (om_insert (rv_node_id p) p (ct_peers s))))\<rparr>"
proof (cases "from_config parse_addr c")
  case (Inl e)
  then show ?thesis using assms(2) that(1) [of e] by (simp add: add_peer_def)
next
  case p: (Inr p)
  have wf: "registry_wf (ct_registry s)" "om_wf (ct_peers s)" using assms(1) by (simp_all add: peers_agree_def)
  show ?thesis
  proof (cases "om_get (ct_peers s) (rv_node_id p)")
    case (Some q)
    then show ?thesis using assms(2) p that(1,2) by (cases "q = p") (auto simp: add_peer_def)
  next
    case None
    show ?thesis
    proof (cases "authorize (ct_registry s) (rv_fingerprint p) (rv_node_id p)")
      case (Inl e)
      then show ?thesis using assms(2) p None that(1) [of e] by (simp add: add_peer_def)
    next
      case (Inr reg)
      have "snd (revoke reg (rv_node_id p)) = ct_registry s"
        using revoke_authorized [OF wf(1) _ Inr] peers_agree_nodes [OF assms(1) None] by blast
      moreover have "om_remove (rv_node_id p) (om_insert (rv_node_id p) p (ct_peers s)) = ct_peers s"
        by (rule om_remove_insert [OF wf(2) None])
      ultimately show ?thesis
        using assms(2) p None Inr that(3) [of "ct_file s'"] that(4) [of p reg]
        by (cases fate) (auto simp: add_peer_def persist_peers_def Let_def)
    qed
  qed
qed

lemma remove_peer_cases:
  assumes "peers_agree s" and "remove_peer show_addr fate n s = (res, s')"
  obtains (unknown) "res = Ok ()" "s' = s" "om_get (ct_peers s) n = None"
  | (unsaved) f where "res = Err PeersNotPersisted" "s' = s\<lparr>ct_file := f\<rparr>"
      "fate \<noteq> FailedAfterRename \<longrightarrow> f = ct_file s"
  | (removed) "res = Ok ()" "om_get (ct_peers s) n \<noteq> None"
      "s' = \<lparr>ct_peers = om_remove n (ct_peers s), ct_registry = snd (revoke (ct_registry s) n),
         ct_file = PeersFile (map (to_config show_addr) (om_values (om_remove n (ct_peers s))))\<rparr>"
proof (cases "om_get (ct_peers s) n")
  case None
  then show ?thesis using assms(2) that(1) by (simp add: remove_peer_def)
next
  case (Some q)
  have "om_insert n q (om_remove n (ct_peers s)) = ct_peers s"
    by (rule om_insert_remove) (use Some assms(1) in \<open>simp_all add: peers_agree_def\<close>)
  then have restored: "s\<lparr>ct_peers := om_insert n q (om_remove n (ct_peers s)), ct_file := f\<rparr> = s\<lparr>ct_file := f\<rparr>" for f
    by simp
  note run = assms(2) [unfolded remove_peer_def Some option.case Let_def persist_peers_def]
  show ?thesis
  proof (cases fate)
    case Persisted
    with run Some show ?thesis by (intro that(3)) auto
  next
    case FailedBeforeRename
    with run show ?thesis unfolding restored by (intro that(2) [of "ct_file s"]) auto
  next
    case FailedAfterRename
    with run show ?thesis
      by (intro that(2) [of "PeersFile (map (to_config show_addr) (om_values (om_remove n (ct_peers s))))"])
        (auto simp: restored)
  qed
qed

lemma revoked_node_unbound:
  "registry_wf r \<Longrightarrow> bound_node (snd (revoke r n)) fp \<noteq> Some n"
  using revoke_view(2) [of r n] by (cases "revoke r n") simp

lemma revoked_others:
  "registry_wf r \<Longrightarrow> bound_node r fp \<noteq> Some n \<Longrightarrow> bound_node (snd (revoke r n)) fp = bound_node r fp"
  using revoke_view(2) [of r n] by (cases "revoke r n") simp

section \<open>Fingerprints survive the file\<close>

definition outer_byte :: "char \<Rightarrow> bool" where
  "outer_byte c \<longleftrightarrow> (of_char c :: nat) \<le> 32 \<or> 128 \<le> (of_char c :: nat)"

lemma white_space_outer: "\<forall>w \<in> set white_space. w \<noteq> [] \<and> outer_byte (hd w) \<and> outer_byte (last w)"
  by (simp add: white_space_def outer_byte_def)

lemma strip_front_id:
  assumes "\<forall>w \<in> set ws. w \<noteq> [] \<longrightarrow> outer_byte (hd w)" and "s = [] \<or> \<not> outer_byte (hd s)"
  shows "strip_front ws s = s"
proof -
  have "List.find (\<lambda>w. w \<noteq> [] \<and> take (length w) s = w) ws = None"
    unfolding find_None_iff
  proof (intro notI, elim exE conjE)
    fix w
    assume w: "w \<in> set ws" "w \<noteq> []" "take (length w) s = w"
    then have "s \<noteq> []" "hd w = hd s" by (auto simp: hd_take [symmetric]) (metis hd_take length_greater_0_conv)
    with assms w show False by auto
  qed
  then show ?thesis by (subst strip_front.simps) simp
qed

lemma trim_id:
  assumes "s = [] \<or> \<not> outer_byte (hd s) \<and> \<not> outer_byte (last s)"
  shows "trim s = s"
proof -
  have "strip_front white_space s = s"
    by (rule strip_front_id) (use assms white_space_outer in auto)
  moreover have "strip_front (map rev white_space) (rev s) = rev s"
    by (rule strip_front_id) (use assms white_space_outer in \<open>auto simp: hd_rev\<close>)
  ultimately show ?thesis by (simp add: trim_def)
qed

lemma hex_digit_inner: "n < 16 \<Longrightarrow> \<not> outer_byte (hex_digit n)"
  by (auto simp: hex_digit_def outer_byte_def)

lemma hex_digit_not_plus: "n < 16 \<Longrightarrow> hex_digit n \<noteq> CHR ''+''"
proof -
  have "(of_char (CHR ''+'') :: nat) = 43" by code_simp
  then show "n < 16 \<Longrightarrow> hex_digit n \<noteq> CHR ''+''"
    by (auto simp: hex_digit_def dest: arg_cong [where f = "of_char :: char \<Rightarrow> nat"])
qed

lemma parse_hex_pairs_hex_string: "parse_hex_pairs (hex_string bs) = Some bs"
proof (induction bs)
  case (Cons b bs)
  have "(of_nat (unat b div 16 * 16 + unat b mod 16) :: u8) = b" by (simp add: div_mult_mod_eq)
  with Cons show ?case
    by (simp add: hex_string_def hex_byte_def parse_hex_u8_def hex_digit_not_plus to_digit16_hex_digit
        u8_div_mod del: of_nat_add of_nat_mult)
qed (simp add: hex_string_def)

lemma trim_hex_string: "trim (hex_string bs) = hex_string bs"
proof (rule trim_id)
  show "hex_string bs = [] \<or> \<not> outer_byte (hd (hex_string bs)) \<and> \<not> outer_byte (last (hex_string bs))"
  proof (cases bs rule: rev_cases)
    case (snoc cs c)
    have "\<not> outer_byte (hd (hex_string bs))"
      by (cases bs) (use snoc in \<open>simp_all add: hex_string_def hex_byte_def hex_digit_inner u8_div_mod\<close>)
    moreover have "\<not> outer_byte (last (hex_string bs))"
      by (simp add: snoc hex_string_def hex_byte_def hex_digit_inner u8_div_mod)
    ultimately show ?thesis by simp
  qed (simp add: hex_string_def)
qed

lemma from_hex_to_hex: "length (fp_bytes fp) = 32 \<Longrightarrow> from_hex (to_hex fp) = Some fp"
  by (simp add: from_hex_def to_hex_def trim_hex_string parse_hex_pairs_hex_string)

text \<open>
  C36. Changing the peer set is all or nothing: adding or removing a peer keeps the live trust
  equal to the table, an operation that reports an error leaves table, trust and sessions
  exactly as they were, and one that succeeds adds exactly the requested peer, or removes
  exactly that one, with every other peer keeping its row and its trust.  A change that
  succeeds has written the new table to the file, and one that had nothing to change (the same
  peer again, a peer not configured) leaves everything as it was.  An error also leaves the
  file as it was, except when the write failed after the rename.
\<close>

theorem peer_table_atomic:
  assumes "peers_agree s"
  shows "(case add_peer parse_addr show_addr fate c s of (res, s') \<Rightarrow>
       peers_agree s'
       \<and> (res \<noteq> Ok () \<longrightarrow> ct_peers s' = ct_peers s \<and> ct_registry s' = ct_registry s
            \<and> (fate \<noteq> FailedAfterRename \<longrightarrow> ct_file s' = ct_file s))
       \<and> (res = Ok () \<longrightarrow> (\<exists>p. from_config parse_addr c = Ok p
            \<and> ct_peers s' = om_insert (rv_node_id p) p (ct_peers s)
            \<and> resolve (ct_registry s') (rv_fingerprint p) = Some \<lparr>ap_fingerprint = rv_fingerprint p, ap_node_id = rv_node_id p\<rparr>
            \<and> (\<forall>fp. fp \<noteq> rv_fingerprint p \<longrightarrow> bound_node (ct_registry s') fp = bound_node (ct_registry s) fp)
            \<and> (if om_get (ct_peers s) (rv_node_id p) = None
                then ct_file s' = PeersFile (map (to_config show_addr) (om_values (ct_peers s')))
                else s' = s))))
   \<and> (case remove_peer show_addr fate n s of (res, s') \<Rightarrow>
       peers_agree s'
       \<and> (res \<noteq> Ok () \<longrightarrow> ct_peers s' = ct_peers s \<and> ct_registry s' = ct_registry s
            \<and> (fate \<noteq> FailedAfterRename \<longrightarrow> ct_file s' = ct_file s))
       \<and> (res = Ok () \<longrightarrow> ct_peers s' = om_remove n (ct_peers s)
            \<and> om_get (ct_peers s') n = None \<and> (\<forall>fp. bound_node (ct_registry s') fp \<noteq> Some n)
            \<and> (\<forall>fp. bound_node (ct_registry s) fp \<noteq> Some n \<longrightarrow>
                 bound_node (ct_registry s') fp = bound_node (ct_registry s) fp)
            \<and> (if om_get (ct_peers s) n \<noteq> None
                then ct_file s' = PeersFile (map (to_config show_addr) (om_values (ct_peers s')))
                else s' = s)))"
proof -
  have wf: "registry_wf (ct_registry s)" "om_wf (ct_peers s)" using assms by (simp_all add: peers_agree_def)
  obtain res s' where a: "add_peer parse_addr show_addr fate c s = (res, s')" by fastforce
  obtain res2 s2 where r: "remove_peer show_addr fate n s = (res2, s2)" by fastforce
  show ?thesis
    unfolding a r prod.case
  proof (rule conjI, goal_cases)
    case 1
    from assms a show ?case
    proof (cases rule: add_peer_cases)
      case (known p)
      have "bound_node (ct_registry s) (rv_fingerprint p) = Some (rv_node_id p)"
        using assms known(4) unfolding peers_agree_def by blast
      moreover have "om_insert (rv_node_id p) p (ct_peers s) = ct_peers s"
        using known(4) wf(2) by (intro om_eqI) auto
      ultimately show ?thesis using assms known by (simp add: resolve_def)
    next
      case (added p reg)
      have "bound_node reg (rv_fingerprint p) = Some (rv_node_id p)"
        "\<forall>fp. fp \<noteq> rv_fingerprint p \<longrightarrow> bound_node reg fp = bound_node (ct_registry s) fp"
        using added(5) wf(1) by (auto simp: authorize_Ok registry_wf_def)
      then show ?thesis using peers_agree_add [OF assms added(4,5)] added by (simp add: resolve_def)
    qed (use assms in simp_all)
  next
    case 2
    from assms r show ?case
    proof (cases rule: remove_peer_cases)
      case unknown
      then have "om_remove n (ct_peers s) = ct_peers s" using wf(2) by (intro om_eqI) auto
      with unknown show ?thesis using assms peers_agree_nodes by auto
    next
      case removed
      then show ?thesis
        using peers_agree_remove [OF assms] revoked_node_unbound [OF wf(1)] revoked_others [OF wf(1)] wf(2) by simp
    qed (use assms in simp_all)
  qed
qed

definition ex_peer :: "resolved_peer" where
  "ex_peer = \<lparr>rv_node_id = NodeId 1, rv_alias = ''a'', rv_addr = \<lparr>sa_ip = [10, 0, 0, 1], sa_port = 8085\<rparr>,
     rv_pull_addr = \<lparr>sa_ip = [10, 0, 0, 1], sa_port = 8086\<rparr>, rv_fingerprint = CertFingerprint (replicate 32 7)\<rparr>"

definition ex_parse :: addr_parser where
  "ex_parse s = (if s = ''10.0.0.1:8085'' then Some \<lparr>sa_ip = [10, 0, 0, 1], sa_port = 8085\<rparr> else None)"

abbreviation ex_no_peers :: "nat cluster_peers" where
  "ex_no_peers \<equiv> \<lparr>ct_peers = [], ct_registry = registry_default, ct_file = PeersAbsent\<rparr>"

lemma peers_agree_empty: "peers_agree \<lparr>ct_peers = [], ct_registry = registry_default, ct_file = f\<rparr>"
  by (simp add: peers_agree_def) (simp add: registry_default_def)

lemma from_config_to_config:
  assumes "parse_addr (show_addr (rv_addr p)) = Some (rv_addr p)" and "length (fp_bytes (rv_fingerprint p)) = 32"
    and "rv_pull_addr p = pull_addr_of (rv_addr p)"
  shows "from_config parse_addr (to_config show_addr p) = Ok p"
  using assms by (cases p) (simp add: from_config_def to_config_def from_hex_to_hex)

lemma ex_peer_config: "from_config ex_parse (to_config (\<lambda>_. ''10.0.0.1:8085'') ex_peer) = Ok ex_peer"
  by (rule from_config_to_config) (simp_all add: ex_parse_def ex_peer_def pull_addr_of_def)

theorem peer_table_atomic_witness:
  "(case add_peer ex_parse (\<lambda>_. ''10.0.0.1:8085'') FailedAfterRename
       (to_config (\<lambda>_. ''10.0.0.1:8085'') ex_peer) ex_no_peers of
     (res, s') \<Rightarrow> res = Err PeersNotPersisted \<and> ct_peers s' = [] \<and> ct_registry s' = registry_default
       \<and> ct_file s' = PeersFile [to_config (\<lambda>_. ''10.0.0.1:8085'') ex_peer])
   \<and> (case add_peer ex_parse (\<lambda>_. ''10.0.0.1:8085'') Persisted
       (to_config (\<lambda>_. ''10.0.0.1:8085'') ex_peer) ex_no_peers of
     (res, s') \<Rightarrow> res = Ok () \<and> ct_peers s' = [(NodeId 1, ex_peer)]
       \<and> ct_file s' = PeersFile [to_config (\<lambda>_. ''10.0.0.1:8085'') ex_peer])"
proof -
  let ?sh = "\<lambda>_. ''10.0.0.1:8085''"
  obtain res s' where a: "add_peer ex_parse ?sh FailedAfterRename (to_config ?sh ex_peer) ex_no_peers = (res, s')"
    by fastforce
  obtain res2 s2 where b: "add_peer ex_parse ?sh Persisted (to_config ?sh ex_peer) ex_no_peers = (res2, s2)"
    by fastforce
  have "authorize (registry_default :: nat peer_registry) fp n
      = Ok (registry_default\<lparr>pr_bindings := [(fp, n)]\<rparr>)" for fp n
    by (simp add: authorize_def registry_default_def)
  then have "res = Err PeersNotPersisted" "ct_file s' = PeersFile [to_config ?sh ex_peer]" "res2 = Ok ()"
    using a b by (auto simp: add_peer_def ex_peer_config persist_peers_def om_values_def)
  moreover have "peers_agree ex_no_peers" by (rule peers_agree_empty)
  moreover have "rv_node_id ex_peer = NodeId 1" by (simp add: ex_peer_def)
  ultimately show ?thesis
    using peer_table_atomic [of ex_no_peers, where parse_addr = ex_parse and show_addr = ?sh
        and fate = FailedAfterRename and c = "to_config ?sh ex_peer"]
      peer_table_atomic [of ex_no_peers, where parse_addr = ex_parse and show_addr = ?sh
        and fate = Persisted and c = "to_config ?sh ex_peer"]
    by (simp add: a b ex_peer_config om_values_def)
qed

section \<open>Restarting from the file\<close>

definition peers_printable :: "addr_parser \<Rightarrow> (socket_addr \<Rightarrow> string) \<Rightarrow> (node_id, resolved_peer) omap \<Rightarrow> bool" where
  "peers_printable parse_addr show_addr peers \<longleftrightarrow> (\<forall>(n, p) \<in> set peers.
     parse_addr (show_addr (rv_addr p)) = Some (rv_addr p) \<and> length (fp_bytes (rv_fingerprint p)) = 32
     \<and> rv_pull_addr p = pull_addr_of (rv_addr p) \<and> rv_node_id p = n)"

lemma resolve_peers_foldl:
  assumes "\<forall>p \<in> set ps. from_config parse_addr (cfg p) = Ok p" and "distinct (map rv_node_id ps)"
    and "\<forall>p \<in> set ps. om_get m (rv_node_id p) \<in> {None, Some p}" and "om_wf m"
  shows "resolve_peers parse_addr (map cfg ps) m = Ok (foldl (\<lambda>m p. om_insert (rv_node_id p) p m) m ps)"
  using assms
proof (induction ps arbitrary: m)
  case (Cons p ps)
  have "resolve_peers parse_addr (map cfg ps) (om_insert (rv_node_id p) p m)
      = Ok (foldl (\<lambda>m p. om_insert (rv_node_id p) p m) (om_insert (rv_node_id p) p m) ps)"
  proof (rule Cons.IH)
    show "\<forall>q \<in> set ps. om_get (om_insert (rv_node_id p) p m) (rv_node_id q) \<in> {None, Some q}"
    proof
      fix q
      assume q: "q \<in> set ps"
      then have "rv_node_id q \<noteq> rv_node_id p" using Cons.prems(2) by (metis distinct.simps(2) image_eqI list.simps(9) set_map)
      with q Cons.prems(3,4) show "om_get (om_insert (rv_node_id p) p m) (rv_node_id q) \<in> {None, Some q}" by simp
    qed
  qed (use Cons.prems in simp_all)
  moreover have "om_get m (rv_node_id p) = None \<or> om_get m (rv_node_id p) = Some p"
    using Cons.prems(3) by simp
  ultimately show ?case using Cons.prems(1) by (elim disjE) simp_all
qed simp

lemma authorize_all_ok:
  assumes "registry_wf r" and "distinct (map fst bs)" and "distinct (map snd bs)"
    and "\<forall>(fp, n) \<in> set bs. bound_node r fp = None \<and> (\<forall>fp'. bound_node r fp' \<noteq> Some n)"
  shows "\<exists>r'. authorize_all r bs = Ok r' \<and> registry_wf r'
    \<and> (\<forall>fp n. bound_node r' fp = Some n \<longleftrightarrow> bound_node r fp = Some n \<or> (fp, n) \<in> set bs)"
  using assms
proof (induction bs arbitrary: r)
  case (Cons b bs)
  obtain fp n where b: "b = (fp, n)" by (cases b)
  let ?r = "r\<lparr>pr_bindings := om_insert fp n (pr_bindings r)\<rparr>"
  have wf: "om_wf (pr_bindings r)" using Cons.prems(1) by (simp add: registry_wf_def)
  have a: "authorize r fp n = Ok ?r" using Cons.prems(1,4) by (simp add: authorize_Ok b)
  have view: "bound_node ?r fp' = (if fp' = fp then Some n else bound_node r fp')" for fp' using wf by simp
  have "bound_node ?r fp' = None \<and> (\<forall>f. bound_node ?r f \<noteq> Some n')" if "(fp', n') \<in> set bs" for fp' n'
  proof -
    have "fp' \<noteq> fp" "n' \<noteq> n" using that Cons.prems(2,3) by (force simp: b)+
    moreover have "bound_node r fp' = None \<and> (\<forall>f. bound_node r f \<noteq> Some n')" using that Cons.prems(4) by auto
    ultimately show ?thesis unfolding view by simp
  qed
  then have "\<exists>r'. authorize_all ?r bs = Ok r' \<and> registry_wf r'
    \<and> (\<forall>fp n. bound_node r' fp = Some n \<longleftrightarrow> bound_node ?r fp = Some n \<or> (fp, n) \<in> set bs)"
    using Cons.prems(2,3) registry_wf_authorize [OF Cons.prems(1) a] by (intro Cons.IH) auto
  moreover have "bound_node ?r fp' = Some m \<longleftrightarrow> bound_node r fp' = Some m \<or> (fp', m) = (fp, n)" for fp' m
    using Cons.prems(4) unfolding view by (auto simp: b)
  ultimately show ?case by (simp add: b a) blast?
qed simp

text \<open>
   A restart restores the trust that was saved: starting from the written file, with no
  configured peers, gives back exactly the saved table and a registry that trusts exactly its
  certificates, whenever the address printer is read back by the parser.
\<close>

theorem peer_file_restores:
  assumes "peers_agree s" and "peers_printable parse_addr show_addr (ct_peers s)"
    and "persist_peers show_addr Persisted (ct_peers s) file = (Ok (), file')"
  shows "\<exists>s' :: 'c cluster_peers. start_peers parse_addr True [] file' = Ok s' \<and> ct_peers s' = ct_peers s
    \<and> peers_agree s'"
proof -
  let ?ps = "om_values (ct_peers s)"
  have wf: "om_wf (ct_peers s)" using assms(1) by (simp add: peers_agree_def)
  have mem: "p \<in> set ?ps \<longleftrightarrow> om_get (ct_peers s) (rv_node_id p) = Some p" for p
    using om_values_set [OF wf] assms(1) unfolding peers_agree_def by metis
  have ids: "map rv_node_id ?ps = map fst (ct_peers s)"
    using assms(2) by (auto simp: peers_printable_def om_values_def)
  have d: "distinct (map rv_node_id ?ps)" using om_wf_distinct [OF wf] by (simp add: ids)
  have "\<forall>p \<in> set ?ps. from_config parse_addr (to_config show_addr p) = Ok p"
    using assms(2) by (auto simp: peers_printable_def om_values_def intro!: from_config_to_config)
  then have "resolve_peers parse_addr (map (to_config show_addr) ?ps) []
      = Ok (om_fill rv_node_id id ?ps)"
    using resolve_peers_foldl [of ?ps parse_addr "to_config show_addr" "[]"] d by (simp add: om_fill_def)
  moreover have "om_fill rv_node_id id ?ps = ct_peers s"
  proof (rule om_eqI [OF om_fill_wf wf], rule ext, rule option_eqI)
    show "om_get (om_fill rv_node_id id ?ps) n = Some p \<longleftrightarrow> om_get (ct_peers s) n = Some p" for n p
      unfolding om_get_fill [OF d, of id n p] using mem assms(1) unfolding peers_agree_def
      by (metis id_apply)
  qed
  moreover obtain reg :: "'c peer_registry" where reg: "registry_new (map (\<lambda>p. (rv_fingerprint p, rv_node_id p)) ?ps) = Ok reg"
      "registry_wf reg" "\<forall>fp n. bound_node reg fp = Some n \<longleftrightarrow> (fp, n) \<in> (\<lambda>p. (rv_fingerprint p, rv_node_id p)) ` set ?ps"
  proof -
    have "rv_fingerprint p = rv_fingerprint q \<Longrightarrow> p = q" if "p \<in> set ?ps" "q \<in> set ?ps" for p q
      using peers_agree_bound [OF assms(1) that(1) [unfolded mem]] peers_agree_bound [OF assms(1) that(2) [unfolded mem]]
        that [unfolded mem] by simp
    then have "distinct (map rv_fingerprint ?ps)"
      using d by (simp add: distinct_map inj_on_def)
    with d have "\<exists>reg :: 'c peer_registry. registry_new (map (\<lambda>p. (rv_fingerprint p, rv_node_id p)) ?ps) = Ok reg
        \<and> registry_wf reg \<and> (\<forall>fp n. bound_node reg fp = Some n \<longleftrightarrow>
            bound_node (registry_default :: 'c peer_registry) fp = Some n \<or> (fp, n) \<in> set (map (\<lambda>p. (rv_fingerprint p, rv_node_id p)) ?ps))"
      unfolding registry_new_def
      by (intro authorize_all_ok) (simp_all add: comp_def, simp_all add: registry_default_def)
    then show ?thesis using that by (auto simp: registry_default_def)
  qed
  moreover have "file' = PeersFile (map (to_config show_addr) ?ps)"
    using assms(3) by (simp add: persist_peers_def)
  ultimately have "start_peers parse_addr True [] file' = Ok \<lparr>ct_peers = ct_peers s, ct_registry = reg, ct_file = file'\<rparr>"
    by (simp add: start_peers_def load_persisted_peers_def)
  moreover have "peers_agree \<lparr>ct_peers = ct_peers s, ct_registry = reg, ct_file = file'\<rparr>"
  proof -
    have "(fp, n) \<in> (\<lambda>p. (rv_fingerprint p, rv_node_id p)) ` set ?ps
        \<longleftrightarrow> (\<exists>p. om_get (ct_peers s) n = Some p \<and> rv_fingerprint p = fp)" for fp n
      unfolding image_iff Bex_def mem prod.inject using peers_agree_id [OF assms(1)] by blast
    with wf reg(2,3) peers_agree_id [OF assms(1)] show ?thesis by (simp add: peers_agree_def)
  qed
  ultimately show ?thesis by auto
qed

theorem peer_file_restores_witness:
  "\<exists>s' :: nat cluster_peers. start_peers ex_parse True [] (PeersFile [to_config (\<lambda>_. ''10.0.0.1:8085'') ex_peer]) = Ok s'
     \<and> ct_peers s' = [(NodeId 1, ex_peer)] \<and> peers_agree s'"
proof -
  let ?reg = "registry_default\<lparr>pr_bindings := [(rv_fingerprint ex_peer, NodeId 1)]\<rparr> :: nat peer_registry"
  let ?s = "\<lparr>ct_peers = [(NodeId 1, ex_peer)], ct_registry = ?reg, ct_file = PeersAbsent\<rparr>"
  have agree: "peers_agree ?s"
    using peers_agree_add [OF peers_agree_empty [of PeersAbsent], of ex_peer ?reg PeersAbsent]
    by (simp add: authorize_def registry_default_def ex_peer_def)
  have "peers_printable ex_parse (\<lambda>_. ''10.0.0.1:8085'') (ct_peers ?s)"
    by (simp add: peers_printable_def ex_peer_def ex_parse_def pull_addr_of_def)
  from peer_file_restores [OF agree this, of PeersAbsent] show ?thesis
    by (simp add: persist_peers_def om_values_def)
qed

end
