(* ===== verification/Owner_Snapshot.thy ===== *)
theory Owner_Snapshot
  imports Codec Scope "HOL-Library.Multiset"
begin

text \<open>
  The replicated ownership authority: owner terms, the global snapshot the coordinator
  issues and its recipient-bound local half, with their canonical encoding, construction
  and validation (\<open>crates/sentinel-common/src/fencing.rs\<close>, up to
  \<open>validate_owner_snapshot_pair\<close>).  SHA-256 comes from another crate; every definition
  that hashes takes it as the argument \<open>sha\<close>.
\<close>

section \<open>Data\<close>

record owner_term =
  ot_scope :: state_transfer_scope
  ot_owner_node :: node_id
  ot_epoch :: u64
  ot_generation :: u64

definition TRACK_A_COORDINATOR_GENERATION :: u64 where
  "TRACK_A_COORDINATOR_GENERATION = 1"

definition OWNER_SNAPSHOT_SCHEMA_VERSION :: u32 where
  "OWNER_SNAPSHOT_SCHEMA_VERSION = 1"

datatype activation_state = LegacyUnknown | NotRoutable | Routable

datatype local_owner_base_role = BaseOwner | BaseFollower

record local_owner_base_state =
  bs_scope :: state_transfer_scope
  bs_recipient_node :: node_id
  bs_owner_term :: owner_term
  bs_base_role :: local_owner_base_role
  bs_activation_state :: activation_state

record owner_term_snapshot =
  gs_schema_version :: u32
  gs_generation :: u64
  gs_revision :: u64
  gs_sorted_terms :: "owner_term list"
  gs_checksum :: bytes

record local_owner_state_snapshot =
  ls_schema_version :: u32
  ls_recipient_node :: node_id
  ls_generation :: u64
  ls_revision :: u64
  ls_sorted_base_states :: "local_owner_base_state list"
  ls_checksum :: bytes

datatype owner_snapshot_install_outcome =
    Installed
  | AlreadyInstalled
  | StaleSnapshot u64 u64
  | SnapshotGenerationMismatch u64 u64
  | SnapshotConflict

datatype owner_snapshot_error =
    UnsupportedSchema u32
  | UnsortedRows
  | DuplicateScope string
  | TermGenerationMismatch string
  | SnapshotRecipientMismatch string
  | LocalTermMismatch string
  | LocalRoleMismatch string
  | LegacyActivation string
  | ChecksumMismatch
  | EnvelopeMismatch
  | FieldTooLarge

type_synonym 'a snapshot_result = "(owner_snapshot_error, 'a) result"

section \<open>Canonical encoding\<close>

text \<open>\<open>u32::try_from\<close> on a \<open>usize\<close> length.\<close>

definition u32_len :: "nat \<Rightarrow> u32 snapshot_result" where
  "u32_len n = (if n < 2 ^ 32 then Ok (of_nat n) else Err FieldTooLarge)"

definition put_u32 :: "u32 \<Rightarrow> bytes" where "put_u32 v = be_bytes 4 v"
definition put_u64 :: "u64 \<Rightarrow> bytes" where "put_u64 v = be_bytes 8 v"

definition put_node :: "node_id \<Rightarrow> bytes" where "put_node n = be_bytes 16 (node_uuid n)"

definition put_scope :: "state_transfer_scope \<Rightarrow> bytes snapshot_result" where
  "put_scope sc =
     (let wire = to_wire sc in
      try_bind (u32_len (length wire)) (\<lambda>n.
      Ok (put_u32 n @ string_bytes wire)))"

definition put_term :: "owner_term \<Rightarrow> bytes snapshot_result" where
  "put_term t =
     try_bind (put_scope (ot_scope t)) (\<lambda>s.
     Ok (s @ put_node (ot_owner_node t) @ put_u64 (ot_epoch t) @ put_u64 (ot_generation t)))"

fun base_role_tag :: "local_owner_base_role \<Rightarrow> u8" where
  "base_role_tag BaseOwner = 1"
| "base_role_tag BaseFollower = 2"

fun activation_tag :: "activation_state \<Rightarrow> u8" where
  "activation_tag LegacyUnknown = 0"
| "activation_tag NotRoutable = 1"
| "activation_tag Routable = 2"

definition put_base_state :: "local_owner_base_state \<Rightarrow> bytes snapshot_result" where
  "put_base_state b =
     try_bind (put_scope (bs_scope b)) (\<lambda>s.
     try_bind (put_term (bs_owner_term b)) (\<lambda>t.
     Ok (s @ put_node (bs_recipient_node b) @ t
         @ [base_role_tag (bs_base_role b), activation_tag (bs_activation_state b)])))"

definition global_canonical_payload :: "owner_term_snapshot \<Rightarrow> bytes snapshot_result" where
  "global_canonical_payload g =
     try_bind (u32_len (length (gs_sorted_terms g))) (\<lambda>n.
     try_bind (try_collect put_term (gs_sorted_terms g)) (\<lambda>rows.
     Ok (put_u32 (gs_schema_version g) @ put_u64 (gs_generation g) @ put_u64 (gs_revision g)
         @ put_u32 n @ concat rows)))"

definition local_canonical_payload :: "local_owner_state_snapshot \<Rightarrow> bytes snapshot_result" where
  "local_canonical_payload l =
     try_bind (u32_len (length (ls_sorted_base_states l))) (\<lambda>n.
     try_bind (try_collect put_base_state (ls_sorted_base_states l)) (\<lambda>rows.
     Ok (put_u32 (ls_schema_version l) @ put_node (ls_recipient_node l)
         @ put_u64 (ls_generation l) @ put_u64 (ls_revision l) @ put_u32 n @ concat rows)))"

section \<open>Row validation\<close>

definition rows_are_strictly_sorted :: "('r \<Rightarrow> state_transfer_scope) \<Rightarrow> 'r list \<Rightarrow> bool" where
  "rows_are_strictly_sorted sc rows =
     successively (\<lambda>a b. to_wire (sc a) < to_wire (sc b)) rows"

fun duplicate_key :: "string \<Rightarrow> string list \<Rightarrow> string option" where
  "duplicate_key previous [] = None"
| "duplicate_key previous (key # keys) =
     (if key = previous then Some key else duplicate_key key keys)"

definition row_order_error :: "('r \<Rightarrow> state_transfer_scope) \<Rightarrow> 'r list \<Rightarrow> owner_snapshot_error" where
  "row_order_error sc rows =
     (case map (to_wire \<circ> sc) rows of
        [] \<Rightarrow> UnsortedRows
      | first # keys \<Rightarrow>
          (case duplicate_key first keys of
             Some key \<Rightarrow> DuplicateScope key
           | None \<Rightarrow> UnsortedRows))"

definition global_validate_rows :: "owner_term_snapshot \<Rightarrow> unit snapshot_result" where
  "global_validate_rows g =
     (if gs_schema_version g \<noteq> OWNER_SNAPSHOT_SCHEMA_VERSION
      then Err (UnsupportedSchema (gs_schema_version g))
      else if \<not> rows_are_strictly_sorted ot_scope (gs_sorted_terms g)
      then Err (row_order_error ot_scope (gs_sorted_terms g))
      else try_each (\<lambda>t. ensure (ot_generation t = gs_generation g)
                         (TermGenerationMismatch (to_wire (ot_scope t)))) (gs_sorted_terms g))"

definition local_validate_rows :: "local_owner_state_snapshot \<Rightarrow> unit snapshot_result" where
  "local_validate_rows l =
     (if ls_schema_version l \<noteq> OWNER_SNAPSHOT_SCHEMA_VERSION
      then Err (UnsupportedSchema (ls_schema_version l))
      else if \<not> rows_are_strictly_sorted bs_scope (ls_sorted_base_states l)
      then Err (row_order_error bs_scope (ls_sorted_base_states l))
      else try_each (\<lambda>b.
             if bs_recipient_node b \<noteq> ls_recipient_node l
             then Err (SnapshotRecipientMismatch (to_wire (bs_scope b)))
             else if ot_scope (bs_owner_term b) \<noteq> bs_scope b
                   \<or> ot_generation (bs_owner_term b) \<noteq> ls_generation l
             then Err (LocalTermMismatch (to_wire (bs_scope b)))
             else Ok ()) (ls_sorted_base_states l))"

section \<open>Construction and validation\<close>

definition owner_term_snapshot_new ::
  "(bytes \<Rightarrow> bytes) \<Rightarrow> u64 \<Rightarrow> u64 \<Rightarrow> owner_term list \<Rightarrow> owner_term_snapshot snapshot_result" where
  "owner_term_snapshot_new sha generation revision terms =
     (let snapshot = \<lparr>gs_schema_version = OWNER_SNAPSHOT_SCHEMA_VERSION,
            gs_generation = generation, gs_revision = revision,
            gs_sorted_terms = sort_key (\<lambda>t. to_wire (ot_scope t)) terms,
            gs_checksum = replicate 32 0\<rparr>
      in try_bind (global_validate_rows snapshot) (\<lambda>_.
         try_bind (global_canonical_payload snapshot) (\<lambda>payload.
         Ok (snapshot\<lparr>gs_checksum := sha payload\<rparr>))))"

definition global_validate :: "(bytes \<Rightarrow> bytes) \<Rightarrow> owner_term_snapshot \<Rightarrow> unit snapshot_result" where
  "global_validate sha g =
     try_bind (global_validate_rows g) (\<lambda>_.
     try_bind (global_canonical_payload g) (\<lambda>payload.
     ensure (sha payload = gs_checksum g) ChecksumMismatch))"

definition local_owner_state_snapshot_new ::
  "(bytes \<Rightarrow> bytes) \<Rightarrow> node_id \<Rightarrow> u64 \<Rightarrow> u64 \<Rightarrow> local_owner_base_state list
   \<Rightarrow> local_owner_state_snapshot snapshot_result" where
  "local_owner_state_snapshot_new sha recipient generation revision states =
     (let snapshot = \<lparr>ls_schema_version = OWNER_SNAPSHOT_SCHEMA_VERSION,
            ls_recipient_node = recipient,
            ls_generation = generation, ls_revision = revision,
            ls_sorted_base_states = sort_key (\<lambda>b. to_wire (bs_scope b)) states,
            ls_checksum = replicate 32 0\<rparr>
      in try_bind (local_validate_rows snapshot) (\<lambda>_.
         try_bind (local_canonical_payload snapshot) (\<lambda>payload.
         Ok (snapshot\<lparr>ls_checksum := sha payload\<rparr>))))"

definition local_validate ::
  "(bytes \<Rightarrow> bytes) \<Rightarrow> local_owner_state_snapshot \<Rightarrow> unit snapshot_result" where
  "local_validate sha l =
     try_bind (local_validate_rows l) (\<lambda>_.
     try_bind (local_canonical_payload l) (\<lambda>payload.
     ensure (sha payload = ls_checksum l) ChecksumMismatch))"

definition pair_row_check ::
  "(state_transfer_scope \<rightharpoonup> owner_term) \<Rightarrow> node_id \<Rightarrow> local_owner_base_state
   \<Rightarrow> unit snapshot_result" where
  "pair_row_check global_terms recipient b =
     (let scope = to_wire (bs_scope b) in
      if global_terms (bs_scope b) \<noteq> Some (bs_owner_term b) then Err (LocalTermMismatch scope)
      else if (ot_owner_node (bs_owner_term b) = recipient) \<noteq> (bs_base_role b = BaseOwner)
      then Err (LocalRoleMismatch scope)
      else if bs_activation_state b = LegacyUnknown then Err (LegacyActivation scope)
      else if bs_base_role b = BaseFollower \<and> bs_activation_state b \<noteq> NotRoutable
      then Err (LocalRoleMismatch scope)
      else Ok ())"

definition validate_owner_snapshot_pair ::
  "(bytes \<Rightarrow> bytes) \<Rightarrow> owner_term_snapshot \<Rightarrow> local_owner_state_snapshot
   \<Rightarrow> unit snapshot_result" where
  "validate_owner_snapshot_pair sha g l =
     try_bind (global_validate sha g) (\<lambda>_.
     try_bind (local_validate sha l) (\<lambda>_.
     if gs_schema_version g \<noteq> ls_schema_version l \<or> gs_generation g \<noteq> ls_generation l
        \<or> gs_revision g \<noteq> ls_revision l
     then Err EnvelopeMismatch
     else if length (gs_sorted_terms g) \<noteq> length (ls_sorted_base_states l)
     then Err EnvelopeMismatch
     else try_each
            (pair_row_check (map_extend Map.empty ot_scope (gs_sorted_terms g))
               (ls_recipient_node l))
            (ls_sorted_base_states l)))"

section \<open>The canonical encoding is injective\<close>

lemma put_inject [simp]:
  "put_u32 v = put_u32 w \<longleftrightarrow> v = w" "put_u64 x = put_u64 y \<longleftrightarrow> x = y"
  "put_node m = put_node n \<longleftrightarrow> m = n"
  by (auto simp: put_u32_def put_u64_def put_node_def node_id.expand
      dest!: be_bytes_inject [rotated])

lemma length_put [simp]:
  "length (put_u32 v) = 4" "length (put_u64 x) = 8" "length (put_node n) = 16"
  by (simp_all add: put_u32_def put_u64_def put_node_def)

lemma u32_len_eq_Ok: "u32_len n = Ok w \<longleftrightarrow> n < 2 ^ 32 \<and> w = of_nat n"
  by (auto simp: u32_len_def)

lemma u32_len_inject: "u32_len n = Ok w \<Longrightarrow> u32_len m = Ok w \<Longrightarrow> n = m"
  by (auto simp: u32_len_eq_Ok word_of_nat_eq_iff take_bit_eq_mod)

lemma tag_inject [simp]:
  "base_role_tag r = base_role_tag q \<longleftrightarrow> r = q" "activation_tag a = activation_tag b \<longleftrightarrow> a = b"
  by (cases r; cases q; simp) (cases a; cases b; simp)

interpretation put_scope: prefix_code put_scope
proof
  fix x y a b r s
  assume "put_scope x = Ok a" and "put_scope y = Ok b" and eq: "a @ r = b @ s"
  then obtain n m where n: "u32_len (length (to_wire x)) = Ok n" "a = put_u32 n @ string_bytes (to_wire x)"
    and m: "u32_len (length (to_wire y)) = Ok m" "b = put_u32 m @ string_bytes (to_wire y)"
    by (auto simp: put_scope_def Let_def)
  from eq n(2) m(2) have "n = m" and
    tl: "string_bytes (to_wire x) @ r = string_bytes (to_wire y) @ s" by auto
  with n(1) m(1) have "length (to_wire x) = length (to_wire y)" using u32_len_inject by blast
  with tl show "x = y \<and> r = s" by simp
qed

interpretation put_term: prefix_code put_term
proof
  fix t u a b r s
  assume "put_term t = Ok a" and "put_term u = Ok b" and eq: "a @ r = b @ s"
  then obtain p q where p: "put_scope (ot_scope t) = Ok p" and q: "put_scope (ot_scope u) = Ok q"
    and a: "a = p @ put_node (ot_owner_node t) @ put_u64 (ot_epoch t) @ put_u64 (ot_generation t)"
    and b: "b = q @ put_node (ot_owner_node u) @ put_u64 (ot_epoch u) @ put_u64 (ot_generation u)"
    by (auto simp: put_term_def)
  let ?tl = "\<lambda>x y. put_node (ot_owner_node x) @ put_u64 (ot_epoch x) @ put_u64 (ot_generation x) @ y"
  from eq a b have "p @ ?tl t r = q @ ?tl u s" by simp
  from put_scope.split_unique [OF p q this] show "t = u \<and> r = s" by simp
qed

interpretation put_base_state: prefix_code put_base_state
proof
  fix c d a b r s
  assume "put_base_state c = Ok a" and "put_base_state d = Ok b" and eq: "a @ r = b @ s"
  then obtain p q t u where p: "put_scope (bs_scope c) = Ok p" and q: "put_scope (bs_scope d) = Ok q"
    and t: "put_term (bs_owner_term c) = Ok t" and u: "put_term (bs_owner_term d) = Ok u"
    and a: "a = p @ put_node (bs_recipient_node c) @ t
              @ [base_role_tag (bs_base_role c), activation_tag (bs_activation_state c)]"
    and b: "b = q @ put_node (bs_recipient_node d) @ u
              @ [base_role_tag (bs_base_role d), activation_tag (bs_activation_state d)]"
    by (auto simp: put_base_state_def)
  let ?tl = "\<lambda>x y. [base_role_tag (bs_base_role x), activation_tag (bs_activation_state x)] @ y"
  from eq a b have "p @ (put_node (bs_recipient_node c) @ t @ ?tl c r)
    = q @ (put_node (bs_recipient_node d) @ u @ ?tl d s)" by simp
  from put_scope.split_unique [OF p q this]
  have "bs_scope c = bs_scope d" "bs_recipient_node c = bs_recipient_node d"
    and "t @ ?tl c r = u @ ?tl d s" by simp_all
  with put_term.split_unique [OF t u this(3)] show "c = d \<and> r = s" by simp
qed

lemma global_payload_eq_Ok:
  "global_canonical_payload g = Ok p \<longleftrightarrow>
     (\<exists>n rows. u32_len (length (gs_sorted_terms g)) = Ok n
        \<and> try_collect put_term (gs_sorted_terms g) = Ok rows
        \<and> p = put_u32 (gs_schema_version g) @ put_u64 (gs_generation g)
               @ put_u64 (gs_revision g) @ put_u32 n @ concat rows)"
  by (auto simp: global_canonical_payload_def)

lemma local_payload_eq_Ok:
  "local_canonical_payload l = Ok p \<longleftrightarrow>
     (\<exists>n rows. u32_len (length (ls_sorted_base_states l)) = Ok n
        \<and> try_collect put_base_state (ls_sorted_base_states l) = Ok rows
        \<and> p = put_u32 (ls_schema_version l) @ put_node (ls_recipient_node l)
               @ put_u64 (ls_generation l) @ put_u64 (ls_revision l) @ put_u32 n @ concat rows)"
  by (auto simp: local_canonical_payload_def)

lemma global_payload_inject:
  assumes "global_canonical_payload g = Ok p" and "global_canonical_payload h = Ok p"
  shows "g\<lparr>gs_checksum := c\<rparr> = h\<lparr>gs_checksum := c\<rparr>"
proof -
  from assms obtain n m rows rows' where
    n: "u32_len (length (gs_sorted_terms g)) = Ok n" and rg: "try_collect put_term (gs_sorted_terms g) = Ok rows"
    and m: "u32_len (length (gs_sorted_terms h)) = Ok m" and rh: "try_collect put_term (gs_sorted_terms h) = Ok rows'"
    and hd: "gs_schema_version g = gs_schema_version h" "gs_generation g = gs_generation h"
      "gs_revision g = gs_revision h" "n = m" and rows: "concat rows = concat rows'"
    unfolding global_payload_eq_Ok by auto
  from n m hd(4) have "length (gs_sorted_terms g) = length (gs_sorted_terms h)"
    using u32_len_inject by blast
  with put_term.concat_split_unique [OF rg rh, of "[]" "[]"] rows
  have "gs_sorted_terms g = gs_sorted_terms h" by simp
  with hd show ?thesis by (cases g, cases h) simp
qed

lemma local_payload_inject:
  assumes "local_canonical_payload l = Ok p" and "local_canonical_payload k = Ok p"
  shows "l\<lparr>ls_checksum := c\<rparr> = k\<lparr>ls_checksum := c\<rparr>"
proof -
  from assms obtain n m rows rows' where
    n: "u32_len (length (ls_sorted_base_states l)) = Ok n" and rl: "try_collect put_base_state (ls_sorted_base_states l) = Ok rows"
    and m: "u32_len (length (ls_sorted_base_states k)) = Ok m" and rk: "try_collect put_base_state (ls_sorted_base_states k) = Ok rows'"
    and hd: "ls_schema_version l = ls_schema_version k" "ls_recipient_node l = ls_recipient_node k"
      "ls_generation l = ls_generation k" "ls_revision l = ls_revision k" "n = m"
    and rows: "concat rows = concat rows'"
    unfolding local_payload_eq_Ok by auto
  from n m hd(5) have "length (ls_sorted_base_states l) = length (ls_sorted_base_states k)"
    using u32_len_inject by blast
  with put_base_state.concat_split_unique [OF rl rk, of "[]" "[]"] rows
  have "ls_sorted_base_states l = ls_sorted_base_states k" by simp
  with hd show ?thesis by (cases l, cases k) simp
qed

text \<open>
  C24. The checksummed payload determines the snapshot: two global snapshots, or two
  recipient-local ones, with the same canonical payload agree in every field but the
  checksum itself, so the checksum covers schema, generation, revision, recipient and every
  row.
\<close>

theorem canonical_payload_injective:
  "global_canonical_payload g = Ok p \<Longrightarrow> global_canonical_payload h = Ok p \<Longrightarrow>
   local_canonical_payload l = Ok q \<Longrightarrow> local_canonical_payload k = Ok q \<Longrightarrow>
   g\<lparr>gs_checksum := c\<rparr> = h\<lparr>gs_checksum := c\<rparr> \<and> l\<lparr>ls_checksum := d\<rparr> = k\<lparr>ls_checksum := d\<rparr>"
  using global_payload_inject local_payload_inject by blast

section \<open>Strictly sorted rows\<close>

lemma rows_are_strictly_sorted_iff:
  "rows_are_strictly_sorted sc rows \<longleftrightarrow> sorted_wrt (<) (map (to_wire \<circ> sc) rows)"
proof -
  have "transp (\<lambda>a b. to_wire (sc a) < to_wire (sc b))" by (rule transpI) simp
  then show ?thesis
    by (simp add: rows_are_strictly_sorted_def successively_conv_sorted_wrt sorted_wrt_map)
qed

lemma strictly_sorted_distinct:
  assumes "rows_are_strictly_sorted sc rows"
  shows "distinct (map sc rows)"
proof -
  have "distinct (map (to_wire \<circ> sc) rows)"
    using assms by (simp add: rows_are_strictly_sorted_iff strict_sorted_iff)
  then show ?thesis by (metis distinct_map map_map)
qed

lemma strict_sorted_rows_unique:
  fixes f :: "'r \<Rightarrow> 'k::linorder"
  assumes "sorted_wrt (<) (map f xs)" and "sorted_wrt (<) (map f ys)"
    and "set xs \<subseteq> set ys" and "length xs = length ys"
  shows "xs = ys"
proof -
  from assms(1,2) have d: "distinct xs" "distinct ys" and inj: "inj_on f (set ys)"
    by (auto simp: strict_sorted_iff distinct_map)
  from d assms(3,4) have eq: "set xs = set ys" by (metis card_subset_eq distinct_card finite_set)
  have "map f xs = map f ys"
    using assms(1,2) eq by (metis set_map strict_sorted_equal)
  with inj eq show ?thesis by (simp add: inj_on_map_eq_map)
qed

lemma sort_key_perm:
  fixes f :: "'r \<Rightarrow> 'k::linorder"
  assumes "distinct (map f xs)" and "mset xs = mset ys"
  shows "sort_key f xs = sort_key f ys"
proof (rule strict_sorted_rows_unique [where f = f])
  have d: "distinct (map f ys)" using assms by (metis mset_eq_imp_distinct_iff mset_map)
  have "distinct (map f (sort_key f zs))" if "distinct (map f zs)" for zs
    using that by (simp add: distinct_map)
  with assms(1) d show "sorted_wrt (<) (map f (sort_key f xs))" "sorted_wrt (<) (map f (sort_key f ys))"
    by (simp_all add: strict_sorted_iff)
  show "set (sort_key f xs) \<subseteq> set (sort_key f ys)" "length (sort_key f xs) = length (sort_key f ys)"
    using mset_eq_setD [OF assms(2)] mset_eq_length [OF assms(2)] by simp_all
qed

section \<open>Construction\<close>

lemma payload_checksum_irrelevant [simp]:
  "global_canonical_payload (g\<lparr>gs_checksum := c\<rparr>) = global_canonical_payload g"
  "local_canonical_payload (l\<lparr>ls_checksum := c\<rparr>) = local_canonical_payload l"
  by (simp_all add: global_canonical_payload_def local_canonical_payload_def)

lemma validate_rows_checksum_irrelevant [simp]:
  "global_validate_rows (g\<lparr>gs_checksum := c\<rparr>) = global_validate_rows g"
  "local_validate_rows (l\<lparr>ls_checksum := c\<rparr>) = local_validate_rows l"
  by (cases g, simp add: global_validate_rows_def cong: if_cong)
    (cases l, simp add: local_validate_rows_def cong: if_cong)

lemma owner_term_snapshot_new_OkD:
  assumes "owner_term_snapshot_new sha gen rvn ts = Ok g"
  shows "global_validate sha g = Ok ()" and "gs_generation g = gen" and "gs_revision g = rvn"
    and "gs_sorted_terms g = sort_key (\<lambda>t. to_wire (ot_scope t)) ts"
    and "distinct (map ot_scope ts)"
proof -
  define S where "S = \<lparr>gs_schema_version = OWNER_SNAPSHOT_SCHEMA_VERSION,
    gs_generation = gen, gs_revision = rvn,
    gs_sorted_terms = sort_key (\<lambda>t. to_wire (ot_scope t)) ts, gs_checksum = replicate 32 0\<rparr>"
  from assms obtain p where p: "global_validate_rows S = Ok ()" "global_canonical_payload S = Ok p"
    "g = S\<lparr>gs_checksum := sha p\<rparr>"
    unfolding owner_term_snapshot_new_def Let_def S_def [symmetric] by auto
  then show g: "global_validate sha g = Ok ()" by (simp add: global_validate_def)
  from p show "gs_generation g = gen" "gs_revision g = rvn"
    and t: "gs_sorted_terms g = sort_key (\<lambda>t. to_wire (ot_scope t)) ts" by (simp_all add: S_def)
  from g have "rows_are_strictly_sorted ot_scope (gs_sorted_terms g)"
    by (auto simp: global_validate_def global_validate_rows_def split: if_splits)
  from strictly_sorted_distinct [OF this] t show "distinct (map ot_scope ts)"
    by (metis mset_eq_imp_distinct_iff mset_map mset_sort)
qed

lemma local_owner_state_snapshot_new_OkD:
  assumes "local_owner_state_snapshot_new sha recipient gen rvn bs = Ok l"
  shows "local_validate sha l = Ok ()" and "ls_recipient_node l = recipient"
    and "ls_generation l = gen" and "ls_revision l = rvn"
    and "ls_sorted_base_states l = sort_key (\<lambda>b. to_wire (bs_scope b)) bs"
proof -
  define S where "S = \<lparr>ls_schema_version = OWNER_SNAPSHOT_SCHEMA_VERSION,
    ls_recipient_node = recipient, ls_generation = gen, ls_revision = rvn,
    ls_sorted_base_states = sort_key (\<lambda>b. to_wire (bs_scope b)) bs, ls_checksum = replicate 32 0\<rparr>"
  from assms obtain p where p: "local_validate_rows S = Ok ()" "local_canonical_payload S = Ok p"
    "l = S\<lparr>ls_checksum := sha p\<rparr>"
    unfolding local_owner_state_snapshot_new_def Let_def S_def [symmetric] by auto
  then show "local_validate sha l = Ok ()" by (simp add: local_validate_def)
  from p show "ls_recipient_node l = recipient" "ls_generation l = gen" "ls_revision l = rvn"
    "ls_sorted_base_states l = sort_key (\<lambda>b. to_wire (bs_scope b)) bs" by (simp_all add: S_def)
qed

text \<open>
   Snapshot construction is canonical: a snapshot that is built validates, and it does
  not depend on the order in which the terms were given, so two coordinators holding the
  same set of terms issue the same bytes and the same checksum.
\<close>

theorem snapshot_new_canonical:
  assumes "owner_term_snapshot_new sha gen rvn ts = Ok g" and "mset us = mset ts"
  shows "global_validate sha g = Ok () \<and> owner_term_snapshot_new sha gen rvn us = Ok g"
proof -
  note new = owner_term_snapshot_new_OkD [OF assms(1)]
  from new(5) have "distinct (map (\<lambda>t. to_wire (ot_scope t)) ts)"
    by (simp add: distinct_map inj_on_def)
  from sort_key_perm [OF this] assms(2)
  have "sort_key (\<lambda>t. to_wire (ot_scope t)) us = sort_key (\<lambda>t. to_wire (ot_scope t)) ts" by metis
  then have "owner_term_snapshot_new sha gen rvn us = owner_term_snapshot_new sha gen rvn ts"
    by (simp add: owner_term_snapshot_new_def)
  with assms(1) new(1) show ?thesis by simp
qed

section \<open>What a validated pair promises\<close>

definition owner_pair_spec ::
  "(bytes \<Rightarrow> bytes) \<Rightarrow> owner_term_snapshot \<Rightarrow> local_owner_state_snapshot \<Rightarrow> bool" where
  "owner_pair_spec sha g l \<longleftrightarrow>
     gs_schema_version g = OWNER_SNAPSHOT_SCHEMA_VERSION
     \<and> ls_schema_version l = gs_schema_version g
     \<and> ls_generation l = gs_generation g \<and> ls_revision l = gs_revision g
     \<and> (\<exists>p. global_canonical_payload g = Ok p \<and> gs_checksum g = sha p)
     \<and> (\<exists>q. local_canonical_payload l = Ok q \<and> ls_checksum l = sha q)
     \<and> rows_are_strictly_sorted ot_scope (gs_sorted_terms g)
     \<and> (\<forall>t \<in> set (gs_sorted_terms g). ot_generation t = gs_generation g)
     \<and> map bs_owner_term (ls_sorted_base_states l) = gs_sorted_terms g
     \<and> (\<forall>b \<in> set (ls_sorted_base_states l).
          bs_scope b = ot_scope (bs_owner_term b)
          \<and> bs_recipient_node b = ls_recipient_node l
          \<and> bs_activation_state b \<noteq> LegacyUnknown
          \<and> (if ot_owner_node (bs_owner_term b) = ls_recipient_node l
              then bs_base_role b = BaseOwner
              else bs_base_role b = BaseFollower \<and> bs_activation_state b = NotRoutable))"

lemma global_validate_eq_Ok:
  "global_validate sha g = Ok () \<longleftrightarrow>
     gs_schema_version g = OWNER_SNAPSHOT_SCHEMA_VERSION
     \<and> rows_are_strictly_sorted ot_scope (gs_sorted_terms g)
     \<and> (\<forall>t \<in> set (gs_sorted_terms g). ot_generation t = gs_generation g)
     \<and> (\<exists>p. global_canonical_payload g = Ok p \<and> gs_checksum g = sha p)"
  by (auto simp: global_validate_def global_validate_rows_def)

lemma local_validate_eq_Ok:
  "local_validate sha l = Ok () \<longleftrightarrow>
     ls_schema_version l = OWNER_SNAPSHOT_SCHEMA_VERSION
     \<and> rows_are_strictly_sorted bs_scope (ls_sorted_base_states l)
     \<and> (\<forall>b \<in> set (ls_sorted_base_states l). bs_recipient_node b = ls_recipient_node l
           \<and> ot_scope (bs_owner_term b) = bs_scope b
           \<and> ot_generation (bs_owner_term b) = ls_generation l)
     \<and> (\<exists>p. local_canonical_payload l = Ok p \<and> ls_checksum l = sha p)"
  by (auto simp: local_validate_def local_validate_rows_def split: if_splits)

lemma pair_row_check_eq_Ok:
  "pair_row_check gt recipient b = Ok () \<longleftrightarrow>
     gt (bs_scope b) = Some (bs_owner_term b)
     \<and> bs_activation_state b \<noteq> LegacyUnknown
     \<and> (if ot_owner_node (bs_owner_term b) = recipient then bs_base_role b = BaseOwner
         else bs_base_role b = BaseFollower \<and> bs_activation_state b = NotRoutable)"
  by (cases "bs_base_role b") (auto simp: pair_row_check_def Let_def)

lemma base_terms_eq:
  assumes g: "rows_are_strictly_sorted ot_scope ts" and b: "rows_are_strictly_sorted bs_scope bs"
    and len: "length ts = length bs"
    and row: "\<And>b. b \<in> set bs \<Longrightarrow> ot_scope (bs_owner_term b) = bs_scope b
      \<and> map_extend Map.empty ot_scope ts (bs_scope b) = Some (bs_owner_term b)"
  shows "map bs_owner_term bs = ts"
proof (rule strict_sorted_rows_unique [where f = "to_wire \<circ> ot_scope"])
  have "map (to_wire \<circ> ot_scope) (map bs_owner_term bs) = map (to_wire \<circ> bs_scope) bs"
    using row by auto
  with b show "sorted_wrt (<) (map (to_wire \<circ> ot_scope) (map bs_owner_term bs))"
    by (simp only: rows_are_strictly_sorted_iff)
  show "sorted_wrt (<) (map (to_wire \<circ> ot_scope) ts)"
    using g by (simp add: rows_are_strictly_sorted_iff)
  show "set (map bs_owner_term bs) \<subseteq> set ts"
    using row map_extend_empty_eq_Some [OF strictly_sorted_distinct [OF g]] by auto
  show "length (map bs_owner_term bs) = length ts" using len by simp
qed

lemma owner_pair_spec_base_sorted:
  assumes "owner_pair_spec sha g l"
  shows "rows_are_strictly_sorted bs_scope (ls_sorted_base_states l)"
proof -
  from assms have b: "\<forall>b \<in> set (ls_sorted_base_states l). bs_scope b = ot_scope (bs_owner_term b)"
    and t: "gs_sorted_terms g = map bs_owner_term (ls_sorted_base_states l)"
    and s: "sorted_wrt (<) (map (to_wire \<circ> ot_scope) (gs_sorted_terms g))"
    by (auto simp: owner_pair_spec_def rows_are_strictly_sorted_iff)
  from b have "map (to_wire \<circ> bs_scope) (ls_sorted_base_states l)
      = map (to_wire \<circ> ot_scope) (map bs_owner_term (ls_sorted_base_states l))" by simp
  with s show ?thesis by (simp only: rows_are_strictly_sorted_iff t)
qed

lemma validate_pair_iff_spec: "validate_owner_snapshot_pair sha g l = Ok () \<longleftrightarrow> owner_pair_spec sha g l"
proof
  assume "validate_owner_snapshot_pair sha g l = Ok ()"
  then have v: "global_validate sha g = Ok ()" "local_validate sha l = Ok ()"
    and env: "gs_schema_version g = ls_schema_version l" "gs_generation g = ls_generation l"
      "gs_revision g = ls_revision l" "length (gs_sorted_terms g) = length (ls_sorted_base_states l)"
    and rows: "\<forall>b \<in> set (ls_sorted_base_states l).
      pair_row_check (map_extend Map.empty ot_scope (gs_sorted_terms g)) (ls_recipient_node l) b = Ok ()"
    by (auto simp: validate_owner_snapshot_pair_def split: if_splits)
  have "map bs_owner_term (ls_sorted_base_states l) = gs_sorted_terms g"
    by (rule base_terms_eq) (use v env(4) rows in \<open>auto simp: global_validate_eq_Ok local_validate_eq_Ok pair_row_check_eq_Ok\<close>)
  with v env rows show "owner_pair_spec sha g l"
    by (auto simp: owner_pair_spec_def global_validate_eq_Ok local_validate_eq_Ok pair_row_check_eq_Ok)
next
  assume spec: "owner_pair_spec sha g l"
  have d: "distinct (map ot_scope (gs_sorted_terms g))"
    using spec strictly_sorted_distinct by (auto simp: owner_pair_spec_def)
  have len: "length (gs_sorted_terms g) = length (ls_sorted_base_states l)"
    using spec by (auto simp: owner_pair_spec_def dest: arg_cong [where f = length])
  have mem: "bs_owner_term b \<in> set (gs_sorted_terms g)" if "b \<in> set (ls_sorted_base_states l)" for b
    using spec that by (metis (no_types, lifting) image_eqI owner_pair_spec_def set_map)
  have "pair_row_check (map_extend Map.empty ot_scope (gs_sorted_terms g)) (ls_recipient_node l) b = Ok ()"
    if "b \<in> set (ls_sorted_base_states l)" for b
    using spec that mem [OF that] map_extend_empty_eq_Some [OF d]
    by (auto simp: owner_pair_spec_def pair_row_check_eq_Ok)
  moreover have "global_validate sha g = Ok ()"
    using spec by (simp add: owner_pair_spec_def global_validate_eq_Ok)
  moreover have "local_validate sha l = Ok ()"
    using spec mem owner_pair_spec_base_sorted [OF spec]
    by (simp add: owner_pair_spec_def local_validate_eq_Ok)
  ultimately show "validate_owner_snapshot_pair sha g l = Ok ()"
    using spec len by (simp add: validate_owner_snapshot_pair_def owner_pair_spec_def)
qed

text \<open>
  C23. Pair validation implements its specification exactly: a global and a local snapshot are
  accepted if and only if their envelopes agree, both checksums match, the terms are strictly
  ordered by scope and of the snapshot's generation, the local rows are the global terms row
  by row, and each row marks the recipient as owner exactly where the term names it, with
  followers never routable and no legacy activation.
\<close>

theorem validate_pair_refines_spec:
  "is_ok (validate_owner_snapshot_pair sha g l) \<longleftrightarrow> owner_pair_spec sha g l"
  using validate_pair_iff_spec by (metis is_ok_iff old.unit.exhaust)

section \<open>Construction succeeds\<close>

lemma put_scope_Ok: "length (to_wire sc) < 2 ^ 32 \<Longrightarrow> \<exists>p. put_scope sc = Ok p"
  by (simp add: put_scope_def u32_len_def Let_def)

lemma put_term_Ok: "length (to_wire (ot_scope t)) < 2 ^ 32 \<Longrightarrow> \<exists>p. put_term t = Ok p"
  using put_scope_Ok [of "ot_scope t"] by (auto simp: put_term_def)

lemma put_base_state_Ok:
  assumes "length (to_wire (bs_scope b)) < 2 ^ 32" and "ot_scope (bs_owner_term b) = bs_scope b"
  shows "\<exists>p. put_base_state b = Ok p"
  using put_scope_Ok [OF assms(1)] put_term_Ok [of "bs_owner_term b"] assms
  by (auto simp: put_base_state_def)

lemma try_collect_Ok: "\<forall>x \<in> set xs. \<exists>y. f x = Ok y \<Longrightarrow> \<exists>ys. try_collect f xs = Ok ys"
  by (induction xs) auto

lemma global_payload_Ok:
  assumes "length (gs_sorted_terms g) < 2 ^ 32"
    and "\<forall>t \<in> set (gs_sorted_terms g). length (to_wire (ot_scope t)) < 2 ^ 32"
  shows "\<exists>p. global_canonical_payload g = Ok p"
  using try_collect_Ok [of "gs_sorted_terms g" put_term] put_term_Ok assms
  by (auto simp: global_canonical_payload_def u32_len_def)

lemma local_payload_Ok:
  assumes "length (ls_sorted_base_states l) < 2 ^ 32"
    and "\<forall>b \<in> set (ls_sorted_base_states l). length (to_wire (bs_scope b)) < 2 ^ 32
           \<and> ot_scope (bs_owner_term b) = bs_scope b"
  shows "\<exists>p. local_canonical_payload l = Ok p"
  using try_collect_Ok [of "ls_sorted_base_states l" put_base_state] put_base_state_Ok assms
  by (auto simp: local_canonical_payload_def u32_len_def)

section \<open>Worked example\<close>

text \<open>
  A two-scope snapshot in which node 1 owns the world and node 2 one agent, with the local
  half of any recipient; the hash is instantiated by a constant function.
\<close>

definition ex_sha :: "bytes \<Rightarrow> bytes" where
  "ex_sha p = replicate 32 0"

definition ex_world_term :: owner_term where
  "ex_world_term = \<lparr>ot_scope = World, ot_owner_node = NodeId 1, ot_epoch = 1, ot_generation = 1\<rparr>"

definition ex_agent_term :: owner_term where
  "ex_agent_term = \<lparr>ot_scope = NanoContainer ''a'', ot_owner_node = NodeId 2, ot_epoch = 3, ot_generation = 1\<rparr>"

definition ex_base :: "node_id \<Rightarrow> owner_term \<Rightarrow> local_owner_base_state" where
  "ex_base n t = \<lparr>bs_scope = ot_scope t, bs_recipient_node = n, bs_owner_term = t,
     bs_base_role = (if ot_owner_node t = n then BaseOwner else BaseFollower),
     bs_activation_state = (if ot_owner_node t = n then Routable else NotRoutable)\<rparr>"

definition ex_snap_global :: "u64 \<Rightarrow> owner_term list \<Rightarrow> owner_term_snapshot" where
  "ex_snap_global rvn ts = \<lparr>gs_schema_version = 1, gs_generation = 1, gs_revision = rvn,
     gs_sorted_terms = ts, gs_checksum = replicate 32 0\<rparr>"

definition ex_snap_local :: "node_id \<Rightarrow> u64 \<Rightarrow> owner_term list \<Rightarrow> local_owner_state_snapshot" where
  "ex_snap_local n rvn ts = \<lparr>ls_schema_version = 1, ls_recipient_node = n, ls_generation = 1,
     ls_revision = rvn, ls_sorted_base_states = map (ex_base n) ts, ls_checksum = replicate 32 0\<rparr>"

definition ex_global :: owner_term_snapshot where
  "ex_global = ex_snap_global 4 [ex_agent_term, ex_world_term]"

definition ex_local :: "node_id \<Rightarrow> local_owner_state_snapshot" where
  "ex_local n = ex_snap_local n 4 [ex_agent_term, ex_world_term]"

lemmas ex_defs = ex_sha_def ex_world_term_def ex_agent_term_def ex_base_def ex_global_def ex_local_def
  ex_snap_global_def ex_snap_local_def

lemma ex_snap_sel [simp]:
  "gs_generation (ex_snap_global rvn ts) = 1" "gs_revision (ex_snap_global rvn ts) = rvn"
  "gs_sorted_terms (ex_snap_global rvn ts) = ts" "ls_recipient_node (ex_snap_local n rvn ts) = n"
  by (simp_all add: ex_snap_global_def ex_snap_local_def)

lemma ex_term_sel [simp]:
  "ot_scope ex_world_term = World" "ot_owner_node ex_world_term = NodeId 1" "ot_epoch ex_world_term = 1"
  "ot_generation ex_world_term = 1" "ot_scope ex_agent_term = NanoContainer ''a''"
  "ot_owner_node ex_agent_term = NodeId 2" "ot_epoch ex_agent_term = 3" "ot_generation ex_agent_term = 1"
  by (simp_all add: ex_world_term_def ex_agent_term_def)

lemma ex_snap_payloads:
  assumes "length ts < 2 ^ 32" and "\<forall>t \<in> set ts. length (to_wire (ot_scope t)) < 2 ^ 32"
  shows "\<exists>p. global_canonical_payload (ex_snap_global rvn ts) = Ok p"
    and "\<exists>p. local_canonical_payload (ex_snap_local n rvn ts) = Ok p"
  using assms
  by (auto simp: ex_snap_global_def ex_snap_local_def ex_base_def intro!: global_payload_Ok local_payload_Ok)

lemma ex_snap_spec:
  assumes "rows_are_strictly_sorted ot_scope ts" and "\<forall>t \<in> set ts. ot_generation t = 1"
    and "length ts < 2 ^ 32" and "\<forall>t \<in> set ts. length (to_wire (ot_scope t)) < 2 ^ 32"
  shows "owner_pair_spec ex_sha (ex_snap_global rvn ts) (ex_snap_local n rvn ts)"
proof -
  obtain p q where "global_canonical_payload (ex_snap_global rvn ts) = Ok p"
    "local_canonical_payload (ex_snap_local n rvn ts) = Ok q"
    using ex_snap_payloads [OF assms(3,4)] by blast
  moreover have "map bs_owner_term (map (ex_base n) ts) = ts" by (induction ts) (simp_all add: ex_base_def)
  ultimately show ?thesis
    using assms(1,2)
    by (auto simp: owner_pair_spec_def ex_snap_global_def ex_snap_local_def ex_base_def ex_sha_def
        OWNER_SNAPSHOT_SCHEMA_VERSION_def)
qed

lemma ex_terms_sorted: "rows_are_strictly_sorted ot_scope [ex_agent_term, ex_world_term]"
  by (simp add: ex_defs rows_are_strictly_sorted_def less_list_code)

lemma ex_payloads:
  "\<exists>p. global_canonical_payload ex_global = Ok p" "\<exists>p. local_canonical_payload (ex_local n) = Ok p"
  unfolding ex_global_def ex_local_def
  by (rule ex_snap_payloads; simp add: ex_agent_term_def ex_world_term_def)+

lemma ex_pair_spec: "owner_pair_spec ex_sha ex_global (ex_local n)"
  unfolding ex_global_def ex_local_def
  by (rule ex_snap_spec [OF ex_terms_sorted]) (simp_all add: ex_agent_term_def ex_world_term_def)

lemma ex_new_global: "owner_term_snapshot_new ex_sha 1 4 [ex_world_term, ex_agent_term] = Ok ex_global"
proof -
  have eq: "\<lparr>gs_schema_version = OWNER_SNAPSHOT_SCHEMA_VERSION, gs_generation = 1, gs_revision = 4,
      gs_sorted_terms = sort_key (\<lambda>t. to_wire (ot_scope t)) [ex_world_term, ex_agent_term],
      gs_checksum = replicate 32 0\<rparr> = ex_global"
    by (simp add: ex_defs OWNER_SNAPSHOT_SCHEMA_VERSION_def less_eq_list_code)
  have "global_validate ex_sha ex_global = Ok ()"
    using ex_pair_spec by (simp add: global_validate_eq_Ok owner_pair_spec_def)
  moreover have "ex_global\<lparr>gs_checksum := ex_sha p\<rparr> = ex_global" for p by (simp add: ex_defs)
  ultimately show ?thesis
    unfolding owner_term_snapshot_new_def Let_def eq by (auto simp: global_validate_def)
qed

theorem snapshot_new_canonical_witness:
  "global_validate ex_sha ex_global = Ok ()
   \<and> owner_term_snapshot_new ex_sha 1 4 [ex_agent_term, ex_world_term] = Ok ex_global"
  using snapshot_new_canonical [OF ex_new_global, of "[ex_agent_term, ex_world_term]"] by simp

theorem canonical_payload_injective_witness:
  "\<exists>p q. global_canonical_payload ex_global = Ok p \<and> local_canonical_payload (ex_local (NodeId 2)) = Ok q
     \<and> ex_global\<lparr>gs_checksum := []\<rparr> = (ex_global\<lparr>gs_checksum := [1]\<rparr>)\<lparr>gs_checksum := []\<rparr>
     \<and> (ex_local (NodeId 2))\<lparr>ls_checksum := []\<rparr>
         = ((ex_local (NodeId 2))\<lparr>ls_checksum := [1]\<rparr>)\<lparr>ls_checksum := []\<rparr>"
proof -
  obtain p q where pq: "global_canonical_payload ex_global = Ok p"
    "local_canonical_payload (ex_local (NodeId 2)) = Ok q" using ex_payloads by blast
  have "global_canonical_payload (ex_global\<lparr>gs_checksum := [1]\<rparr>) = Ok p"
    "local_canonical_payload ((ex_local (NodeId 2))\<lparr>ls_checksum := [1]\<rparr>) = Ok q"
    using pq by simp_all
  from canonical_payload_injective [OF pq(1) this(1) pq(2) this(2), of "[]" "[]"] pq
  show ?thesis by blast
qed

end
