(* ===== verification/Owner_Registry.thy ===== *)
theory Owner_Registry
  imports Owner_Snapshot
begin

text \<open>
  The in-memory owner registry (\<open>OwnerRegistry\<close> of
  \<open>crates/sentinel-common/src/fencing.rs\<close>): which scope this node may write, the
  capability it issues for a write and the check every fenced store repeats at begin and
  commit.  Locks and atomics become fields of one record; the publication order of
  \<open>commit_owner\<close> is kept as an explicit sequence of intermediate states.
\<close>

section \<open>Data\<close>

datatype local_owner_operation_kind = LegacyReconciliation | Handoff | Migration

datatype local_owner_saga_role = SagaRetiring | SagaRetired | SagaPreparedTarget | SagaOwnerActivating

datatype local_residency_kind = Active | PreparedFrozen | Absent

record local_owner_saga_state =
  sg_scope :: state_transfer_scope
  sg_operation_kind :: local_owner_operation_kind
  sg_op_id :: "uuid option"
  sg_owner_term :: owner_term
  sg_role :: local_owner_saga_role
  sg_transition_seq :: u64

record owner_write_guard =
  gd_scope :: state_transfer_scope
  gd_owner_node :: node_id
  gd_epoch :: u64
  gd_generation :: u64

datatype owner_issue_error =
    ReadinessClosed state_transfer_scope
  | UnknownScope state_transfer_scope
  | RecipientMismatch state_transfer_scope node_id node_id
  | GenerationMismatch state_transfer_scope u64 u64
  | NotOwner state_transfer_scope node_id node_id
  | RoleNotOwner state_transfer_scope
  | NotRoutableScope state_transfer_scope activation_state
  | SagaOverlay state_transfer_scope local_owner_saga_role
  | TermChanged state_transfer_scope node_id u64 u64 node_id u64 u64

datatype local_owner_role =
  RoleOwner | RoleRetiring | RoleRetired | RoleFollower | RolePreparedTarget | RoleOwnerActivating

record local_owner_state =
  lo_scope :: state_transfer_scope
  lo_node_id :: node_id
  lo_epoch :: u64
  lo_role :: local_owner_role

record owner_registry =
  reg_this_node :: node_id
  reg_mode :: u8
  reg_terms :: "state_transfer_scope \<rightharpoonup> owner_term"
  reg_base_states :: "state_transfer_scope \<rightharpoonup> local_owner_base_state"
  reg_saga_states :: "state_transfer_scope \<rightharpoonup> local_owner_saga_state"
  reg_readiness :: bool

definition SINGLE_NODE_EPOCH :: u64 where "SINGLE_NODE_EPOCH = 1"
definition MODE_SINGLE_NODE :: u8 where "MODE_SINGLE_NODE = 0"
definition MODE_CLUSTER :: u8 where "MODE_CLUSTER = 1"

section \<open>Construction and the readiness latch\<close>

definition single_node :: "node_id \<Rightarrow> owner_registry" where
  "single_node this = \<lparr>reg_this_node = this, reg_mode = MODE_SINGLE_NODE,
     reg_terms = Map.empty, reg_base_states = Map.empty, reg_saga_states = Map.empty,
     reg_readiness = True\<rparr>"

definition cluster_node :: "node_id \<Rightarrow> owner_registry" where
  "cluster_node this = \<lparr>reg_this_node = this, reg_mode = MODE_CLUSTER,
     reg_terms = Map.empty, reg_base_states = Map.empty, reg_saga_states = Map.empty,
     reg_readiness = False\<rparr>"

text \<open>The process-global cell is set at most once; the first initialisation wins.\<close>

definition init_single_node :: "owner_registry option \<Rightarrow> node_id \<Rightarrow> bool \<times> owner_registry option" where
  "init_single_node cell this =
     (case cell of None \<Rightarrow> (True, Some (single_node this)) | Some r \<Rightarrow> (False, Some r))"

definition init_cluster :: "owner_registry option \<Rightarrow> node_id \<Rightarrow> bool \<times> owner_registry option" where
  "init_cluster cell this =
     (case cell of None \<Rightarrow> (True, Some (cluster_node this)) | Some r \<Rightarrow> (False, Some r))"

definition global_registry :: "owner_registry option \<Rightarrow> owner_registry" where
  "global_registry cell = (case cell of None \<Rightarrow> single_node (NodeId 0) | Some r \<Rightarrow> r)"

definition is_cluster_mode :: "owner_registry \<Rightarrow> bool" where
  "is_cluster_mode r = (reg_mode r = MODE_CLUSTER)"

definition close_owner_readiness :: "owner_registry \<Rightarrow> owner_registry" where
  "close_owner_readiness r = r\<lparr>reg_readiness := False\<rparr>"

definition reopen_owner_readiness ::
  "owner_registry \<Rightarrow> (owner_issue_error, owner_registry) result" where
  "reopen_owner_readiness r =
     (if is_cluster_mode r then
        try_bind (ok_or (reg_terms r World) (UnknownScope World)) (\<lambda>term.
        try_bind (ok_or (reg_base_states r World) (UnknownScope World)) (\<lambda>base.
        if bs_recipient_node base \<noteq> reg_this_node r
        then Err (RecipientMismatch World (reg_this_node r) (bs_recipient_node base))
        else if bs_owner_term base \<noteq> term
        then Err (TermChanged World
               (ot_owner_node (bs_owner_term base)) (ot_epoch (bs_owner_term base))
               (ot_generation (bs_owner_term base))
               (ot_owner_node term) (ot_epoch term) (ot_generation term))
        else if ot_owner_node term \<noteq> reg_this_node r
        then Err (NotOwner World (reg_this_node r) (ot_owner_node term))
        else if bs_base_role base \<noteq> BaseOwner then Err (RoleNotOwner World)
        else if bs_activation_state base \<noteq> Routable
        then Err (NotRoutableScope World (bs_activation_state base))
        else (case reg_saga_states r World of
                Some overlay \<Rightarrow> Err (SagaOverlay World (sg_role overlay))
              | None \<Rightarrow> Ok (r\<lparr>reg_readiness := True\<rparr>))))
      else Ok (r\<lparr>reg_readiness := True\<rparr>))"

definition rebuild_from_owner_snapshot ::
  "(bytes \<Rightarrow> bytes) \<Rightarrow> owner_registry \<Rightarrow> owner_term_snapshot \<Rightarrow> local_owner_state_snapshot
   \<Rightarrow> local_owner_saga_state list \<Rightarrow> (owner_snapshot_error, owner_registry) result" where
  "rebuild_from_owner_snapshot sha r g l sagas =
     try_bind (validate_owner_snapshot_pair sha g l) (\<lambda>_.
     if ls_recipient_node l \<noteq> reg_this_node r
     then Err (SnapshotRecipientMismatch ''envelope'')
     else if gs_generation g \<noteq> TRACK_A_COORDINATOR_GENERATION
     then Err (TermGenerationMismatch ''envelope'')
     else Ok (r\<lparr>reg_terms := map_extend Map.empty ot_scope (gs_sorted_terms g),
                reg_base_states := map_extend Map.empty bs_scope (ls_sorted_base_states l),
                reg_saga_states := map_extend Map.empty sg_scope sagas,
                reg_mode := MODE_CLUSTER,
                reg_readiness := True\<rparr>))"

section \<open>Owner terms\<close>

text \<open>
  \<open>commit_owner\<close> publishes in two steps: the term under the write lock, then the mode
  flag.  \<open>commit_owner_steps\<close> lists the states another thread can observe.
\<close>

definition commit_owner :: "owner_registry \<Rightarrow> owner_term \<Rightarrow> owner_registry" where
  "commit_owner r t =
     r\<lparr>reg_terms := (reg_terms r)(ot_scope t \<mapsto> t), reg_mode := MODE_CLUSTER\<rparr>"

definition commit_owner_steps :: "owner_registry \<Rightarrow> owner_term \<Rightarrow> owner_registry list" where
  "commit_owner_steps r t =
     [r, r\<lparr>reg_terms := (reg_terms r)(ot_scope t \<mapsto> t)\<rparr>, commit_owner r t]"

definition seed_term :: "owner_registry \<Rightarrow> state_transfer_scope \<Rightarrow> owner_term" where
  "seed_term r sc = \<lparr>ot_scope = sc, ot_owner_node = reg_this_node r,
     ot_epoch = SINGLE_NODE_EPOCH, ot_generation = 0\<rparr>"

definition current_owner ::
  "owner_registry \<Rightarrow> state_transfer_scope \<Rightarrow> (owner_issue_error, owner_term) result" where
  "current_owner r sc =
     (if reg_mode r = MODE_SINGLE_NODE then Ok (seed_term r sc)
      else ok_or (reg_terms r sc) (UnknownScope sc))"

section \<open>Local retirement and residency\<close>

definition retire_local :: "owner_registry \<Rightarrow> state_transfer_scope \<Rightarrow> u64 \<Rightarrow> owner_registry" where
  "retire_local r sc ep =
     (let term = (case current_owner r sc of
                    Ok t \<Rightarrow> t
                  | Err _ \<Rightarrow> \<lparr>ot_scope = sc, ot_owner_node = reg_this_node r, ot_epoch = ep,
                      ot_generation = (if is_cluster_mode r then TRACK_A_COORDINATOR_GENERATION
                                       else 0)\<rparr>)
      in r\<lparr>reg_saga_states := (reg_saga_states r)(sc \<mapsto>
            \<lparr>sg_scope = sc, sg_operation_kind = Handoff, sg_op_id = None, sg_owner_term = term,
             sg_role = SagaRetired, sg_transition_seq = 0\<rparr>)\<rparr>)"

fun role_of_saga :: "local_owner_saga_role \<Rightarrow> local_owner_role" where
  "role_of_saga SagaRetiring = RoleRetiring"
| "role_of_saga SagaRetired = RoleRetired"
| "role_of_saga SagaPreparedTarget = RolePreparedTarget"
| "role_of_saga SagaOwnerActivating = RoleOwnerActivating"

fun saga_of_role :: "local_owner_role \<Rightarrow> local_owner_saga_role option" where
  "saga_of_role RoleRetiring = Some SagaRetiring"
| "saga_of_role RoleRetired = Some SagaRetired"
| "saga_of_role RolePreparedTarget = Some SagaPreparedTarget"
| "saga_of_role RoleOwnerActivating = Some SagaOwnerActivating"
| "saga_of_role RoleOwner = None"
| "saga_of_role RoleFollower = None"

definition registry_local_owner_state ::
  "owner_registry \<Rightarrow> state_transfer_scope \<Rightarrow> local_owner_state option" where
  "registry_local_owner_state r sc =
     map_option (\<lambda>s. \<lparr>lo_scope = sg_scope s, lo_node_id = reg_this_node r,
        lo_epoch = ot_epoch (sg_owner_term s), lo_role = role_of_saga (sg_role s)\<rparr>)
       (reg_saga_states r sc)"

fun overlay_residency :: "local_owner_saga_role \<Rightarrow> local_residency_kind" where
  "overlay_residency SagaPreparedTarget = PreparedFrozen"
| "overlay_residency SagaRetiring = Absent"
| "overlay_residency SagaRetired = Absent"
| "overlay_residency SagaOwnerActivating = Absent"

definition local_residency ::
  "owner_registry \<Rightarrow> state_transfer_scope \<Rightarrow> (owner_issue_error, local_residency_kind) result" where
  "local_residency r sc =
     (if \<not> is_cluster_mode r then Ok Active
      else if \<not> reg_readiness r then Err (ReadinessClosed sc)
      else try_bind (current_owner r sc) (\<lambda>term.
        case reg_saga_states r sc of
          Some overlay \<Rightarrow> Ok (overlay_residency (sg_role overlay))
        | None \<Rightarrow>
            try_bind (ok_or (reg_base_states r sc) (RoleNotOwner sc)) (\<lambda>base.
            if bs_recipient_node base \<noteq> reg_this_node r \<or> bs_owner_term base \<noteq> term
            then Err (RoleNotOwner sc)
            else case (bs_base_role base, bs_activation_state base) of
                   (BaseOwner, Routable) \<Rightarrow> Ok Active
                 | (BaseFollower, _) \<Rightarrow> Ok Absent
                 | (BaseOwner, activation) \<Rightarrow> Err (NotRoutableScope sc activation))))"

fun restore_local_retirements :: "owner_registry \<Rightarrow> local_owner_state list \<Rightarrow> owner_registry" where
  "restore_local_retirements r [] = r"
| "restore_local_retirements r (s # ss) =
     (case saga_of_role (lo_role s) of
        None \<Rightarrow> restore_local_retirements r ss
      | Some role \<Rightarrow>
          (let term = (case reg_terms r (lo_scope s) of
                         Some t \<Rightarrow> t
                       | None \<Rightarrow> \<lparr>ot_scope = lo_scope s, ot_owner_node = lo_node_id s,
                                  ot_epoch = lo_epoch s, ot_generation = 0\<rparr>)
           in restore_local_retirements
                (r\<lparr>reg_saga_states := (reg_saga_states r)(lo_scope s \<mapsto>
                   \<lparr>sg_scope = lo_scope s, sg_operation_kind = LegacyReconciliation,
                    sg_op_id = None, sg_owner_term = term, sg_role = role,
                    sg_transition_seq = 0\<rparr>)\<rparr>) ss))"

section \<open>Guards\<close>

definition validate :: "owner_registry \<Rightarrow> owner_write_guard \<Rightarrow> (owner_issue_error, unit) result" where
  "validate r gd =
     (let sc = gd_scope gd in
      if \<not> reg_readiness r then Err (ReadinessClosed sc)
      else try_bind (current_owner r sc) (\<lambda>term.
        if gd_owner_node gd \<noteq> ot_owner_node term \<or> gd_epoch gd \<noteq> ot_epoch term
           \<or> gd_generation gd \<noteq> ot_generation term
        then Err (TermChanged sc (gd_owner_node gd) (gd_epoch gd) (gd_generation gd)
               (ot_owner_node term) (ot_epoch term) (ot_generation term))
        else if ot_owner_node term \<noteq> reg_this_node r
        then Err (NotOwner sc (reg_this_node r) (ot_owner_node term))
        else if \<not> is_cluster_mode r then Ok ()
        else if ot_generation term \<noteq> TRACK_A_COORDINATOR_GENERATION
        then Err (GenerationMismatch sc TRACK_A_COORDINATOR_GENERATION (ot_generation term))
        else (case reg_saga_states r sc of
                Some overlay \<Rightarrow> Err (SagaOverlay sc (sg_role overlay))
              | None \<Rightarrow>
                  try_bind (ok_or (reg_base_states r sc) (RoleNotOwner sc)) (\<lambda>base.
                  if bs_recipient_node base \<noteq> reg_this_node r \<or> bs_owner_term base \<noteq> term
                     \<or> bs_base_role base \<noteq> BaseOwner
                  then Err (RoleNotOwner sc)
                  else if bs_activation_state base \<noteq> Routable
                  then Err (NotRoutableScope sc (bs_activation_state base))
                  else Ok ()))))"

definition issue ::
  "owner_registry \<Rightarrow> state_transfer_scope \<Rightarrow> (owner_issue_error, owner_write_guard) result" where
  "issue r sc =
     (if \<not> reg_readiness r then Err (ReadinessClosed sc)
      else try_bind (current_owner r sc) (\<lambda>term.
        let gd = \<lparr>gd_scope = sc, gd_owner_node = ot_owner_node term, gd_epoch = ot_epoch term,
                  gd_generation = ot_generation term\<rparr>
        in try_bind (validate r gd) (\<lambda>_. Ok gd)))"

section \<open>What a guard proves\<close>

definition may_write :: "owner_registry \<Rightarrow> state_transfer_scope \<Rightarrow> owner_term \<Rightarrow> bool" where
  "may_write r sc t \<longleftrightarrow>
     reg_readiness r \<and> current_owner r sc = Ok t \<and> ot_owner_node t = reg_this_node r
     \<and> (is_cluster_mode r \<longrightarrow>
          ot_generation t = TRACK_A_COORDINATOR_GENERATION \<and> reg_saga_states r sc = None
          \<and> (\<exists>b. reg_base_states r sc = Some b \<and> bs_recipient_node b = reg_this_node r
               \<and> bs_owner_term b = t \<and> bs_base_role b = BaseOwner
               \<and> bs_activation_state b = Routable))"

definition guard_of :: "state_transfer_scope \<Rightarrow> owner_term \<Rightarrow> owner_write_guard" where
  "guard_of sc t = \<lparr>gd_scope = sc, gd_owner_node = ot_owner_node t, gd_epoch = ot_epoch t,
     gd_generation = ot_generation t\<rparr>"

definition carries_term :: "owner_write_guard \<Rightarrow> owner_term \<Rightarrow> bool" where
  "carries_term gd t \<longleftrightarrow> gd_owner_node gd = ot_owner_node t \<and> gd_epoch gd = ot_epoch t
     \<and> gd_generation gd = ot_generation t"

lemma guard_of_sel [simp]: "gd_scope (guard_of sc t) = sc" "carries_term (guard_of sc t) t"
  by (simp_all add: guard_of_def carries_term_def)

lemma guard_of_iff: "gd = guard_of sc t \<longleftrightarrow> gd_scope gd = sc \<and> carries_term gd t"
  by (cases gd) (auto simp: guard_of_def carries_term_def)

lemma mode_simps [simp]: "MODE_SINGLE_NODE \<noteq> MODE_CLUSTER" "MODE_CLUSTER \<noteq> MODE_SINGLE_NODE"
  by (simp_all add: MODE_SINGLE_NODE_def MODE_CLUSTER_def)

lemma may_write_term_unique: "may_write r sc t \<Longrightarrow> may_write r sc t' \<Longrightarrow> t = t'"
  by (auto simp: may_write_def)

lemma validate_eq_Ok:
  "validate r gd = Ok () \<longleftrightarrow> (\<exists>t. may_write r (gd_scope gd) t \<and> carries_term gd t)"
proof (cases "reg_readiness r \<and> (\<exists>t. current_owner r (gd_scope gd) = Ok t)")
  case True
  then obtain t where t: "reg_readiness r" "current_owner r (gd_scope gd) = Ok t" by blast
  have "validate r gd = Ok () \<longleftrightarrow> may_write r (gd_scope gd) t \<and> carries_term gd t"
    unfolding validate_def may_write_def carries_term_def Let_def
    by (cases "is_cluster_mode r"; cases "reg_saga_states r (gd_scope gd)";
        cases "reg_base_states r (gd_scope gd)") (simp_all add: t, blast?)
  then show ?thesis using t by (auto simp: may_write_def)
next
  case False
  then show ?thesis by (auto simp: validate_def may_write_def Let_def)
qed

lemma issue_eq_Ok: "issue r sc = Ok gd \<longleftrightarrow> (\<exists>t. may_write r sc t \<and> gd = guard_of sc t)"
proof -
  have "issue r sc = Ok gd \<longleftrightarrow> reg_readiness r
      \<and> (\<exists>t. current_owner r sc = Ok t \<and> validate r (guard_of sc t) = Ok () \<and> gd = guard_of sc t)"
    by (auto simp: issue_def Let_def guard_of_def [symmetric])
  also have "\<dots> \<longleftrightarrow> (\<exists>t. may_write r sc t \<and> gd = guard_of sc t)"
    unfolding validate_eq_Ok guard_of_sel may_write_def by fastforce
  finally show ?thesis .
qed

lemma is_ok_issue: "is_ok (issue r sc) \<longleftrightarrow> (\<exists>t. may_write r sc t)"
  by (auto simp: is_ok_iff issue_eq_Ok)

text \<open>
  C12. A guard is accepted exactly when the registry may write its scope and the guard
  carries the committed term; issuing returns exactly that guard.  In cluster mode this
  needs the open readiness latch, a committed term naming this node in the coordinator
  generation, no saga overlay, and a local base row that marks this node as the routable
  owner of the same term.
\<close>

theorem guard_authority_exact:
  "(validate r gd = Ok () \<longleftrightarrow> (\<exists>t. may_write r (gd_scope gd) t \<and> carries_term gd t))
   \<and> (issue r sc = Ok gd \<longleftrightarrow> validate r gd = Ok () \<and> gd_scope gd = sc)"
proof -
  have "issue r sc = Ok gd \<longleftrightarrow> validate r gd = Ok () \<and> gd_scope gd = sc"
    unfolding validate_eq_Ok issue_eq_Ok guard_of_iff by auto
  then show ?thesis by (simp add: validate_eq_Ok)
qed

lemma local_residency_active:
  "local_residency r sc = Ok Active \<longleftrightarrow> \<not> is_cluster_mode r \<or>
     (reg_readiness r \<and> reg_saga_states r sc = None
      \<and> (\<exists>t b. current_owner r sc = Ok t \<and> reg_base_states r sc = Some b
           \<and> bs_recipient_node b = reg_this_node r \<and> bs_owner_term b = t
           \<and> bs_base_role b = BaseOwner \<and> bs_activation_state b = Routable))"
proof -
  have o: "overlay_residency role \<noteq> Active" for role by (cases role) simp_all
  show ?thesis
    by (cases "reg_saga_states r sc"; cases "reg_base_states r sc")
      (auto simp: local_residency_def o split: if_splits local_owner_base_role.splits activation_state.splits)
qed

section \<open>Fencing\<close>

lemma registry_update_simps [simp]:
  "is_cluster_mode (commit_owner r t)"
  "current_owner (commit_owner r t) (ot_scope t) = Ok t"
  "is_cluster_mode (r\<lparr>reg_saga_states := m\<rparr>) = is_cluster_mode r"
  "current_owner (r\<lparr>reg_saga_states := m\<rparr>) sc = current_owner r sc"
  "is_cluster_mode (r\<lparr>reg_readiness := b\<rparr>) = is_cluster_mode r"
  "current_owner (r\<lparr>reg_readiness := b\<rparr>) sc = current_owner r sc"
  by (simp_all add: commit_owner_def is_cluster_mode_def current_owner_def seed_term_def)

lemma validate_closed: "\<not> reg_readiness r \<Longrightarrow> validate r gd = Err (ReadinessClosed (gd_scope gd))"
  by (simp add: validate_def Let_def)

lemma issue_closed: "\<not> reg_readiness r \<Longrightarrow> issue r sc = Err (ReadinessClosed sc)"
  by (simp add: issue_def)

lemma may_write_retire_local:
  assumes "is_cluster_mode r"
  shows "may_write (retire_local r sc ep) sc' t \<longleftrightarrow> may_write r sc' t \<and> sc' \<noteq> sc"
  using assms by (auto simp: may_write_def retire_local_def Let_def split: sum.splits)

text \<open>The verdict depends on nothing but the latch, the mode, the node and the rows of the scope.\<close>

lemma validate_cong:
  assumes "reg_readiness r' = reg_readiness r" and "reg_mode r' = reg_mode r" and "reg_this_node r' = reg_this_node r"
    and "reg_terms r' (gd_scope gd) = reg_terms r (gd_scope gd)" and "reg_saga_states r' (gd_scope gd) = reg_saga_states r (gd_scope gd)"
    and "reg_base_states r' (gd_scope gd) = reg_base_states r (gd_scope gd)"
  shows "validate r' gd = validate r gd"
  unfolding validate_def current_owner_def seed_term_def is_cluster_mode_def Let_def assms ..

text \<open>
  C13. Fencing: once the readiness latch is closed every guard is rejected; once a term of a
  higher epoch is committed for a scope, every guard of that scope issued at a lower epoch
  is rejected, while in cluster mode the guards of every other scope keep their verdict, and a
  commit that leaves single-node mode rejects the scopes that have no term; once a clustered node
  retires a scope locally no guard of the scope passes, while every other scope keeps its verdict.
\<close>

theorem stale_guards_fenced:
  "validate (close_owner_readiness r) gd = Err (ReadinessClosed (gd_scope gd))
   \<and> (gd_scope gd = ot_scope t \<and> gd_epoch gd < ot_epoch t
        \<longrightarrow> validate (commit_owner r t) gd \<noteq> Ok ())
   \<and> (is_cluster_mode r \<and> gd_scope gd \<noteq> ot_scope t \<longrightarrow> validate (commit_owner r t) gd = validate r gd)
   \<and> (gd_scope gd \<noteq> ot_scope t \<and> reg_terms r (gd_scope gd) = None \<longrightarrow> validate (commit_owner r t) gd \<noteq> Ok ())
   \<and> (is_cluster_mode r \<longrightarrow> (gd_scope gd = sc \<longrightarrow> validate (retire_local r sc ep) gd \<noteq> Ok ())
        \<and> (gd_scope gd \<noteq> sc \<longrightarrow> validate (retire_local r sc ep) gd = validate r gd))"
proof (intro conjI impI)
  show "validate (close_owner_readiness r) gd = Err (ReadinessClosed (gd_scope gd))"
    by (simp add: close_owner_readiness_def validate_closed)
next
  assume h: "gd_scope gd = ot_scope t \<and> gd_epoch gd < ot_epoch t"
  show "validate (commit_owner r t) gd \<noteq> Ok ()"
  proof
    assume "validate (commit_owner r t) gd = Ok ()"
    then obtain u where "may_write (commit_owner r t) (ot_scope t) u" "carries_term gd u"
      using h by (auto simp: validate_eq_Ok)
    with h show False by (auto simp: may_write_def carries_term_def)
  qed
next
  assume "is_cluster_mode r \<and> gd_scope gd \<noteq> ot_scope t"
  then show "validate (commit_owner r t) gd = validate r gd"
    by (intro validate_cong) (simp_all add: commit_owner_def is_cluster_mode_def)
next
  assume "gd_scope gd \<noteq> ot_scope t \<and> reg_terms r (gd_scope gd) = None"
  then show "validate (commit_owner r t) gd \<noteq> Ok ()"
    by (simp add: validate_eq_Ok may_write_def commit_owner_def current_owner_def)
next
  assume "is_cluster_mode r" "gd_scope gd = sc"
  then show "validate (retire_local r sc ep) gd \<noteq> Ok ()" by (auto simp: validate_eq_Ok may_write_retire_local)
next
  assume "is_cluster_mode r" "gd_scope gd \<noteq> sc"
  then show "validate (retire_local r sc ep) gd = validate r gd"
    by (intro validate_cong) (simp_all add: retire_local_def Let_def)
qed

text \<open>
  C38. \<open>retire_local\<close> fences nothing in single-node mode: the overlay is recorded, but
  every guard keeps its verdict, because \<open>validate\<close> returns before it looks at the
  overlays.
\<close>

theorem retire_local_single_node_unfenced:
  assumes "reg_mode r = MODE_SINGLE_NODE"
  shows "validate (retire_local r sc ep) gd = validate r gd
    \<and> map_option lo_role (registry_local_owner_state (retire_local r sc ep) sc) = Some RoleRetired"
  using assms
  by (simp add: validate_def retire_local_def Let_def current_owner_def is_cluster_mode_def seed_term_def
      registry_local_owner_state_def)

text \<open>At the concrete single-node registry the retired scope stays writable.\<close>

theorem retire_local_single_node_unfenced_witness:
  "(let r = single_node (NodeId 7); gd = guard_of World (seed_term r World) in
    validate (retire_local r World 1) gd = Ok ()
    \<and> map_option lo_role (registry_local_owner_state (retire_local r World 1) World) = Some RoleRetired)"
proof -
  let ?r = "single_node (NodeId 7)"
  have m: "reg_mode ?r = MODE_SINGLE_NODE" by (simp add: single_node_def)
  have "validate ?r (guard_of World (seed_term ?r World)) = Ok ()"
    by (simp add: single_node_def validate_def current_owner_def seed_term_def guard_of_def
        is_cluster_mode_def)
  with retire_local_single_node_unfenced [OF m, of World 1 "guard_of World (seed_term ?r World)"]
  show ?thesis unfolding Let_def by simp
qed

section \<open>Publication order\<close>

text \<open>
  \<open>current_owner\<close> as it runs beside a writer: the mode is loaded in one state, the term
  map is read in a later one.
\<close>

definition current_owner_torn ::
  "owner_registry \<Rightarrow> owner_registry \<Rightarrow> state_transfer_scope \<Rightarrow> (owner_issue_error, owner_term) result" where
  "current_owner_torn r1 r2 sc =
     (if reg_mode r1 = MODE_SINGLE_NODE then Ok (seed_term r1 sc)
      else ok_or (reg_terms r2 sc) (UnknownScope sc))"

text \<open>
  C25. A reader that interleaves with \<open>commit_owner\<close> in any way (mode loaded after \<open>i\<close>
  of its steps, terms read after \<open>j \<ge> i\<close>) sees either the answer before the commit or
  the answer after it, for every scope: the new mode is never combined with the old map.
\<close>

theorem commit_owner_publication_atomic:
  assumes "i \<le> j" and "j < length (commit_owner_steps r t)"
  shows "current_owner_torn (commit_owner_steps r t ! i) (commit_owner_steps r t ! j) sc
    \<in> {current_owner r sc, current_owner (commit_owner r t) sc}"
proof -
  from assms have "(i, j) \<in> {(0, 0), (0, 1), (0, 2), (1, 1), (1, 2), (2, 2)}"
    by (auto simp: commit_owner_steps_def numeral_eq_Suc less_Suc_eq le_Suc_eq)
  then show ?thesis
    by (auto simp: commit_owner_steps_def current_owner_torn_def current_owner_def commit_owner_def
        seed_term_def)
qed

theorem commit_owner_publication_atomic_witness:
  "(let r = single_node (NodeId 1);
        t = \<lparr>ot_scope = World, ot_owner_node = NodeId 2, ot_epoch = 2, ot_generation = 1\<rparr> in
    current_owner_torn (commit_owner_steps r t ! 1) (commit_owner_steps r t ! 2) World
      \<in> {current_owner r World, current_owner (commit_owner r t) World})"
  unfolding Let_def
  by (rule commit_owner_publication_atomic) (simp_all add: commit_owner_steps_def)

section \<open>Rebuilding from an installed snapshot\<close>

lemma rebuild_eq_Ok:
  "rebuild_from_owner_snapshot sha r g l sagas = Ok r' \<longleftrightarrow>
     owner_pair_spec sha g l \<and> ls_recipient_node l = reg_this_node r
     \<and> gs_generation g = TRACK_A_COORDINATOR_GENERATION
     \<and> r' = r\<lparr>reg_terms := map_extend Map.empty ot_scope (gs_sorted_terms g),
              reg_base_states := map_extend Map.empty bs_scope (ls_sorted_base_states l),
              reg_saga_states := map_extend Map.empty sg_scope sagas,
              reg_mode := MODE_CLUSTER, reg_readiness := True\<rparr>"
  by (auto simp: rebuild_from_owner_snapshot_def validate_pair_iff_spec split: if_splits)

lemma owner_pair_spec_maps:
  assumes "owner_pair_spec sha g l"
  shows "map_extend Map.empty ot_scope (gs_sorted_terms g) sc = Some t
           \<longleftrightarrow> t \<in> set (gs_sorted_terms g) \<and> ot_scope t = sc"
    and "map_extend Map.empty bs_scope (ls_sorted_base_states l) sc = Some b
           \<longleftrightarrow> b \<in> set (ls_sorted_base_states l) \<and> bs_scope b = sc"
    and "map_extend Map.empty ot_scope (gs_sorted_terms g) sc
           = map_option bs_owner_term (map_extend Map.empty bs_scope (ls_sorted_base_states l) sc)"
proof -
  have g: "distinct (map ot_scope (gs_sorted_terms g))"
    using assms strictly_sorted_distinct by (auto simp: owner_pair_spec_def)
  have l: "distinct (map bs_scope (ls_sorted_base_states l))"
    using owner_pair_spec_base_sorted [OF assms] by (rule strictly_sorted_distinct)
  show t: "map_extend Map.empty ot_scope (gs_sorted_terms g) sc = Some t
      \<longleftrightarrow> t \<in> set (gs_sorted_terms g) \<and> ot_scope t = sc" for t sc
    by (rule map_extend_empty_eq_Some [OF g])
  show b: "map_extend Map.empty bs_scope (ls_sorted_base_states l) sc = Some b
      \<longleftrightarrow> b \<in> set (ls_sorted_base_states l) \<and> bs_scope b = sc" for b sc
    by (rule map_extend_empty_eq_Some [OF l])
  have rows: "set (gs_sorted_terms g) = bs_owner_term ` set (ls_sorted_base_states l)"
    using assms by (metis owner_pair_spec_def set_map)
  have sc: "\<forall>b \<in> set (ls_sorted_base_states l). bs_scope b = ot_scope (bs_owner_term b)"
    using assms by (simp add: owner_pair_spec_def)
  show "map_extend Map.empty ot_scope (gs_sorted_terms g) sc
      = map_option bs_owner_term (map_extend Map.empty bs_scope (ls_sorted_base_states l) sc)"
  proof (cases "map_extend Map.empty bs_scope (ls_sorted_base_states l) sc")
    case None
    then have "c \<in> set (ls_sorted_base_states l) \<Longrightarrow> bs_scope c \<noteq> sc" for c
      using b by (metis option.distinct(1))
    then have "map_extend Map.empty ot_scope (gs_sorted_terms g) sc \<noteq> Some u" for u
      unfolding t rows using sc by auto
    then show ?thesis using None by auto
  next
    case (Some c)
    then have "c \<in> set (ls_sorted_base_states l)" "bs_scope c = sc" by (simp_all add: b)
    then have "map_extend Map.empty ot_scope (gs_sorted_terms g) sc = Some (bs_owner_term c)"
      unfolding t rows using sc by auto
    then show ?thesis using Some by simp
  qed
qed

lemma rebuild_may_write:
  assumes "rebuild_from_owner_snapshot sha r g l sagas = Ok r'"
  shows "may_write r' sc t \<longleftrightarrow>
    (\<exists>b. reg_base_states r' sc = Some b \<and> bs_owner_term b = t
        \<and> ot_owner_node t = reg_this_node r \<and> bs_activation_state b = Routable)
    \<and> reg_saga_states r' sc = None"
proof -
  from assms have spec: "owner_pair_spec sha g l" and n: "ls_recipient_node l = reg_this_node r"
    and gen: "gs_generation g = TRACK_A_COORDINATOR_GENERATION"
    and r': "reg_readiness r'" "is_cluster_mode r'" "reg_this_node r' = reg_this_node r"
      "reg_base_states r' = map_extend Map.empty bs_scope (ls_sorted_base_states l)"
      "current_owner r' sc = ok_or (map_extend Map.empty ot_scope (gs_sorted_terms g) sc) (UnknownScope sc)"
    by (auto simp: rebuild_eq_Ok is_cluster_mode_def current_owner_def)
  note maps = owner_pair_spec_maps [OF spec]
  have "ot_generation (bs_owner_term b) = TRACK_A_COORDINATOR_GENERATION"
    "bs_recipient_node b = reg_this_node r"
    "bs_base_role b = BaseOwner \<longleftrightarrow> ot_owner_node (bs_owner_term b) = reg_this_node r"
    if "b \<in> set (ls_sorted_base_states l)" for b
  proof -
    have "bs_owner_term b \<in> set (gs_sorted_terms g)"
      using that spec by (metis (no_types, lifting) image_eqI owner_pair_spec_def set_map)
    then show "ot_generation (bs_owner_term b) = TRACK_A_COORDINATOR_GENERATION"
      using spec gen by (auto simp: owner_pair_spec_def)
    show "bs_recipient_node b = reg_this_node r"
      "bs_base_role b = BaseOwner \<longleftrightarrow> ot_owner_node (bs_owner_term b) = reg_this_node r"
      using that spec n by (auto simp: owner_pair_spec_def split: if_splits)
  qed
  with r'(1,2) show ?thesis
    unfolding may_write_def r' maps(3)
    by (cases "map_extend Map.empty bs_scope (ls_sorted_base_states l) sc") (auto simp: maps(2))
qed

text \<open>
  C14. Rebuilding from an accepted pair grants exactly the snapshot's authority: afterwards a
  guard is issued for a scope if and only if a base row makes this node its routable owner
  and no saga overlay covers it, and that is exactly when the scope's residency is
  \<open>Active\<close>, so an agent runs here precisely where this node may write it.
\<close>

theorem rebuild_grants_snapshot_authority:
  assumes "rebuild_from_owner_snapshot sha r g l sagas = Ok r'"
  shows "(is_ok (issue r' sc) \<longleftrightarrow>
           (\<exists>b \<in> set (ls_sorted_base_states l). bs_scope b = sc
              \<and> ot_owner_node (bs_owner_term b) = reg_this_node r \<and> bs_activation_state b = Routable)
           \<and> sc \<notin> sg_scope ` set sagas)
    \<and> (local_residency r' sc = Ok Active \<longleftrightarrow> is_ok (issue r' sc))"
proof -
  from assms have spec: "owner_pair_spec sha g l" and n: "ls_recipient_node l = reg_this_node r"
    and r': "reg_readiness r'" "is_cluster_mode r'" "reg_this_node r' = reg_this_node r"
      "reg_base_states r' = map_extend Map.empty bs_scope (ls_sorted_base_states l)"
      "reg_saga_states r' = map_extend Map.empty sg_scope sagas"
      "current_owner r' sc = ok_or (map_extend Map.empty ot_scope (gs_sorted_terms g) sc) (UnknownScope sc)"
    by (auto simp: rebuild_eq_Ok is_cluster_mode_def current_owner_def)
  note maps = owner_pair_spec_maps [OF spec]
  have base: "bs_recipient_node b = reg_this_node r"
    "bs_base_role b = BaseOwner \<longleftrightarrow> ot_owner_node (bs_owner_term b) = reg_this_node r"
    if "reg_base_states r' sc = Some b" for b
    using that spec n by (auto simp: r'(4) maps(2) owner_pair_spec_def split: if_splits)
  have saga: "map_extend Map.empty sg_scope sagas sc = None \<longleftrightarrow> sc \<notin> sg_scope ` set sagas"
    by (rule map_extend_empty_None)
  have "is_ok (issue r' sc) \<longleftrightarrow> reg_saga_states r' sc = None
      \<and> (\<exists>b. reg_base_states r' sc = Some b \<and> ot_owner_node (bs_owner_term b) = reg_this_node r
              \<and> bs_activation_state b = Routable)"
    unfolding is_ok_issue rebuild_may_write [OF assms] by auto
  moreover have "local_residency r' sc = Ok Active \<longleftrightarrow> reg_saga_states r' sc = None
      \<and> (\<exists>b. reg_base_states r' sc = Some b \<and> ot_owner_node (bs_owner_term b) = reg_this_node r
              \<and> bs_activation_state b = Routable)"
    unfolding local_residency_active r' maps(3) using r'(1,2) base [unfolded r']
    by (cases "map_extend Map.empty bs_scope (ls_sorted_base_states l) sc") auto
  ultimately show ?thesis by (auto simp: r'(4,5) saga maps(2))
qed

lemma ex_rebuild:
  "\<exists>r'. rebuild_from_owner_snapshot ex_sha (cluster_node n) ex_global (ex_local n) [] = Ok r'"
proof -
  have "ls_recipient_node (ex_local n) = n" "gs_generation ex_global = 1" by (simp_all add: ex_defs)
  with ex_pair_spec show ?thesis
    by (simp add: rebuild_eq_Ok cluster_node_def TRACK_A_COORDINATOR_GENERATION_def)
qed

theorem rebuild_grants_snapshot_authority_witness:
  "\<exists>r'. rebuild_from_owner_snapshot ex_sha (cluster_node (NodeId 2)) ex_global (ex_local (NodeId 2)) [] = Ok r'
     \<and> is_ok (issue r' (NanoContainer ''a'')) \<and> \<not> is_ok (issue r' World)
     \<and> local_residency r' (NanoContainer ''a'') = Ok Active"
proof -
  obtain r' where r': "rebuild_from_owner_snapshot ex_sha (cluster_node (NodeId 2)) ex_global
      (ex_local (NodeId 2)) [] = Ok r'" using ex_rebuild by blast
  from rebuild_grants_snapshot_authority [OF r', of "NanoContainer ''a''"]
    rebuild_grants_snapshot_authority [OF r', of World] r'
  show ?thesis by (auto simp: ex_defs cluster_node_def)
qed

text \<open>
  C15. The readiness latch fails closed in cluster mode: a freshly booted cluster node issues
  nothing and cannot reopen its latch; and once a rebuild has opened it, closing and
  reopening restores exactly the registry as it was, and succeeds if and only if this node
  may write the world scope.
\<close>

theorem readiness_fails_closed:
  "(issue (cluster_node n) sc = Err (ReadinessClosed sc)
    \<and> local_residency (cluster_node n) sc = Err (ReadinessClosed sc)
    \<and> reopen_owner_readiness (cluster_node n) = Err (UnknownScope World))
   \<and> (rebuild_from_owner_snapshot sha r g l sagas = Ok r' \<longrightarrow>
       (reopen_owner_readiness (close_owner_readiness r') = Ok r'' \<longleftrightarrow> r'' = r' \<and> is_ok (issue r' World)))"
proof (intro conjI impI)
  show "issue (cluster_node n) sc = Err (ReadinessClosed sc)"
    "local_residency (cluster_node n) sc = Err (ReadinessClosed sc)"
    "reopen_owner_readiness (cluster_node n) = Err (UnknownScope World)"
    by (simp_all add: cluster_node_def issue_def local_residency_def reopen_owner_readiness_def
        is_cluster_mode_def)
next
  assume a: "rebuild_from_owner_snapshot sha r g l sagas = Ok r'"
  then have spec: "owner_pair_spec sha g l" and n: "ls_recipient_node l = reg_this_node r"
    and r': "reg_readiness r'" "is_cluster_mode r'" "reg_this_node r' = reg_this_node r"
      "reg_base_states r' = map_extend Map.empty bs_scope (ls_sorted_base_states l)"
      "reg_terms r' = map_extend Map.empty ot_scope (gs_sorted_terms g)"
    by (auto simp: rebuild_eq_Ok is_cluster_mode_def)
  note maps = owner_pair_spec_maps [OF spec]
  have base: "bs_recipient_node b = reg_this_node r"
    "bs_base_role b = BaseOwner \<longleftrightarrow> ot_owner_node (bs_owner_term b) = reg_this_node r"
    if "map_extend Map.empty bs_scope (ls_sorted_base_states l) World = Some b" for b
    using that spec n by (auto simp: maps(2) owner_pair_spec_def split: if_splits)
  have open_r': "(close_owner_readiness r')\<lparr>reg_readiness := True\<rparr> = r'"
    using r'(1) by (cases r') (simp add: close_owner_readiness_def)
  have "reopen_owner_readiness (close_owner_readiness r') = Ok r'' \<longleftrightarrow> r'' = r'
      \<and> reg_saga_states r' World = None
      \<and> (\<exists>b. reg_base_states r' World = Some b \<and> ot_owner_node (bs_owner_term b) = reg_this_node r
              \<and> bs_activation_state b = Routable)"
    using r'(2) base
    by (cases "map_extend Map.empty bs_scope (ls_sorted_base_states l) World";
        cases "reg_saga_states r' World")
      (auto simp: reopen_owner_readiness_def open_r' close_owner_readiness_def r' maps(3)
        split: if_splits)
  then show "reopen_owner_readiness (close_owner_readiness r') = Ok r'' \<longleftrightarrow> r'' = r' \<and> is_ok (issue r' World)"
    unfolding is_ok_issue rebuild_may_write [OF a] by auto
qed

theorem readiness_fails_closed_witness:
  "\<exists>r'. rebuild_from_owner_snapshot ex_sha (cluster_node (NodeId 1)) ex_global (ex_local (NodeId 1)) [] = Ok r'
     \<and> (reopen_owner_readiness (close_owner_readiness r') = Ok r' \<longleftrightarrow> is_ok (issue r' World))"
proof -
  obtain r' where r': "rebuild_from_owner_snapshot ex_sha (cluster_node (NodeId 1)) ex_global
      (ex_local (NodeId 1)) [] = Ok r'" using ex_rebuild by blast
  with readiness_fails_closed [of "NodeId 1" World ex_sha "cluster_node (NodeId 1)" ex_global
      "ex_local (NodeId 1)" "[]" r' r']
  show ?thesis by blast
qed

theorem stale_guards_fenced_witness:
  "validate (commit_owner (single_node (NodeId 1)) (ex_world_term\<lparr>ot_epoch := 2\<rparr>))
     (guard_of World ex_world_term) \<noteq> Ok ()
   \<and> validate (retire_local (cluster_node (NodeId 1)) World 1) (guard_of World ex_world_term) \<noteq> Ok ()"
proof -
  let ?gd = "guard_of World ex_world_term"
  have "gd_scope ?gd = ot_scope (ex_world_term\<lparr>ot_epoch := 2\<rparr>) \<and> gd_epoch ?gd < ot_epoch (ex_world_term\<lparr>ot_epoch := 2\<rparr>)"
    by (simp add: ex_defs guard_of_def)
  moreover have "is_cluster_mode (cluster_node (NodeId 1))" by (simp add: cluster_node_def is_cluster_mode_def)
  ultimately show ?thesis
    using stale_guards_fenced [of "single_node (NodeId 1)" ?gd "ex_world_term\<lparr>ot_epoch := 2\<rparr>" World 1]
      stale_guards_fenced [of "cluster_node (NodeId 1)" ?gd ex_world_term World 1] by simp
qed

end
