(* ===== verification/Cluster_Meta.thy ===== *)
theory Cluster_Meta
  imports Owner_Registry Ordered_Map
begin

text \<open>
  The durable owner store (\<open>ClusterMetaStore\<close> of
  \<open>crates/sentinel-redb/src/cluster_meta.rs\<close>): four tables keyed by the scope's wire
  form.  A cell holds the row its JSON decodes to, or \<open>Garbled\<close> when it does not decode.
  Every method runs in one transaction: it takes a flag saying whether the storage engine
  served it, and a method that fails leaves the tables as they were.
\<close>

section \<open>Data\<close>

datatype 'a stored = Row 'a | Garbled

datatype local_owner_row = LegacyRow local_owner_state | BaseRow local_owner_base_state

datatype owner_snapshot_install_status = StatusInstalled | StatusSnapshotConflict

record owner_snapshot_install_marker =
  im_schema_version :: u32
  im_recipient_node :: node_id
  im_generation :: u64
  im_revision :: u64
  im_global_checksum :: bytes
  im_local_checksum :: bytes
  im_status :: owner_snapshot_install_status
  im_conflict_global_checksum :: "bytes option"
  im_conflict_local_checksum :: "bytes option"

record cluster_meta_store =
  cm_cluster_owner :: "(string, owner_term stored) omap"
  cm_local_owner :: "(string, local_owner_row stored) omap"
  cm_local_owner_saga :: "(string, local_owner_saga_state stored) omap"
  cm_snapshot_meta :: "(string, owner_snapshot_install_marker stored) omap"

datatype meta_error =
    StoreFailure
  | UndecodableRow
  | InvalidSnapshot owner_snapshot_error
  | RecipientChanged node_id node_id
  | ConflictNeedsRecovery
  | NotAHandoffOverlay
  | MigrationOverlay string
  | NewerOverlay string
  | ConcurrentOverlay string
  | ConflictingTransition string
  | StableStateNeedsSnapshot

type_synonym 'a meta_result = "(meta_error, 'a) result"

definition INSTALL_MARKER_KEY :: string where "INSTALL_MARKER_KEY = ''installed''"

definition scope_key :: "state_transfer_scope \<Rightarrow> string" where "scope_key sc = to_wire sc"

definition empty_meta :: cluster_meta_store where
  "empty_meta = \<lparr>cm_cluster_owner = [], cm_local_owner = [], cm_local_owner_saga = [],
     cm_snapshot_meta = []\<rparr>"

fun decode_row :: "'a stored \<Rightarrow> 'a meta_result" where
  "decode_row (Row a) = Ok a"
| "decode_row Garbled = Err UndecodableRow"

text \<open>\<open>table.get(key)?.map(from_slice).transpose()\<close>.\<close>

definition get_decoded :: "(string, 'a stored) omap \<Rightarrow> string \<Rightarrow> 'a option meta_result" where
  "get_decoded t k =
     (case om_get t k of
        None \<Rightarrow> Ok None
      | Some c \<Rightarrow> try_bind (decode_row c) (\<lambda>a. Ok (Some a)))"

section \<open>Opening and legacy migration\<close>

definition install_marker :: "bool \<Rightarrow> cluster_meta_store \<Rightarrow> owner_snapshot_install_marker option meta_result" where
  "install_marker ok m =
     try_bind (ensure ok StoreFailure) (\<lambda>_. get_decoded (cm_snapshot_meta m) INSTALL_MARKER_KEY)"

fun legacy_rows :: "(string, local_owner_row stored) omap \<Rightarrow> local_owner_state list" where
  "legacy_rows [] = []"
| "legacy_rows ((k, Row (LegacyRow s)) # t) = s # legacy_rows t"
| "legacy_rows ((k, Row (BaseRow b)) # t) = legacy_rows t"
| "legacy_rows ((k, Garbled) # t) = legacy_rows t"

definition legacy_overlay :: "local_owner_state \<Rightarrow> local_owner_saga_role \<Rightarrow> local_owner_saga_state" where
  "legacy_overlay s role =
     \<lparr>sg_scope = lo_scope s, sg_operation_kind = LegacyReconciliation, sg_op_id = None,
      sg_owner_term = \<lparr>ot_scope = lo_scope s, ot_owner_node = lo_node_id s, ot_epoch = lo_epoch s,
                       ot_generation = 0\<rparr>,
      sg_role = role, sg_transition_seq = 0\<rparr>"

fun migrate_rows ::
  "local_owner_state list \<Rightarrow> (string, local_owner_saga_state stored) omap
   \<Rightarrow> (string, local_owner_saga_state stored) omap" where
  "migrate_rows [] sagas = sagas"
| "migrate_rows (s # ss) sagas =
     (case saga_of_role (lo_role s) of
        None \<Rightarrow> migrate_rows ss sagas
      | Some role \<Rightarrow>
          (let key = scope_key (lo_scope s) in
           if om_get sagas key \<noteq> None then migrate_rows ss sagas
           else migrate_rows ss (om_insert key (Row (legacy_overlay s role)) sagas)))"

definition migrate_legacy_overlays :: "bool \<Rightarrow> cluster_meta_store \<Rightarrow> cluster_meta_store meta_result" where
  "migrate_legacy_overlays ok m =
     try_bind (install_marker ok m) (\<lambda>marker.
     if (case marker of Some mk \<Rightarrow> im_generation mk \<noteq> 0 | None \<Rightarrow> False) then Ok m
     else if legacy_rows (cm_local_owner m) = [] then Ok m
     else Ok (m\<lparr>cm_local_owner_saga :=
                  migrate_rows (legacy_rows (cm_local_owner m)) (cm_local_owner_saga m)\<rparr>))"

text \<open>\<open>ClusterMetaStore::open\<close> on the file's contents: tables are created when missing.\<close>

definition open_store :: "bool \<Rightarrow> cluster_meta_store option \<Rightarrow> cluster_meta_store meta_result" where
  "open_store ok file =
     try_bind (ensure ok StoreFailure) (\<lambda>_.
     migrate_legacy_overlays ok (case file of Some m \<Rightarrow> m | None \<Rightarrow> empty_meta))"

section \<open>Snapshot installation\<close>

fun epoch_regresses ::
  "(string, owner_term stored) omap \<Rightarrow> u64 \<Rightarrow> owner_term list \<Rightarrow> bool meta_result" where
  "epoch_regresses t gen [] = Ok False"
| "epoch_regresses t gen (term # terms) =
     try_bind (get_decoded t (scope_key (ot_scope term))) (\<lambda>old.
     case old of
       Some o1 \<Rightarrow>
         if ot_generation o1 = gen \<and> ot_epoch term < ot_epoch o1 then Ok True
         else epoch_regresses t gen terms
     | None \<Rightarrow> epoch_regresses t gen terms)"

definition marker_of ::
  "owner_term_snapshot \<Rightarrow> local_owner_state_snapshot \<Rightarrow> owner_snapshot_install_marker" where
  "marker_of g l =
     \<lparr>im_schema_version = gs_schema_version g, im_recipient_node = ls_recipient_node l,
      im_generation = gs_generation g, im_revision = gs_revision g,
      im_global_checksum = gs_checksum g, im_local_checksum = ls_checksum l,
      im_status = StatusInstalled,
      im_conflict_global_checksum = None, im_conflict_local_checksum = None\<rparr>"

definition put_marker :: "owner_snapshot_install_marker \<Rightarrow> cluster_meta_store \<Rightarrow> cluster_meta_store" where
  "put_marker mk m = m\<lparr>cm_snapshot_meta := om_insert INSTALL_MARKER_KEY (Row mk) (cm_snapshot_meta m)\<rparr>"

definition replace_rows ::
  "owner_term_snapshot \<Rightarrow> local_owner_state_snapshot \<Rightarrow> cluster_meta_store \<Rightarrow> cluster_meta_store" where
  "replace_rows g l m =
     m\<lparr>cm_cluster_owner := om_fill (\<lambda>t. scope_key (ot_scope t)) Row (gs_sorted_terms g),
       cm_local_owner := om_fill (\<lambda>b. scope_key (bs_scope b)) (\<lambda>b. Row (BaseRow b)) (ls_sorted_base_states l)\<rparr>"

definition replace_snapshot ::
  "owner_snapshot_install_marker option \<Rightarrow> owner_term_snapshot \<Rightarrow> local_owner_state_snapshot
   \<Rightarrow> cluster_meta_store \<Rightarrow> (owner_snapshot_install_outcome \<times> cluster_meta_store) meta_result" where
  "replace_snapshot existing g l m =
     try_bind (epoch_regresses (cm_cluster_owner m) (gs_generation g) (gs_sorted_terms g)) (\<lambda>regress.
     if regress
     then Ok (StaleSnapshot (case existing of Some mk \<Rightarrow> im_revision mk | None \<Rightarrow> 0) (gs_revision g), m)
     else Ok (Installed, put_marker (marker_of g l) (replace_rows g l m)))"

text \<open>The part of \<open>install_owner_snapshot\<close> after the marker has been read.\<close>

definition install_against ::
  "owner_snapshot_install_marker option \<Rightarrow> owner_term_snapshot \<Rightarrow> local_owner_state_snapshot
   \<Rightarrow> cluster_meta_store \<Rightarrow> (owner_snapshot_install_outcome \<times> cluster_meta_store) meta_result" where
  "install_against existing g l m =
     (case existing of
        Some marker \<Rightarrow>
          if im_generation marker = 0 then replace_snapshot existing g l m
          else if im_status marker = StatusSnapshotConflict then Ok (SnapshotConflict, m)
          else if im_generation marker \<noteq> gs_generation g
          then Ok (SnapshotGenerationMismatch (im_generation marker) (gs_generation g), m)
          else if im_recipient_node marker \<noteq> ls_recipient_node l
          then Err (RecipientChanged (im_recipient_node marker) (ls_recipient_node l))
          else if gs_revision g < im_revision marker
          then Ok (StaleSnapshot (im_revision marker) (gs_revision g), m)
          else if gs_revision g = im_revision marker then
            if gs_checksum g = im_global_checksum marker \<and> ls_checksum l = im_local_checksum marker
            then Ok (AlreadyInstalled, m)
            else Ok (SnapshotConflict,
                   put_marker (marker\<lparr>im_status := StatusSnapshotConflict,
                     im_conflict_global_checksum := Some (gs_checksum g),
                     im_conflict_local_checksum := Some (ls_checksum l)\<rparr>) m)
          else replace_snapshot existing g l m
      | None \<Rightarrow> replace_snapshot existing g l m)"

definition install_owner_snapshot ::
  "(bytes \<Rightarrow> bytes) \<Rightarrow> bool \<Rightarrow> owner_term_snapshot \<Rightarrow> local_owner_state_snapshot
   \<Rightarrow> cluster_meta_store \<Rightarrow> (owner_snapshot_install_outcome \<times> cluster_meta_store) meta_result" where
  "install_owner_snapshot sha ok g l m =
     try_bind (map_err InvalidSnapshot (validate_owner_snapshot_pair sha g l)) (\<lambda>_.
     if gs_generation g \<noteq> TRACK_A_COORDINATOR_GENERATION
     then Ok (SnapshotGenerationMismatch TRACK_A_COORDINATOR_GENERATION (gs_generation g), m)
     else
       try_bind (ensure ok StoreFailure) (\<lambda>_.
       try_bind (get_decoded (cm_snapshot_meta m) INSTALL_MARKER_KEY) (\<lambda>existing.
       install_against existing g l m)))"

section \<open>Reading back\<close>

definition get_owner_term :: "bool \<Rightarrow> cluster_meta_store \<Rightarrow> state_transfer_scope \<Rightarrow> owner_term option meta_result" where
  "get_owner_term ok m sc =
     try_bind (ensure ok StoreFailure) (\<lambda>_. get_decoded (cm_cluster_owner m) (scope_key sc))"

definition list_owner_terms :: "bool \<Rightarrow> cluster_meta_store \<Rightarrow> owner_term list meta_result" where
  "list_owner_terms ok m =
     try_bind (ensure ok StoreFailure) (\<lambda>_.
     try_bind (try_collect decode_row (om_values (cm_cluster_owner m))) (\<lambda>terms.
     Ok (sort_key (\<lambda>t. to_wire (ot_scope t)) terms)))"

fun base_rows :: "local_owner_row stored list \<Rightarrow> local_owner_base_state list" where
  "base_rows [] = []"
| "base_rows (Row (BaseRow b) # cs) = b # base_rows cs"
| "base_rows (Row (LegacyRow s) # cs) = base_rows cs"
| "base_rows (Garbled # cs) = base_rows cs"

definition list_local_base_states :: "bool \<Rightarrow> cluster_meta_store \<Rightarrow> local_owner_base_state list meta_result" where
  "list_local_base_states ok m =
     try_bind (ensure ok StoreFailure) (\<lambda>_.
     Ok (sort_key (\<lambda>b. to_wire (bs_scope b)) (base_rows (om_values (cm_local_owner m)))))"

definition installed_owner_snapshot ::
  "(bytes \<Rightarrow> bytes) \<Rightarrow> bool \<Rightarrow> cluster_meta_store
   \<Rightarrow> (owner_term_snapshot \<times> local_owner_state_snapshot) option meta_result" where
  "installed_owner_snapshot sha ok m =
     try_bind (install_marker ok m) (\<lambda>mk.
     case mk of
       None \<Rightarrow> Ok None
     | Some marker \<Rightarrow>
         if im_status marker = StatusSnapshotConflict then Err ConflictNeedsRecovery
         else
           try_bind (list_owner_terms ok m) (\<lambda>terms.
           let g = \<lparr>gs_schema_version = im_schema_version marker, gs_generation = im_generation marker,
                    gs_revision = im_revision marker, gs_sorted_terms = terms,
                    gs_checksum = im_global_checksum marker\<rparr> in
           try_bind (list_local_base_states ok m) (\<lambda>states.
           let l = \<lparr>ls_schema_version = im_schema_version marker,
                    ls_recipient_node = im_recipient_node marker,
                    ls_generation = im_generation marker, ls_revision = im_revision marker,
                    ls_sorted_base_states = states, ls_checksum = im_local_checksum marker\<rparr> in
           try_bind (map_err InvalidSnapshot (validate_owner_snapshot_pair sha g l)) (\<lambda>_.
           Ok (Some (g, l))))))"

section \<open>Saga overlays\<close>

definition put_overlay :: "local_owner_saga_state \<Rightarrow> cluster_meta_store \<Rightarrow> cluster_meta_store" where
  "put_overlay s m =
     m\<lparr>cm_local_owner_saga := om_insert (scope_key (sg_scope s)) (Row s) (cm_local_owner_saga m)\<rparr>"

definition put_local_saga_state :: "bool \<Rightarrow> local_owner_saga_state \<Rightarrow> cluster_meta_store \<Rightarrow> cluster_meta_store meta_result" where
  "put_local_saga_state ok s m = try_bind (ensure ok StoreFailure) (\<lambda>_. Ok (put_overlay s m))"

definition overlay_term :: "local_owner_saga_state \<Rightarrow> u64 \<times> u64" where
  "overlay_term s = (ot_generation (sg_owner_term s), ot_epoch (sg_owner_term s))"

definition put_handoff_saga_state_cas ::
  "bool \<Rightarrow> local_owner_saga_state \<Rightarrow> cluster_meta_store \<Rightarrow> cluster_meta_store meta_result" where
  "put_handoff_saga_state_cas ok s m =
     (if sg_operation_kind s \<noteq> Handoff then Err NotAHandoffOverlay
      else
        let key = scope_key (sg_scope s) in
        try_bind (ensure ok StoreFailure) (\<lambda>_.
        try_bind (get_decoded (cm_local_owner_saga m) key) (\<lambda>existing.
        case existing of
          None \<Rightarrow> Ok (put_overlay s m)
        | Some e \<Rightarrow>
            if e = s then Ok m
            else if sg_operation_kind e = Migration then Err (MigrationOverlay key)
            else if overlay_term e > overlay_term s then Err (NewerOverlay key)
            else if overlay_term e = overlay_term s \<and> sg_op_id e \<noteq> sg_op_id s
            then Err (ConcurrentOverlay key)
            else if overlay_term e = overlay_term s \<and> sg_transition_seq s \<le> sg_transition_seq e
            then Err (ConflictingTransition key)
            else Ok (put_overlay s m))))"

definition complete_handoff_overlay ::
  "bool \<Rightarrow> owner_term \<Rightarrow> cluster_meta_store \<Rightarrow> cluster_meta_store meta_result" where
  "complete_handoff_overlay ok committed m =
     (let key = scope_key (ot_scope committed) in
      try_bind (ensure ok StoreFailure) (\<lambda>_.
      try_bind (get_decoded (cm_local_owner_saga m) key) (\<lambda>existing.
      case existing of
        None \<Rightarrow> Ok m
      | Some e \<Rightarrow>
          if sg_operation_kind e = Migration then Err (MigrationOverlay key)
          else if ot_generation (sg_owner_term e) > ot_generation committed
                \<or> (ot_generation (sg_owner_term e) = ot_generation committed
                    \<and> ot_epoch (sg_owner_term e) > ot_epoch committed)
          then Err (NewerOverlay key)
          else Ok (m\<lparr>cm_local_owner_saga := om_remove key (cm_local_owner_saga m)\<rparr>))))"

definition list_local_saga_states :: "bool \<Rightarrow> cluster_meta_store \<Rightarrow> local_owner_saga_state list meta_result" where
  "list_local_saga_states ok m =
     try_bind (ensure ok StoreFailure) (\<lambda>_.
     try_bind (try_collect decode_row (om_values (cm_local_owner_saga m))) (\<lambda>states.
     Ok (sort_key (\<lambda>s. to_wire (sg_scope s)) states)))"

definition put_local_state :: "bool \<Rightarrow> local_owner_state \<Rightarrow> cluster_meta_store \<Rightarrow> cluster_meta_store meta_result" where
  "put_local_state ok s m =
     try_bind (ok_or (saga_of_role (lo_role s)) StableStateNeedsSnapshot) (\<lambda>role.
     put_handoff_saga_state_cas ok
       \<lparr>sg_scope = lo_scope s, sg_operation_kind = Handoff, sg_op_id = None,
        sg_owner_term = \<lparr>ot_scope = lo_scope s, ot_owner_node = lo_node_id s, ot_epoch = lo_epoch s,
          ot_generation = (if lo_epoch s = 0 then 0 else TRACK_A_COORDINATOR_GENERATION)\<rparr>,
        sg_role = role, sg_transition_seq = 0\<rparr> m)"

definition local_state_of :: "local_owner_saga_state \<Rightarrow> local_owner_state" where
  "local_state_of s = \<lparr>lo_scope = sg_scope s, lo_node_id = ot_owner_node (sg_owner_term s),
     lo_epoch = ot_epoch (sg_owner_term s), lo_role = role_of_saga (sg_role s)\<rparr>"

definition get_local_state ::
  "bool \<Rightarrow> cluster_meta_store \<Rightarrow> state_transfer_scope \<Rightarrow> local_owner_state option meta_result" where
  "get_local_state ok m sc =
     try_bind (list_local_saga_states ok m) (\<lambda>states.
     Ok (map_option local_state_of (List.find (\<lambda>s. sg_scope s = sc) states)))"

definition list_local_states :: "bool \<Rightarrow> cluster_meta_store \<Rightarrow> local_owner_state list meta_result" where
  "list_local_states ok m =
     try_bind (list_local_saga_states ok m) (\<lambda>states. Ok (map local_state_of states))"

section \<open>Well-formed stores and their abstract view\<close>

definition keyed :: "('a \<Rightarrow> state_transfer_scope) \<Rightarrow> (string, 'a stored) omap \<Rightarrow> bool" where
  "keyed sc t \<longleftrightarrow> (\<forall>k a. om_get t k = Some (Row a) \<longrightarrow> k = scope_key (sc a))"

definition meta_wf :: "cluster_meta_store \<Rightarrow> bool" where
  "meta_wf m \<longleftrightarrow> om_wf (cm_cluster_owner m) \<and> om_wf (cm_local_owner m)
     \<and> om_wf (cm_local_owner_saga m) \<and> om_wf (cm_snapshot_meta m)
     \<and> keyed ot_scope (cm_cluster_owner m) \<and> keyed sg_scope (cm_local_owner_saga m)"

definition row_at :: "(string, 'a stored) omap \<Rightarrow> state_transfer_scope \<Rightarrow> 'a option" where
  "row_at t sc = (case om_get t (scope_key sc) of Some (Row a) \<Rightarrow> Some a | _ \<Rightarrow> None)"

abbreviation meta_term :: "cluster_meta_store \<Rightarrow> state_transfer_scope \<Rightarrow> owner_term option" where
  "meta_term m \<equiv> row_at (cm_cluster_owner m)"

abbreviation meta_overlay :: "cluster_meta_store \<Rightarrow> state_transfer_scope \<Rightarrow> local_owner_saga_state option" where
  "meta_overlay m \<equiv> row_at (cm_local_owner_saga m)"

definition meta_marker :: "cluster_meta_store \<Rightarrow> owner_snapshot_install_marker option" where
  "meta_marker m = (case om_get (cm_snapshot_meta m) INSTALL_MARKER_KEY of Some (Row mk) \<Rightarrow> Some mk | _ \<Rightarrow> None)"

lemma scope_key_inject [simp]: "scope_key a = scope_key b \<longleftrightarrow> a = b"
  by (simp add: scope_key_def)

lemma decode_row_eq_Ok [simp]: "decode_row c = Ok a \<longleftrightarrow> c = Row a"
  by (cases c) auto

lemma get_decoded_eq_Some [simp]: "get_decoded t k = Ok (Some a) \<longleftrightarrow> om_get t k = Some (Row a)"
  by (auto simp: get_decoded_def split: option.splits)

lemma get_decoded_eq_None [simp]: "get_decoded t k = Ok None \<longleftrightarrow> om_get t k = None"
  by (auto simp: get_decoded_def split: option.splits)

lemma get_decoded_cell [simp]:
  "om_get t k = None \<Longrightarrow> get_decoded t k = Ok None"
  "om_get t k = Some (Row a) \<Longrightarrow> get_decoded t k = Ok (Some a)"
  "om_get t k = Some Garbled \<Longrightarrow> get_decoded t k = Err UndecodableRow"
  by (simp_all add: get_decoded_def)

lemma row_at_eq_Some: "row_at t sc = Some a \<longleftrightarrow> om_get t (scope_key sc) = Some (Row a)"
  by (auto simp: row_at_def split: option.splits stored.splits)

lemma keyedD: "keyed sc t \<Longrightarrow> om_get t (scope_key s) = Some (Row a) \<Longrightarrow> sc a = s"
  unfolding keyed_def by fastforce

lemma keyed_insert: "keyed sc t \<Longrightarrow> om_wf t \<Longrightarrow> keyed sc (om_insert (scope_key (sc a)) (Row a) t)"
  by (auto simp: keyed_def)

lemma keyed_remove: "keyed sc t \<Longrightarrow> om_wf t \<Longrightarrow> keyed sc (om_remove k t)"
  by (auto simp: keyed_def)

lemma keyed_fill:
  "distinct (map sc rows) \<Longrightarrow> keyed sc (om_fill (\<lambda>r. scope_key (sc r)) Row rows)"
  by (auto simp: keyed_def om_get_fill distinct_map inj_on_def)

lemma row_at_fill:
  assumes "distinct (map sc rows)"
  shows "row_at (om_fill (\<lambda>r. scope_key (sc r)) Row rows) s = map_extend Map.empty sc rows s"
proof -
  have d: "distinct (map (\<lambda>r. scope_key (sc r)) rows)" using assms by (simp add: distinct_map inj_on_def)
  have "row_at (om_fill (\<lambda>r. scope_key (sc r)) Row rows) s = Some a
      \<longleftrightarrow> map_extend Map.empty sc rows s = Some a" for a
    by (auto simp: row_at_eq_Some om_get_fill [OF d] map_extend_empty_eq_Some [OF assms])
  then show ?thesis by (metis option.exhaust)
qed

lemma row_at_insert:
  "om_wf t \<Longrightarrow> row_at (om_insert (scope_key s) (Row a) t) s' = (if s' = s then Some a else row_at t s')"
  by (simp add: row_at_def)

lemma row_at_remove:
  "om_wf t \<Longrightarrow> row_at (om_remove (scope_key s) t) s' = (if s' = s then None else row_at t s')"
  by (simp add: row_at_def)

section \<open>Installation\<close>

lemma status_not_conflict: "s \<noteq> StatusSnapshotConflict \<longleftrightarrow> s = StatusInstalled"
  by (cases s) auto

definition marker_admits ::
  "owner_snapshot_install_marker option \<Rightarrow> owner_term_snapshot \<Rightarrow> local_owner_state_snapshot \<Rightarrow> bool" where
  "marker_admits existing g l \<longleftrightarrow> (case existing of
     None \<Rightarrow> True
   | Some mk \<Rightarrow> im_generation mk = 0 \<or>
       (im_status mk = StatusInstalled \<and> im_generation mk = gs_generation g
        \<and> im_recipient_node mk = ls_recipient_node l \<and> im_revision mk < gs_revision g))"

lemma install_against_Installed:
  "install_against existing g l m = Ok (Installed, m') \<longleftrightarrow> marker_admits existing g l
     \<and> epoch_regresses (cm_cluster_owner m) (gs_generation g) (gs_sorted_terms g) = Ok False
     \<and> m' = put_marker (marker_of g l) (replace_rows g l m)"
proof -
  have r: "replace_snapshot e g l m = Ok (Installed, m') \<longleftrightarrow>
      epoch_regresses (cm_cluster_owner m) (gs_generation g) (gs_sorted_terms g) = Ok False
      \<and> m' = put_marker (marker_of g l) (replace_rows g l m)" for e
    by (auto simp: replace_snapshot_def split: if_splits)
  show ?thesis
    by (cases existing)
      (auto simp: install_against_def marker_admits_def r status_not_conflict [symmetric] not_less)
qed

lemma install_Installed_iff:
  "install_owner_snapshot sha ok g l m = Ok (Installed, m') \<longleftrightarrow>
     owner_pair_spec sha g l \<and> gs_generation g = TRACK_A_COORDINATOR_GENERATION \<and> ok
     \<and> (\<exists>existing. get_decoded (cm_snapshot_meta m) INSTALL_MARKER_KEY = Ok existing
          \<and> marker_admits existing g l)
     \<and> epoch_regresses (cm_cluster_owner m) (gs_generation g) (gs_sorted_terms g) = Ok False
     \<and> m' = put_marker (marker_of g l) (replace_rows g l m)"
  by (auto simp: install_owner_snapshot_def validate_pair_iff_spec install_against_Installed)

lemma replace_snapshot_other:
  "replace_snapshot e g l m = Ok (out, m') \<Longrightarrow> out \<noteq> Installed \<Longrightarrow> m' = m"
  by (auto simp: replace_snapshot_def split: if_splits)

lemma install_against_other:
  assumes "install_against existing g l m = Ok (out, m')" and "out \<noteq> Installed"
  shows "m' = m \<or> (out = SnapshotConflict \<and> (\<exists>mk. existing = Some mk
     \<and> im_status mk = StatusInstalled \<and> im_generation mk = gs_generation g
     \<and> im_revision mk = gs_revision g
     \<and> m' = put_marker (mk\<lparr>im_status := StatusSnapshotConflict,
              im_conflict_global_checksum := Some (gs_checksum g),
              im_conflict_local_checksum := Some (ls_checksum l)\<rparr>) m))"
proof (cases existing)
  case None
  with assms show ?thesis by (auto simp: install_against_def dest: replace_snapshot_other)
next
  case (Some mk)
  with assms show ?thesis
    by (auto simp: install_against_def status_not_conflict split: if_splits dest: replace_snapshot_other)
qed

lemma install_other:
  assumes "install_owner_snapshot sha ok g l m = Ok (out, m')" and "out \<noteq> Installed"
  shows "m' = m \<or> (out = SnapshotConflict \<and> (\<exists>mk. meta_marker m = Some mk
     \<and> im_status mk = StatusInstalled \<and> im_generation mk = gs_generation g
     \<and> im_revision mk = gs_revision g
     \<and> m' = put_marker (mk\<lparr>im_status := StatusSnapshotConflict,
              im_conflict_global_checksum := Some (gs_checksum g),
              im_conflict_local_checksum := Some (ls_checksum l)\<rparr>) m))"
proof (cases "gs_generation g = TRACK_A_COORDINATOR_GENERATION")
  case True
  with assms(1) obtain e where "get_decoded (cm_snapshot_meta m) INSTALL_MARKER_KEY = Ok e"
    "install_against e g l m = Ok (out, m')" by (auto simp: install_owner_snapshot_def)
  then show ?thesis
    using install_against_other [of e g l m out m'] assms(2) by (auto simp: meta_marker_def)
next
  case False
  with assms(1) show ?thesis by (auto simp: install_owner_snapshot_def)
qed

lemma marker_of_sel [simp]:
  "im_schema_version (marker_of g l) = gs_schema_version g"
  "im_recipient_node (marker_of g l) = ls_recipient_node l"
  "im_generation (marker_of g l) = gs_generation g" "im_revision (marker_of g l) = gs_revision g"
  "im_global_checksum (marker_of g l) = gs_checksum g" "im_local_checksum (marker_of g l) = ls_checksum l"
  "im_status (marker_of g l) = StatusInstalled"
  by (simp_all add: marker_of_def)

lemma put_marker_sel [simp]:
  "cm_cluster_owner (put_marker mk m) = cm_cluster_owner m"
  "cm_local_owner (put_marker mk m) = cm_local_owner m"
  "cm_local_owner_saga (put_marker mk m) = cm_local_owner_saga m"
  "om_wf (cm_snapshot_meta m) \<Longrightarrow> om_wf (cm_snapshot_meta (put_marker mk m))"
  "om_wf (cm_snapshot_meta m) \<Longrightarrow> om_get (cm_snapshot_meta (put_marker mk m)) INSTALL_MARKER_KEY = Some (Row mk)"
  "om_wf (cm_snapshot_meta m) \<Longrightarrow> meta_marker (put_marker mk m) = Some mk"
  by (simp_all add: put_marker_def meta_marker_def)

lemma replace_rows_sel [simp]:
  "cm_local_owner_saga (replace_rows g l m) = cm_local_owner_saga m"
  "cm_snapshot_meta (replace_rows g l m) = cm_snapshot_meta m"
  by (simp_all add: replace_rows_def)

lemma replace_rows_tables:
  assumes "owner_pair_spec sha g l"
  shows "cm_cluster_owner (replace_rows g l m) = map (\<lambda>t. (scope_key (ot_scope t), Row t)) (gs_sorted_terms g)"
    and "cm_local_owner (replace_rows g l m) = map (\<lambda>b. (scope_key (bs_scope b), Row (BaseRow b))) (ls_sorted_base_states l)"
  using assms owner_pair_spec_base_sorted [OF assms]
  by (simp_all add: replace_rows_def owner_pair_spec_def rows_are_strictly_sorted_iff scope_key_def
      om_fill_sorted comp_def)

lemma meta_wf_put_marker: "meta_wf m \<Longrightarrow> meta_wf (put_marker mk m)"
  by (simp add: meta_wf_def)

lemma meta_wf_replace:
  assumes "meta_wf m" and "owner_pair_spec sha g l"
  shows "meta_wf (replace_rows g l m)"
proof -
  have "distinct (map ot_scope (gs_sorted_terms g))"
    using assms(2) strictly_sorted_distinct by (auto simp: owner_pair_spec_def)
  from keyed_fill [OF this] assms(1) show ?thesis by (simp add: meta_wf_def replace_rows_def)
qed

lemma meta_wf_install:
  assumes "meta_wf m" and "install_owner_snapshot sha ok g l m = Ok (out, m')"
  shows "meta_wf m'"
proof (cases "out = Installed")
  case True
  with assms show ?thesis
    by (auto simp: install_Installed_iff intro: meta_wf_put_marker meta_wf_replace)
next
  case False
  with install_other [OF assms(2)] assms(1) show ?thesis by (auto intro: meta_wf_put_marker)
qed

lemma sort_key_strict:
  "rows_are_strictly_sorted sc rows \<Longrightarrow> sort_key (\<lambda>r. to_wire (sc r)) rows = rows"
  by (simp add: rows_are_strictly_sorted_iff strict_sorted_iff comp_def sort_key_id_if_sorted)

lemma try_collect_Row: "try_collect decode_row (map Row xs) = Ok xs"
  by (induction xs) simp_all

lemma base_rows_BaseRow: "base_rows (map (\<lambda>b. Row (BaseRow b)) bs) = bs"
  by (induction bs) simp_all

lemma installed_after_replace:
  assumes spec: "owner_pair_spec sha g l" and wf: "om_wf (cm_snapshot_meta m)"
  shows "installed_owner_snapshot sha True (put_marker (marker_of g l) (replace_rows g l m)) = Ok (Some (g, l))"
proof -
  let ?m = "put_marker (marker_of g l) (replace_rows g l m)"
  have s: "rows_are_strictly_sorted ot_scope (gs_sorted_terms g)"
    "rows_are_strictly_sorted bs_scope (ls_sorted_base_states l)"
    using spec owner_pair_spec_base_sorted [OF spec] by (simp_all add: owner_pair_spec_def)
  have "map snd (cm_cluster_owner ?m) = map Row (gs_sorted_terms g)"
    "map snd (cm_local_owner ?m) = map (\<lambda>b. Row (BaseRow b)) (ls_sorted_base_states l)"
    using replace_rows_tables [OF spec] by simp_all
  then have terms: "list_owner_terms True ?m = Ok (gs_sorted_terms g)"
    and states: "list_local_base_states True ?m = Ok (ls_sorted_base_states l)"
    by (simp_all add: list_owner_terms_def list_local_base_states_def om_values_def try_collect_Row
        base_rows_BaseRow sort_key_strict s)
  have marker: "install_marker True ?m = Ok (Some (marker_of g l))"
    by (simp add: install_marker_def wf)
  have g: "g = \<lparr>gs_schema_version = gs_schema_version g, gs_generation = gs_generation g,
      gs_revision = gs_revision g, gs_sorted_terms = gs_sorted_terms g, gs_checksum = gs_checksum g\<rparr>"
    by simp
  have l: "l = \<lparr>ls_schema_version = gs_schema_version g, ls_recipient_node = ls_recipient_node l,
      ls_generation = gs_generation g, ls_revision = gs_revision g,
      ls_sorted_base_states = ls_sorted_base_states l, ls_checksum = ls_checksum l\<rparr>"
    using spec by (simp add: owner_pair_spec_def)
  have v: "validate_owner_snapshot_pair sha g l = Ok ()" using spec by (simp add: validate_pair_iff_spec)
  show ?thesis
    unfolding installed_owner_snapshot_def marker
    by (simp add: terms states Let_def g [symmetric] l [symmetric] v)
qed

text \<open>
  C16. Installing is a durable round trip: after an installation the store returns exactly
  the installed pair, no saga overlay has been touched, and installing the same pair again
  reports \<open>AlreadyInstalled\<close> and changes nothing.
\<close>

theorem install_snapshot_roundtrip:
  assumes "meta_wf m" and "install_owner_snapshot sha ok g l m = Ok (Installed, m')"
  shows "installed_owner_snapshot sha True m' = Ok (Some (g, l))
    \<and> cm_local_owner_saga m' = cm_local_owner_saga m
    \<and> install_owner_snapshot sha True g l m' = Ok (AlreadyInstalled, m')"
proof -
  from assms have spec: "owner_pair_spec sha g l" and gen: "gs_generation g = TRACK_A_COORDINATOR_GENERATION"
    and m': "m' = put_marker (marker_of g l) (replace_rows g l m)"
    by (auto simp: install_Installed_iff)
  have wf: "om_wf (cm_snapshot_meta m)" using assms(1) by (simp add: meta_wf_def)
  have "install_owner_snapshot sha True g l m' = Ok (AlreadyInstalled, m')"
  proof -
    have "get_decoded (cm_snapshot_meta m') INSTALL_MARKER_KEY = Ok (Some (marker_of g l))"
      by (simp add: m' wf)
    moreover have "validate_owner_snapshot_pair sha g l = Ok ()" using spec by (simp add: validate_pair_iff_spec)
    ultimately show ?thesis
      unfolding install_owner_snapshot_def using gen
      by (simp add: install_against_def TRACK_A_COORDINATOR_GENERATION_def del: get_decoded_eq_Some)
  qed
  with installed_after_replace [OF spec wf] show ?thesis by (simp add: m')
qed

lemma meta_wf_empty [simp]: "meta_wf empty_meta"
  by (simp add: meta_wf_def empty_meta_def keyed_def)

lemma ex_install:
  "install_owner_snapshot ex_sha True ex_global (ex_local n) empty_meta
     = Ok (Installed, put_marker (marker_of ex_global (ex_local n)) (replace_rows ex_global (ex_local n) empty_meta))"
proof -
  have "epoch_regresses [] gen ts = Ok False" for gen ts
    by (induction ts) simp_all
  then show ?thesis
    unfolding install_Installed_iff using ex_pair_spec
    by (simp add: empty_meta_def marker_admits_def TRACK_A_COORDINATOR_GENERATION_def)
      (simp add: ex_global_def ex_snap_global_def)
qed

theorem install_snapshot_roundtrip_witness:
  "\<exists>m'. install_owner_snapshot ex_sha True ex_global (ex_local (NodeId 2)) empty_meta = Ok (Installed, m')
     \<and> installed_owner_snapshot ex_sha True m' = Ok (Some (ex_global, ex_local (NodeId 2)))"
  using install_snapshot_roundtrip [OF meta_wf_empty ex_install] ex_install by blast

lemma epoch_regresses_False:
  "epoch_regresses t gen terms = Ok False \<longleftrightarrow>
     (\<forall>x \<in> set terms. om_get t (scope_key (ot_scope x)) \<noteq> Some Garbled
        \<and> (\<forall>old. row_at t (ot_scope x) = Some old \<longrightarrow>
             \<not> (ot_generation old = gen \<and> ot_epoch x < ot_epoch old)))"
proof (induction terms)
  case (Cons x terms)
  show ?case
  proof (cases "om_get t (scope_key (ot_scope x))")
    case None
    then have "get_decoded t (scope_key (ot_scope x)) = Ok None" by simp
    with Cons None show ?thesis by (simp add: row_at_def del: get_decoded_eq_None)
  next
    case (Some c)
    with Cons show ?thesis by (cases c) (auto simp: row_at_def get_decoded_def)
  qed
qed simp

definition ex_store ::
  "node_id \<Rightarrow> u64 \<Rightarrow> owner_term list \<Rightarrow> cluster_meta_store \<Rightarrow> cluster_meta_store" where
  "ex_store n rvn ts m = put_marker (marker_of (ex_snap_global rvn ts) (ex_snap_local n rvn ts))
     (replace_rows (ex_snap_global rvn ts) (ex_snap_local n rvn ts) m)"

definition ex_valid_terms :: "owner_term list \<Rightarrow> bool" where
  "ex_valid_terms ts \<longleftrightarrow> rows_are_strictly_sorted ot_scope ts
     \<and> (\<forall>t \<in> set ts. ot_generation t = 1 \<and> length (to_wire (ot_scope t)) < 2 ^ 32) \<and> length ts < 2 ^ 32"

lemma ex_valid_spec:
  "ex_valid_terms ts \<Longrightarrow> owner_pair_spec ex_sha (ex_snap_global rvn ts) (ex_snap_local n rvn ts)"
  by (rule ex_snap_spec) (auto simp: ex_valid_terms_def)

lemma ex_store_view:
  assumes "ex_valid_terms ts"
  shows "meta_term (ex_store n rvn ts m) = map_extend Map.empty ot_scope ts"
    and "om_get (cm_cluster_owner (ex_store n rvn ts m)) k \<noteq> Some Garbled"
proof -
  have d: "distinct (map ot_scope ts)" using assms strictly_sorted_distinct by (auto simp: ex_valid_terms_def)
  then have d': "distinct (map (\<lambda>t. scope_key (ot_scope t)) ts)" by (simp add: distinct_map inj_on_def)
  show "meta_term (ex_store n rvn ts m) = map_extend Map.empty ot_scope ts"
    by (rule ext) (simp add: ex_store_def replace_rows_def row_at_fill [OF d])
  show "om_get (cm_cluster_owner (ex_store n rvn ts m)) k \<noteq> Some Garbled"
    by (auto simp: ex_store_def replace_rows_def om_get_fill [OF d'])
qed

lemma ex_install_next:
  assumes "meta_wf m" and "ex_valid_terms ts" and "ex_valid_terms us" and "rvn < rvn'"
    and "\<forall>u \<in> set us. \<forall>t \<in> set ts. ot_scope t = ot_scope u \<longrightarrow> ot_epoch t \<le> ot_epoch u"
  shows "install_owner_snapshot ex_sha True (ex_snap_global rvn' us) (ex_snap_local n rvn' us) (ex_store n rvn ts m)
    = Ok (Installed, ex_store n rvn' us (ex_store n rvn ts m))"
proof -
  have d: "distinct (map ot_scope ts)" using assms(2) strictly_sorted_distinct by (auto simp: ex_valid_terms_def)
  have "get_decoded (cm_snapshot_meta (ex_store n rvn ts m)) INSTALL_MARKER_KEY
      = Ok (Some (marker_of (ex_snap_global rvn ts) (ex_snap_local n rvn ts)))"
    using assms(1) by (simp add: ex_store_def meta_wf_def)
  moreover have "epoch_regresses (cm_cluster_owner (ex_store n rvn ts m)) 1 us = Ok False"
    unfolding epoch_regresses_False
    using assms(5) ex_store_view [OF assms(2)]
    by (auto simp: map_extend_empty_eq_Some [OF d] not_less)
  ultimately show ?thesis
    unfolding install_Installed_iff using ex_valid_spec [OF assms(3)] assms(4)
    by (simp add: marker_admits_def TRACK_A_COORDINATOR_GENERATION_def ex_store_def [of n rvn' us]
        del: get_decoded_eq_Some)
qed

lemma ex_terms_valid:
  "ex_valid_terms [ex_agent_term, ex_world_term]" "ex_valid_terms [ex_world_term]"
  "ex_valid_terms [ex_agent_term\<lparr>ot_epoch := e\<rparr>, ex_world_term]"
  using ex_terms_sorted
  by (simp_all add: ex_valid_terms_def rows_are_strictly_sorted_def)

lemma ex_install':
  "install_owner_snapshot ex_sha True ex_global (ex_local n) empty_meta
     = Ok (Installed, ex_store n 4 [ex_agent_term, ex_world_term] empty_meta)"
  using ex_install [of n] unfolding ex_store_def ex_global_def ex_local_def .

lemma meta_wf_ex_store: "meta_wf m \<Longrightarrow> ex_valid_terms ts \<Longrightarrow> meta_wf (ex_store n rvn ts m)"
  unfolding ex_store_def by (intro meta_wf_put_marker meta_wf_replace [OF _ ex_valid_spec])

text \<open>
  C22. Installation moves forward only: it needs a strictly higher revision than the
  installed marker of the same recipient, no scope of the new snapshot goes back to a lower
  epoch than the stored term, and afterwards the stored terms are those of the snapshot.
\<close>

theorem install_monotone:
  assumes "meta_wf m" and "install_owner_snapshot sha ok g l m = Ok (Installed, m')"
    and "meta_marker m = Some mk" and "im_generation mk = TRACK_A_COORDINATOR_GENERATION"
  shows "im_revision mk < gs_revision g \<and> im_recipient_node mk = ls_recipient_node l
    \<and> (\<forall>sc t old. meta_term m' sc = Some t \<and> meta_term m sc = Some old
         \<and> ot_generation old = ot_generation t \<longrightarrow> ot_epoch old \<le> ot_epoch t)
    \<and> meta_term m' = map_extend Map.empty ot_scope (gs_sorted_terms g)"
proof -
  from assms(2) have spec: "owner_pair_spec sha g l"
    and e: "epoch_regresses (cm_cluster_owner m) (gs_generation g) (gs_sorted_terms g) = Ok False"
    and m': "m' = put_marker (marker_of g l) (replace_rows g l m)"
    and adm: "\<exists>existing. get_decoded (cm_snapshot_meta m) INSTALL_MARKER_KEY = Ok existing \<and> marker_admits existing g l"
    by (auto simp: install_Installed_iff)
  from assms(3) have mk: "get_decoded (cm_snapshot_meta m) INSTALL_MARKER_KEY = Ok (Some mk)"
    by (auto simp: meta_marker_def split: option.splits stored.splits)
  have one: "im_revision mk < gs_revision g" "im_recipient_node mk = ls_recipient_node l"
    using adm [unfolded mk] assms(4)
    by (auto simp: marker_admits_def TRACK_A_COORDINATOR_GENERATION_def)
  have d: "distinct (map ot_scope (gs_sorted_terms g))"
    using spec strictly_sorted_distinct by (auto simp: owner_pair_spec_def)
  have view: "meta_term m' = map_extend Map.empty ot_scope (gs_sorted_terms g)"
    by (rule ext) (simp add: m' replace_rows_def row_at_fill [OF d])
  have "ot_epoch old \<le> ot_epoch t"
    if "meta_term m' sc = Some t" "meta_term m sc = Some old" "ot_generation old = ot_generation t" for sc t old
  proof -
    from that(1) have t: "t \<in> set (gs_sorted_terms g)" "ot_scope t = sc"
      by (auto simp: view map_extend_empty_eq_Some [OF d])
    with spec have "ot_generation t = gs_generation g" by (auto simp: owner_pair_spec_def)
    with t that(2,3) e show ?thesis by (auto simp: epoch_regresses_False not_less)
  qed
  with one view show ?thesis by blast
qed

theorem install_monotone_witness:
  "\<exists>m m'. install_owner_snapshot ex_sha True ex_global (ex_local (NodeId 2)) empty_meta = Ok (Installed, m)
     \<and> install_owner_snapshot ex_sha True (ex_snap_global 5 [ex_agent_term, ex_world_term])
         (ex_snap_local (NodeId 2) 5 [ex_agent_term, ex_world_term]) m = Ok (Installed, m')
     \<and> meta_term m' = map_extend Map.empty ot_scope [ex_agent_term, ex_world_term]"
proof -
  let ?ts = "[ex_agent_term, ex_world_term]"
  let ?m = "ex_store (NodeId 2) 4 ?ts empty_meta"
  let ?mk = "marker_of (ex_snap_global 4 ?ts) (ex_snap_local (NodeId 2) 4 ?ts)"
  have wf: "meta_wf ?m" by (simp add: meta_wf_ex_store ex_terms_valid)
  have i: "install_owner_snapshot ex_sha True (ex_snap_global 5 ?ts) (ex_snap_local (NodeId 2) 5 ?ts) ?m
      = Ok (Installed, ex_store (NodeId 2) 5 ?ts ?m)"
    by (rule ex_install_next) (simp_all add: ex_terms_valid)
  have mk: "meta_marker ?m = Some ?mk" by (simp add: ex_store_def empty_meta_def)
  have "im_generation ?mk = TRACK_A_COORDINATOR_GENERATION" by (simp add: TRACK_A_COORDINATOR_GENERATION_def)
  from install_monotone [OF wf i mk this] i ex_install' [of "NodeId 2"] show ?thesis by auto
qed

lemma install_conflict_sticky:
  assumes "meta_marker m = Some mk" and "im_status mk = StatusSnapshotConflict"
    and "im_generation mk \<noteq> 0"
  shows "install_owner_snapshot sha ok g l m = Ok (out, m') \<Longrightarrow>
      m' = m \<and> (out = SnapshotConflict \<or> gs_generation g \<noteq> TRACK_A_COORDINATOR_GENERATION)"
    and "\<not> is_ok (installed_owner_snapshot sha ok m)"
proof -
  from assms(1) have "get_decoded (cm_snapshot_meta m) INSTALL_MARKER_KEY = Ok (Some mk)"
    by (auto simp: meta_marker_def split: option.splits stored.splits)
  then show "install_owner_snapshot sha ok g l m = Ok (out, m') \<Longrightarrow>
      m' = m \<and> (out = SnapshotConflict \<or> gs_generation g \<noteq> TRACK_A_COORDINATOR_GENERATION)"
    "\<not> is_ok (installed_owner_snapshot sha ok m)"
    using assms(2,3)
    by (auto simp: install_owner_snapshot_def install_against_def installed_owner_snapshot_def
        install_marker_def is_ok_iff simp del: get_decoded_eq_Some split: if_splits)
qed

text \<open>
  C26. A snapshot that is not installed changes no owner row, base row or overlay.  Two
  different snapshots at the installed revision are a conflict: the marker is poisoned, the
  store stops returning a snapshot, and every later snapshot is answered with the conflict
  and changes nothing.
\<close>

theorem install_rejection_contained:
  assumes "meta_wf m" and "install_owner_snapshot sha ok g l m = Ok (out, m')" and "out \<noteq> Installed"
  shows "(cm_cluster_owner m' = cm_cluster_owner m \<and> cm_local_owner m' = cm_local_owner m
      \<and> cm_local_owner_saga m' = cm_local_owner_saga m)
    \<and> (out = SnapshotConflict \<longrightarrow> \<not> is_ok (installed_owner_snapshot sha ok2 m')
         \<and> (install_owner_snapshot sha ok3 g2 l2 m' = Ok (out2, m2) \<longrightarrow>
              m2 = m' \<and> (out2 = SnapshotConflict \<or> gs_generation g2 \<noteq> TRACK_A_COORDINATOR_GENERATION)))"
proof -
  have rows: "cm_cluster_owner m' = cm_cluster_owner m \<and> cm_local_owner m' = cm_local_owner m
      \<and> cm_local_owner_saga m' = cm_local_owner_saga m"
    using install_other [OF assms(2,3)] by auto
  have "\<exists>mk. meta_marker m' = Some mk \<and> im_status mk = StatusSnapshotConflict \<and> im_generation mk \<noteq> 0"
    if conf: "out = SnapshotConflict"
  proof -
    have gen: "gs_generation g = TRACK_A_COORDINATOR_GENERATION"
      using assms(2) conf by (auto simp: install_owner_snapshot_def split: if_splits)
    with assms(2) obtain e where e: "get_decoded (cm_snapshot_meta m) INSTALL_MARKER_KEY = Ok e"
      "install_against e g l m = Ok (SnapshotConflict, m')" by (auto simp: install_owner_snapshot_def conf)
    then obtain mk where mk: "e = Some mk"
      by (cases e) (auto simp: install_against_def replace_snapshot_def split: if_splits)
    have "om_wf (cm_snapshot_meta m)" using assms(1) by (simp add: meta_wf_def)
    then show ?thesis
      using e mk by (auto simp: install_against_def meta_marker_def put_marker_def replace_snapshot_def split: if_splits)
  qed
  with rows show ?thesis using install_conflict_sticky by blast
qed

lemma installed_terms:
  assumes "owner_pair_spec sha g l"
  shows "meta_term (put_marker mk (replace_rows g l m)) = map_extend Map.empty ot_scope (gs_sorted_terms g)"
    and "om_get (cm_cluster_owner (put_marker mk (replace_rows g l m))) k \<noteq> Some Garbled"
proof -
  have d: "distinct (map ot_scope (gs_sorted_terms g))"
    using assms strictly_sorted_distinct by (auto simp: owner_pair_spec_def)
  then have d': "distinct (map (\<lambda>t. scope_key (ot_scope t)) (gs_sorted_terms g))" by (simp add: distinct_map inj_on_def)
  show "meta_term (put_marker mk (replace_rows g l m)) = map_extend Map.empty ot_scope (gs_sorted_terms g)"
    by (rule ext) (simp add: replace_rows_def row_at_fill [OF d])
  show "om_get (cm_cluster_owner (put_marker mk (replace_rows g l m))) k \<noteq> Some Garbled"
    by (auto simp: replace_rows_def om_get_fill [OF d'])
qed

text \<open>
  C39. The durable epoch of a scope can still go back.  Once a snapshot that omits a scope is
  installed, whatever the store held for the scope before, no stored term of it is left, and
  any later valid pair for the same recipient with a higher revision is then installed with
  whatever epoch it names for that scope, as long as it does not lower the epoch of a scope
  the omitting snapshot kept.
\<close>

theorem epoch_forgotten_by_omission:
  assumes "meta_wf m" and "install_owner_snapshot sha True g l m = Ok (Installed, m1)"
    and "\<forall>t \<in> set (gs_sorted_terms g). ot_scope t \<noteq> sc"
    and "owner_pair_spec sha g2 l2" and "gs_generation g2 = TRACK_A_COORDINATOR_GENERATION"
    and "gs_revision g < gs_revision g2" and "ls_recipient_node l2 = ls_recipient_node l"
    and "\<forall>t \<in> set (gs_sorted_terms g2). \<forall>old \<in> set (gs_sorted_terms g).
           ot_scope old = ot_scope t \<longrightarrow> ot_epoch old \<le> ot_epoch t"
    and "t \<in> set (gs_sorted_terms g2)" and "ot_scope t = sc"
  shows "meta_term m1 sc = None
     \<and> (\<exists>m2. install_owner_snapshot sha True g2 l2 m1 = Ok (Installed, m2) \<and> meta_term m2 sc = Some t)"
proof -
  from assms(2) have spec: "owner_pair_spec sha g l" and gen: "gs_generation g = TRACK_A_COORDINATOR_GENERATION"
    and m1: "m1 = put_marker (marker_of g l) (replace_rows g l m)"
    by (auto simp: install_Installed_iff)
  have d: "distinct (map ot_scope (gs_sorted_terms g))" "distinct (map ot_scope (gs_sorted_terms g2))"
    using spec assms(4) strictly_sorted_distinct by (auto simp: owner_pair_spec_def)
  have terms: "meta_term m1 s = Some old \<longleftrightarrow> old \<in> set (gs_sorted_terms g) \<and> ot_scope old = s" for s old
    unfolding m1 installed_terms [OF spec] by (rule map_extend_empty_eq_Some [OF d(1)])
  then have none: "meta_term m1 sc = None" using assms(3) by (cases "meta_term m1 sc") auto
  let ?m2 = "put_marker (marker_of g2 l2) (replace_rows g2 l2 m1)"
  have "get_decoded (cm_snapshot_meta m1) INSTALL_MARKER_KEY = Ok (Some (marker_of g l))"
    using assms(1) by (simp add: m1 meta_wf_def)
  moreover have "epoch_regresses (cm_cluster_owner m1) (gs_generation g2) (gs_sorted_terms g2) = Ok False"
    unfolding epoch_regresses_False terms
    using assms(8) installed_terms(2) [OF spec] by (auto simp: m1 not_less)
  ultimately have "install_owner_snapshot sha True g2 l2 m1 = Ok (Installed, ?m2)"
    unfolding install_Installed_iff using assms(4-7) gen
    by (simp add: marker_admits_def TRACK_A_COORDINATOR_GENERATION_def del: get_decoded_eq_Some)
  moreover have "meta_term ?m2 sc = Some t"
    unfolding installed_terms [OF assms(4)] using assms(9,10) by (simp add: map_extend_empty_eq_Some [OF d(2)])
  ultimately show ?thesis using none by blast
qed

theorem epoch_forgotten_by_omission_witness:
  "\<exists>m1 m2 m3. install_owner_snapshot ex_sha True ex_global (ex_local (NodeId 2)) empty_meta = Ok (Installed, m1)
     \<and> install_owner_snapshot ex_sha True (ex_snap_global 5 [ex_world_term])
         (ex_snap_local (NodeId 2) 5 [ex_world_term]) m1 = Ok (Installed, m2)
     \<and> install_owner_snapshot ex_sha True (ex_snap_global 6 [ex_agent_term\<lparr>ot_epoch := 1\<rparr>, ex_world_term])
         (ex_snap_local (NodeId 2) 6 [ex_agent_term\<lparr>ot_epoch := 1\<rparr>, ex_world_term]) m2 = Ok (Installed, m3)
     \<and> map_option ot_epoch (meta_term m1 (NanoContainer ''a'')) = Some 3
     \<and> map_option ot_epoch (meta_term m3 (NanoContainer ''a'')) = Some 1"
proof -
  let ?t1 = "[ex_agent_term, ex_world_term]" and ?t3 = "[ex_agent_term\<lparr>ot_epoch := 1\<rparr>, ex_world_term]"
  let ?m1 = "ex_store (NodeId 2) 4 ?t1 empty_meta"
  let ?m2 = "ex_store (NodeId 2) 5 [ex_world_term] ?m1"
  have wf: "meta_wf ?m1" by (simp add: meta_wf_ex_store ex_terms_valid)
  have i: "install_owner_snapshot ex_sha True (ex_snap_global 5 [ex_world_term])
      (ex_snap_local (NodeId 2) 5 [ex_world_term]) ?m1 = Ok (Installed, ?m2)"
    by (rule ex_install_next) (simp_all add: ex_terms_valid)
  have "\<exists>m3. install_owner_snapshot ex_sha True (ex_snap_global 6 ?t3) (ex_snap_local (NodeId 2) 6 ?t3) ?m2
      = Ok (Installed, m3) \<and> meta_term m3 (NanoContainer ''a'') = Some (ex_agent_term\<lparr>ot_epoch := 1\<rparr>)"
    by (rule epoch_forgotten_by_omission [OF wf i, THEN conjunct2])
      (simp_all add: ex_valid_spec ex_terms_valid TRACK_A_COORDINATOR_GENERATION_def)
  moreover have "map_option ot_epoch (meta_term ?m1 (NanoContainer ''a'')) = Some 3"
    by (simp add: ex_store_view ex_terms_valid)
  ultimately show ?thesis using ex_install' i by fastforce
qed

section \<open>Overlays\<close>

text \<open>The order in which handoff transitions of one scope supersede each other.\<close>

definition overlay_rank :: "local_owner_saga_state \<Rightarrow> u64 \<times> u64 \<times> u64" where
  "overlay_rank s = (ot_generation (sg_owner_term s), ot_epoch (sg_owner_term s), sg_transition_seq s)"

lemma put_overlay_sel [simp]:
  "cm_cluster_owner (put_overlay s m) = cm_cluster_owner m"
  "cm_local_owner (put_overlay s m) = cm_local_owner m"
  "cm_snapshot_meta (put_overlay s m) = cm_snapshot_meta m"
  by (simp_all add: put_overlay_def)

lemma put_overlay_view:
  "meta_wf m \<Longrightarrow> meta_overlay (put_overlay s m) = (meta_overlay m)(sg_scope s \<mapsto> s)"
  by (rule ext) (simp add: put_overlay_def row_at_insert meta_wf_def)

lemma meta_wf_put_overlay: "meta_wf m \<Longrightarrow> meta_wf (put_overlay s m)"
  by (simp add: meta_wf_def put_overlay_def keyed_insert)

lemma cas_OkD:
  assumes "put_handoff_saga_state_cas ok s m = Ok m'"
  shows "m' = put_overlay s m \<and> (\<forall>e. meta_overlay m (sg_scope s) = Some e \<longrightarrow>
        sg_operation_kind e \<noteq> Migration \<and> overlay_term e \<le> overlay_term s
        \<and> (overlay_term e = overlay_term s \<longrightarrow> sg_transition_seq e < sg_transition_seq s))
    \<or> (m' = m \<and> meta_overlay m (sg_scope s) = Some s)"
proof -
  let ?key = "scope_key (sg_scope s)"
  from assms obtain existing where g: "get_decoded (cm_local_owner_saga m) ?key = Ok existing"
    and body: "(case existing of None \<Rightarrow> Ok (put_overlay s m)
        | Some e \<Rightarrow> if e = s then Ok m
            else if sg_operation_kind e = Migration then Err (MigrationOverlay ?key)
            else if overlay_term e > overlay_term s then Err (NewerOverlay ?key)
            else if overlay_term e = overlay_term s \<and> sg_op_id e \<noteq> sg_op_id s
            then Err (ConcurrentOverlay ?key)
            else if overlay_term e = overlay_term s \<and> sg_transition_seq s \<le> sg_transition_seq e
            then Err (ConflictingTransition ?key)
            else Ok (put_overlay s m)) = Ok m'"
    unfolding put_handoff_saga_state_cas_def Let_def by (simp split: if_splits) blast
  show ?thesis
  proof (cases existing)
    case None
    with g body show ?thesis by (simp add: row_at_def)
  next
    case (Some e)
    with g have "meta_overlay m (sg_scope s) = Some e" by (simp add: row_at_eq_Some)
    with body Some show ?thesis by (simp add: not_less not_le split: if_splits)
  qed
qed

lemma meta_wf_cas: "meta_wf m \<Longrightarrow> put_handoff_saga_state_cas ok s m = Ok m' \<Longrightarrow> meta_wf m'"
  using cas_OkD meta_wf_put_overlay by blast

text \<open>
  C27. The handoff overlay moves by compare-and-set: when it succeeds the requested overlay
  is the stored one, no other scope's overlay changes, a migration overlay is never
  replaced, and a replaced overlay has a strictly lower generation, epoch or transition
  number, so overlays of a scope only advance.
\<close>

theorem handoff_overlay_cas:
  assumes "meta_wf m" and "put_handoff_saga_state_cas ok s m = Ok m'"
  shows "meta_overlay m' = (meta_overlay m)(sg_scope s \<mapsto> s)
    \<and> (\<forall>e. meta_overlay m (sg_scope s) = Some e \<and> e \<noteq> s \<longrightarrow>
         sg_operation_kind e \<noteq> Migration \<and> overlay_rank e < overlay_rank s)"
proof -
  have "overlay_rank e < overlay_rank s" if "overlay_term e \<le> overlay_term s"
    "overlay_term e = overlay_term s \<longrightarrow> sg_transition_seq e < sg_transition_seq s" for e
    using that by (auto simp: overlay_rank_def overlay_term_def)
  with cas_OkD [OF assms(2)] put_overlay_view [OF assms(1), of s] show ?thesis by auto
qed

definition ex_overlay :: "u64 \<Rightarrow> local_owner_saga_state" where
  "ex_overlay e = \<lparr>sg_scope = NanoContainer ''a'', sg_operation_kind = Handoff, sg_op_id = None,
     sg_owner_term = ex_agent_term\<lparr>ot_epoch := e\<rparr>, sg_role = SagaRetired, sg_transition_seq = 0\<rparr>"

theorem handoff_overlay_cas_witness:
  "\<exists>m'. put_handoff_saga_state_cas True (ex_overlay 4) (put_overlay (ex_overlay 3) empty_meta) = Ok m'
     \<and> meta_overlay m' (NanoContainer ''a'') = Some (ex_overlay 4)"
proof -
  let ?m = "put_overlay (ex_overlay 3) empty_meta"
  have "put_handoff_saga_state_cas True (ex_overlay 4) ?m = Ok (put_overlay (ex_overlay 4) ?m)"
    by (simp add: put_handoff_saga_state_cas_def ex_overlay_def put_overlay_def empty_meta_def Let_def
        overlay_term_def)
  with handoff_overlay_cas [OF meta_wf_put_overlay [OF meta_wf_empty] this]
  show ?thesis by (simp add: ex_overlay_def)
qed

lemma ex_conflict:
  "install_owner_snapshot ex_sha True (ex_snap_global 4 [ex_world_term]) (ex_snap_local (NodeId 2) 4 [ex_world_term])
     (put_marker ((marker_of ex_global (ex_local (NodeId 2)))\<lparr>im_local_checksum := []\<rparr>) empty_meta)
   = Ok (SnapshotConflict, put_marker ((marker_of ex_global (ex_local (NodeId 2)))\<lparr>im_local_checksum := [],
       im_status := StatusSnapshotConflict, im_conflict_global_checksum := Some (replicate 32 0),
       im_conflict_local_checksum := Some (replicate 32 0)\<rparr>)
      (put_marker ((marker_of ex_global (ex_local (NodeId 2)))\<lparr>im_local_checksum := []\<rparr>) empty_meta))"
proof -
  have "validate_owner_snapshot_pair ex_sha (ex_snap_global 4 [ex_world_term])
      (ex_snap_local (NodeId 2) 4 [ex_world_term]) = Ok ()"
    unfolding validate_pair_iff_spec by (rule ex_valid_spec [OF ex_terms_valid(2)])
  then show ?thesis
    unfolding install_owner_snapshot_def
    by (simp add: empty_meta_def TRACK_A_COORDINATOR_GENERATION_def install_against_def)
      (simp add: ex_global_def ex_local_def ex_snap_global_def ex_snap_local_def)
qed

theorem install_rejection_contained_witness:
  "\<exists>m m'. install_owner_snapshot ex_sha True (ex_snap_global 4 [ex_world_term])
       (ex_snap_local (NodeId 2) 4 [ex_world_term]) m = Ok (SnapshotConflict, m')
     \<and> cm_cluster_owner m' = cm_cluster_owner m \<and> \<not> is_ok (installed_owner_snapshot ex_sha True m')"
  using install_rejection_contained [OF meta_wf_put_marker [OF meta_wf_empty] ex_conflict, of True] ex_conflict
  by blast

lemma complete_OkD:
  assumes "complete_handoff_overlay ok t m = Ok m'"
  shows "m' = m \<and> meta_overlay m (ot_scope t) = None \<or>
    (\<exists>e. meta_overlay m (ot_scope t) = Some e \<and> sg_operation_kind e \<noteq> Migration
       \<and> overlay_term e \<le> (ot_generation t, ot_epoch t)
       \<and> m' = m\<lparr>cm_local_owner_saga := om_remove (scope_key (ot_scope t)) (cm_local_owner_saga m)\<rparr>)"
proof -
  from assms obtain existing where g:
    "get_decoded (cm_local_owner_saga m) (scope_key (ot_scope t)) = Ok existing"
    by (auto simp: complete_handoff_overlay_def Let_def)
  show ?thesis
  proof (cases existing)
    case None
    with assms g show ?thesis
      unfolding complete_handoff_overlay_def Let_def by (auto simp: row_at_def)
  next
    case (Some e)
    with assms g show ?thesis
      unfolding complete_handoff_overlay_def Let_def
      by (auto simp: row_at_def overlay_term_def not_less split: if_splits)
  qed
qed

lemma meta_wf_complete:
  assumes "meta_wf m" and "complete_handoff_overlay ok t m = Ok m'"
  shows "meta_wf m'" and "meta_overlay m' = (meta_overlay m)(ot_scope t := None)"
  using assms(1) complete_OkD [OF assms(2)]
  by (auto simp: meta_wf_def keyed_remove row_at_remove intro!: ext)

lemma complete_other_tables:
  assumes "complete_handoff_overlay ok t m = Ok m'"
  shows "cm_cluster_owner m' = cm_cluster_owner m" "cm_local_owner m' = cm_local_owner m"
    "cm_snapshot_meta m' = cm_snapshot_meta m"
  using complete_OkD [OF assms] by auto

section \<open>Listing\<close>

lemma try_collect_decode:
  "try_collect decode_row cs = Ok xs \<longleftrightarrow> cs = map Row xs"
proof (induction cs arbitrary: xs)
  case (Cons c cs)
  then show ?case by (cases xs) auto
qed auto

text \<open>The decoded rows of a keyed table, in any order, are the table.\<close>

lemma keyed_rows_view:
  assumes wf: "om_wf t" "keyed sc t" and xs: "map snd t = map Row xs" and set: "set ss = set xs" "distinct xs \<Longrightarrow> distinct ss"
  shows "map_extend Map.empty sc ss = row_at t" and "distinct (map sc ss)"
proof -
  have mem: "(k, Row s) \<in> set t \<longleftrightarrow> om_get t k = Some (Row s)" for k s
    using om.entries_get [OF wf(1)] by simp
  have keys: "map fst t = map (\<lambda>s. scope_key (sc s)) xs"
  proof (rule nth_equalityI)
    show len: "length (map fst t) = length (map (\<lambda>s. scope_key (sc s)) xs)"
      using arg_cong [OF xs, of length] by simp
    fix i assume i: "i < length (map fst t)"
    then have "snd (t ! i) = Row (xs ! i)" using arg_cong [OF xs, of "\<lambda>l. l ! i"] len by simp
    with i have "(fst (t ! i), Row (xs ! i)) \<in> set t" by (metis length_map nth_mem prod.collapse)
    with wf(2) have "fst (t ! i) = scope_key (sc (xs ! i))" by (auto simp: mem keyed_def)
    with i len show "map fst t ! i = map (\<lambda>s. scope_key (sc s)) xs ! i" by simp
  qed
  have "distinct (map (\<lambda>s. scope_key (sc s)) xs)"
    using om_wf_distinct [OF wf(1)] unfolding keys .
  then have "distinct (map sc xs)" by (simp add: distinct_map inj_on_def)
  then show d: "distinct (map sc ss)" using set by (simp add: distinct_map)
  have "t = zip (map fst t) (map snd t)" by (rule zip_map_fst_snd [symmetric])
  then have t: "t = map (\<lambda>s. (scope_key (sc s), Row s)) xs"
    unfolding keys xs zip_map_map zip_same_conv_map by simp
  show "map_extend Map.empty sc ss = row_at t"
  proof (intro ext option_eqI)
    fix s a
    show "map_extend Map.empty sc ss s = Some a \<longleftrightarrow> row_at t s = Some a"
      unfolding map_extend_empty_eq_Some [OF d] row_at_eq_Some mem [symmetric]
      by (subst t) (auto simp: set)
  qed
qed

lemma list_sagas_OkD:
  assumes "meta_wf m" and "list_local_saga_states ok m = Ok ss"
  shows "map_extend Map.empty sg_scope ss = meta_overlay m" and "distinct (map sg_scope ss)"
    and "sorted (map (\<lambda>s. to_wire (sg_scope s)) ss)"
proof -
  from assms(2) obtain xs where xs: "map snd (cm_local_owner_saga m) = map Row xs"
      "ss = sort_key (\<lambda>s. to_wire (sg_scope s)) xs"
    by (auto simp: list_local_saga_states_def try_collect_decode om_values_def)
  then show "map_extend Map.empty sg_scope ss = meta_overlay m" and "distinct (map sg_scope ss)"
    using keyed_rows_view [OF _ _ xs(1), of sg_scope ss] assms(1) by (simp_all add: meta_wf_def)
  show "sorted (map (\<lambda>s. to_wire (sg_scope s)) ss)" using xs(2) by simp
qed

lemma list_terms_OkD:
  assumes "meta_wf m" and "list_owner_terms ok m = Ok ts"
  shows "map_extend Map.empty ot_scope ts = meta_term m" and "distinct (map ot_scope ts)"
proof -
  from assms(2) obtain xs where xs: "map snd (cm_cluster_owner m) = map Row xs"
      "ts = sort_key (\<lambda>t. to_wire (ot_scope t)) xs"
    by (auto simp: list_owner_terms_def try_collect_decode om_values_def)
  then show "map_extend Map.empty ot_scope ts = meta_term m" and "distinct (map ot_scope ts)"
    using keyed_rows_view [OF _ _ xs(1), of ot_scope ts] assms(1) by (simp_all add: meta_wf_def)
qed

text \<open>What a successful read of the installed pair says about the store.\<close>

lemma installed_OkD:
  assumes "meta_wf m" and "installed_owner_snapshot sha ok m = Ok (Some (g, l))"
  shows "owner_pair_spec sha g l" and "map_extend Map.empty ot_scope (gs_sorted_terms g) = meta_term m"
    and "\<exists>mk. meta_marker m = Some mk \<and> im_status mk = StatusInstalled \<and> im_generation mk = gs_generation g
      \<and> im_revision mk = gs_revision g \<and> im_recipient_node mk = ls_recipient_node l"
proof -
  from assms(2) obtain mk where mk: "install_marker ok m = Ok (Some mk)"
    by (auto simp: installed_owner_snapshot_def split: option.splits)
  then have "meta_marker m = Some mk" by (auto simp: install_marker_def meta_marker_def)
  moreover from assms(2) mk obtain ts where "list_owner_terms ok m = Ok ts" "gs_sorted_terms g = ts"
      "im_status mk = StatusInstalled" "im_generation mk = gs_generation g" "im_revision mk = gs_revision g"
      "im_recipient_node mk = ls_recipient_node l" "validate_owner_snapshot_pair sha g l = Ok ()"
    by (auto simp: installed_owner_snapshot_def Let_def status_not_conflict [symmetric] split: if_splits)
  ultimately show "owner_pair_spec sha g l" and "map_extend Map.empty ot_scope (gs_sorted_terms g) = meta_term m"
    and "\<exists>mk. meta_marker m = Some mk \<and> im_status mk = StatusInstalled \<and> im_generation mk = gs_generation g
      \<and> im_revision mk = gs_revision g \<and> im_recipient_node mk = ls_recipient_node l"
    using list_terms_OkD [OF assms(1)] by (auto simp: validate_pair_iff_spec)
qed

lemma put_get_overlay:
  assumes "meta_wf m" and "meta_overlay m sc = Some s" and "list_local_saga_states ok m = Ok ss"
  shows "List.find (\<lambda>x. sg_scope x = sc) ss = Some s"
  using list_sagas_OkD [OF assms(1,3)] assms(2) map_extend_empty_find [of sg_scope ss sc] by simp

text \<open>
  A local transition written through the legacy interface reads back unchanged, and the
  stable roles are refused.
\<close>

theorem local_state_roundtrip:
  assumes "meta_wf m" and "put_local_state ok s m = Ok m'" and "get_local_state ok' m' (lo_scope s) = Ok r"
  shows "r = Some s \<and> lo_role s \<notin> {RoleOwner, RoleFollower}"
proof -
  from assms(2) obtain role where role: "saga_of_role (lo_role s) = Some role" by (auto simp: put_local_state_def)
  define o1 where "o1 = \<lparr>sg_scope = lo_scope s, sg_operation_kind = Handoff, sg_op_id = None,
    sg_owner_term = \<lparr>ot_scope = lo_scope s, ot_owner_node = lo_node_id s, ot_epoch = lo_epoch s,
      ot_generation = (if lo_epoch s = 0 then 0 else TRACK_A_COORDINATOR_GENERATION)\<rparr>,
    sg_role = role, sg_transition_seq = 0\<rparr>"
  from assms(2) role have cas: "put_handoff_saga_state_cas ok o1 m = Ok m'"
    by (simp add: put_local_state_def o1_def)
  have "meta_overlay m' (lo_scope s) = Some o1"
    using cas_OkD [OF cas] put_overlay_view [OF assms(1), of o1] by (auto simp: o1_def)
  moreover obtain ss where "list_local_saga_states ok' m' = Ok ss"
    "r = map_option local_state_of (List.find (\<lambda>x. sg_scope x = lo_scope s) ss)"
    using assms(3) by (auto simp: get_local_state_def)
  ultimately have "r = Some (local_state_of o1)"
    using put_get_overlay [OF meta_wf_cas [OF assms(1) cas]] by simp
  moreover have "role_of_saga role = lo_role s" using role by (cases "lo_role s") auto
  ultimately show ?thesis using role by (cases s) (auto simp: local_state_of_def o1_def)
qed

theorem local_state_roundtrip_witness:
  "let s = \<lparr>lo_scope = World, lo_node_id = NodeId 1, lo_epoch = 2, lo_role = RoleRetired\<rparr> in
   \<exists>m'. put_local_state True s empty_meta = Ok m' \<and> get_local_state True m' World = Ok (Some s)"
proof -
  let ?s = "\<lparr>lo_scope = World, lo_node_id = NodeId 1, lo_epoch = 2, lo_role = RoleRetired\<rparr>"
  obtain m' where p: "put_local_state True ?s empty_meta = Ok m'"
    by (simp add: put_local_state_def put_handoff_saga_state_cas_def Let_def empty_meta_def)
  then obtain r where g: "get_local_state True m' (lo_scope ?s) = Ok r"
    by (auto simp: put_local_state_def put_handoff_saga_state_cas_def Let_def empty_meta_def
        get_local_state_def list_local_saga_states_def put_overlay_def om_values_def)
  from local_state_roundtrip [OF meta_wf_empty p g] p g show ?thesis by simp
qed

section \<open>Legacy migration\<close>

lemma migrate_rows_props:
  assumes "om_wf t" and "keyed sg_scope t"
  shows "om_wf (migrate_rows ss t)" and "keyed sg_scope (migrate_rows ss t)"
    and "om_get t k = Some c \<Longrightarrow> om_get (migrate_rows ss t) k = Some c"
    and "s \<in> set ss \<Longrightarrow> saga_of_role (lo_role s) \<noteq> None \<Longrightarrow>
      om_get (migrate_rows ss t) (scope_key (lo_scope s)) \<noteq> None"
proof -
  have ins: "keyed sg_scope (om_insert (scope_key (lo_scope s)) (Row (legacy_overlay s role)) t)"
    if "keyed sg_scope t" "om_wf t" for s role t
    using keyed_insert [OF that, of "legacy_overlay s role"] by (simp add: legacy_overlay_def)
  have all: "om_wf (migrate_rows ss t) \<and> keyed sg_scope (migrate_rows ss t)
    \<and> (\<forall>k c. om_get t k = Some c \<longrightarrow> om_get (migrate_rows ss t) k = Some c)
    \<and> (\<forall>s \<in> set ss. saga_of_role (lo_role s) \<noteq> None \<longrightarrow>
         om_get (migrate_rows ss t) (scope_key (lo_scope s)) \<noteq> None)"
    using assms
  proof (induction ss t rule: migrate_rows.induct)
    case (2 s ss t)
    show ?case
    proof (cases "saga_of_role (lo_role s)")
      case None
      with 2 show ?thesis by auto
    next
      case (Some role)
      show ?thesis
      proof (cases "om_get t (scope_key (lo_scope s)) = None")
        case True
        let ?t = "om_insert (scope_key (lo_scope s)) (Row (legacy_overlay s role)) t"
        have step: "migrate_rows (s # ss) t = migrate_rows ss ?t" using Some True by (simp add: Let_def)
        have IH: "om_wf (migrate_rows ss ?t) \<and> keyed sg_scope (migrate_rows ss ?t)
          \<and> (\<forall>k c. om_get ?t k = Some c \<longrightarrow> om_get (migrate_rows ss ?t) k = Some c)
          \<and> (\<forall>s \<in> set ss. saga_of_role (lo_role s) \<noteq> None \<longrightarrow>
               om_get (migrate_rows ss ?t) (scope_key (lo_scope s)) \<noteq> None)"
          using "2.IH"(3) [OF Some refl] True 2(4,5) ins by auto
        have "om_get ?t (scope_key (lo_scope s)) \<noteq> None" using 2(4) by simp
        then have "om_get (migrate_rows ss ?t) (scope_key (lo_scope s)) \<noteq> None" using IH by auto
        moreover have "om_get ?t k = Some c" if "om_get t k = Some c" for k c
          using that True 2(4) by auto
        ultimately show ?thesis unfolding step using IH by auto
      next
        case False
        then obtain c where c: "om_get t (scope_key (lo_scope s)) = Some c" by auto
        have step: "migrate_rows (s # ss) t = migrate_rows ss t" using Some c by (simp add: Let_def)
        show ?thesis unfolding step using "2.IH"(2) [OF Some refl] c 2(4,5) by auto
      qed
    qed
  qed simp
  then show "om_wf (migrate_rows ss t)" "keyed sg_scope (migrate_rows ss t)" by blast+
  show "om_get t k = Some c \<Longrightarrow> om_get (migrate_rows ss t) k = Some c" using all by blast
  show "s \<in> set ss \<Longrightarrow> saga_of_role (lo_role s) \<noteq> None \<Longrightarrow>
      om_get (migrate_rows ss t) (scope_key (lo_scope s)) \<noteq> None" using all by blast
qed

lemma migrate_rows_done:
  "\<forall>s \<in> set ss. saga_of_role (lo_role s) \<noteq> None \<longrightarrow> om_get t (scope_key (lo_scope s)) \<noteq> None
   \<Longrightarrow> migrate_rows ss t = t"
  by (induction ss t rule: migrate_rows.induct) (auto simp: Let_def split: option.splits)

text \<open>
   Opening a store keeps every stored overlay, and before the first coordinator snapshot
  it leaves an overlay for every legacy row in a transition role, so a scope a node was
  giving up stays fenced through the upgrade; opening again changes nothing.
\<close>

theorem open_store_migrates:
  assumes "meta_wf m" and "open_store True (Some m) = Ok m'"
  shows "meta_wf m' \<and> (\<forall>sc s. meta_overlay m sc = Some s \<longrightarrow> meta_overlay m' sc = Some s)
    \<and> (\<forall>s \<in> set (legacy_rows (cm_local_owner m)). saga_of_role (lo_role s) \<noteq> None
         \<and> om_get (cm_snapshot_meta m) INSTALL_MARKER_KEY = None \<longrightarrow>
         om_get (cm_local_owner_saga m') (scope_key (lo_scope s)) \<noteq> None)
    \<and> open_store True (Some m') = Ok m'"
proof -
  let ?ss = "legacy_rows (cm_local_owner m)"
  have wf: "om_wf (cm_local_owner_saga m)" "keyed sg_scope (cm_local_owner_saga m)"
    using assms(1) by (simp_all add: meta_wf_def)
  note props = migrate_rows_props [OF wf, where ss = ?ss]
  let ?mig = "m\<lparr>cm_local_owner_saga := migrate_rows ?ss (cm_local_owner_saga m)\<rparr>"
  have open_eq: "open_store True (Some x) = try_bind (get_decoded (cm_snapshot_meta x) INSTALL_MARKER_KEY)
      (\<lambda>mk. if (case mk of Some k \<Rightarrow> im_generation k \<noteq> 0 | None \<Rightarrow> False) then Ok x
            else if legacy_rows (cm_local_owner x) = [] then Ok x
            else Ok (x\<lparr>cm_local_owner_saga := migrate_rows (legacy_rows (cm_local_owner x)) (cm_local_owner_saga x)\<rparr>))" for x
    by (simp add: open_store_def migrate_legacy_overlays_def install_marker_def)
  from assms(2) obtain mk where mk: "get_decoded (cm_snapshot_meta m) INSTALL_MARKER_KEY = Ok mk"
    by (auto simp: open_eq)
  let ?keep = "(case mk of Some k \<Rightarrow> im_generation k \<noteq> 0 | None \<Rightarrow> False) \<or> ?ss = []"
  have m': "m' = (if ?keep then m else ?mig)"
    using assms(2) unfolding open_eq mk by (auto split: if_splits)
  have "meta_wf ?mig" using assms(1) props(1,2) by (simp add: meta_wf_def)
  moreover have "\<forall>sc s. meta_overlay m sc = Some s \<longrightarrow> meta_overlay ?mig sc = Some s"
    using props(3) by (simp add: row_at_eq_Some)
  moreover have "open_store True (Some m') = Ok m'"
  proof (cases ?keep)
    case True
    then show ?thesis using assms(2) m' by simp
  next
    case False
    have "migrate_rows ?ss (migrate_rows ?ss (cm_local_owner_saga m)) = migrate_rows ?ss (cm_local_owner_saga m)"
      by (rule migrate_rows_done) (use props(4) in auto)
    with False show ?thesis unfolding m' open_eq by (simp add: mk del: get_decoded_eq_Some get_decoded_eq_None)
  qed
  moreover have "\<forall>s \<in> set ?ss. saga_of_role (lo_role s) \<noteq> None
      \<and> om_get (cm_snapshot_meta m) INSTALL_MARKER_KEY = None \<longrightarrow>
      om_get (cm_local_owner_saga m') (scope_key (lo_scope s)) \<noteq> None"
  proof (intro ballI impI)
    fix s assume "s \<in> set ?ss" and "saga_of_role (lo_role s) \<noteq> None
      \<and> om_get (cm_snapshot_meta m) INSTALL_MARKER_KEY = None"
    moreover from this have "\<not> ?keep" using mk by auto
    ultimately show "om_get (cm_local_owner_saga m') (scope_key (lo_scope s)) \<noteq> None"
      using props(4) m' by simp
  qed
  ultimately show ?thesis using assms(1) m' by auto
qed

theorem open_store_migrates_witness:
  "let s = \<lparr>lo_scope = World, lo_node_id = NodeId 1, lo_epoch = 2, lo_role = RoleRetiring\<rparr>;
       m = empty_meta\<lparr>cm_local_owner := [(scope_key World, Row (LegacyRow s))]\<rparr> in
   \<exists>m'. open_store True (Some m) = Ok m' \<and> om_get (cm_local_owner_saga m') (scope_key World) \<noteq> None"
proof -
  let ?s = "\<lparr>lo_scope = World, lo_node_id = NodeId 1, lo_epoch = 2, lo_role = RoleRetiring\<rparr>"
  let ?m = "empty_meta\<lparr>cm_local_owner := [(scope_key World, Row (LegacyRow ?s))]\<rparr>"
  have wf: "meta_wf ?m" by (simp add: meta_wf_def empty_meta_def keyed_def om_wf_def)
  obtain m' where o1: "open_store True (Some ?m) = Ok m'"
    by (simp add: open_store_def migrate_legacy_overlays_def install_marker_def empty_meta_def)
  have "?s \<in> set (legacy_rows (cm_local_owner ?m))" "saga_of_role (lo_role ?s) \<noteq> None"
    "om_get (cm_snapshot_meta ?m) INSTALL_MARKER_KEY = None" "lo_scope ?s = World"
    by (simp_all add: empty_meta_def)
  with open_store_migrates [OF wf o1] o1 show ?thesis by (auto simp: Let_def)
qed

end
