(* ===== verification/Membership.thy ===== *)
theory Membership
  imports Ordered_Map Scope
begin

text \<open>
  The heartbeat-based membership view (\<open>crates/sentinel-common/src/membership.rs\<close>).  The
  \<open>HashMap\<close> of records is a table in node order; time is the receiver's clock, passed in as
  in the code.
\<close>

section \<open>Data\<close>

datatype membership_state = Alive | Suspect | Dead | Left

record heartbeat =
  hb_node_id :: node_id
  hb_alias :: string
  hb_boot_id :: uuid
  hb_incarnation :: u64
  hb_endpoints :: "string list"

record node_membership =
  nm_node_id :: node_id
  nm_alias :: string
  nm_boot_id :: uuid
  nm_incarnation :: u64
  nm_last_seen_ms :: u64
  nm_state :: membership_state
  nm_endpoints :: "string list"

record membership_config =
  mc_suspect_after_ms :: u64
  mc_dead_after_ms :: u64

definition default_membership_config :: membership_config where
  "default_membership_config = \<lparr>mc_suspect_after_ms = 3000, mc_dead_after_ms = 6000\<rparr>"

datatype ingest_outcome = Joined | Updated | Restarted | RejectedStale

record membership_view =
  mv_config :: membership_config
  mv_nodes :: "(node_id, node_membership) omap"

definition view_new :: "membership_config \<Rightarrow> membership_view" where
  "view_new c = \<lparr>mv_config = c, mv_nodes = []\<rparr>"

section \<open>Operations\<close>

definition record_of :: "heartbeat \<Rightarrow> u64 \<Rightarrow> node_membership" where
  "record_of hb now = \<lparr>nm_node_id = hb_node_id hb, nm_alias = hb_alias hb, nm_boot_id = hb_boot_id hb,
     nm_incarnation = hb_incarnation hb, nm_last_seen_ms = now, nm_state = Alive,
     nm_endpoints = hb_endpoints hb\<rparr>"

definition refresh :: "node_membership \<Rightarrow> heartbeat \<Rightarrow> u64 \<Rightarrow> node_membership" where
  "refresh rec hb now = rec\<lparr>nm_incarnation := hb_incarnation hb, nm_alias := hb_alias hb,
     nm_endpoints := hb_endpoints hb, nm_last_seen_ms := now, nm_state := Alive\<rparr>"

definition put_record :: "membership_view \<Rightarrow> node_id \<Rightarrow> node_membership \<Rightarrow> membership_view" where
  "put_record v n rec = v\<lparr>mv_nodes := om_insert n rec (mv_nodes v)\<rparr>"

definition ingest :: "membership_view \<Rightarrow> heartbeat \<Rightarrow> u64 \<Rightarrow> ingest_outcome \<times> membership_view" where
  "ingest v hb now =
     (case om_get (mv_nodes v) (hb_node_id hb) of
        None \<Rightarrow> (Joined, put_record v (hb_node_id hb) (record_of hb now))
      | Some rec \<Rightarrow>
          if hb_boot_id hb \<noteq> nm_boot_id rec
          then (Restarted, put_record v (hb_node_id hb) ((refresh rec hb now)\<lparr>nm_boot_id := hb_boot_id hb\<rparr>))
          else if hb_incarnation hb < nm_incarnation rec then (RejectedStale, v)
          else (Updated, put_record v (hb_node_id hb) (refresh rec hb now)))"

definition tick_record :: "membership_config \<Rightarrow> u64 \<Rightarrow> node_membership \<Rightarrow> node_membership" where
  "tick_record c now rec =
     (if nm_state rec = Left then rec
      else
        let suspect = mc_suspect_after_ms c;
            dead = saturating_add (mc_suspect_after_ms c) (mc_dead_after_ms c);
            since = saturating_sub now (nm_last_seen_ms rec)
        in rec\<lparr>nm_state := (if since \<ge> dead then Dead else if since \<ge> suspect then Suspect else Alive)\<rparr>)"

definition tick :: "membership_view \<Rightarrow> u64 \<Rightarrow> membership_view" where
  "tick v now = v\<lparr>mv_nodes := om_map (tick_record (mv_config v) now) (mv_nodes v)\<rparr>"

definition mark_left :: "membership_view \<Rightarrow> node_id \<Rightarrow> bool \<times> membership_view" where
  "mark_left v n =
     (case om_get (mv_nodes v) n of
        Some rec \<Rightarrow> (True, put_record v n (rec\<lparr>nm_state := Left\<rparr>))
      | None \<Rightarrow> (False, v))"

definition get_member :: "membership_view \<Rightarrow> node_id \<Rightarrow> node_membership option" where
  "get_member v n = om_get (mv_nodes v) n"

definition alive :: "membership_view \<Rightarrow> node_membership list" where
  "alive v = filter (\<lambda>r. nm_state r = Alive) (om_values (mv_nodes v))"

section \<open>Well-formed views\<close>

definition view_wf :: "membership_view \<Rightarrow> bool" where
  "view_wf v \<longleftrightarrow> om_wf (mv_nodes v) \<and> (\<forall>n r. get_member v n = Some r \<longrightarrow> nm_node_id r = n)"

lemma get_put_record [simp]:
  "view_wf v \<Longrightarrow> get_member (put_record v n r) n' = (if n' = n then Some r else get_member v n')"
  by (simp add: get_member_def put_record_def view_wf_def)

lemma view_wf_put: "view_wf v \<Longrightarrow> nm_node_id r = n \<Longrightarrow> view_wf (put_record v n r)"
  by (auto simp: view_wf_def put_record_def get_member_def)

lemma get_tick: "get_member (tick v now) n = map_option (tick_record (mv_config v) now) (get_member v n)"
  by (simp add: get_member_def tick_def)

lemma tick_record_sel [simp]:
  "nm_node_id (tick_record c now r) = nm_node_id r" "nm_boot_id (tick_record c now r) = nm_boot_id r"
  "nm_incarnation (tick_record c now r) = nm_incarnation r"
  "nm_last_seen_ms (tick_record c now r) = nm_last_seen_ms r"
  by (simp_all add: tick_record_def Let_def)

lemma ingest_cases:
  "ingest v hb now =
     (case get_member v (hb_node_id hb) of
        None \<Rightarrow> (Joined, put_record v (hb_node_id hb) (record_of hb now))
      | Some rec \<Rightarrow>
          if hb_boot_id hb \<noteq> nm_boot_id rec
          then (Restarted, put_record v (hb_node_id hb) ((refresh rec hb now)\<lparr>nm_boot_id := hb_boot_id hb\<rparr>))
          else if hb_incarnation hb < nm_incarnation rec then (RejectedStale, v)
          else (Updated, put_record v (hb_node_id hb) (refresh rec hb now)))"
  by (simp add: ingest_def get_member_def)

lemma view_wf_ingest: "view_wf v \<Longrightarrow> view_wf (snd (ingest v hb now))"
  by (auto simp: ingest_cases record_of_def refresh_def view_wf_def [THEN iffD1, THEN conjunct2, rule_format]
      intro!: view_wf_put split: option.splits)

lemma view_wf_tick: "view_wf v \<Longrightarrow> view_wf (tick v now)"
  by (auto simp: view_wf_def get_tick) (simp add: tick_def)

lemma view_wf_mark_left: "view_wf v \<Longrightarrow> view_wf (snd (mark_left v n))"
  by (auto simp: mark_left_def get_member_def [symmetric] view_wf_def [THEN iffD1, THEN conjunct2, rule_format]
      intro!: view_wf_put split: option.splits)

section \<open>What the view reports\<close>

text \<open>
   Heartbeat ingestion is guarded against reordering: a heartbeat of the recorded boot with
  an older incarnation changes nothing; any other heartbeat makes exactly that node alive at
  the receiver's time with the heartbeat's boot and incarnation; no other node's record
  changes in either case.
\<close>

theorem ingest_exact:
  assumes "view_wf v"
  shows "(if \<exists>r. get_member v (hb_node_id hb) = Some r \<and> hb_boot_id hb = nm_boot_id r
            \<and> hb_incarnation hb < nm_incarnation r
      then ingest v hb now = (RejectedStale, v)
      else fst (ingest v hb now) \<noteq> RejectedStale
        \<and> (\<exists>r. get_member (snd (ingest v hb now)) (hb_node_id hb) = Some r \<and> nm_state r = Alive
             \<and> nm_last_seen_ms r = now \<and> nm_boot_id r = hb_boot_id hb \<and> nm_incarnation r = hb_incarnation hb))
    \<and> (\<forall>n. n \<noteq> hb_node_id hb \<longrightarrow> get_member (snd (ingest v hb now)) n = get_member v n)"
  using assms by (auto simp: ingest_cases record_of_def refresh_def split: option.splits)

definition ex_heartbeat :: "uuid \<Rightarrow> u64 \<Rightarrow> heartbeat" where
  "ex_heartbeat boot inc = \<lparr>hb_node_id = NodeId 5, hb_alias = ''node-5'', hb_boot_id = boot,
     hb_incarnation = inc, hb_endpoints = []\<rparr>"

lemma view_wf_new [simp]: "view_wf (view_new c)"
  by (simp add: view_wf_def view_new_def get_member_def)

theorem ingest_exact_witness:
  "(let v = snd (ingest (view_new default_membership_config) (ex_heartbeat 1 4) 100) in
    ingest v (ex_heartbeat 1 3) 200 = (RejectedStale, v))"
proof -
  let ?v = "snd (ingest (view_new default_membership_config) (ex_heartbeat 1 4) 100)"
  have wf: "view_wf ?v" by (simp add: view_wf_ingest)
  have "\<exists>r. get_member ?v (NodeId 5) = Some r \<and> nm_boot_id r = 1 \<and> nm_incarnation r = 4"
    by (simp add: ingest_def get_member_def view_new_def put_record_def record_of_def ex_heartbeat_def)
  with ingest_exact [OF wf, of "ex_heartbeat 1 3" 200] show ?thesis
    by (auto simp: Let_def ex_heartbeat_def)
qed

text \<open>
   Liveness is a function of silence alone: after a tick a node that has not left is alive,
  suspect or dead exactly according to the time since its last accepted heartbeat, with the
  death threshold saturating, and ticking twice is ticking once at the later time.
\<close>

theorem tick_liveness_exact:
  assumes "get_member v n = Some r" and "nm_state r \<noteq> Left"
  shows "(let since = unat now - unat (nm_last_seen_ms r);
              suspect = unat (mc_suspect_after_ms (mv_config v));
              dead = min (suspect + unat (mc_dead_after_ms (mv_config v))) (2 ^ 64 - 1)
          in map_option nm_state (get_member (tick v now) n)
             = Some (if dead \<le> since then Dead else if suspect \<le> since then Suspect else Alive))
    \<and> tick (tick v t0) now = tick v now"
proof
  show "(let since = unat now - unat (nm_last_seen_ms r);
              suspect = unat (mc_suspect_after_ms (mv_config v));
              dead = min (suspect + unat (mc_dead_after_ms (mv_config v))) (2 ^ 64 - 1)
          in map_option nm_state (get_member (tick v now) n)
             = Some (if dead \<le> since then Dead else if suspect \<le> since then Suspect else Alive))"
    using assms
    by (simp add: get_tick tick_record_def Let_def word_le_nat_alt unat_saturating_add unat_saturating_sub)
  have "tick_record c now (tick_record c t0 x) = tick_record c now x" for c x
    by (auto simp: tick_record_def Let_def)
  then show "tick (tick v t0) now = tick v now"
    by (simp add: tick_def om_map_def comp_def case_prod_unfold)
qed

theorem tick_liveness_exact_witness:
  "(let v = snd (ingest (view_new default_membership_config) (ex_heartbeat 1 4) 100) in
    map_option nm_state (get_member (tick v 3100) (NodeId 5)) = Some Suspect
    \<and> map_option nm_state (get_member (tick v 9100) (NodeId 5)) = Some Dead)"
proof -
  let ?v = "snd (ingest (view_new default_membership_config) (ex_heartbeat 1 4) 100)"
  obtain r where r: "get_member ?v (NodeId 5) = Some r" "nm_state r \<noteq> Left" "nm_last_seen_ms r = 100"
    by (simp add: ingest_def get_member_def view_new_def put_record_def record_of_def ex_heartbeat_def)
  have c: "mv_config ?v = default_membership_config"
    by (simp add: ingest_def view_new_def put_record_def)
  show ?thesis
    using tick_liveness_exact [OF r(1,2), of 3100 0] tick_liveness_exact [OF r(1,2), of 9100 0]
    unfolding Let_def r(3) c by (simp add: default_membership_config_def)
qed

text \<open>
  C40. A departure is not final: a node marked as left is alive again after its next heartbeat
  of the same boot, although departure is documented as terminal.
\<close>

theorem left_is_not_terminal:
  assumes "view_wf v" and "get_member v (hb_node_id hb) = Some r"
    and "hb_boot_id hb = nm_boot_id r" and "nm_incarnation r \<le> hb_incarnation hb"
  shows "map_option nm_state (get_member (snd (mark_left v (hb_node_id hb))) (hb_node_id hb)) = Some Left
    \<and> map_option nm_state
        (get_member (snd (ingest (snd (mark_left v (hb_node_id hb))) hb now)) (hb_node_id hb)) = Some Alive"
proof -
  let ?v = "snd (mark_left v (hb_node_id hb))"
  have v: "?v = put_record v (hb_node_id hb) (r\<lparr>nm_state := Left\<rparr>)"
    using assms(2) by (simp add: mark_left_def get_member_def)
  have wf: "view_wf ?v" using view_wf_mark_left [OF assms(1)] .
  have left: "get_member ?v (hb_node_id hb) = Some (r\<lparr>nm_state := Left\<rparr>)"
    using assms(1) unfolding v by simp
  moreover have "\<not> hb_incarnation hb < nm_incarnation r" using assms(4) by simp
  ultimately show ?thesis
    using wf assms(3) by (simp add: ingest_cases refresh_def)
qed

theorem left_is_not_terminal_witness:
  "(let v = snd (ingest (view_new default_membership_config) (ex_heartbeat 1 4) 100);
        l = snd (mark_left v (NodeId 5)) in
    map_option nm_state (get_member (snd (ingest l (ex_heartbeat 1 4) 200)) (NodeId 5)) = Some Alive)"
proof -
  let ?v = "snd (ingest (view_new default_membership_config) (ex_heartbeat 1 4) 100)"
  have wf: "view_wf ?v" by (simp add: view_wf_ingest)
  obtain r where "get_member ?v (hb_node_id (ex_heartbeat 1 4)) = Some r" "nm_boot_id r = 1" "nm_incarnation r = 4"
    by (simp add: ingest_def get_member_def view_new_def put_record_def record_of_def ex_heartbeat_def)
  with left_is_not_terminal [OF wf this(1), of 200] show ?thesis
    by (simp add: Let_def ex_heartbeat_def)
qed

section \<open>Runs of the view\<close>

inductive membership_step :: "membership_view \<Rightarrow> membership_view \<Rightarrow> bool" where
  step_ingest: "membership_step v (snd (ingest v hb now))"
| step_tick: "membership_step v (tick v now)"
| step_left: "membership_step v (snd (mark_left v n))"

inductive_cases membership_stepE: "membership_step v v'"

lemma view_wf_step: "membership_step v v' \<Longrightarrow> view_wf v \<Longrightarrow> view_wf v'"
  by (auto elim!: membership_stepE intro: view_wf_ingest view_wf_tick view_wf_mark_left)

lemma view_wf_run: "membership_step\<^sup>*\<^sup>* v v' \<Longrightarrow> view_wf v \<Longrightarrow> view_wf v'"
  by (induction rule: rtranclp_induct) (auto intro: view_wf_step)

text \<open>
   Along every run from an empty view, a known node is never forgotten, and each further
  operation keeps its boot and does not lower its incarnation, unless it records a new boot.
\<close>

theorem membership_run_monotone:
  assumes "membership_step\<^sup>*\<^sup>* (view_new c) v" and "get_member v n = Some r" and "membership_step v v'"
  shows "\<exists>r'. get_member v' n = Some r' \<and> nm_node_id r' = n
    \<and> (nm_boot_id r' = nm_boot_id r \<longrightarrow> nm_incarnation r \<le> nm_incarnation r')"
proof -
  have wf: "view_wf v" using view_wf_run [OF assms(1)] by simp
  then have "nm_node_id r = n" using assms(2) by (simp add: view_wf_def)
  with assms(3) show ?thesis
  proof cases
    case (step_ingest hb now)
    with wf assms(2) \<open>nm_node_id r = n\<close> show ?thesis
      by (auto simp: ingest_cases refresh_def not_less split: option.splits if_splits)
  next
    case (step_tick now)
    with assms(2) \<open>nm_node_id r = n\<close> show ?thesis by (simp add: get_tick)
  next
    case (step_left m)
    with wf assms(2) \<open>nm_node_id r = n\<close> show ?thesis
      by (auto simp: mark_left_def get_member_def [symmetric] split: option.splits)
  qed
qed

theorem membership_run_monotone_witness:
  "(let v = snd (ingest (view_new default_membership_config) (ex_heartbeat 1 4) 100) in
    \<exists>r'. get_member (tick v 5) (NodeId 5) = Some r' \<and> nm_node_id r' = NodeId 5)"
proof -
  let ?v = "snd (ingest (view_new default_membership_config) (ex_heartbeat 1 4) 100)"
  have run: "membership_step\<^sup>*\<^sup>* (view_new default_membership_config) ?v"
    by (rule r_into_rtranclp) (rule step_ingest)
  obtain r where "get_member ?v (NodeId 5) = Some r"
    by (simp add: ingest_def get_member_def view_new_def put_record_def ex_heartbeat_def)
  from membership_run_monotone [OF run this step_tick [of ?v 5]] show ?thesis by (auto simp: Let_def)
qed

end
