(* ===== verification/Control_Envelope.thy ===== *)
theory Control_Envelope
  imports Codec Cluster_Meta Block_Map Membership
begin

text \<open>
  The control-plane messages and their frames:
  \<open>crates/sentinel-cluster-control/src/envelope.rs\<close>.  The JSON serialiser is a parameter
  (\<open>to_json\<close>, \<open>from_json\<close>, both partial as serde's are); SHA-256 is a parameter.
  A rejection carries one constructor per message the handlers format.
\<close>

section \<open>Requests and responses\<close>

datatype control_request =
    MembershipHeartbeat uuid heartbeat
  | PrepareHandoff string u64
  | SourceRetiredAck string u64
  | OwnerCommit string string u64
  | ReplicateOwnerSnapshot owner_term_snapshot local_owner_state_snapshot
  | RefQuery string
  | PinQuery string
  | AdvertiseHolders "holder_advertisement list"

record control_envelope =
  env_request_id :: uuid
  env_idempotency_key :: string
  env_request :: control_request

definition envelope_new :: "uuid \<Rightarrow> string \<Rightarrow> control_request \<Rightarrow> control_envelope" where
  "envelope_new fresh key req =
     \<lparr>env_request_id = fresh, env_idempotency_key = key, env_request = req\<rparr>"

datatype reject_reason =
    UnrecognizedScope string
  | MalformedOwnerNode string
  | CommitWithoutSnapshot
  | SnapshotReadbackFailed meta_error
  | CommittedTermAbsent
  | LocalStateAbsent
  | CommitAuthorityMismatch
  | OverlayCompletionFailed meta_error
  | MarkerLostDuringCommit
  | CommitReadbackFailed meta_error
  | CommitRebuildFailed owner_snapshot_error
  | SnapshotNotForThisNode
  | SnapshotInstallFailed meta_error
  | SnapshotRebuildFailed owner_snapshot_error
  | InstallReadbackFailed meta_error
  | InstallMarkerLost
  | PrepareWithoutSnapshot
  | HandoffScopeAbsent
  | PrepareGenerationMismatch
  | PrepareEpochMismatch u64 u64
  | PrepareSourceMismatch node_id node_id
  | PrepareNotActiveOwner
  | PersistRetirementFailed meta_error
  | HolderNotPeer node_id
  | ChefOnly string
  | DependencyOutage string
  | MembershipNeedsDaemon
  | ReplicationNeedsOwnerHandler
  | MembershipNeedsWrapper
  | GossipNeedsWrapper
  | HeartbeatClusterMismatch
  | HeartbeatClaimsLocalNode
  | HeartbeatPeerMismatch node_id node_id
  | HeartbeatStale
  | IdempotencyCapacityExhausted

datatype control_response =
    MembershipAccepted node_id u64
  | HandoffPrepared string u64
  | RetiredAckRecorded string u64
  | OwnerCommitted string u64
  | OwnerSnapshotAck owner_snapshot_install_outcome
  | RefQueryResult string bool
  | PinQueryResult string bool
  | HoldersApplied u32
  | IdempotencyConflict string string
  | Rejected reject_reason

record control_reply =
  rp_request_id :: uuid
  rp_response :: control_response

fun method_name :: "control_request \<Rightarrow> string" where
  "method_name (PrepareHandoff _ _) = ''prepare_handoff''"
| "method_name (MembershipHeartbeat _ _) = ''membership_heartbeat''"
| "method_name (SourceRetiredAck _ _) = ''source_retired_ack''"
| "method_name (OwnerCommit _ _ _) = ''owner_commit''"
| "method_name (ReplicateOwnerSnapshot _ _) = ''replicate_owner_snapshot''"
| "method_name (RefQuery _) = ''ref_query''"
| "method_name (PinQuery _) = ''pin_query''"
| "method_name (AdvertiseHolders _) = ''advertise_holders''"

fun cache_response :: "control_request \<Rightarrow> bool" where
  "cache_response (MembershipHeartbeat _ _) = False"
| "cache_response _ = True"

fun requires_chef_authorization :: "control_request \<Rightarrow> bool" where
  "requires_chef_authorization (PrepareHandoff _ _) = True"
| "requires_chef_authorization (SourceRetiredAck _ _) = True"
| "requires_chef_authorization (OwnerCommit _ _ _) = True"
| "requires_chef_authorization (ReplicateOwnerSnapshot _ _) = True"
| "requires_chef_authorization _ = False"

section \<open>Frames\<close>

definition MAX_FRAME_BYTES :: nat where "MAX_FRAME_BYTES = 1048576"

datatype codec_error = JsonError | TooLarge nat | Truncated

definition request_digest ::
  "(bytes \<Rightarrow> bytes) \<Rightarrow> (control_request \<Rightarrow> bytes option) \<Rightarrow> control_request \<Rightarrow> (codec_error, bytes) result" where
  "request_digest sha to_json req = try_bind (ok_or (to_json req) JsonError) (\<lambda>encoded. Ok (sha encoded))"

definition encode_frame :: "('a \<Rightarrow> bytes option) \<Rightarrow> 'a \<Rightarrow> (codec_error, bytes) result" where
  "encode_frame to_json v =
     try_bind (ok_or (to_json v) JsonError) (\<lambda>body.
     if length body > MAX_FRAME_BYTES then Err (TooLarge (length body))
     else Ok (be_bytes 4 (word_of_nat (length body) :: u32) @ body))"

text \<open>\<open>slice.get(a..b)\<close>.\<close>

definition slice_get :: "nat \<Rightarrow> nat \<Rightarrow> 'a list \<Rightarrow> 'a list option" where
  "slice_get a b xs = (if a \<le> b \<and> b \<le> length xs then Some (take (b - a) (drop a xs)) else None)"

definition frame_body_len :: "bytes \<Rightarrow> (codec_error, nat) result" where
  "frame_body_len prefix =
     try_bind (ok_or (slice_get 0 4 prefix) Truncated) (\<lambda>bs.
     let len = be_value bs in
     if len > MAX_FRAME_BYTES then Err (TooLarge len) else Ok len)"

definition decode_frame :: "(bytes \<Rightarrow> 'a option) \<Rightarrow> bytes \<Rightarrow> (codec_error, 'a) result" where
  "decode_frame from_json frame =
     try_bind (ok_or (slice_get 0 4 frame) Truncated) (\<lambda>prefix.
     try_bind (frame_body_len prefix) (\<lambda>len.
     try_bind (ok_or (slice_get 4 (4 + len) frame) Truncated) (\<lambda>body.
     ok_or (from_json body) JsonError)))"

lemma slice_get_prefix: "length p = n \<Longrightarrow> slice_get 0 n (p @ r) = Some p"
  by (simp add: slice_get_def)

lemma slice_get_body: "length p = a \<Longrightarrow> slice_get a (a + length b) (p @ b @ r) = Some b"
  by (simp add: slice_get_def)

lemma be_value_length_prefix:
  assumes "n \<le> MAX_FRAME_BYTES"
  shows "be_value (be_bytes 4 (word_of_nat n :: u32)) = n"
proof -
  have "n < 4294967296" using assms by (simp add: MAX_FRAME_BYTES_def)
  then have "unat (word_of_nat n :: u32) = n" by (simp add: unsigned_of_nat take_bit_eq_mod)
  with \<open>n < 4294967296\<close> show ?thesis by (simp add: be_value_be_bytes)
qed

lemma frame_body_len_prefix:
  assumes "n \<le> MAX_FRAME_BYTES"
  shows "frame_body_len (be_bytes 4 (word_of_nat n :: u32)) = Ok n"
  using assms slice_get_prefix [of "be_bytes 4 (word_of_nat n :: u32)" 4 "[]"]
  by (simp add: frame_body_len_def be_value_length_prefix)

lemma encode_frame_Ok:
  "encode_frame tj v = Ok f \<longleftrightarrow> (\<exists>b. tj v = Some b \<and> length b \<le> MAX_FRAME_BYTES
     \<and> f = be_bytes 4 (word_of_nat (length b) :: u32) @ b)"
  by (auto simp: encode_frame_def not_less [symmetric] split: if_splits)

lemma decode_encoded:
  assumes "length b \<le> MAX_FRAME_BYTES"
  shows "decode_frame fj (be_bytes 4 (word_of_nat (length b) :: u32) @ b @ rest) = ok_or (fj b) JsonError"
  using assms slice_get_prefix [of "be_bytes 4 (word_of_nat (length b) :: u32)" 4 "b @ rest"]
    slice_get_body [of "be_bytes 4 (word_of_nat (length b) :: u32)" 4 b rest]
  by (simp add: decode_frame_def frame_body_len_prefix)

lemma decode_truncated:
  assumes "length b \<le> MAX_FRAME_BYTES" and "n < 4 + length b"
  shows "decode_frame fj (take n (be_bytes 4 (word_of_nat (length b) :: u32) @ b)) = Err Truncated"
proof (cases "n < 4")
  case True
  then show ?thesis by (simp add: decode_frame_def slice_get_def)
next
  case False
  let ?p = "be_bytes 4 (word_of_nat (length b) :: u32)"
  have "take n (?p @ b) = ?p @ take (n - 4) b" using False by simp
  moreover have "slice_get 4 (4 + length b) (?p @ take (n - 4) b) = None"
    using assms(2) False by (simp add: slice_get_def)
  ultimately show ?thesis
    using slice_get_prefix [of ?p 4] by (simp add: decode_frame_def frame_body_len_prefix assms(1))
qed

text \<open>
   A control frame survives the wire: whenever the serialiser can read back what it wrote,
  a value is framed exactly when its body fits the one-mebibyte cap, the frame decodes to that
  value even with further bytes behind it, every proper prefix of the frame is reported as
  truncated, and a body over the cap is refused with its length.
\<close>

theorem frame_roundtrip:
  assumes "to_json v = Some b" and "from_json b = Some v"
  shows "(case encode_frame to_json v of
      Ok f \<Rightarrow> length b \<le> MAX_FRAME_BYTES \<and> length f = 4 + length b
        \<and> decode_frame from_json (f @ rest) = Ok v
        \<and> (\<forall>n < length f. decode_frame from_json (take n f) = Err Truncated)
    | Err e \<Rightarrow> length b > MAX_FRAME_BYTES \<and> e = TooLarge (length b))"
proof (cases "length b \<le> MAX_FRAME_BYTES")
  case True
  then show ?thesis
    using assms by (simp add: encode_frame_def decode_encoded decode_truncated del: take_append)
next
  case False
  with assms show ?thesis by (simp add: encode_frame_def)
qed

theorem frame_roundtrip_witness:
  "decode_frame (\<lambda>bs. Some bs) (be_bytes 4 (word_of_nat 3 :: u32) @ [1, 2, 3] @ [9]) = Ok [1, 2, 3]"
proof -
  have "encode_frame Some [1, 2, 3] = Ok (be_bytes 4 (word_of_nat 3 :: u32) @ [1, 2, 3])"
    by (simp add: encode_frame_def MAX_FRAME_BYTES_def)
  then show ?thesis
    using frame_roundtrip [where to_json = Some and v = "[1, 2, 3]" and b = "[1, 2, 3]"
        and from_json = "\<lambda>bs. Some bs" and rest = "[9]"]
    by simp
qed

text \<open>
  C37. No hostile length prefix makes the decoder read far: whatever bytes arrive, decoding
  returns, an accepted body is at most one mebibyte of the bytes after the prefix, and a
  declared length above the cap is refused before any body byte is looked at.
\<close>

theorem decode_frame_bounded:
  "(\<forall>v. decode_frame from_json f = Ok v \<longrightarrow>
      (\<exists>b. length b \<le> MAX_FRAME_BYTES \<and> take (length b) (drop 4 f) = b \<and> from_json b = Some v))
   \<and> (4 \<le> length f \<and> MAX_FRAME_BYTES < be_value (take 4 f) \<longrightarrow>
      decode_frame from_json (f @ rest) = Err (TooLarge (be_value (take 4 f))))"
proof (intro conjI allI impI)
  fix v
  assume "decode_frame from_json f = Ok v"
  then obtain p n b where p: "slice_get 0 4 f = Some p" "frame_body_len p = Ok n"
    and b: "slice_get 4 (4 + n) f = Some b" "from_json b = Some v"
    by (auto simp: decode_frame_def)
  from p(2) have "n \<le> MAX_FRAME_BYTES" by (auto simp: frame_body_len_def Let_def split: if_splits)
  moreover from b(1) have "length b = n" "take n (drop 4 f) = b"
    by (auto simp: slice_get_def split: if_splits)
  ultimately show "\<exists>b. length b \<le> MAX_FRAME_BYTES \<and> take (length b) (drop 4 f) = b \<and> from_json b = Some v"
    using b(2) by blast
next
  assume h: "4 \<le> length f \<and> MAX_FRAME_BYTES < be_value (take 4 f)"
  then show "decode_frame from_json (f @ rest) = Err (TooLarge (be_value (take 4 f)))"
    by (simp add: decode_frame_def frame_body_len_def slice_get_def)
qed

theorem decode_frame_bounded_witness:
  "decode_frame (\<lambda>bs. Some bs) ([255, 255, 255, 255] @ [1]) = Err (TooLarge 4294967295)"
  using decode_frame_bounded [of "\<lambda>bs. Some bs" "[255, 255, 255, 255]" "[1]"]
  by (simp add: MAX_FRAME_BYTES_def be_value_def)

end
