(* ===== verification/Idempotency.thy ===== *)
theory Idempotency
  imports Control_Envelope "HOL-Library.AList" "HOL-Library.Multiset"
begin

text \<open>
  Process-local duplicate suppression of control RPCs:
  \<open>crates/sentinel-cluster-control/src/idempotency.rs\<close>.  A cache entry shares its
  \<open>Arc<OnceLock>\<close> with the threads that wait on it, also after the entry has left the
  map, so the cells are an explicit store \<open>ic_slots\<close> and an entry names its cell.  The
  order of \<open>ic_entries\<close> is the iteration order of the hash map, which is arbitrary: the
  theorems hold for every order.  Instants are natural numbers, \<open>now\<close> is an argument.
\<close>

section \<open>The cache\<close>

definition DEFAULT_IDEMPOTENCY_TTL :: nat where "DEFAULT_IDEMPOTENCY_TTL = 300"
definition DEFAULT_IDEMPOTENCY_CAPACITY :: nat where "DEFAULT_IDEMPOTENCY_CAPACITY = 4096"

record idempotency_scope =
  is_peer_node :: node_id
  is_method :: string
  is_idempotency_key :: string

datatype 'r idempotency_outcome = Computed 'r | Cached 'r | DigestConflict | CapacityExhausted

record cache_entry =
  ce_digest :: bytes
  ce_inserted_at :: nat
  ce_slot :: nat

record 'r idempotency_cache =
  ic_entries :: "(idempotency_scope \<times> cache_entry) list"
  ic_slots :: "nat \<rightharpoonup> 'r"
  ic_next_slot :: nat
  ic_ttl :: nat
  ic_capacity :: nat

definition with_limits :: "nat \<Rightarrow> nat \<Rightarrow> 'r idempotency_cache" where
  "with_limits ttl cap = \<lparr>ic_entries = [], ic_slots = Map.empty, ic_next_slot = 0,
     ic_ttl = ttl, ic_capacity = cap\<rparr>"

definition cache_new :: "'r idempotency_cache" where
  "cache_new = with_limits DEFAULT_IDEMPOTENCY_TTL DEFAULT_IDEMPOTENCY_CAPACITY"

text \<open>\<open>Iterator::min_by_key\<close>: the first of the minimal elements.\<close>

fun min_by_key :: "('a \<Rightarrow> nat) \<Rightarrow> 'a list \<Rightarrow> 'a option" where
  "min_by_key k [] = None"
| "min_by_key k (x # xs) =
     (case min_by_key k xs of
        None \<Rightarrow> Some x
      | Some y \<Rightarrow> if k x \<le> k y then Some x else Some y)"

definition retained :: "nat \<Rightarrow> 'r idempotency_cache \<Rightarrow> cache_entry \<Rightarrow> bool" where
  "retained now c e \<longleftrightarrow> ic_slots c (ce_slot e) = None \<or> now - ce_inserted_at e < ic_ttl c"

definition oldest_completed ::
  "(nat \<rightharpoonup> 'r) \<Rightarrow> (idempotency_scope \<times> cache_entry) list \<Rightarrow> idempotency_scope option" where
  "oldest_completed slots es =
     map_option fst (min_by_key (\<lambda>p. ce_inserted_at (snd p))
       (filter (\<lambda>p. slots (ce_slot (snd p)) \<noteq> None) es))"

text \<open>The part of \<open>get_or_compute\<close> under the lock: which cell to wait on.\<close>

datatype reservation = InSlot nat bool | ReserveConflict | ReserveFull

definition reserve ::
  "'r idempotency_cache \<Rightarrow> nat \<Rightarrow> idempotency_scope \<Rightarrow> bytes \<Rightarrow> reservation \<times> 'r idempotency_cache" where
  "reserve c now sc d =
     (let es = filter (\<lambda>p. retained now c (snd p)) (ic_entries c);
          insert_into = (\<lambda>rest. (InSlot (ic_next_slot c) False,
            c\<lparr>ic_entries := (sc, \<lparr>ce_digest = d, ce_inserted_at = now, ce_slot = ic_next_slot c\<rparr>) # rest,
              ic_next_slot := Suc (ic_next_slot c)\<rparr>))
      in case map_of es sc of
           Some e \<Rightarrow>
             (if ce_digest e \<noteq> d then ReserveConflict else InSlot (ce_slot e) True,
              c\<lparr>ic_entries := es\<rparr>)
         | None \<Rightarrow>
             if length es \<ge> ic_capacity c then
               (case oldest_completed (ic_slots c) es of
                  Some key \<Rightarrow> insert_into (AList.delete key es)
                | None \<Rightarrow> (ReserveFull, c\<lparr>ic_entries := es\<rparr>))
             else insert_into es)"

text \<open>\<open>OnceLock::get_or_init\<close> on a cell, with the handler's own state.\<close>

definition get_or_init ::
  "'r idempotency_cache \<Rightarrow> nat \<Rightarrow> ('s \<Rightarrow> 'r \<times> 's) \<Rightarrow> 's \<Rightarrow> 'r \<times> 'r idempotency_cache \<times> 's" where
  "get_or_init c slot f st =
     (case ic_slots c slot of
        Some v \<Rightarrow> (v, c, st)
      | None \<Rightarrow> (let (v, st') = f st in (v, c\<lparr>ic_slots := (ic_slots c)(slot \<mapsto> v)\<rparr>, st')))"

definition get_or_compute ::
  "'r idempotency_cache \<Rightarrow> nat \<Rightarrow> idempotency_scope \<Rightarrow> bytes \<Rightarrow> ('s \<Rightarrow> 'r \<times> 's) \<Rightarrow> 's
   \<Rightarrow> 'r idempotency_outcome \<times> 'r idempotency_cache \<times> 's" where
  "get_or_compute c now sc d f st =
     (case reserve c now sc d of
        (ReserveConflict, c') \<Rightarrow> (DigestConflict, c', st)
      | (ReserveFull, c') \<Rightarrow> (CapacityExhausted, c', st)
      | (InSlot slot existed, c') \<Rightarrow>
          (case get_or_init c' slot f st of
             (v, c'', st') \<Rightarrow> (if existed then Cached v else Computed v, c'', st')))"

definition cache_len :: "'r idempotency_cache \<Rightarrow> nat" where
  "cache_len c = length (ic_entries c)"

section \<open>The cache invariant\<close>

definition cache_wf :: "'r idempotency_cache \<Rightarrow> bool" where
  "cache_wf c \<longleftrightarrow> distinct (map fst (ic_entries c)) \<and> length (ic_entries c) \<le> ic_capacity c
     \<and> distinct (map (\<lambda>p. ce_slot (snd p)) (ic_entries c))
     \<and> (\<forall>k e. (k, e) \<in> set (ic_entries c) \<longrightarrow> ce_slot e < ic_next_slot c)
     \<and> (\<forall>s. ic_slots c s \<noteq> None \<longrightarrow> s < ic_next_slot c) \<and> 0 < ic_capacity c"

lemma cache_wf_with_limits [simp]: "0 < cap \<Longrightarrow> cache_wf (with_limits ttl cap)"
  by (simp add: cache_wf_def with_limits_def)

lemma min_by_key_SomeD:
  "min_by_key k xs = Some x \<Longrightarrow> x \<in> set xs \<and> (\<forall>y \<in> set xs. k x \<le> k y)"
proof (induction xs arbitrary: x)
  case (Cons a xs)
  show ?case
  proof (cases "min_by_key k xs")
    case (Some z)
    with Cons.IH [OF Some] Cons.prems show ?thesis by (force split: if_splits)
  next
    case None
    then have "xs = []" by (cases xs) (auto split: option.splits if_splits)
    with Cons.prems show ?thesis by simp
  qed
qed simp

lemma oldest_completed_SomeD:
  assumes "oldest_completed slots es = Some k" and "distinct (map fst es)"
  obtains e where "map_of es k = Some e" and "slots (ce_slot e) \<noteq> None"
    and "\<And>k' e'. (k', e') \<in> set es \<Longrightarrow> slots (ce_slot e') \<noteq> None \<Longrightarrow> ce_inserted_at e \<le> ce_inserted_at e'"
proof -
  from assms(1) obtain p where p: "k = fst p"
    "min_by_key (\<lambda>p. ce_inserted_at (snd p)) (filter (\<lambda>p. slots (ce_slot (snd p)) \<noteq> None) es) = Some p"
    by (auto simp: oldest_completed_def)
  from min_by_key_SomeD [OF p(2)] p(1) assms(2) show ?thesis
    by (intro that [of "snd p"]) auto
qed

lemma delete_length:
  assumes "distinct (map fst es)" and "map_of es k = Some e"
  shows "Suc (length (AList.delete k es)) = length es"
  using assms
proof (induction es)
  case (Cons p es)
  have "AList.delete k es = es" if "k \<notin> fst ` set es"
    using that by (auto simp: AList.delete_eq image_iff intro!: filter_True)
  with Cons show ?case by (cases "fst p = k") (auto simp: image_iff)
qed simp

lemma oldest_completed_None:
  "oldest_completed slots es = None \<Longrightarrow> \<forall>p \<in> set es. slots (ce_slot (snd p)) = None"
proof (rule ccontr)
  assume none: "oldest_completed slots es = None" and "\<not> (\<forall>p \<in> set es. slots (ce_slot (snd p)) = None)"
  then have "filter (\<lambda>p. slots (ce_slot (snd p)) \<noteq> None) es \<noteq> []" by (auto simp: filter_empty_conv)
  then obtain x xs where "filter (\<lambda>p. slots (ce_slot (snd p)) \<noteq> None) es = x # xs"
    by (auto simp: neq_Nil_conv)
  with none show False by (simp add: oldest_completed_def split: option.splits if_splits)
qed

text \<open>What evicting the oldest completed entry removes.\<close>

definition evicts_oldest ::
  "(nat \<rightharpoonup> 'r) \<Rightarrow> (idempotency_scope \<times> cache_entry) list
   \<Rightarrow> (idempotency_scope \<times> cache_entry) list \<Rightarrow> bool" where
  "evicts_oldest slots es rest \<longleftrightarrow> (\<exists>k e. rest = AList.delete k es \<and> map_of es k = Some e
     \<and> slots (ce_slot e) \<noteq> None \<and> Suc (length rest) = length es
     \<and> (\<forall>p \<in> set es. slots (ce_slot (snd p)) \<noteq> None \<longrightarrow> ce_inserted_at e \<le> ce_inserted_at (snd p)))"

lemma evicts_oldestI:
  assumes "oldest_completed slots es = Some k" and "distinct (map fst es)"
  shows "evicts_oldest slots es (AList.delete k es)"
proof -
  obtain e where e: "map_of es k = Some e" "slots (ce_slot e) \<noteq> None"
    "\<And>k' e'. (k', e') \<in> set es \<Longrightarrow> slots (ce_slot e') \<noteq> None \<Longrightarrow> ce_inserted_at e \<le> ce_inserted_at e'"
    using oldest_completed_SomeD [OF assms] by blast
  with delete_length [OF assms(2) e(1)] show ?thesis
    unfolding evicts_oldest_def by (intro exI [of _ k] exI [of _ e]) auto
qed

definition live_entries :: "'r idempotency_cache \<Rightarrow> nat \<Rightarrow> (idempotency_scope \<times> cache_entry) list" where
  "live_entries c now = filter (\<lambda>p. retained now c (snd p)) (ic_entries c)"

definition fresh_entry :: "'r idempotency_cache \<Rightarrow> nat \<Rightarrow> bytes \<Rightarrow> cache_entry" where
  "fresh_entry c now d = \<lparr>ce_digest = d, ce_inserted_at = now, ce_slot = ic_next_slot c\<rparr>"

lemma fresh_entry_sel [simp]: "ce_slot (fresh_entry c now d) = ic_next_slot c"
  "ce_digest (fresh_entry c now d) = d"
  by (simp_all add: fresh_entry_def)

text \<open>The five ways a reservation ends.\<close>

lemma reserve_cases:
  assumes "cache_wf c" and "reserve c now sc d = (rv, c')"
  obtains
    (joined) e where "map_of (live_entries c now) sc = Some e" "ce_digest e = d"
      "rv = InSlot (ce_slot e) True" "c' = c\<lparr>ic_entries := live_entries c now\<rparr>"
  | (conflict) e where "map_of (live_entries c now) sc = Some e" "ce_digest e \<noteq> d"
      "rv = ReserveConflict" "c' = c\<lparr>ic_entries := live_entries c now\<rparr>"
  | (full) "map_of (live_entries c now) sc = None"
      "\<forall>p \<in> set (live_entries c now). ic_slots c (ce_slot (snd p)) = None"
      "length (live_entries c now) = ic_capacity c"
      "rv = ReserveFull" "c' = c\<lparr>ic_entries := live_entries c now\<rparr>"
  | (inserted) rest where "map_of (live_entries c now) sc = None"
      "rest = live_entries c now \<and> length rest < ic_capacity c
       \<or> evicts_oldest (ic_slots c) (live_entries c now) rest \<and> length (live_entries c now) = ic_capacity c"
      "rv = InSlot (ic_next_slot c) False"
      "c' = c\<lparr>ic_entries := (sc, fresh_entry c now d) # rest, ic_next_slot := Suc (ic_next_slot c)\<rparr>"
proof -
  let ?es = "live_entries c now"
  have wf: "distinct (map fst ?es)" "length ?es \<le> ic_capacity c"
    using assms(1) le_trans [OF length_filter_le]
    by (auto simp: live_entries_def cache_wf_def distinct_map_filter)
  note r = assms(2) [unfolded reserve_def Let_def live_entries_def [symmetric] fresh_entry_def [symmetric]]
  show ?thesis
  proof (cases "map_of ?es sc")
    case (Some e)
    then show ?thesis using r that(1,2) by (cases "ce_digest e = d") auto
  next
    case fresh: None
    show ?thesis
    proof (cases "length ?es \<ge> ic_capacity c")
      case False
      then show ?thesis using r fresh that(4) [of ?es] by auto
    next
      case True
      then have len: "length ?es = ic_capacity c" using wf(2) by simp
      show ?thesis
      proof (cases "oldest_completed (ic_slots c) ?es")
        case None
        then show ?thesis using r fresh len that(3) oldest_completed_None [OF None] by simp
      next
        case (Some k)
        then show ?thesis
          using r fresh len that(4) [of "AList.delete k ?es"] evicts_oldestI [OF Some wf(1)] by simp
      qed
    qed
  qed
qed

lemma live_subset: "set (live_entries c now) \<subseteq> set (ic_entries c)"
  by (auto simp: live_entries_def)

lemma cache_wf_live: "cache_wf c \<Longrightarrow> cache_wf (c\<lparr>ic_entries := live_entries c now\<rparr>)"
  using le_trans [OF length_filter_le]
  by (auto simp: cache_wf_def live_entries_def distinct_map_filter)

lemma evicts_oldest_sub:
  assumes "evicts_oldest slots es rest"
  shows "set rest \<subseteq> set es" "distinct (map f es) \<Longrightarrow> distinct (map f rest)" "Suc (length rest) = length es"
    and "(i, x) \<in> set es \<Longrightarrow> slots (ce_slot x) = None \<Longrightarrow> distinct (map fst es) \<Longrightarrow> (i, x) \<in> set rest"
proof -
  obtain k e where k: "rest = AList.delete k es" "map_of es k = Some e" "slots (ce_slot e) \<noteq> None"
    and len: "Suc (length rest) = length es"
    using assms unfolding evicts_oldest_def by blast
  show "set rest \<subseteq> set es" "Suc (length rest) = length es" using k len by (auto simp: AList.delete_eq)
  show "distinct (map f es) \<Longrightarrow> distinct (map f rest)" by (simp add: k AList.delete_eq distinct_map_filter)
  show "(i, x) \<in> set rest" if "(i, x) \<in> set es" "slots (ce_slot x) = None" "distinct (map fst es)"
    using that k eq_key_imp_eq_value [of es i x e] by (auto simp: AList.delete_eq dest!: map_of_SomeD)
qed

lemma live_keeps_pending:
  "(k, e) \<in> set (ic_entries c) \<Longrightarrow> ic_slots c (ce_slot e) = None \<Longrightarrow> (k, e) \<in> set (live_entries c now)"
  by (simp add: live_entries_def retained_def)

text \<open>A reservation keeps the invariant, writes no cell and drops no pending entry.\<close>

lemma reserve_wf:
  assumes "cache_wf c" and "reserve c now sc d = (rv, c')"
  shows "cache_wf c' \<and> ic_slots c' = ic_slots c \<and> ic_capacity c' = ic_capacity c \<and> ic_ttl c' = ic_ttl c
    \<and> ic_next_slot c \<le> ic_next_slot c'
    \<and> (\<forall>k e. (k, e) \<in> set (ic_entries c) \<longrightarrow> ic_slots c (ce_slot e) = None \<longrightarrow> (k, e) \<in> set (ic_entries c'))"
  using assms
proof (cases rule: reserve_cases)
  case (inserted rest)
  have wf: "cache_wf (c\<lparr>ic_entries := live_entries c now\<rparr>)" using assms(1) by (rule cache_wf_live)
  have rest: "set rest \<subseteq> set (live_entries c now)" "length rest < ic_capacity c"
      "distinct (map fst rest)" "distinct (map (\<lambda>p. ce_slot (snd p)) rest)"
    using inserted(2) evicts_oldest_sub [of "ic_slots c" "live_entries c now" rest] wf
    by (auto simp: cache_wf_def)
  have keep: "(k, e) \<in> set rest" if "(k, e) \<in> set (ic_entries c)" "ic_slots c (ce_slot e) = None" for k e
    using live_keeps_pending [OF that] inserted(2) that(2) wf
      evicts_oldest_sub(4) [where slots = "ic_slots c" and es = "live_entries c now" and rest = rest]
    by (auto simp: cache_wf_def)
  have "sc \<notin> fst ` set rest" using inserted(1) rest(1) by (auto simp: map_of_eq_None_iff)
  moreover have lt: "ce_slot e < ic_next_slot c" if "(k, e) \<in> set rest" for k e
    using that rest(1) live_subset [of c now] assms(1) unfolding cache_wf_def by blast
  moreover have "ic_next_slot c \<notin> (\<lambda>p. ce_slot (snd p)) ` set rest" using lt by force
  moreover have "0 < ic_capacity c" "\<forall>s. ic_slots c s \<noteq> None \<longrightarrow> s < ic_next_slot c"
    using assms(1) by (simp_all add: cache_wf_def)
  ultimately have "cache_wf c'"
    unfolding cache_wf_def inserted(4) using rest(2,3,4) by (auto simp: less_SucI Suc_leI)
  then show ?thesis using keep by (simp add: inserted(4))
qed (use cache_wf_live [OF assms(1)] live_keeps_pending in auto)

lemma get_or_init_wf:
  assumes "cache_wf c" and "slot < ic_next_slot c" and "get_or_init c slot f st = (v, c', st')"
  shows "cache_wf c' \<and> ic_entries c' = ic_entries c \<and> ic_slots c' slot = Some v
    \<and> (\<forall>s. s \<noteq> slot \<longrightarrow> ic_slots c' s = ic_slots c s)"
  using assms by (auto simp: get_or_init_def cache_wf_def split: option.splits prod.splits if_splits)

lemma map_of_slot_less:
  "cache_wf c \<Longrightarrow> map_of (live_entries c now) sc = Some e \<Longrightarrow> ce_slot e < ic_next_slot c"
  using live_subset [of c now] unfolding cache_wf_def by (blast dest: map_of_SomeD)

text \<open>
   One request has one effect: a request whose key is held by a live entry runs no handler,
  and gets the recorded response when the digest is the entry's and a conflict otherwise.  A
  request with no live entry runs the handler exactly once and is recorded under its digest,
  unless every entry is still pending and the cache is full, when nothing runs.  The cache
  never exceeds its capacity and never gives up a pending entry.
\<close>

theorem get_or_compute_exact:
  assumes "cache_wf c" and "get_or_compute c now sc d f st = (out, c', st')"
  shows "(case map_of (live_entries c now) sc of
      Some e \<Rightarrow>
        (ce_digest e \<noteq> d \<longrightarrow> out = DigestConflict \<and> st' = st)
        \<and> (\<forall>v. ce_digest e = d \<and> ic_slots c (ce_slot e) = Some v \<longrightarrow> out = Cached v \<and> st' = st)
    | None \<Rightarrow>
        (out = CapacityExhausted \<and> st' = st \<and> length (live_entries c now) = ic_capacity c
           \<and> (\<forall>p \<in> set (live_entries c now). ic_slots c (ce_slot (snd p)) = None))
        \<or> (out = Computed (fst (f st)) \<and> st' = snd (f st)
           \<and> (\<exists>e. map_of (ic_entries c') sc = Some e \<and> ce_digest e = d \<and> ce_inserted_at e = now
                \<and> ic_slots c' (ce_slot e) = Some (fst (f st)))))
    \<and> cache_wf c' \<and> cache_len c' \<le> ic_capacity c
    \<and> (\<forall>k e. (k, e) \<in> set (ic_entries c) \<longrightarrow> ic_slots c (ce_slot e) = None \<longrightarrow> (k, e) \<in> set (ic_entries c'))"
proof -
  obtain rv c1 where rv: "reserve c now sc d = (rv, c1)" by (cases "reserve c now sc d")
  have wf1: "cache_wf c1" "ic_slots c1 = ic_slots c" "ic_capacity c1 = ic_capacity c"
    "\<forall>k e. (k, e) \<in> set (ic_entries c) \<longrightarrow> ic_slots c (ce_slot e) = None \<longrightarrow> (k, e) \<in> set (ic_entries c1)"
    using reserve_wf [OF assms(1) rv] by auto
  note run = assms(2) [unfolded get_or_compute_def rv]
  show ?thesis using assms(1) rv
  proof (cases rule: reserve_cases)
    case (joined e)
    then obtain v where g: "get_or_init c1 (ce_slot e) f st = (v, c', st')" and "out = Cached v"
      using run by (auto split: prod.splits)
    then show ?thesis
      using joined get_or_init_wf [OF wf1(1) _ g] map_of_slot_less [OF assms(1) joined(1)] wf1
      by (auto simp: cache_len_def cache_wf_def get_or_init_def)
  next
    case (inserted rest)
    have "ic_slots c (ic_next_slot c) = None" using assms(1) by (auto simp: cache_wf_def)
    then have "out = Computed (fst (f st))" "st' = snd (f st)"
      and c': "c' = c1\<lparr>ic_slots := (ic_slots c1)(ic_next_slot c \<mapsto> fst (f st))\<rparr>"
      using run inserted wf1(2) by (auto simp: get_or_init_def split: prod.splits)
    then show ?thesis using inserted wf1
      by (auto simp: cache_len_def cache_wf_def fresh_entry_def)
  qed (use run wf1 in \<open>auto simp: cache_len_def cache_wf_def\<close>)
qed

definition ex_scope :: "string \<Rightarrow> idempotency_scope" where
  "ex_scope key = \<lparr>is_peer_node = NodeId 1, is_method = ''owner_commit'', is_idempotency_key = key\<rparr>"

text \<open>A counter as the handler: each run returns the count and increments it.\<close>

definition ex_handler :: "nat \<Rightarrow> nat \<times> nat" where
  "ex_handler n = (n, Suc n)"

theorem get_or_compute_exact_witness:
  "let c = fst (snd (get_or_compute (with_limits 300 2) 10 (ex_scope ''k'') [1] ex_handler 7)) in
   fst (get_or_compute c 20 (ex_scope ''k'') [1] ex_handler 8) = Cached 7
   \<and> fst (get_or_compute c 20 (ex_scope ''k'') [2] ex_handler 8) = DigestConflict
   \<and> fst (get_or_compute c 400 (ex_scope ''k'') [2] ex_handler 8) = Computed 8"
proof -
  define c :: "nat idempotency_cache"
    where "c = fst (snd (get_or_compute (with_limits 300 2) 10 (ex_scope ''k'') [1] ex_handler 7))"
  have c: "c = \<lparr>ic_entries = [(ex_scope ''k'', \<lparr>ce_digest = [1], ce_inserted_at = 10, ce_slot = 0\<rparr>)],
      ic_slots = [0 \<mapsto> 7], ic_next_slot = 1, ic_ttl = 300, ic_capacity = 2\<rparr>"
    by (simp add: c_def get_or_compute_def reserve_def with_limits_def get_or_init_def ex_handler_def)
  have wf: "cache_wf c" by (simp add: c cache_wf_def)
  have live: "live_entries c 20 = ic_entries c" "live_entries c 400 = []"
    by (simp_all add: live_entries_def retained_def c)
  show ?thesis
    unfolding c_def [symmetric] Let_def
    using get_or_compute_exact [OF wf, of 20 "ex_scope ''k''" "[1]" ex_handler 8]
      get_or_compute_exact [OF wf, of 20 "ex_scope ''k''" "[2]" ex_handler 8]
      get_or_compute_exact [OF wf, of 400 "ex_scope ''k''" "[2]" ex_handler 8]
    unfolding live
    by (cases "get_or_compute c 20 (ex_scope ''k'') [1] ex_handler 8";
        cases "get_or_compute c 20 (ex_scope ''k'') [2] ex_handler 8";
        cases "get_or_compute c 400 (ex_scope ''k'') [2] ex_handler 8")
      (simp add: c ex_handler_def)
qed

section \<open>Concurrent calls\<close>

text \<open>
  The lock covers only the reservation; \<open>get_or_init\<close> runs outside it and blocks other
  threads on the same cell while a handler runs, so it is one step; handlers of different cells
  change the shared state one after another, in any order.  Thread \<open>t\<close> runs the
  handler \<open>h t\<close>; \<open>fl_runs\<close> records each handler run with its cell.  Between the steps the
  hash map may change its iteration order.
\<close>

record ('r, 's) flight =
  fl_cache :: "'r idempotency_cache"
  fl_state :: 's
  fl_waiting :: "nat \<rightharpoonup> idempotency_scope \<times> bytes \<times> nat"
  fl_results :: "nat \<rightharpoonup> nat \<times> 'r"
  fl_runs :: "(nat \<times> nat) list"

definition flight_init :: "nat \<Rightarrow> nat \<Rightarrow> 's \<Rightarrow> ('r, 's) flight" where
  "flight_init ttl cap st = \<lparr>fl_cache = with_limits ttl cap, fl_state = st, fl_waiting = Map.empty,
     fl_results = Map.empty, fl_runs = []\<rparr>"

inductive flight_step :: "(nat \<Rightarrow> 's \<Rightarrow> 'r \<times> 's) \<Rightarrow> ('r, 's) flight \<Rightarrow> ('r, 's) flight \<Rightarrow> bool"
  for h where
  arrive: "fl_waiting fl t = None \<Longrightarrow> fl_results fl t = None \<Longrightarrow>
     reserve (fl_cache fl) now sc d = (InSlot slot existed, c') \<Longrightarrow>
     flight_step h fl (fl\<lparr>fl_cache := c', fl_waiting := (fl_waiting fl)(t \<mapsto> (sc, d, slot))\<rparr>)"
| refuse: "reserve (fl_cache fl) now sc d = (rv, c') \<Longrightarrow> rv = ReserveConflict \<or> rv = ReserveFull \<Longrightarrow>
     flight_step h fl (fl\<lparr>fl_cache := c'\<rparr>)"
| finish: "fl_waiting fl t = Some (sc, d, slot) \<Longrightarrow>
     get_or_init (fl_cache fl) slot (h t) (fl_state fl) = (v, c', st') \<Longrightarrow>
     flight_step h fl (fl\<lparr>fl_cache := c', fl_state := st', fl_waiting := (fl_waiting fl)(t := None),
       fl_results := (fl_results fl)(t \<mapsto> (slot, v)),
       fl_runs := fl_runs fl @ (if ic_slots (fl_cache fl) slot = None then [(slot, t)] else [])\<rparr>)"
| rehash: "mset es = mset (ic_entries (fl_cache fl)) \<Longrightarrow>
     flight_step h fl (fl\<lparr>fl_cache := (fl_cache fl)\<lparr>ic_entries := es\<rparr>\<rparr>)"

definition flight_inv :: "(nat \<Rightarrow> 's \<Rightarrow> 'r \<times> 's) \<Rightarrow> 's \<Rightarrow> ('r, 's) flight \<Rightarrow> bool" where
  "flight_inv h st0 fl \<longleftrightarrow> cache_wf (fl_cache fl)
     \<and> distinct (map fst (fl_runs fl))
     \<and> (\<forall>s. s \<in> fst ` set (fl_runs fl) \<longleftrightarrow> ic_slots (fl_cache fl) s \<noteq> None)
     \<and> fl_state fl = foldl (\<lambda>st (s, t). snd (h t st)) st0 (fl_runs fl)
     \<and> (\<forall>t sc d slot. fl_waiting fl t = Some (sc, d, slot) \<longrightarrow> slot < ic_next_slot (fl_cache fl)
          \<and> (ic_slots (fl_cache fl) slot = None \<longrightarrow>
               (\<exists>e. (sc, e) \<in> set (ic_entries (fl_cache fl)) \<and> ce_slot e = slot \<and> ce_digest e = d)))
     \<and> (\<forall>t slot v. fl_results fl t = Some (slot, v) \<longrightarrow> ic_slots (fl_cache fl) slot = Some v)"

lemma reserve_slot:
  assumes "cache_wf c" and "reserve c now sc d = (InSlot slot existed, c')"
  shows "slot < ic_next_slot c'" and "\<exists>e. (sc, e) \<in> set (ic_entries c') \<and> ce_slot e = slot \<and> ce_digest e = d"
proof -
  from assms(1,2) have "slot < ic_next_slot c' \<and> (\<exists>e. (sc, e) \<in> set (ic_entries c') \<and> ce_slot e = slot \<and> ce_digest e = d)"
  proof (cases rule: reserve_cases)
    case (joined e)
    then show ?thesis using map_of_slot_less [OF assms(1) joined(1)] by (auto dest!: map_of_SomeD)
  qed auto
  then show "slot < ic_next_slot c'" and "\<exists>e. (sc, e) \<in> set (ic_entries c') \<and> ce_slot e = slot \<and> ce_digest e = d"
    by blast+
qed

lemma flight_inv_waiting:
  assumes "flight_inv h st0 fl" and "fl_waiting fl t = Some (sc, d, slot)" and "ic_slots (fl_cache fl) slot = None"
  obtains e where "(sc, e) \<in> set (ic_entries (fl_cache fl))" and "ce_slot e = slot" and "ce_digest e = d"
  using assms unfolding flight_inv_def by blast

text \<open>A reservation step changes the cache only; the rest of the invariant is kept.\<close>

lemma flight_inv_reserve:
  assumes "flight_inv h st0 fl" and r: "reserve (fl_cache fl) now sc d = (rv, c')"
  shows "flight_inv h st0 (fl\<lparr>fl_cache := c'\<rparr>)"
proof -
  have wf: "cache_wf (fl_cache fl)" using assms(1) by (simp add: flight_inv_def)
  note w = reserve_wf [OF wf r]
  have "\<exists>e. (sc', e) \<in> set (ic_entries c') \<and> ce_slot e = slot \<and> ce_digest e = d'"
    if "fl_waiting fl t = Some (sc', d', slot)" "ic_slots (fl_cache fl) slot = None" for t sc' d' slot
  proof -
    from assms(1) that obtain e where "(sc', e) \<in> set (ic_entries (fl_cache fl))" "ce_slot e = slot" "ce_digest e = d'"
      unfolding flight_inv_def by blast
    with w that(2) show ?thesis by blast
  qed
  moreover have "slot < ic_next_slot c'" if "fl_waiting fl t = Some (sc', d', slot)" for t sc' d' slot
  proof -
    have "slot < ic_next_slot (fl_cache fl)" using assms(1) that unfolding flight_inv_def by blast
    then show ?thesis using w by simp
  qed
  ultimately show ?thesis using assms(1) w unfolding flight_inv_def by simp
qed

lemma flight_inv_rehash:
  assumes "flight_inv h st0 fl" and es: "mset es = mset (ic_entries (fl_cache fl))"
  shows "flight_inv h st0 (fl\<lparr>fl_cache := (fl_cache fl)\<lparr>ic_entries := es\<rparr>\<rparr>)"
proof -
  have "set es = set (ic_entries (fl_cache fl))" "length es = length (ic_entries (fl_cache fl))"
    using es by (auto dest: mset_eq_setD mset_eq_length)
  moreover have "distinct (map fst es) = distinct (map fst (ic_entries (fl_cache fl)))"
    "distinct (map (\<lambda>p. ce_slot (snd p)) es) = distinct (map (\<lambda>p. ce_slot (snd p)) (ic_entries (fl_cache fl)))"
    using es by (metis mset_map mset_eq_imp_distinct_iff)+
  ultimately show ?thesis using assms(1) unfolding flight_inv_def cache_wf_def by simp
qed

lemma flight_inv_finish:
  assumes inv: "flight_inv h st0 fl" and w: "fl_waiting fl t = Some (sc, d, slot)"
    and g: "get_or_init (fl_cache fl) slot (h t) (fl_state fl) = (v, c', st')"
  shows "flight_inv h st0 (fl\<lparr>fl_cache := c', fl_state := st', fl_waiting := (fl_waiting fl)(t := None),
       fl_results := (fl_results fl)(t \<mapsto> (slot, v)),
       fl_runs := fl_runs fl @ (if ic_slots (fl_cache fl) slot = None then [(slot, t)] else [])\<rparr>)"
proof -
  have wf: "cache_wf (fl_cache fl)" and lt: "slot < ic_next_slot (fl_cache fl)"
    using inv w unfolding flight_inv_def by blast+
  note gw = get_or_init_wf [OF wf lt g]
  show ?thesis
  proof (cases "ic_slots (fl_cache fl) slot")
    case (Some u)
    then have "c' = fl_cache fl" "st' = fl_state fl" "v = u" using g by (auto simp: get_or_init_def)
    then show ?thesis using inv Some unfolding flight_inv_def by simp
  next
    case None
    then have c': "c' = (fl_cache fl)\<lparr>ic_slots := (ic_slots (fl_cache fl))(slot \<mapsto> v)\<rparr>"
      and st': "st' = snd (h t (fl_state fl))"
      using g by (auto simp: get_or_init_def split: prod.splits)
    have "slot \<notin> fst ` set (fl_runs fl)" using inv None unfolding flight_inv_def by blast
    then show ?thesis
      using inv None gw unfolding flight_inv_def c' st' by (simp add: image_iff) blast
  qed
qed

lemma flight_inv_step:
  assumes "flight_step h fl fl'" and "flight_inv h st0 fl"
  shows "flight_inv h st0 fl'"
  using assms
proof (cases rule: flight_step.cases)
  case (arrive t now sc d slot existed c')
  have wf: "cache_wf (fl_cache fl)" using assms(2) by (simp add: flight_inv_def)
  show ?thesis
    using flight_inv_reserve [OF assms(2) arrive(4)] reserve_slot [OF wf arrive(4)]
    unfolding flight_inv_def arrive(1) by simp
next
  case (refuse now sc d rv c')
  then show ?thesis using flight_inv_reserve [OF assms(2)] by simp
next
  case (finish t sc d slot v c' st')
  then show ?thesis using flight_inv_finish [OF assms(2) finish(2,3)] by simp
next
  case (rehash es)
  then show ?thesis using flight_inv_rehash [OF assms(2)] by simp
qed

lemma flight_inv_init: "0 < cap \<Longrightarrow> flight_inv h st0 (flight_init ttl cap st0)"
  by (simp add: flight_inv_def flight_init_def, simp add: with_limits_def)

lemma flight_inv_run:
  "(flight_step h)\<^sup>*\<^sup>* (flight_init ttl cap st0) fl \<Longrightarrow> 0 < cap \<Longrightarrow> flight_inv h st0 fl"
  by (induction rule: rtranclp_induct) (auto intro: flight_inv_init flight_inv_step)

text \<open>
  C30. Concurrent duplicates share one flight: in every interleaving each cell's handler runs at
  most once, the handler state is exactly the effect of those runs, every caller of a cell
  returns the one value in it, and while two callers with the same key wait on an unfinished
  computation they wait on the same cell and presented the same digest.
\<close>

theorem single_flight:
  assumes "(flight_step h)\<^sup>*\<^sup>* (flight_init ttl cap st0) fl" and "0 < cap"
  shows "distinct (map fst (fl_runs fl))
    \<and> fl_state fl = foldl (\<lambda>st (s, t). snd (h t st)) st0 (fl_runs fl)
    \<and> (\<forall>t u s v w. fl_results fl t = Some (s, v) \<and> fl_results fl u = Some (s, w) \<longrightarrow> v = w)
    \<and> (\<forall>t u sc d d' s s'. fl_waiting fl t = Some (sc, d, s) \<and> fl_waiting fl u = Some (sc, d', s')
         \<and> ic_slots (fl_cache fl) s = None \<and> ic_slots (fl_cache fl) s' = None \<longrightarrow> s = s' \<and> d = d')
    \<and> cache_len (fl_cache fl) \<le> ic_capacity (fl_cache fl)"
proof -
  have inv: "flight_inv h st0 fl" using flight_inv_run [OF assms] .
  then have wf: "cache_wf (fl_cache fl)" by (simp add: flight_inv_def)
  have "s = s' \<and> d = d'"
    if "fl_waiting fl t = Some (sc, d, s)" "fl_waiting fl u = Some (sc, d', s')"
      "ic_slots (fl_cache fl) s = None" "ic_slots (fl_cache fl) s' = None" for t u sc d d' s s'
  proof -
    note waits = that
    obtain e e' where "(sc, e) \<in> set (ic_entries (fl_cache fl))" "ce_slot e = s" "ce_digest e = d"
      "(sc, e') \<in> set (ic_entries (fl_cache fl))" "ce_slot e' = s'" "ce_digest e' = d'"
      using flight_inv_waiting [OF inv waits(1,3)] flight_inv_waiting [OF inv waits(2,4)] by metis
    then show ?thesis using wf eq_key_imp_eq_value unfolding cache_wf_def by metis
  qed
  moreover have "v = w" if "fl_results fl t = Some (s, v)" "fl_results fl u = Some (s, w)" for t u s v w
    using inv that unfolding flight_inv_def by (metis option.inject)
  moreover have "cache_len (fl_cache fl) \<le> ic_capacity (fl_cache fl)"
    using wf by (simp add: cache_wf_def cache_len_def)
  moreover have "distinct (map fst (fl_runs fl))"
    "fl_state fl = foldl (\<lambda>st (s, t). snd (h t st)) st0 (fl_runs fl)"
    using inv by (simp_all add: flight_inv_def)
  ultimately show ?thesis by blast
qed

theorem single_flight_witness:
  "\<exists>fl. (flight_step (\<lambda>_. ex_handler))\<^sup>*\<^sup>* (flight_init 300 2 7) fl
     \<and> fl_waiting fl 0 = Some (ex_scope ''k'', [1], 0) \<and> fl_waiting fl 1 = Some (ex_scope ''k'', [1], 0)
     \<and> distinct (map fst (fl_runs fl))"
proof -
  let ?c = "(with_limits 300 2)\<lparr>ic_entries := [(ex_scope ''k'', \<lparr>ce_digest = [1], ce_inserted_at = 10, ce_slot = 0\<rparr>)],
      ic_next_slot := 1\<rparr> :: nat idempotency_cache"
  let ?f0 = "flight_init 300 2 7 :: (nat, nat) flight"
  let ?f1 = "?f0\<lparr>fl_cache := ?c, fl_waiting := [0 \<mapsto> (ex_scope ''k'', [1], 0)]\<rparr>"
  let ?f2 = "?f1\<lparr>fl_cache := ?c, fl_waiting := (fl_waiting ?f1)(1 \<mapsto> (ex_scope ''k'', [1], 0))\<rparr>"
  have "flight_step (\<lambda>_. ex_handler) ?f0 ?f1"
    using flight_step.arrive [of ?f0 0 10 "ex_scope ''k''" "[1]" 0 False ?c "\<lambda>_. ex_handler"]
    by (simp add: flight_init_def reserve_def with_limits_def)
  moreover have "flight_step (\<lambda>_. ex_handler) ?f1 ?f2"
    by (rule flight_step.arrive [where now = 11]) (simp_all add: flight_init_def reserve_def with_limits_def retained_def)
  ultimately have run: "(flight_step (\<lambda>_. ex_handler))\<^sup>*\<^sup>* ?f0 ?f2" by simp
  then show ?thesis using single_flight [OF run] by (intro exI [of _ ?f2]) simp
qed

end
