(* ===== verification/Owner_Control.thy ===== *)
theory Owner_Control
  imports Control_Envelope Peer_Registry
begin

text \<open>
  The owner-registry control handler:
  \<open>services/sentinel-daemon/src/owner_handler.rs\<close>.  A node's owner authority is its
  in-memory registry and its durable store; the handler holds the owner tick barrier for the
  whole of each mutation, so a request is one step.  \<open>io k\<close> says whether the \<open>k\<close>-th
  storage call of the request succeeds, \<open>parse_uuid\<close> is the \<open>uuid\<close> crate's parser,
  \<open>sha\<close> is SHA-256.
\<close>

record owner_authority =
  oa_registry :: owner_registry
  oa_meta :: cluster_meta_store

type_synonym uuid_parser = "string \<Rightarrow> uuid option"
type_synonym io_fate = "nat \<Rightarrow> bool"

section \<open>The operations\<close>

definition persist_commit ::
  "(bytes \<Rightarrow> bytes) \<Rightarrow> uuid_parser \<Rightarrow> io_fate \<Rightarrow> cluster_meta_store \<Rightarrow> string \<Rightarrow> string \<Rightarrow> u64
   \<Rightarrow> (reject_reason, owner_term \<times> cluster_meta_store) result" where
  "persist_commit sha parse_uuid io m scope_wire owner_node epoch =
     try_bind (ok_or (from_wire scope_wire) (UnrecognizedScope scope_wire)) (\<lambda>sc.
     try_bind (ok_or (parse_uuid owner_node) (MalformedOwnerNode owner_node)) (\<lambda>u.
     let term = \<lparr>ot_scope = sc, ot_owner_node = NodeId u, ot_epoch = epoch,
                 ot_generation = TRACK_A_COORDINATOR_GENERATION\<rparr> in
     try_bind (map_err SnapshotReadbackFailed (installed_owner_snapshot sha (io 0) m)) (\<lambda>found.
     try_bind (ok_or found CommitWithoutSnapshot) (\<lambda>installed.
     try_bind (ok_or (List.find (\<lambda>t. ot_scope t = sc) (gs_sorted_terms (fst installed))) CommittedTermAbsent)
       (\<lambda>installed_term.
     try_bind (ok_or (List.find (\<lambda>b. bs_scope b = sc) (ls_sorted_base_states (snd installed))) LocalStateAbsent)
       (\<lambda>local.
     if installed_term \<noteq> term \<or> bs_owner_term local \<noteq> term \<or> bs_recipient_node local \<noteq> ot_owner_node term
        \<or> bs_base_role local \<noteq> BaseOwner \<or> bs_activation_state local \<noteq> Routable
     then Err CommitAuthorityMismatch
     else try_bind (map_err OverlayCompletionFailed (complete_handoff_overlay (io 1) term m)) (\<lambda>m'.
          Ok (term, m'))))))))"

definition persist_source_retirement ::
  "(bytes \<Rightarrow> bytes) \<Rightarrow> io_fate \<Rightarrow> cluster_meta_store \<Rightarrow> node_id \<Rightarrow> string \<Rightarrow> u64
   \<Rightarrow> (reject_reason, local_owner_state \<times> cluster_meta_store) result" where
  "persist_source_retirement sha io m this_node scope_wire epoch =
     try_bind (ok_or (from_wire scope_wire) (UnrecognizedScope scope_wire)) (\<lambda>sc.
     try_bind (map_err SnapshotReadbackFailed (installed_owner_snapshot sha (io 0) m)) (\<lambda>found.
     try_bind (ok_or found PrepareWithoutSnapshot) (\<lambda>(g, l).
     try_bind (ok_or (List.find (\<lambda>t. ot_scope t = sc) (gs_sorted_terms g)) HandoffScopeAbsent) (\<lambda>term.
     try_bind (ok_or (List.find (\<lambda>b. bs_scope b = sc) (ls_sorted_base_states l)) LocalStateAbsent) (\<lambda>local_state.
     if gs_generation g \<noteq> TRACK_A_COORDINATOR_GENERATION \<or> ls_generation l \<noteq> TRACK_A_COORDINATOR_GENERATION
        \<or> ot_generation term \<noteq> TRACK_A_COORDINATOR_GENERATION
     then Err PrepareGenerationMismatch
     else if ot_epoch term \<noteq> epoch then Err (PrepareEpochMismatch (ot_epoch term) epoch)
     else if ot_owner_node term \<noteq> this_node then Err (PrepareSourceMismatch (ot_owner_node term) this_node)
     else if ls_recipient_node l \<noteq> this_node \<or> bs_recipient_node local_state \<noteq> this_node
        \<or> bs_owner_term local_state \<noteq> term \<or> bs_base_role local_state \<noteq> BaseOwner
        \<or> bs_activation_state local_state \<noteq> Routable
     then Err PrepareNotActiveOwner
     else
       let state = \<lparr>lo_scope = sc, lo_node_id = this_node, lo_epoch = epoch, lo_role = RoleRetired\<rparr> in
       try_bind (map_err PersistRetirementFailed (put_local_state (io 1) state m)) (\<lambda>m'.
       Ok (state, m')))))))"

text \<open>The \<open>OwnerCommit\<close> arm.\<close>

definition handle_owner_commit ::
  "(bytes \<Rightarrow> bytes) \<Rightarrow> uuid_parser \<Rightarrow> io_fate \<Rightarrow> string \<Rightarrow> string \<Rightarrow> u64 \<Rightarrow> owner_authority
   \<Rightarrow> control_response \<times> owner_authority" where
  "handle_owner_commit sha parse_uuid io scope_wire owner_node epoch a =
     (case persist_commit sha parse_uuid io (oa_meta a) scope_wire owner_node epoch of
        Err reason \<Rightarrow> (Rejected reason, a)
      | Ok (term, m) \<Rightarrow>
          let a' = a\<lparr>oa_meta := m\<rparr> in
          (case installed_owner_snapshot sha (io 2) m of
             Err e \<Rightarrow> (Rejected (CommitReadbackFailed e), a')
           | Ok None \<Rightarrow> (Rejected MarkerLostDuringCommit, a')
           | Ok (Some (g, l)) \<Rightarrow>
               (case list_local_saga_states (io 3) m of
                  Err e \<Rightarrow> (Rejected (CommitReadbackFailed e), a')
                | Ok overlays \<Rightarrow>
                    (case rebuild_from_owner_snapshot sha (oa_registry a) g l overlays of
                       Err e \<Rightarrow> (Rejected (CommitRebuildFailed e),
                                 a'\<lparr>oa_registry := close_owner_readiness (oa_registry a)\<rparr>)
                     | Ok r \<Rightarrow> (OwnerCommitted scope_wire epoch, a'\<lparr>oa_registry := r\<rparr>)))))"

text \<open>The \<open>ReplicateOwnerSnapshot\<close> arm: the latch is closed before the install.\<close>

definition rebuild_after_install ::
  "(bytes \<Rightarrow> bytes) \<Rightarrow> io_fate \<Rightarrow> owner_snapshot_install_outcome \<Rightarrow> owner_authority
   \<Rightarrow> control_response \<times> owner_authority" where
  "rebuild_after_install sha io outcome a =
     (case installed_owner_snapshot sha (io 1) (oa_meta a) of
        Err e \<Rightarrow> (Rejected (InstallReadbackFailed e), a)
      | Ok None \<Rightarrow>
          (Rejected (case list_local_saga_states (io 2) (oa_meta a) of
                       Err e \<Rightarrow> InstallReadbackFailed e | Ok _ \<Rightarrow> InstallMarkerLost), a)
      | Ok (Some (g, l)) \<Rightarrow>
          (case list_local_saga_states (io 2) (oa_meta a) of
             Err e \<Rightarrow> (Rejected (InstallReadbackFailed e), a)
           | Ok overlays \<Rightarrow>
               (case rebuild_from_owner_snapshot sha (oa_registry a) g l overlays of
                  Err e \<Rightarrow> (Rejected (SnapshotRebuildFailed e), a)
                | Ok r \<Rightarrow> (OwnerSnapshotAck outcome, a\<lparr>oa_registry := r\<rparr>))))"

definition handle_replicate ::
  "(bytes \<Rightarrow> bytes) \<Rightarrow> io_fate \<Rightarrow> owner_term_snapshot \<Rightarrow> local_owner_state_snapshot \<Rightarrow> owner_authority
   \<Rightarrow> control_response \<times> owner_authority" where
  "handle_replicate sha io g l a =
     (if ls_recipient_node l \<noteq> reg_this_node (oa_registry a) then (Rejected SnapshotNotForThisNode, a)
      else
        let closed = a\<lparr>oa_registry := close_owner_readiness (oa_registry a)\<rparr> in
        case install_owner_snapshot sha (io 0) g l (oa_meta a) of
          Err e \<Rightarrow> (Rejected (SnapshotInstallFailed e), closed)
        | Ok (outcome, m) \<Rightarrow>
            let stored = closed\<lparr>oa_meta := m\<rparr> in
            (case outcome of
               Installed \<Rightarrow> rebuild_after_install sha io outcome stored
             | AlreadyInstalled \<Rightarrow> rebuild_after_install sha io outcome stored
             | StaleSnapshot _ _ \<Rightarrow> rebuild_after_install sha io outcome stored
             | SnapshotConflict \<Rightarrow> (OwnerSnapshotAck outcome, stored)
             | SnapshotGenerationMismatch _ _ \<Rightarrow> (OwnerSnapshotAck outcome, stored)))"

text \<open>The \<open>PrepareHandoff\<close> arm.\<close>

definition handle_prepare ::
  "(bytes \<Rightarrow> bytes) \<Rightarrow> io_fate \<Rightarrow> node_id \<Rightarrow> string \<Rightarrow> u64 \<Rightarrow> owner_authority
   \<Rightarrow> control_response \<times> owner_authority" where
  "handle_prepare sha io this_node scope_wire epoch a =
     (case persist_source_retirement sha io (oa_meta a) this_node scope_wire epoch of
        Err reason \<Rightarrow> (Rejected reason, a)
      | Ok (state, m) \<Rightarrow>
          (HandoffPrepared scope_wire epoch,
           \<lparr>oa_registry = retire_local (oa_registry a) (lo_scope state) epoch, oa_meta = m\<rparr>))"

fun owner_handle ::
  "(bytes \<Rightarrow> bytes) \<Rightarrow> uuid_parser \<Rightarrow> io_fate \<Rightarrow> node_id \<Rightarrow> authenticated_peer \<Rightarrow> control_request
   \<Rightarrow> owner_authority \<Rightarrow> control_response \<times> owner_authority" where
  "owner_handle sha pu io n peer (MembershipHeartbeat cid hb) a = (Rejected MembershipNeedsWrapper, a)"
| "owner_handle sha pu io n peer (OwnerCommit sc owner ep) a = handle_owner_commit sha pu io sc owner ep a"
| "owner_handle sha pu io n peer (ReplicateOwnerSnapshot g l) a = handle_replicate sha io g l a"
| "owner_handle sha pu io n peer (PrepareHandoff sc ep) a = handle_prepare sha io n sc ep a"
| "owner_handle sha pu io n peer (SourceRetiredAck sc ep) a =
     (if from_wire sc = None then Rejected (UnrecognizedScope sc) else RetiredAckRecorded sc ep, a)"
| "owner_handle sha pu io n peer (RefQuery b) a = (RefQueryResult b False, a)"
| "owner_handle sha pu io n peer (PinQuery b) a = (PinQueryResult b False, a)"
| "owner_handle sha pu io n peer (AdvertiseHolders advs) a = (Rejected GossipNeedsWrapper, a)"

section \<open>What each request does to the stored authority\<close>

text \<open>A registry rebuilt from a store holds exactly the store's terms and overlays.\<close>

lemma rebuild_from_store:
  assumes "meta_wf m" and "installed_owner_snapshot sha ok m = Ok (Some (g, l))"
    and "list_local_saga_states ok' m = Ok ss" and "rebuild_from_owner_snapshot sha r g l ss = Ok r'"
  shows "reg_terms r' = meta_term m" and "reg_saga_states r' = meta_overlay m"
    and "reg_this_node r' = reg_this_node r" and "is_cluster_mode r'" and "reg_readiness r'"
  using installed_OkD [OF assms(1,2)] list_sagas_OkD [OF assms(1,3)] assms(4)
  by (auto simp: rebuild_eq_Ok is_cluster_mode_def)

text \<open>The overlay a retirement leaves, as \<open>put_local_state\<close> writes it.\<close>

definition retired_overlay :: "state_transfer_scope \<Rightarrow> node_id \<Rightarrow> u64 \<Rightarrow> local_owner_saga_state" where
  "retired_overlay sc n ep = \<lparr>sg_scope = sc, sg_operation_kind = Handoff, sg_op_id = None,
     sg_owner_term = \<lparr>ot_scope = sc, ot_owner_node = n, ot_epoch = ep,
       ot_generation = (if ep = 0 then 0 else TRACK_A_COORDINATOR_GENERATION)\<rparr>,
     sg_role = SagaRetired, sg_transition_seq = 0\<rparr>"

lemma put_retired_OkD:
  assumes "meta_wf m"
    and "put_local_state ok \<lparr>lo_scope = sc, lo_node_id = n, lo_epoch = ep, lo_role = RoleRetired\<rparr> m = Ok m'"
  shows "meta_wf m'" and "meta_overlay m' = (meta_overlay m)(sc \<mapsto> retired_overlay sc n ep)"
    and "cm_cluster_owner m' = cm_cluster_owner m" and "cm_local_owner m' = cm_local_owner m"
    and "cm_snapshot_meta m' = cm_snapshot_meta m"
proof -
  let ?s = "retired_overlay sc n ep"
  have c: "put_handoff_saga_state_cas ok ?s m = Ok m'"
    using assms(2) by (simp add: put_local_state_def retired_overlay_def)
  have sc: "sg_scope ?s = sc" by (simp add: retired_overlay_def)
  show "meta_wf m'" by (rule meta_wf_cas [OF assms(1) c])
  have m': "m' = put_overlay ?s m \<or> m' = m \<and> meta_overlay m sc = Some ?s"
    using cas_OkD [OF c] by (auto simp: sc)
  then show "meta_overlay m' = (meta_overlay m)(sc \<mapsto> ?s)"
    using put_overlay_view [OF assms(1), of ?s] by (auto simp: sc)
  show "cm_cluster_owner m' = cm_cluster_owner m" "cm_local_owner m' = cm_local_owner m"
    "cm_snapshot_meta m' = cm_snapshot_meta m"
    using m' by auto
qed

lemma retirement_OkD:
  assumes "meta_wf m" and "persist_source_retirement sha io m n w ep = Ok (st, m')"
  shows "\<exists>sc. from_wire w = Some sc \<and> lo_scope st = sc
      \<and> meta_term m sc = Some \<lparr>ot_scope = sc, ot_owner_node = n, ot_epoch = ep,
          ot_generation = TRACK_A_COORDINATOR_GENERATION\<rparr>
      \<and> meta_wf m' \<and> meta_overlay m' = (meta_overlay m)(sc \<mapsto> retired_overlay sc n ep)
      \<and> cm_cluster_owner m' = cm_cluster_owner m \<and> cm_local_owner m' = cm_local_owner m
      \<and> cm_snapshot_meta m' = cm_snapshot_meta m"
proof -
  from assms(2) obtain sc g l t where sc: "from_wire w = Some sc"
    and inst: "installed_owner_snapshot sha (io 0) m = Ok (Some (g, l))"
    and t: "List.find (\<lambda>t. ot_scope t = sc) (gs_sorted_terms g) = Some t"
    and own: "ot_generation t = TRACK_A_COORDINATOR_GENERATION" "ot_epoch t = ep" "ot_owner_node t = n"
    and st: "st = \<lparr>lo_scope = sc, lo_node_id = n, lo_epoch = ep, lo_role = RoleRetired\<rparr>"
    and put: "put_local_state (io 1) st m = Ok m'"
    unfolding persist_source_retirement_def by (auto simp: Let_def split: if_splits prod.splits)
  have "distinct (map ot_scope (gs_sorted_terms g))"
    using installed_OkD(1) [OF assms(1) inst] strictly_sorted_distinct by (auto simp: owner_pair_spec_def)
  then have stored: "meta_term m sc = Some t"
    using installed_OkD(2) [OF assms(1) inst] map_extend_empty_find t by metis
  moreover have "t = \<lparr>ot_scope = sc, ot_owner_node = n, ot_epoch = ep, ot_generation = TRACK_A_COORDINATOR_GENERATION\<rparr>"
    using own find_SomeD [OF t] by (cases t) simp
  ultimately show ?thesis
    using sc st put_retired_OkD [OF assms(1) put [unfolded st]] by auto
qed

lemma commit_OkD:
  assumes "meta_wf m" and "persist_commit sha pu io m w owner ep = Ok (t, m')"
  shows "from_wire w = Some (ot_scope t) \<and> map_option NodeId (pu owner) = Some (ot_owner_node t)
    \<and> ot_epoch t = ep \<and> ot_generation t = TRACK_A_COORDINATOR_GENERATION \<and> meta_term m (ot_scope t) = Some t
    \<and> (\<exists>mk. meta_marker m = Some mk \<and> im_recipient_node mk = ot_owner_node t)
    \<and> complete_handoff_overlay (io 1) t m = Ok m'"
proof -
  from assms(2) obtain sc u g l t' b where sc: "from_wire w = Some sc" and u: "pu owner = Some u"
    and inst: "installed_owner_snapshot sha (io 0) m = Ok (Some (g, l))"
    and f: "List.find (\<lambda>t. ot_scope t = sc) (gs_sorted_terms g) = Some t"
      "List.find (\<lambda>b. bs_scope b = sc) (ls_sorted_base_states l) = Some b"
    and b: "bs_recipient_node b = ot_owner_node t"
    and t: "t = \<lparr>ot_scope = sc, ot_owner_node = NodeId u, ot_epoch = ep, ot_generation = TRACK_A_COORDINATOR_GENERATION\<rparr>"
    and c: "complete_handoff_overlay (io 1) t m = Ok m'"
    unfolding persist_commit_def by (auto simp: Let_def split: if_splits)
  have spec: "owner_pair_spec sha g l" by (rule installed_OkD(1) [OF assms(1) inst])
  then have "distinct (map ot_scope (gs_sorted_terms g))"
    using strictly_sorted_distinct by (auto simp: owner_pair_spec_def)
  then have "meta_term m sc = Some t"
    using installed_OkD(2) [OF assms(1) inst] map_extend_empty_find f(1) by metis
  moreover have "bs_recipient_node b = ls_recipient_node l"
    using spec find_SomeD [OF f(2)] by (auto simp: owner_pair_spec_def)
  ultimately show ?thesis
    using sc u t b c installed_OkD(3) [OF assms(1) inst] by auto
qed

section \<open>The node after a request\<close>

text \<open>The registry holds what the store holds.\<close>

definition mirrors :: "owner_registry \<Rightarrow> cluster_meta_store \<Rightarrow> bool" where
  "mirrors r m \<longleftrightarrow> reg_terms r = meta_term m \<and> reg_saga_states r = meta_overlay m \<and> is_cluster_mode r"

lemma registry_sel_simps [simp]:
  "reg_this_node (close_owner_readiness r) = reg_this_node r" "reg_terms (close_owner_readiness r) = reg_terms r"
  "reg_saga_states (close_owner_readiness r) = reg_saga_states r"
  "is_cluster_mode (close_owner_readiness r) = is_cluster_mode r"
  "reg_this_node (retire_local r sc ep) = reg_this_node r" "reg_terms (retire_local r sc ep) = reg_terms r"
  "is_cluster_mode (retire_local r sc ep) = is_cluster_mode r"
  "reg_saga_states (retire_local r sc ep) sc' = None \<longleftrightarrow> sc' \<noteq> sc \<and> reg_saga_states r sc' = None"
  by (auto simp: close_owner_readiness_def retire_local_def is_cluster_mode_def Let_def)

lemma handle_prepare_cases:
  assumes "handle_prepare sha io n w ep a = (resp, a')"
  obtains (rejected) reason where "resp = Rejected reason" "a' = a"
  | (prepared) st m where "resp = HandoffPrepared w ep"
      "persist_source_retirement sha io (oa_meta a) n w ep = Ok (st, m)"
      "a' = \<lparr>oa_registry = retire_local (oa_registry a) (lo_scope st) ep, oa_meta = m\<rparr>"
  using assms by (auto simp: handle_prepare_def split: sum.splits)

lemma rebuild_after_install_cases:
  assumes "rebuild_after_install sha io out a = (resp, a')" and "meta_wf (oa_meta a)"
  obtains (rejected) reason where "resp = Rejected reason" "a' = a"
  | (rebuilt) "resp = OwnerSnapshotAck out" "oa_meta a' = oa_meta a" "mirrors (oa_registry a') (oa_meta a)"
      "reg_this_node (oa_registry a') = reg_this_node (oa_registry a)" "reg_readiness (oa_registry a')"
proof (cases "installed_owner_snapshot sha (io 1) (oa_meta a)")
  case (Inl e)
  then show ?thesis using assms that(1) by (auto simp: rebuild_after_install_def)
next
  case i: (Inr found)
  show ?thesis
  proof (cases found)
    case None
    then show ?thesis using assms i that(1) by (auto simp: rebuild_after_install_def)
  next
    case (Some pair)
    obtain g l where pair: "pair = (g, l)" by (cases pair)
    show ?thesis
    proof (cases "list_local_saga_states (io 2) (oa_meta a)")
      case (Inl e)
      then show ?thesis using assms i Some pair that(1) by (auto simp: rebuild_after_install_def)
    next
      case (Inr ss)
      then show ?thesis
        using assms i Some pair that rebuild_from_store [OF assms(2) i [unfolded Some pair] Inr]
        by (cases "rebuild_from_owner_snapshot sha (oa_registry a) g l ss")
          (auto simp: rebuild_after_install_def mirrors_def)
    qed
  qed
qed

text \<open>The three ways a snapshot delivery ends: not for this node, latch closed, or rebuilt.\<close>

lemma handle_replicate_cases:
  assumes "handle_replicate sha io g l a = (resp, a')" and "meta_wf (oa_meta a)"
  obtains (not_ours) "ls_recipient_node l \<noteq> reg_this_node (oa_registry a)"
      "resp = Rejected SnapshotNotForThisNode" "a' = a"
  | (closed) "ls_recipient_node l = reg_this_node (oa_registry a)"
      "oa_registry a' = close_owner_readiness (oa_registry a)"
      "oa_meta a' = oa_meta a \<or> (\<exists>out. install_owner_snapshot sha (io 0) g l (oa_meta a) = Ok (out, oa_meta a'))"
      "\<forall>out. resp = OwnerSnapshotAck out \<longrightarrow> out \<notin> {Installed, AlreadyInstalled}"
  | (rebuilt) out where "ls_recipient_node l = reg_this_node (oa_registry a)"
      "install_owner_snapshot sha (io 0) g l (oa_meta a) = Ok (out, oa_meta a')" "resp = OwnerSnapshotAck out"
      "mirrors (oa_registry a') (oa_meta a')" "reg_this_node (oa_registry a') = reg_this_node (oa_registry a)"
      "reg_readiness (oa_registry a')"
proof (cases "ls_recipient_node l = reg_this_node (oa_registry a)")
  case False
  then show ?thesis using assms(1) by (intro that(1)) (simp_all add: handle_replicate_def)
next
  case ours: True
  let ?closed = "a\<lparr>oa_registry := close_owner_readiness (oa_registry a)\<rparr>"
  show ?thesis
  proof (cases "install_owner_snapshot sha (io 0) g l (oa_meta a)")
    case (Inl e)
    then show ?thesis using assms(1) ours by (intro that(2)) (auto simp: handle_replicate_def Let_def)
  next
    case (Inr p)
    obtain out m where p: "p = (out, m)" by (cases p)
    have wf: "meta_wf m" using meta_wf_install [OF assms(2)] Inr p by simp
    show ?thesis
    proof (cases "out = SnapshotConflict \<or> (\<exists>i j. out = SnapshotGenerationMismatch i j)")
      case True
      then show ?thesis
        using assms(1) ours Inr p by (intro that(2)) (auto simp: handle_replicate_def Let_def)
    next
      case False
      then have r: "rebuild_after_install sha io out (?closed\<lparr>oa_meta := m\<rparr>) = (resp, a')"
        using assms ours Inr p by (cases out) (auto simp: handle_replicate_def Let_def)
      have wf': "meta_wf (oa_meta (?closed\<lparr>oa_meta := m\<rparr>))" using wf by simp
      from r wf' show ?thesis
      proof (cases rule: rebuild_after_install_cases)
        case rejected
        then show ?thesis using ours Inr p by (intro that(2)) simp_all
      next
        case rebuilt
        then show ?thesis using ours Inr p by (intro that(3) [of out]) simp_all
      qed
    qed
  qed
qed

lemma handle_commit_cases:
  assumes "handle_owner_commit sha pu io w owner ep a = (resp, a')" and "meta_wf (oa_meta a)"
  obtains (rejected) reason where "resp = Rejected reason" "a' = a"
  | (unread) reason t m where "resp = Rejected reason"
      "persist_commit sha pu io (oa_meta a) w owner ep = Ok (t, m)" "oa_meta a' = m"
      "oa_registry a' = oa_registry a \<or> oa_registry a' = close_owner_readiness (oa_registry a)"
  | (committed) t m where "resp = OwnerCommitted w ep"
      "persist_commit sha pu io (oa_meta a) w owner ep = Ok (t, m)" "oa_meta a' = m"
      "mirrors (oa_registry a') m" "reg_this_node (oa_registry a') = reg_this_node (oa_registry a)"
      "reg_readiness (oa_registry a')"
proof (cases "persist_commit sha pu io (oa_meta a) w owner ep")
  case (Inl e)
  then show ?thesis using assms that(1) by (auto simp: handle_owner_commit_def)
next
  case c: (Inr p)
  obtain t m where p: "p = (t, m)" by (cases p)
  have wf: "meta_wf m" using commit_OkD [OF assms(2)] c p meta_wf_complete(1) [OF assms(2)] by blast
  note c' = c [unfolded p]
  show ?thesis
  proof (cases "\<exists>g l ss. installed_owner_snapshot sha (io 2) m = Ok (Some (g, l)) \<and> list_local_saga_states (io 3) m = Ok ss")
    case False
    then show ?thesis
      using assms c' that(2) [OF _ c'] by (auto simp: handle_owner_commit_def Let_def split: sum.splits option.splits)
  next
    case True
    then obtain g l ss where i: "installed_owner_snapshot sha (io 2) m = Ok (Some (g, l))"
      and ss: "list_local_saga_states (io 3) m = Ok ss" by blast
    then show ?thesis
      using assms c' that(2) [OF _ c'] that(3) [OF _ c'] rebuild_from_store [OF wf i ss]
      by (cases "rebuild_from_owner_snapshot sha (oa_registry a) g l ss")
        (auto simp: handle_owner_commit_def Let_def mirrors_def)
  qed
qed

section \<open>Rebuilding at boot\<close>

datatype boot_error =
    BootStoreFailed meta_error
  | BootMarkerAbsent
  | BootRebuildFailed owner_snapshot_error

definition rebuild_owner_registry_from_store ::
  "(bytes \<Rightarrow> bytes) \<Rightarrow> io_fate \<Rightarrow> cluster_meta_store \<Rightarrow> owner_registry
   \<Rightarrow> (boot_error, owner_term_snapshot \<times> owner_registry) result" where
  "rebuild_owner_registry_from_store sha io m r =
     try_bind (map_err BootStoreFailed (installed_owner_snapshot sha (io 0) m)) (\<lambda>found.
     try_bind (ok_or found BootMarkerAbsent) (\<lambda>(g, l).
     try_bind (map_err BootStoreFailed (list_local_saga_states (io 1) m)) (\<lambda>sagas.
     try_bind (map_err BootRebuildFailed (rebuild_from_owner_snapshot sha r g l sagas)) (\<lambda>r'.
     Ok (g, r')))))"

lemma rebuild_from_store_boot:
  assumes "meta_wf m" and "rebuild_owner_registry_from_store sha io m r = Ok (g, r')"
  shows "mirrors r' m" and "reg_this_node r' = reg_this_node r" and "reg_readiness r'"
    and "map_extend Map.empty ot_scope (gs_sorted_terms g) = meta_term m"
    and "\<exists>l. installed_owner_snapshot sha (io 0) m = Ok (Some (g, l))"
proof -
  from assms(2) obtain l ss where i: "installed_owner_snapshot sha (io 0) m = Ok (Some (g, l))"
    and ss: "list_local_saga_states (io 1) m = Ok ss" and r: "rebuild_from_owner_snapshot sha r g l ss = Ok r'"
    by (auto simp: rebuild_owner_registry_from_store_def split: prod.splits)
  show "mirrors r' m" "reg_this_node r' = reg_this_node r" "reg_readiness r'"
    using rebuild_from_store [OF assms(1) i ss r] by (simp_all add: mirrors_def)
  show "map_extend Map.empty ot_scope (gs_sorted_terms g) = meta_term m"
    by (rule installed_OkD(2) [OF assms(1) i])
  show "\<exists>l. installed_owner_snapshot sha (io 0) m = Ok (Some (g, l))" using i by blast
qed

text \<open>Opening the store keeps every term, the marker and every overlay.\<close>

lemma open_store_keeps:
  assumes "meta_wf m" and "open_store ok (Some m) = Ok m'"
  shows "meta_wf m'" and "cm_cluster_owner m' = cm_cluster_owner m" and "cm_snapshot_meta m' = cm_snapshot_meta m"
    and "meta_overlay m sc = Some s \<Longrightarrow> meta_overlay m' sc = Some s"
proof -
  have wf: "om_wf (cm_local_owner_saga m)" "keyed sg_scope (cm_local_owner_saga m)"
    using assms(1) by (simp_all add: meta_wf_def)
  from assms(2) consider "m' = m"
    | ss where "m' = m\<lparr>cm_local_owner_saga := migrate_rows ss (cm_local_owner_saga m)\<rparr>"
    by (auto simp: open_store_def migrate_legacy_overlays_def split: if_splits)
  then show "meta_wf m'" and "cm_cluster_owner m' = cm_cluster_owner m"
    and "cm_snapshot_meta m' = cm_snapshot_meta m"
    and "meta_overlay m sc = Some s \<Longrightarrow> meta_overlay m' sc = Some s"
    using assms(1) migrate_rows_props [OF wf] by (cases; simp add: meta_wf_def row_at_eq_Some)+
qed

lemma validate_overlay: "is_cluster_mode r \<Longrightarrow> reg_saga_states r (gd_scope gd) \<noteq> None \<Longrightarrow> validate r gd \<noteq> Ok ()"
  unfolding validate_eq_Ok may_write_def by auto

lemma installed_ok: "installed_owner_snapshot sha ok m = Ok x \<Longrightarrow> ok"
  by (simp add: installed_owner_snapshot_def install_marker_def)

lemma installed_same_tables:
  assumes "cm_cluster_owner m = cm_cluster_owner m'" and "cm_local_owner m = cm_local_owner m'"
    and "cm_snapshot_meta m = cm_snapshot_meta m'"
  shows "installed_owner_snapshot sha ok m = installed_owner_snapshot sha ok m'"
  unfolding installed_owner_snapshot_def install_marker_def list_owner_terms_def list_local_base_states_def assms ..

lemma retire_local_twice: "retire_local (retire_local r sc ep) sc ep = retire_local r sc ep"
proof -
  have "current_owner (retire_local r sc ep) sc = current_owner r sc"
    by (simp add: current_owner_def retire_local_def Let_def seed_term_def)
  then show ?thesis
    unfolding retire_local_def [of "retire_local r sc ep"] 
    by (simp add: Let_def split: sum.split) (simp add: retire_local_def Let_def split: sum.split)
qed

text \<open>
  C10. A source retires durably before it acknowledges: when a node answers that a scope is
  prepared for handoff at an epoch, it was the installed owner at that epoch; from then on it
  accepts no write to the scope, neither in the running process nor after any restart from
  the store it wrote; and a repeated request is acknowledged again and changes nothing.
\<close>

theorem retirement_durable_before_ack:
  assumes "meta_wf (oa_meta a)" and "is_cluster_mode (oa_registry a)"
    and "handle_prepare sha io n w ep a = (HandoffPrepared w' ep', a')"
  shows "\<exists>sc. from_wire w = Some sc
    \<and> meta_term (oa_meta a) sc = Some \<lparr>ot_scope = sc, ot_owner_node = n, ot_epoch = ep,
        ot_generation = TRACK_A_COORDINATOR_GENERATION\<rparr>
    \<and> (\<forall>gd. gd_scope gd = sc \<longrightarrow> validate (oa_registry a') gd \<noteq> Ok ())
    \<and> (\<forall>ok m io' g r r' gd. open_store ok (Some (oa_meta a')) = Ok m
         \<and> rebuild_owner_registry_from_store sha io' m r = Ok (g, r') \<and> gd_scope gd = sc
         \<longrightarrow> validate r' gd \<noteq> Ok ())
    \<and> handle_prepare sha (\<lambda>_. True) n w ep a' = (HandoffPrepared w ep, a')"
  using assms(3)
proof (cases rule: handle_prepare_cases)
  case (prepared st m)
  obtain sc where sc: "from_wire w = Some sc" "lo_scope st = sc" and wf: "meta_wf m"
    and t: "meta_term (oa_meta a) sc = Some \<lparr>ot_scope = sc, ot_owner_node = n, ot_epoch = ep,
        ot_generation = TRACK_A_COORDINATOR_GENERATION\<rparr>"
    and ov: "meta_overlay m sc = Some (retired_overlay sc n ep)"
    and same: "cm_cluster_owner m = cm_cluster_owner (oa_meta a)" "cm_local_owner m = cm_local_owner (oa_meta a)"
      "cm_snapshot_meta m = cm_snapshot_meta (oa_meta a)"
    using retirement_OkD [OF assms(1) prepared(2)] by auto
  have a': "oa_meta a' = m" "oa_registry a' = retire_local (oa_registry a) sc ep"
    by (simp_all add: prepared(3) sc(2))
  have "validate (oa_registry a') gd \<noteq> Ok ()" if "gd_scope gd = sc" for gd
    by (rule validate_overlay) (use assms(2) that in \<open>simp_all add: a' del: not_None_eq\<close>)
  moreover have "validate r' gd \<noteq> Ok ()"
    if "open_store ok (Some m) = Ok m2" "rebuild_owner_registry_from_store sha io' m2 r = Ok (g, r')"
      "gd_scope gd = sc" for ok m2 io' g r r' gd
    using open_store_keeps [OF wf that(1)] rebuild_from_store_boot(1) [of m2, OF _ that(2)] ov that(3)
    by (intro validate_overlay) (auto simp: mirrors_def)
  moreover have "handle_prepare sha (\<lambda>_. True) n w ep a' = (HandoffPrepared w ep, a')"
  proof -
    have "io 0" using prepared(2) installed_ok by (auto simp: persist_source_retirement_def)
    then have inst: "installed_owner_snapshot sha True m = installed_owner_snapshot sha (io 0) (oa_meta a)"
      using installed_same_tables [OF same] by simp
    have put: "put_local_state True \<lparr>lo_scope = sc, lo_node_id = n, lo_epoch = ep, lo_role = RoleRetired\<rparr> m = Ok m"
      using ov by (simp add: put_local_state_def put_handoff_saga_state_cas_def row_at_eq_Some retired_overlay_def)
    have "persist_source_retirement sha (\<lambda>_. True) m n w ep = Ok (st, m)"
      using prepared(2) unfolding persist_source_retirement_def inst
      by (auto simp: sc(1) put Let_def split: if_splits prod.splits)
    then show ?thesis
      by (simp add: handle_prepare_def a' sc(2) retire_local_twice)
  qed
  ultimately show ?thesis using sc(1) t by (auto simp: a'(1))
qed auto

definition ex_authority :: "node_id \<Rightarrow> u64 \<Rightarrow> owner_term list \<Rightarrow> owner_authority" where
  "ex_authority n rvn ts = \<lparr>oa_registry = cluster_node n, oa_meta = ex_store n rvn ts empty_meta\<rparr>"

lemma ex_installed:
  "meta_wf m \<Longrightarrow> ex_valid_terms ts \<Longrightarrow>
     installed_owner_snapshot ex_sha True (ex_store n rvn ts m) = Ok (Some (ex_snap_global rvn ts, ex_snap_local n rvn ts))"
  unfolding ex_store_def by (rule installed_after_replace [OF ex_valid_spec]) (simp_all add: meta_wf_def)

lemma from_wire_a: "from_wire ''nano:a'' = Some (NanoContainer ''a'')"
  by (simp add: from_wire_def strip_prefix_def)

theorem retirement_durable_before_ack_witness:
  "\<exists>a'. handle_prepare ex_sha (\<lambda>_. True) (NodeId 2) ''nano:a'' 3 (ex_authority (NodeId 2) 4 [ex_agent_term, ex_world_term])
       = (HandoffPrepared ''nano:a'' 3, a')
     \<and> validate (oa_registry a') (guard_of (NanoContainer ''a'') ex_agent_term) \<noteq> Ok ()"
proof -
  let ?a = "ex_authority (NodeId 2) 4 [ex_agent_term, ex_world_term]"
  have wf: "meta_wf (oa_meta ?a)" "is_cluster_mode (oa_registry ?a)"
    by (simp_all add: ex_authority_def meta_wf_ex_store ex_terms_valid is_cluster_mode_def cluster_node_def)
  have overlay: "om_get (cm_local_owner_saga (ex_store n rvn ts empty_meta)) k = None" for n rvn ts k
    by (simp add: ex_store_def empty_meta_def)
  have "\<exists>m. persist_source_retirement ex_sha (\<lambda>_. True) (oa_meta ?a) (NodeId 2) ''nano:a'' 3
      = Ok (\<lparr>lo_scope = NanoContainer ''a'', lo_node_id = NodeId 2, lo_epoch = 3, lo_role = RoleRetired\<rparr>, m)"
    using ex_installed [OF meta_wf_empty ex_terms_valid(1), of "NodeId 2" 4]
    by (simp add: persist_source_retirement_def ex_authority_def from_wire_a TRACK_A_COORDINATOR_GENERATION_def Let_def
        put_local_state_def put_handoff_saga_state_cas_def overlay)
      (simp add: ex_snap_local_def ex_base_def, intro exI [of _ "\<lparr>bs_scope = NanoContainer ''a'', bs_recipient_node = NodeId 2,
         bs_owner_term = ex_agent_term, bs_base_role = BaseOwner, bs_activation_state = Routable\<rparr>"] exI, simp)
  then obtain a' where h: "handle_prepare ex_sha (\<lambda>_. True) (NodeId 2) ''nano:a'' 3 ?a = (HandoffPrepared ''nano:a'' 3, a')"
    by (auto simp: handle_prepare_def)
  from retirement_durable_before_ack [OF wf h] h show ?thesis by (auto simp: from_wire_a)
qed

section \<open>Delivering a snapshot\<close>

text \<open>What an installation attempt does to the stored terms.\<close>

lemma install_view:
  assumes "meta_wf m" and "install_owner_snapshot sha ok g l m = Ok (out, m')"
  shows "cm_local_owner_saga m' = cm_local_owner_saga m"
    and "out \<noteq> Installed \<Longrightarrow> cm_cluster_owner m' = cm_cluster_owner m"
    and "out = Installed \<Longrightarrow> owner_pair_spec sha g l \<and> gs_generation g = TRACK_A_COORDINATOR_GENERATION
      \<and> meta_term m' = map_extend Map.empty ot_scope (gs_sorted_terms g)
      \<and> meta_marker m' = Some (marker_of g l)
      \<and> (\<forall>mk. meta_marker m = Some mk \<longrightarrow> marker_admits (Some mk) g l)
      \<and> (\<forall>sc t old. meta_term m' sc = Some t \<and> meta_term m sc = Some old \<and> ot_generation old = gs_generation g
           \<longrightarrow> ot_epoch old \<le> ot_epoch t)"
proof -
  show "cm_local_owner_saga m' = cm_local_owner_saga m"
    using install_other [OF assms(2)] assms(2) by (cases "out = Installed") (auto simp: install_Installed_iff)
  show "cm_cluster_owner m' = cm_cluster_owner m" if "out \<noteq> Installed"
    using install_other [OF assms(2) that] by auto
  assume "out = Installed"
  with assms(2) have spec: "owner_pair_spec sha g l" and gen: "gs_generation g = TRACK_A_COORDINATOR_GENERATION"
    and e: "epoch_regresses (cm_cluster_owner m) (gs_generation g) (gs_sorted_terms g) = Ok False"
    and m': "m' = put_marker (marker_of g l) (replace_rows g l m)"
    and adm: "\<exists>existing. get_decoded (cm_snapshot_meta m) INSTALL_MARKER_KEY = Ok existing \<and> marker_admits existing g l"
    by (auto simp: install_Installed_iff)
  have d: "distinct (map ot_scope (gs_sorted_terms g))"
    using spec strictly_sorted_distinct by (auto simp: owner_pair_spec_def)
  have view: "meta_term m' = map_extend Map.empty ot_scope (gs_sorted_terms g)"
    by (rule ext) (simp add: m' replace_rows_def row_at_fill [OF d])
  have "ot_epoch old \<le> ot_epoch t"
    if "meta_term m' sc = Some t" "meta_term m sc = Some old" "ot_generation old = gs_generation g" for sc t old
    using that e unfolding view map_extend_empty_eq_Some [OF d] epoch_regresses_False by (auto simp: not_less)
  moreover have "marker_admits (Some mk) g l" if "meta_marker m = Some mk" for mk
  proof -
    have "get_decoded (cm_snapshot_meta m) INSTALL_MARKER_KEY = Ok (Some mk)"
      using that by (auto simp: meta_marker_def split: option.splits stored.splits)
    then show ?thesis using adm by (auto simp del: get_decoded_eq_Some)
  qed
  moreover have "meta_marker m' = Some (marker_of g l)" using assms(1) by (simp add: m' meta_wf_def)
  ultimately show "owner_pair_spec sha g l \<and> gs_generation g = TRACK_A_COORDINATOR_GENERATION
      \<and> meta_term m' = map_extend Map.empty ot_scope (gs_sorted_terms g)
      \<and> meta_marker m' = Some (marker_of g l)
      \<and> (\<forall>mk. meta_marker m = Some mk \<longrightarrow> marker_admits (Some mk) g l)
      \<and> (\<forall>sc t old. meta_term m' sc = Some t \<and> meta_term m sc = Some old \<and> ot_generation old = gs_generation g
           \<longrightarrow> ot_epoch old \<le> ot_epoch t)"
    using spec gen view by blast
qed

lemma replicate_store:
  assumes "handle_replicate sha io g l a = (resp, a')" and "meta_wf (oa_meta a)"
  shows "oa_meta a' = oa_meta a \<or> (\<exists>out. install_owner_snapshot sha (io 0) g l (oa_meta a) = Ok (out, oa_meta a'))"
  using assms by (cases rule: handle_replicate_cases) auto

text \<open>
  C11. Delivering a snapshot fails closed: a snapshot for another node changes nothing; one for
  this node either is acknowledged with the registry holding exactly the stored terms and
  overlays, or leaves the node refusing every write.  In no case does a stored epoch of the
  coordinator's generation go back or an overlay change.
\<close>

theorem snapshot_delivery_fails_closed:
  assumes "meta_wf (oa_meta a)" and "handle_replicate sha io g l a = (resp, a')"
  shows "(ls_recipient_node l \<noteq> reg_this_node (oa_registry a) \<longrightarrow> a' = a)
    \<and> (ls_recipient_node l = reg_this_node (oa_registry a) \<longrightarrow>
        (\<exists>out. resp = OwnerSnapshotAck out) \<and> mirrors (oa_registry a') (oa_meta a') \<and> reg_readiness (oa_registry a')
        \<or> (\<forall>gd. validate (oa_registry a') gd = Err (ReadinessClosed (gd_scope gd))))
    \<and> (\<forall>sc t t'. meta_term (oa_meta a) sc = Some t \<and> meta_term (oa_meta a') sc = Some t'
         \<and> ot_generation t = TRACK_A_COORDINATOR_GENERATION \<longrightarrow> ot_epoch t \<le> ot_epoch t')
    \<and> meta_overlay (oa_meta a') = meta_overlay (oa_meta a)"
proof -
  have "ot_epoch t \<le> ot_epoch t'"
    if "meta_term (oa_meta a) sc = Some t" "meta_term (oa_meta a') sc = Some t'"
      "ot_generation t = TRACK_A_COORDINATOR_GENERATION" for sc t t'
    using replicate_store [OF assms(2,1)] install_view [OF assms(1)] that
    by (metis option.inject order_refl)
  moreover have "meta_overlay (oa_meta a') = meta_overlay (oa_meta a)"
    using replicate_store [OF assms(2,1)] install_view(1) [OF assms(1)] by metis
  moreover have "(ls_recipient_node l \<noteq> reg_this_node (oa_registry a) \<longrightarrow> a' = a)
    \<and> (ls_recipient_node l = reg_this_node (oa_registry a) \<longrightarrow>
        (\<exists>out. resp = OwnerSnapshotAck out) \<and> mirrors (oa_registry a') (oa_meta a') \<and> reg_readiness (oa_registry a')
        \<or> (\<forall>gd. validate (oa_registry a') gd = Err (ReadinessClosed (gd_scope gd))))"
    using assms(2,1)
    by (cases rule: handle_replicate_cases) (simp_all add: validate_closed close_owner_readiness_def)
  ultimately show ?thesis by blast
qed

theorem snapshot_delivery_fails_closed_witness:
  "\<exists>resp a'. handle_replicate ex_sha (\<lambda>_. True) (ex_snap_global 5 [ex_agent_term, ex_world_term])
         (ex_snap_local (NodeId 2) 5 [ex_agent_term, ex_world_term])
         (ex_authority (NodeId 2) 4 [ex_agent_term, ex_world_term]) = (resp, a')
     \<and> ((\<exists>out. resp = OwnerSnapshotAck out) \<and> mirrors (oa_registry a') (oa_meta a') \<and> reg_readiness (oa_registry a')
        \<or> (\<forall>gd. validate (oa_registry a') gd = Err (ReadinessClosed (gd_scope gd))))"
proof -
  let ?ts = "[ex_agent_term, ex_world_term]"
  let ?r = "handle_replicate ex_sha (\<lambda>_. True) (ex_snap_global 5 ?ts) (ex_snap_local (NodeId 2) 5 ?ts)
    (ex_authority (NodeId 2) 4 ?ts)"
  have wf: "meta_wf (oa_meta (ex_authority (NodeId 2) 4 ?ts))"
    by (simp add: ex_authority_def meta_wf_ex_store ex_terms_valid)
  have ours: "ls_recipient_node (ex_snap_local (NodeId 2) 5 ?ts)
      = reg_this_node (oa_registry (ex_authority (NodeId 2) 4 ?ts))"
    by (simp add: ex_authority_def ex_snap_local_def cluster_node_def)
  have "?r = (fst ?r, snd ?r)" by simp
  from snapshot_delivery_fails_closed [OF wf this] ours this show ?thesis by blast
qed

end
