(* ===== verification/Membership_Runtime.thy ===== *)
theory Membership_Runtime
  imports Membership
begin

text \<open>
  The membership runtime and its loop (\<open>services/sentinel-daemon/src/cluster_membership.rs\<close>):
  heartbeat ingestion with the previous state, the periodic tick with the transitions it
  reports, and one round of \<open>run_cluster_membership\<close>.  The clock is an argument; the order
  of the reported transitions, a \<open>HashMap\<close> order in the code, is the node order.
\<close>

section \<open>The membership runtime\<close>

record membership_transition =
  tr_node_id :: node_id
  tr_alias :: string
  tr_previous :: membership_state
  tr_current :: membership_state

definition ingest_at ::
  "membership_view \<Rightarrow> heartbeat \<Rightarrow> u64 \<Rightarrow> (ingest_outcome \<times> membership_state option) \<times> membership_view" where
  "ingest_at v hb now_ms =
     (let previous = map_option nm_state (get_member v (hb_node_id hb));
          (outcome, v') = ingest v hb now_ms
      in ((outcome, previous), v'))"

definition tick_at :: "membership_view \<Rightarrow> u64 \<Rightarrow> membership_transition list \<times> membership_view" where
  "tick_at v now_ms =
     (let before = map_of (rev (map (\<lambda>r. (nm_node_id r, nm_state r)) (om_values (mv_nodes v))));
          v' = tick v now_ms
      in (List.map_filter (\<lambda>r.
            case before (nm_node_id r) of
              None \<Rightarrow> None
            | Some previous \<Rightarrow>
                if previous \<noteq> nm_state r
                then Some \<lparr>tr_node_id = nm_node_id r, tr_alias = nm_alias r, tr_previous = previous,
                           tr_current = nm_state r\<rparr>
                else None) (om_values (mv_nodes v')), v'))"

definition member_state :: "membership_view \<Rightarrow> node_id \<Rightarrow> membership_state option" where
  "member_state v n = map_option nm_state (get_member v n)"

definition is_alive :: "membership_view \<Rightarrow> node_id \<Rightarrow> bool" where
  "is_alive v n \<longleftrightarrow> member_state v n = Some Alive"

record node_identity =
  ni_node_id :: node_id
  ni_alias :: string
  ni_cert_fingerprint :: "bytes option"
  ni_boot_id :: uuid
  ni_incarnation :: u64

text \<open>One round: the transitions it logs, the heartbeat it sends and the next incarnation.\<close>

definition membership_round ::
  "node_identity \<Rightarrow> u64 \<Rightarrow> membership_view \<times> u64
   \<Rightarrow> membership_transition list \<times> heartbeat \<times> membership_view \<times> u64" where
  "membership_round identity now_ms = (\<lambda>(v, incarnation).
     let (transitions, v') = tick_at v now_ms in
     (transitions,
      \<lparr>hb_node_id = ni_node_id identity, hb_alias = ni_alias identity, hb_boot_id = ni_boot_id identity,
       hb_incarnation = incarnation, hb_endpoints = []\<rparr>,
      v', saturating_add incarnation 1))"

section \<open>What a tick reports\<close>

definition transition_of :: "membership_config \<Rightarrow> u64 \<Rightarrow> node_membership \<Rightarrow> membership_transition option" where
  "transition_of c now r =
     (if nm_state r \<noteq> nm_state (tick_record c now r)
      then Some \<lparr>tr_node_id = nm_node_id r, tr_alias = nm_alias r, tr_previous = nm_state r,
                 tr_current = nm_state (tick_record c now r)\<rparr>
      else None)"

lemma view_wf_ids: "view_wf v \<Longrightarrow> map nm_node_id (om_values (mv_nodes v)) = map fst (mv_nodes v)"
  by (auto simp: view_wf_def get_member_def om_values_def om_get_set)

lemma view_wf_distinct: "view_wf v \<Longrightarrow> distinct (map nm_node_id (om_values (mv_nodes v)))"
  by (simp add: view_wf_ids view_wf_def om_wf_distinct)

lemma tick_at_eq:
  assumes "view_wf v"
  shows "tick_at v now = (List.map_filter (transition_of (mv_config v) now) (om_values (mv_nodes v)), tick v now)"
proof -
  let ?rs = "om_values (mv_nodes v)"
  let ?before = "map_of (rev (map (\<lambda>r. (nm_node_id r, nm_state r)) ?rs))"
  have d: "distinct (map fst (rev (map (\<lambda>r. (nm_node_id r, nm_state r)) ?rs)))"
    using view_wf_distinct [OF assms] by (simp add: rev_map [symmetric] comp_def)
  have before: "?before (nm_node_id r) = Some (nm_state r)" if "r \<in> set ?rs" for r
    using map_of_is_SomeI [OF d, of "nm_node_id r" "nm_state r"] that by (auto simp: image_iff)
  have same: "nm_alias (tick_record c now r) = nm_alias r" for c r by (simp add: tick_record_def Let_def)
  have "om_values (mv_nodes (tick v now)) = map (tick_record (mv_config v) now) ?rs"
    by (simp add: tick_def om_map_def om_values_def comp_def case_prod_beta)
  then show ?thesis
    using before
    by (auto simp: tick_at_def Let_def List.map_filter_def filter_map comp_def transition_of_def same
        intro!: map_cong filter_cong split: if_splits)
qed

section \<open>Runs of the failure detector\<close>

datatype membership_event = Beat heartbeat u64 | Tick u64

fun event_time :: "membership_event \<Rightarrow> u64" where
  "event_time (Beat hb t) = t"
| "event_time (Tick t) = t"

fun beat_of :: "node_id \<Rightarrow> membership_event \<Rightarrow> bool" where
  "beat_of n (Beat hb t) \<longleftrightarrow> hb_node_id hb = n"
| "beat_of n (Tick t) \<longleftrightarrow> False"

fun run_events :: "membership_view \<Rightarrow> membership_event list \<Rightarrow> membership_transition list \<times> membership_view" where
  "run_events v [] = ([], v)"
| "run_events v (Beat hb t # es) = run_events (snd (ingest_at v hb t)) es"
| "run_events v (Tick t # es) =
     (let (trs, v') = tick_at v t; (trs', v'') = run_events v' es in (trs @ trs', v''))"

text \<open>The same run as one node that sends no heartbeat sees it.\<close>

fun node_log :: "membership_config \<Rightarrow> node_membership \<Rightarrow> membership_event list
   \<Rightarrow> membership_transition list \<times> node_membership" where
  "node_log c r [] = ([], r)"
| "node_log c r (Beat hb t # es) = node_log c r es"
| "node_log c r (Tick t # es) =
     (let (trs, r') = node_log c (tick_record c t r) es
      in (case transition_of c t r of None \<Rightarrow> trs | Some x \<Rightarrow> x # trs, r'))"

lemma ingest_at_view: "snd (ingest_at v hb now) = snd (ingest v hb now)"
  by (simp add: ingest_at_def Let_def split: prod.split)

lemma ingest_other: "view_wf v \<Longrightarrow> n \<noteq> hb_node_id hb \<Longrightarrow> get_member (snd (ingest v hb now)) n = get_member v n"
  by (auto simp: ingest_cases split: option.splits)

lemma ingest_config: "mv_config (snd (ingest v hb now)) = mv_config v"
  by (simp add: ingest_cases put_record_def split: option.split)

lemma filter_map_filter_distinct:
  assumes "distinct (map k xs)" and "x \<in> set xs" and "\<And>y z. g y = Some z \<Longrightarrow> h z = k y"
  shows "filter (\<lambda>z. h z = k x) (List.map_filter g xs) = (case g x of None \<Rightarrow> [] | Some z \<Rightarrow> [z])"
  using assms(1,2)
proof (induction xs)
  case (Cons y ys)
  have none: "filter (\<lambda>z. h z = k x) (List.map_filter g ys) = []" if "k x \<notin> k ` set ys"
  proof -
    have "h z \<noteq> k x" if "z \<in> set (List.map_filter g ys)" for z
    proof -
      from that obtain y where "y \<in> set ys" "g y = Some z" by (auto simp: List.map_filter_def)
      with assms(3) [of y z] \<open>k x \<notin> k ` set ys\<close> show ?thesis by (metis image_eqI)
    qed
    then show ?thesis by (simp add: filter_empty_conv)
  qed
  show ?case
  proof (cases "x = y")
    case True
    with Cons.prems(1) none show ?thesis by (auto simp: List.map_filter_simps assms(3) split: option.splits)
  next
    case False
    with Cons.prems have "x \<in> set ys" "k y \<noteq> k x" by force+
    with Cons show ?thesis by (auto simp: List.map_filter_simps dest: assms(3) split: option.splits)
  qed
qed simp

lemma tick_at_node:
  assumes "view_wf v" and "get_member v n = Some r"
  shows "filter (\<lambda>t. tr_node_id t = n) (fst (tick_at v now))
    = (case transition_of (mv_config v) now r of None \<Rightarrow> [] | Some x \<Rightarrow> [x])"
proof -
  have "nm_node_id r = n" "r \<in> set (om_values (mv_nodes v))"
    using assms by (auto simp: view_wf_def get_member_def om_values_set)
  moreover have "tr_node_id z = nm_node_id y" if "transition_of (mv_config v) now y = Some z" for y z
    using that by (auto simp: transition_of_def split: if_splits)
  ultimately show ?thesis
    using filter_map_filter_distinct [OF view_wf_distinct [OF assms(1)], of r "transition_of (mv_config v) now" tr_node_id]
    by (simp add: tick_at_eq [OF assms(1)])
qed

lemma run_events_node:
  "view_wf v \<Longrightarrow> get_member v n = Some r \<Longrightarrow> \<not> list_ex (beat_of n) es \<Longrightarrow>
   filter (\<lambda>t. tr_node_id t = n) (fst (run_events v es)) = fst (node_log (mv_config v) r es)
   \<and> get_member (snd (run_events v es)) n = Some (snd (node_log (mv_config v) r es))"
proof (induction v es arbitrary: r rule: run_events.induct)
  case (2 v hb t es)
  let ?v = "snd (ingest_at v hb t)"
  have "view_wf ?v" "mv_config ?v = mv_config v" "get_member ?v n = Some r"
    using 2(2,3,4) by (auto simp: ingest_at_view view_wf_ingest ingest_config ingest_other)
  then show ?case using 2(1) [of r] 2(4) by simp
next
  case (3 v t es)
  let ?v = "snd (tick_at v t)"
  have v: "?v = tick v t" using tick_at_eq [OF 3(2)] by simp
  have "view_wf ?v" "mv_config ?v = mv_config v" "get_member ?v n = Some (tick_record (mv_config v) t r)"
    using 3(2,3) unfolding v by (simp_all add: view_wf_tick get_tick, simp add: tick_def)
  then have "filter (\<lambda>t. tr_node_id t = n) (fst (run_events ?v es)) = fst (node_log (mv_config v) (tick_record (mv_config v) t r) es)
      \<and> get_member (snd (run_events ?v es)) n = Some (snd (node_log (mv_config v) (tick_record (mv_config v) t r) es))"
    using 3(1) [of "tick_at v t" "fst (tick_at v t)" ?v] 3(4) by simp
  then show ?case
    using tick_at_node [OF 3(2,3), of t] by (auto simp: Let_def case_prod_beta split: option.splits)
qed simp

section \<open>Silence is detected\<close>

definition silence :: "node_membership \<Rightarrow> u64 \<Rightarrow> u64" where
  "silence r now = saturating_sub now (nm_last_seen_ms r)"

definition dead_limit :: "membership_config \<Rightarrow> u64" where
  "dead_limit c = saturating_add (mc_suspect_after_ms c) (mc_dead_after_ms c)"

lemma silence_mono: "t \<le> t' \<Longrightarrow> silence r t \<le> silence r t'"
  by (simp add: silence_def word_le_nat_alt unat_saturating_sub diff_le_mono)

lemma silence_tick [simp]: "silence (tick_record c t r) = silence r"
  by (rule ext) (simp add: silence_def)

lemma tick_record_state:
  "nm_state r \<noteq> Left \<Longrightarrow> nm_state (tick_record c t r) =
     (if dead_limit c \<le> silence r t then Dead else if mc_suspect_after_ms c \<le> silence r t then Suspect else Alive)"
  by (simp add: tick_record_def Let_def dead_limit_def silence_def)

lemma node_log_dead:
  assumes "sorted (map event_time es)" and "nm_state r \<noteq> Left"
    and "nm_state r = Dead \<longrightarrow> (\<forall>t. Tick t \<in> set es \<longrightarrow> dead_limit c \<le> silence r t)"
  shows "length (filter (\<lambda>x. tr_current x = Dead) (fst (node_log c r es)))
      = (if nm_state r \<noteq> Dead \<and> (\<exists>t. Tick t \<in> set es \<and> dead_limit c \<le> silence r t) then 1 else 0)
    \<and> (nm_state r = Dead \<or> (\<exists>t. Tick t \<in> set es \<and> dead_limit c \<le> silence r t) \<longrightarrow> nm_state (snd (node_log c r es)) = Dead)"
  using assms
proof (induction es arbitrary: r)
  case (Cons e es)
  show ?case
  proof (cases e)
    case (Beat hb t)
    with Cons.IH [of r] Cons.prems show ?thesis by auto
  next
    case (Tick t)
    let ?r = "tick_record c t r"
    have ex: "(\<exists>t'. Tick t' \<in> set (e # es) \<and> dead_limit c \<le> silence r t') \<longleftrightarrow>
        dead_limit c \<le> silence r t \<or> (\<exists>t'. Tick t' \<in> set es \<and> dead_limit c \<le> silence r t')"
      using Tick by auto
    have later: "dead_limit c \<le> silence r t'" if "dead_limit c \<le> silence r t" "Tick t' \<in> set es" for t'
      using that Cons.prems(1) Tick silence_mono [of t t' r] by fastforce
    have st: "nm_state ?r = Dead \<longleftrightarrow> dead_limit c \<le> silence r t" "nm_state ?r \<noteq> Left"
      using Cons.prems(2) by (simp_all add: tick_record_state)
    have "sorted (map event_time es)" using Cons.prems(1) by simp
    note ih = Cons.IH [OF this st(2), unfolded st(1) silence_tick]
    have log: "node_log c r (e # es) =
        (case transition_of c t r of None \<Rightarrow> fst (node_log c ?r es) | Some x \<Rightarrow> x # fst (node_log c ?r es), snd (node_log c ?r es))"
      by (simp add: Tick Let_def case_prod_beta)
    show ?thesis
    proof (cases "dead_limit c \<le> silence r t")
      case True
      with later ih have "length (filter (\<lambda>x. tr_current x = Dead) (fst (node_log c ?r es))) = 0"
        "nm_state (snd (node_log c ?r es)) = Dead" by auto
      with True st show ?thesis unfolding ex log by (simp add: transition_of_def)
    next
      case False
      moreover have "nm_state r \<noteq> Dead" using Cons.prems(3) False Tick by auto
      ultimately show ?thesis using ih st unfolding ex log by (auto simp: transition_of_def split: if_splits)
    qed
  qed
qed simp

lemma node_log_alive:
  "nm_state r = Alive \<Longrightarrow> (\<And>t. Tick t \<in> set es \<Longrightarrow> silence r t < mc_suspect_after_ms c) \<Longrightarrow> node_log c r es = ([], r)"
proof (induction es)
  case (Cons e es)
  have "tick_record c t r = r" if "e = Tick t" for t
  proof -
    have "mc_suspect_after_ms c \<le> dead_limit c"
      using unsigned_less [of "mc_suspect_after_ms c", where ?'a = nat]
      by (simp add: dead_limit_def word_le_nat_alt unat_saturating_add)
    moreover have "silence r t < mc_suspect_after_ms c" using Cons.prems that by simp
    ultimately have "nm_state (tick_record c t r) = Alive" using Cons.prems(1) by (auto simp: tick_record_state)
    then show ?thesis using Cons.prems(1) by (auto simp: tick_record_def Let_def)
  qed
  with Cons show ?case by (cases e) (simp_all add: transition_of_def)
qed simp

text \<open>
  C34. Silence is detected and only silence: from a node seen alive, along every run in clock
  order in which it sends no heartbeat while others may, the first tick past the limit makes it
  dead, it stays dead, and exactly one transition to dead is reported for it; as long as every
  tick comes before the suspicion time it stays alive and nothing is reported about it.
\<close>

theorem silent_node_reported_dead:
  assumes "view_wf v" and "get_member v n = Some r" and "nm_state r = Alive"
    and "\<not> list_ex (beat_of n) es" and "sorted (map event_time es)"
    and "run_events v es = (trs, v')"
  shows "((\<exists>t. Tick t \<in> set es \<and> dead_limit (mv_config v) \<le> silence r t) \<longrightarrow>
      member_state v' n = Some Dead
      \<and> length (filter (\<lambda>x. tr_node_id x = n \<and> tr_current x = Dead) trs) = 1)
    \<and> ((\<forall>t. Tick t \<in> set es \<longrightarrow> silence r t < mc_suspect_after_ms (mv_config v)) \<longrightarrow>
      is_alive v' n \<and> filter (\<lambda>x. tr_node_id x = n) trs = [])"
proof -
  note run = run_events_node [OF assms(1,2,4), unfolded assms(6) fst_conv snd_conv]
  have "filter (\<lambda>x. tr_node_id x = n \<and> tr_current x = Dead) trs
      = filter (\<lambda>x. tr_current x = Dead) (filter (\<lambda>x. tr_node_id x = n) trs)"
    by (simp add: conj_commute)
  then show ?thesis
    using run node_log_dead [OF assms(5), of r "mv_config v"] node_log_alive [OF assms(3), of es "mv_config v"] assms(3)
    by (simp add: member_state_def is_alive_def)
qed

theorem silent_node_reported_dead_witness:
  "\<exists>trs v'. run_events (snd (ingest (view_new default_membership_config) (ex_heartbeat 1 4) 100)) [Tick 3100, Tick 9100, Tick 9200]
      = (trs, v') \<and> member_state v' (NodeId 5) = Some Dead
     \<and> length (filter (\<lambda>x. tr_node_id x = NodeId 5 \<and> tr_current x = Dead) trs) = 1"
proof -
  let ?v = "snd (ingest (view_new default_membership_config) (ex_heartbeat 1 4) 100)"
  let ?es = "[Tick 3100, Tick 9100, Tick 9200]"
  have wf: "view_wf ?v" by (rule view_wf_ingest) (simp add: view_wf_def view_new_def get_member_def)
  obtain r where r: "get_member ?v (NodeId 5) = Some r" "nm_state r = Alive" "nm_last_seen_ms r = 100"
    by (simp add: ingest_def get_member_def view_new_def put_record_def record_of_def ex_heartbeat_def)
  have c: "mv_config ?v = default_membership_config" by (simp add: ingest_config view_new_def)
  obtain trs v' where run: "run_events ?v ?es = (trs, v')" by fastforce
  have "dead_limit (mv_config ?v) \<le> silence r 9100"
    unfolding c by (simp add: r(3) dead_limit_def silence_def default_membership_config_def saturating_add_def saturating_sub_def)
  with silent_node_reported_dead [OF wf r(1,2) _ _ run] run show ?thesis by auto
qed

end
