(* ===== verification/Control_Server.thy ===== *)
theory Control_Server
  imports Idempotency Owner_Control Membership_Runtime
begin

text \<open>
  The server side of the control plane: the membership handler
  (\<open>services/sentinel-daemon/src/cluster_membership.rs\<close>), the handler wrappers of
  \<open>crates/sentinel-cluster-control/src/handler.rs\<close>, the chain that
  \<open>ClusterControl::start\<close> builds from them, and \<open>serve_request\<close> of
  \<open>crates/sentinel-cluster-control/src/server.rs\<close>.  A handler is a function on the state it
  guards; a wrapper adds its own state in front.  The clock is an argument.  Streams, tasks
  and log lines are left out; the frame argument is what the request stream delivered.
\<close>

section \<open>Handlers\<close>

type_synonym 's control_handler =
  "authenticated_peer \<Rightarrow> control_request \<Rightarrow> 's \<Rightarrow> control_response \<times> 's"

definition quic_membership_handler ::
  "uuid \<Rightarrow> node_id \<Rightarrow> u64 \<Rightarrow> 's control_handler \<Rightarrow> (membership_view \<times> 's) control_handler" where
  "quic_membership_handler cluster_id local_node_id now_ms inner peer req = (\<lambda>(v, s).
     case req of
       MembershipHeartbeat cid hb \<Rightarrow>
         if cid \<noteq> cluster_id then (Rejected HeartbeatClusterMismatch, v, s)
         else if hb_node_id hb = local_node_id then (Rejected HeartbeatClaimsLocalNode, v, s)
         else if hb_node_id hb \<noteq> ap_node_id peer
         then (Rejected (HeartbeatPeerMismatch (hb_node_id hb) (ap_node_id peer)), v, s)
         else
           let ((outcome, previous), v') = ingest_at v hb now_ms in
           if outcome = RejectedStale then (Rejected HeartbeatStale, v', s)
           else (MembershipAccepted (hb_node_id hb) (hb_incarnation hb), v', s)
     | _ \<Rightarrow> let (resp, s') = inner peer req s in (resp, v, s'))"

text \<open>The advertisements of one message, merged in order; the number that changed the map.\<close>

fun merge_holders :: "holder_advertisement list \<Rightarrow> block_map \<Rightarrow> nat \<times> block_map" where
  "merge_holders [] m = (0, m)"
| "merge_holders (a # as) m =
     (let (changed, m') = apply_advertisement m a;
          (applied, m'') = merge_holders as m'
      in (if changed then Suc applied else applied, m''))"

definition block_map_gossip_handler :: "'s control_handler \<Rightarrow> (block_map \<times> 's) control_handler" where
  "block_map_gossip_handler inner peer req = (\<lambda>(m, s).
     case req of
       AdvertiseHolders advertisements \<Rightarrow>
         if list_ex (\<lambda>a. ha_node_id a \<noteq> ap_node_id peer) advertisements
         then (Rejected (HolderNotPeer (ap_node_id peer)), m, s)
         else let (applied, m') = merge_holders advertisements m in (HoldersApplied (word_of_nat applied), m', s)
     | _ \<Rightarrow> let (resp, s') = inner peer req s in (resp, m, s'))"

definition chef_authorizing_handler :: "node_id option \<Rightarrow> 's control_handler \<Rightarrow> 's control_handler" where
  "chef_authorizing_handler chef_node_id inner peer req s =
     (if requires_chef_authorization req \<and> chef_node_id \<noteq> Some (ap_node_id peer)
      then (Rejected (ChefOnly (method_name req)), s)
      else inner peer req s)"

definition fail_closed_handler :: "string \<Rightarrow> 's control_handler" where
  "fail_closed_handler reason peer req s = (Rejected (DependencyOutage reason), s)"

definition stub_handler :: "'s control_handler" where
  "stub_handler peer req s =
     (case req of
        MembershipHeartbeat cid hb \<Rightarrow> Rejected MembershipNeedsDaemon
      | PrepareHandoff sc ep \<Rightarrow> HandoffPrepared sc ep
      | SourceRetiredAck sc ep \<Rightarrow> RetiredAckRecorded sc ep
      | OwnerCommit sc owner ep \<Rightarrow> OwnerCommitted sc ep
      | ReplicateOwnerSnapshot g l \<Rightarrow> Rejected ReplicationNeedsOwnerHandler
      | RefQuery b \<Rightarrow> RefQueryResult b False
      | PinQuery b \<Rightarrow> PinQueryResult b False
      | AdvertiseHolders advs \<Rightarrow> HoldersApplied 0, s)"

section \<open>The chain a daemon serves\<close>

text \<open>What is fixed when the server is bound, and what each request meets.\<close>

record node_config =
  nc_cluster_id :: uuid
  nc_local_node_id :: node_id
  nc_chef_node_id :: "node_id option"
  nc_sha :: "bytes \<Rightarrow> bytes"
  nc_parse_uuid :: uuid_parser

type_synonym request_env = "u64 \<times> io_fate"
type_synonym served_state = "membership_view \<times> block_map \<times> owner_authority"

definition owner_chain :: "node_config \<Rightarrow> request_env \<Rightarrow> served_state control_handler" where
  "owner_chain nc env =
     quic_membership_handler (nc_cluster_id nc) (nc_local_node_id nc) (fst env)
       (block_map_gossip_handler
         (chef_authorizing_handler (nc_chef_node_id nc)
           (owner_handle (nc_sha nc) (nc_parse_uuid nc) (snd env) (nc_local_node_id nc))))"

definition storeless_chain :: "node_config \<Rightarrow> request_env \<Rightarrow> served_state control_handler" where
  "storeless_chain nc env =
     quic_membership_handler (nc_cluster_id nc) (nc_local_node_id nc) (fst env)
       (block_map_gossip_handler
         (chef_authorizing_handler (nc_chef_node_id nc) (fail_closed_handler ''cluster metastore unavailable'')))"

section \<open>Serving a request\<close>

record wire_codec =
  wc_decode_envelope :: "bytes \<Rightarrow> control_envelope option"
  wc_encode_request :: "control_request \<Rightarrow> bytes option"
  wc_encode_reply :: "control_reply \<Rightarrow> bytes option"
  wc_sha :: "bytes \<Rightarrow> bytes"

datatype serve_error = StreamTooLong | ServeCodec codec_error | PeerRevoked

definition request_scope :: "authenticated_peer \<Rightarrow> control_envelope \<Rightarrow> idempotency_scope" where
  "request_scope peer env = \<lparr>is_peer_node = ap_node_id peer, is_method = method_name (env_request env),
     is_idempotency_key = env_idempotency_key env\<rparr>"

definition dispatch ::
  "wire_codec \<Rightarrow> 's control_handler \<Rightarrow> authenticated_peer \<Rightarrow> nat \<Rightarrow> control_envelope
   \<Rightarrow> control_response idempotency_cache \<Rightarrow> 's
   \<Rightarrow> (serve_error, control_response) result \<times> control_response idempotency_cache \<times> 's" where
  "dispatch cd handle peer now env c s =
     (let req = env_request env; method = method_name req in
      if cache_response req then
        (case request_digest (wc_sha cd) (wc_encode_request cd) req of
           Err e \<Rightarrow> (Err (ServeCodec e), c, s)
         | Ok digest \<Rightarrow>
             (case get_or_compute c now (request_scope peer env) digest (handle peer req) s of
                (Computed response, c', s') \<Rightarrow> (Ok response, c', s')
              | (Cached response, c', s') \<Rightarrow> (Ok response, c', s')
              | (DigestConflict, c', s') \<Rightarrow> (Ok (IdempotencyConflict method (env_idempotency_key env)), c', s')
              | (CapacityExhausted, c', s') \<Rightarrow> (Ok (Rejected IdempotencyCapacityExhausted), c', s')))
      else let (response, s') = handle peer req s in (Ok response, c, s'))"

definition serve_request ::
  "wire_codec \<Rightarrow> 's control_handler \<Rightarrow> authenticated_peer \<Rightarrow> 'c peer_registry \<Rightarrow> nat \<Rightarrow> bytes
   \<Rightarrow> control_response idempotency_cache \<Rightarrow> 's
   \<Rightarrow> (serve_error, bytes) result \<times> control_response idempotency_cache \<times> 's" where
  "serve_request cd handle peer peers now frame c s =
     (if length frame > MAX_FRAME_BYTES + 4 then (Err StreamTooLong, c, s)
      else case decode_frame (wc_decode_envelope cd) frame of
        Err e \<Rightarrow> (Err (ServeCodec e), c, s)
      | Ok env \<Rightarrow>
          if resolve peers (ap_fingerprint peer) \<noteq> Some peer then (Err PeerRevoked, c, s)
          else
            (case dispatch cd handle peer now env c s of
               (Err e, c', s') \<Rightarrow> (Err e, c', s')
             | (Ok response, c', s') \<Rightarrow>
                 (map_err ServeCodec (encode_frame (wc_encode_reply cd)
                    \<lparr>rp_request_id = env_request_id env, rp_response = response\<rparr>), c', s')))"

section \<open>The server as a transition system\<close>

text \<open>
  Requests of the peers in \<open>senders\<close>, in any order, at any time and with any storage
  fate, interleaved with changes of the trusted peers.
\<close>

record ('c, 's) server =
  sv_registry :: "'c peer_registry"
  sv_cache :: "control_response idempotency_cache"
  sv_state :: 's

inductive server_step ::
  "wire_codec \<Rightarrow> ('e \<Rightarrow> 's control_handler) \<Rightarrow> node_id set \<Rightarrow> ('c, 's) server \<Rightarrow> ('c, 's) server \<Rightarrow> bool"
  for cd handle senders where
  step_serve: "ap_node_id peer \<in> senders \<Longrightarrow>
     serve_request cd (handle e) peer (sv_registry sv) now frame (sv_cache sv) (sv_state sv) = (out, c', s') \<Longrightarrow>
     server_step cd handle senders sv (sv\<lparr>sv_cache := c', sv_state := s'\<rparr>)"
| step_trust: "registry_step (sv_registry sv) r' \<Longrightarrow> server_step cd handle senders sv (sv\<lparr>sv_registry := r'\<rparr>)"

lemma get_or_compute_state:
  "get_or_compute c now sc d f st = (out, c', st') \<Longrightarrow> st' = st \<or> st' = snd (f st)"
  by (auto simp: get_or_compute_def get_or_init_def Let_def split: prod.splits reservation.splits option.splits)

lemma get_or_compute_wf:
  assumes "cache_wf c" and "get_or_compute c now sc d f st = (out, c', st')"
  shows "cache_wf c' \<and> ic_capacity c' = ic_capacity c"
proof -
  obtain rv c1 where rv: "reserve c now sc d = (rv, c1)" by (cases "reserve c now sc d")
  note w = reserve_wf [OF assms(1) rv]
  show ?thesis
  proof (cases rv)
    case (InSlot slot existed)
    with assms(2) rv obtain v where g: "get_or_init c1 slot f st = (v, c', st')"
      by (auto simp: get_or_compute_def split: prod.splits)
    then have "ic_capacity c' = ic_capacity c1"
      by (auto simp: get_or_init_def Let_def split: option.splits prod.splits)
    then show ?thesis
      using w get_or_init_wf [OF _ _ g] reserve_slot(1) [OF assms(1)] rv InSlot by auto
  qed (use assms(2) rv w in \<open>auto simp: get_or_compute_def\<close>)
qed

text \<open>A served request runs its handler once or not at all, for a peer that is still trusted.\<close>

lemma dispatch_state:
  "dispatch cd handle peer now env c s = (out, c', s') \<Longrightarrow> s' = s \<or> s' = snd (handle peer (env_request env) s)"
  by (auto simp: dispatch_def Let_def dest!: get_or_compute_state
      split: if_splits sum.splits prod.splits idempotency_outcome.splits)

lemma dispatch_wf:
  "cache_wf c \<Longrightarrow> dispatch cd handle peer now env c s = (out, c', s') \<Longrightarrow> cache_wf c' \<and> ic_capacity c' = ic_capacity c"
  by (auto simp: dispatch_def Let_def dest: get_or_compute_wf
      split: if_splits sum.splits prod.splits idempotency_outcome.splits)

lemma serve_request_cases:
  assumes "serve_request cd handle peer peers now frame c s = (out, c', s')"
  obtains (refused) e where "out = Err e" "c' = c" "s' = s"
  | (served) env res where "decode_frame (wc_decode_envelope cd) frame = Ok env"
      "resolve peers (ap_fingerprint peer) = Some peer" "length frame \<le> MAX_FRAME_BYTES + 4"
      "dispatch cd handle peer now env c s = (res, c', s')"
      "out = try_bind res (\<lambda>response. map_err ServeCodec (encode_frame (wc_encode_reply cd)
         \<lparr>rp_request_id = env_request_id env, rp_response = response\<rparr>))"
  using assms by (auto simp: serve_request_def try_bind_def not_less split: if_splits sum.splits prod.splits)

lemma serve_request_state:
  assumes "serve_request cd handle peer peers now frame c s = (out, c', s')"
  shows "s' = s \<or> (\<exists>req. s' = snd (handle peer req s))"
  using assms by (cases rule: serve_request_cases) (auto dest: dispatch_state)

section \<open>Handlers that confine their peers\<close>

text \<open>
  The contract of a handler chain: a peer's request changes only the parts of the state that
  peer may touch.  The server keeps it along every run.
\<close>

locale confined_handler =
  fixes handle :: "'e \<Rightarrow> 's control_handler" and wf :: "'s \<Rightarrow> bool"
    and may_touch :: "authenticated_peer \<Rightarrow> 'part \<Rightarrow> bool" and agrees :: "'part \<Rightarrow> 's \<Rightarrow> 's \<Rightarrow> bool"
  assumes agrees_refl: "agrees x s s"
    and agrees_trans: "agrees x s s' \<Longrightarrow> agrees x s' s'' \<Longrightarrow> agrees x s s''"
    and handle_wf: "wf s \<Longrightarrow> wf (snd (handle e peer req s))"
    and handle_confined: "wf s \<Longrightarrow> \<not> may_touch peer x \<Longrightarrow> agrees x s (snd (handle e peer req s))"
begin

lemma step_confined:
  assumes "server_step cd handle senders sv sv'" and "wf (sv_state sv)"
  shows "wf (sv_state sv')"
    and "(\<And>p. ap_node_id p \<in> senders \<Longrightarrow> \<not> may_touch p x) \<Longrightarrow> agrees x (sv_state sv) (sv_state sv')"
proof -
  from assms(1) have "wf (sv_state sv')
      \<and> ((\<forall>p. ap_node_id p \<in> senders \<longrightarrow> \<not> may_touch p x) \<longrightarrow> agrees x (sv_state sv) (sv_state sv'))"
  proof cases
    case (step_serve peer e now frame out c' s')
    from serve_request_state [OF step_serve(3)] show ?thesis
      using step_serve assms(2) handle_wf handle_confined agrees_refl by (auto 4 4)
  next
    case (step_trust r')
    then show ?thesis using assms(2) agrees_refl by simp
  qed
  then show "wf (sv_state sv')"
    and "(\<And>p. ap_node_id p \<in> senders \<Longrightarrow> \<not> may_touch p x) \<Longrightarrow> agrees x (sv_state sv) (sv_state sv')"
    by blast+
qed

lemma run_confined:
  assumes "(server_step cd handle senders)\<^sup>*\<^sup>* sv sv'" and "wf (sv_state sv)"
  shows "wf (sv_state sv')
    \<and> ((\<forall>p. ap_node_id p \<in> senders \<longrightarrow> \<not> may_touch p x) \<longrightarrow> agrees x (sv_state sv) (sv_state sv'))"
  using assms
proof (induction rule: rtranclp_induct)
  case base
  then show ?case by (simp add: agrees_refl)
next
  case (step y z)
  then have "wf (sv_state y)" by blast
  with step show ?case using step_confined [OF step(2)] by (blast intro: agrees_trans)
qed

end

section \<open>The daemon's chain confines its peers\<close>

datatype state_part = MemberOf node_id | HoldersOf node_id | OwnerAuthority

fun part_agrees :: "state_part \<Rightarrow> served_state \<Rightarrow> served_state \<Rightarrow> bool" where
  "part_agrees (MemberOf n) (v, m, a) (v', m', a') \<longleftrightarrow> get_member v' n = get_member v n"
| "part_agrees (HoldersOf n) (v, m, a) (v', m', a') \<longleftrightarrow> (\<forall>b. slot_at m' (b, n) = slot_at m (b, n))"
| "part_agrees OwnerAuthority (v, m, a) (v', m', a') \<longleftrightarrow> a' = a"

fun part_of_peer :: "node_id option \<Rightarrow> authenticated_peer \<Rightarrow> state_part \<Rightarrow> bool" where
  "part_of_peer chef p (MemberOf n) \<longleftrightarrow> n = ap_node_id p"
| "part_of_peer chef p (HoldersOf n) \<longleftrightarrow> n = ap_node_id p"
| "part_of_peer chef p OwnerAuthority \<longleftrightarrow> chef = Some (ap_node_id p)"

fun served_wf :: "served_state \<Rightarrow> bool" where
  "served_wf (v, m, a) \<longleftrightarrow> view_wf v \<and> map_wf m \<and> meta_wf (oa_meta a)"

lemma merge_holders_fold: "snd (merge_holders as m) = foldl (\<lambda>m a. snd (apply_advertisement m a)) m as"
  by (induction as arbitrary: m) (simp_all add: Let_def case_prod_beta)

lemma merge_holders_other:
  assumes "map_wf m" and "\<forall>a \<in> set as. ha_node_id a = n'" and "n \<noteq> n'"
  shows "slot_at (snd (merge_holders as m)) (b, n) = slot_at m (b, n)"
  using assms
proof (induction as arbitrary: m)
  case (Cons a as)
  from Cons.prems have "slot_at (snd (apply_advertisement m a)) (b, n) = slot_at m (b, n)"
    by (subst gossip.view_app) (auto simp: adv_key_def)
  with Cons.IH [of "snd (apply_advertisement m a)"] Cons.prems gossip.wf_app [of m a] show ?case
    by (simp add: merge_holders_fold case_prod_beta)
qed simp

lemma owner_handle_wf:
  assumes "meta_wf (oa_meta a)"
  shows "meta_wf (oa_meta (snd (owner_handle sha pu io n peer req a)))"
proof -
  obtain resp a' where h: "owner_handle sha pu io n peer req a = (resp, a')" by fastforce
  have "meta_wf (oa_meta a')"
  proof (cases req)
    case (PrepareHandoff w ep)
    with h have "handle_prepare sha io n w ep a = (resp, a')" by simp
    then show ?thesis using assms retirement_OkD by (cases rule: handle_prepare_cases) fastforce+
  next
    case (OwnerCommit w owner ep)
    with h have c: "handle_owner_commit sha pu io w owner ep a = (resp, a')" by simp
    from c assms show ?thesis
      by (cases rule: handle_commit_cases) (use assms commit_OkD meta_wf_complete(1) in fastforce)+
  next
    case (ReplicateOwnerSnapshot g l)
    with h have "handle_replicate sha io g l a = (resp, a')" by simp
    from replicate_store [OF this assms] show ?thesis using assms meta_wf_install by auto
  qed (use h assms in auto)
  then show ?thesis by (simp add: h)
qed

lemma owner_handle_reads:
  "\<not> requires_chef_authorization req \<Longrightarrow> snd (owner_handle sha pu io n peer req a) = a"
  by (cases req) auto

lemma chain_state:
  "snd (quic_membership_handler cid ln now (block_map_gossip_handler inner) peer req (v, m, a)) =
     (case req of
        MembershipHeartbeat c hb \<Rightarrow>
          (if c = cid \<and> hb_node_id hb \<noteq> ln \<and> hb_node_id hb = ap_node_id peer
           then snd (ingest v hb now) else v, m, a)
      | AdvertiseHolders as \<Rightarrow>
          (v, if list_ex (\<lambda>a. ha_node_id a \<noteq> ap_node_id peer) as then m else snd (merge_holders as m), a)
      | _ \<Rightarrow> (v, m, snd (inner peer req a)))"
  by (auto simp: quic_membership_handler_def block_map_gossip_handler_def Let_def ingest_at_view [symmetric]
      split: control_request.split prod.splits)

interpretation daemon: confined_handler "owner_chain nc" served_wf "part_of_peer (nc_chef_node_id nc)" part_agrees
  for nc
proof
  fix x and s s' s'' :: served_state
  show "part_agrees x s s" by (cases x; cases s) simp_all
  show "part_agrees x s s' \<Longrightarrow> part_agrees x s' s'' \<Longrightarrow> part_agrees x s s''"
    by (cases x; cases s; cases s'; cases s'') simp_all
next
  fix s :: served_state and e peer req assume wf: "served_wf s"
  obtain v m a where s: "s = (v, m, a)" by (cases s)
  from wf s show "served_wf (snd (owner_chain nc e peer req s))"
    by (auto simp: owner_chain_def chain_state chef_authorizing_handler_def merge_holders_fold
        simp del: owner_handle.simps intro: view_wf_ingest gossip.wf_fold owner_handle_wf split: control_request.split)
  fix x assume "\<not> part_of_peer (nc_chef_node_id nc) peer x"
  with wf s show "part_agrees x s (snd (owner_chain nc e peer req s))"
    by (cases x) (auto simp: owner_chain_def chain_state chef_authorizing_handler_def ingest_other
        list_ex_iff owner_handle_reads intro: merge_holders_other split: control_request.split)
qed

text \<open>Without a metadata store nobody, not even the chef, reaches the owner authority.\<close>

fun part_without_store :: "authenticated_peer \<Rightarrow> state_part \<Rightarrow> bool" where
  "part_without_store p OwnerAuthority \<longleftrightarrow> False"
| "part_without_store p x \<longleftrightarrow> part_of_peer None p x"

interpretation storeless: confined_handler "storeless_chain nc" served_wf part_without_store part_agrees
  for nc
proof
  fix x and s s' s'' :: served_state
  show "part_agrees x s s" by (rule daemon.agrees_refl)
  show "part_agrees x s s' \<Longrightarrow> part_agrees x s' s'' \<Longrightarrow> part_agrees x s s''" by (rule daemon.agrees_trans)
next
  fix s :: served_state and e peer req assume wf: "served_wf s"
  obtain v m a where s: "s = (v, m, a)" by (cases s)
  from wf s show "served_wf (snd (storeless_chain nc e peer req s))"
    by (auto simp: storeless_chain_def chain_state chef_authorizing_handler_def fail_closed_handler_def merge_holders_fold
        intro: view_wf_ingest gossip.wf_fold split: control_request.split)
  fix x assume "\<not> part_without_store peer x"
  with wf s show "part_agrees x s (snd (storeless_chain nc e peer req s))"
    by (cases x) (auto simp: storeless_chain_def chain_state chef_authorizing_handler_def fail_closed_handler_def
        ingest_other list_ex_iff intro: merge_holders_other split: control_request.split)
qed

text \<open>
  C8. No peer can speak for another: along every run of the server, whatever its senders put
  into their frames and however trust changes meanwhile, the membership record and the holder
  slots of a node that is not among the senders stay as they were, and the owner authority
  changes only if the configured chef is among them; without a metadata store it never changes.
\<close>

theorem peers_confined:
  assumes "(server_step cd (owner_chain nc) senders)\<^sup>*\<^sup>* sv sv'" and "sv_state sv = (v, m, a)" and "sv_state sv' = (v', m', a')"
    and "(server_step cd (storeless_chain nc) everyone)\<^sup>*\<^sup>* sv sw"
    and "view_wf v" and "map_wf m" and "meta_wf (oa_meta a)"
  shows "(n \<notin> senders \<longrightarrow> get_member v' n = get_member v n \<and> (\<forall>b. slot_at m' (b, n) = slot_at m (b, n)))
    \<and> ((\<forall>c. nc_chef_node_id nc = Some c \<longrightarrow> c \<notin> senders) \<longrightarrow> a' = a)
    \<and> snd (snd (sv_state sw)) = a"
proof -
  have wf: "served_wf (sv_state sv)" using assms by simp
  note run = daemon.run_confined [OF assms(1) wf]
  have "part_agrees OwnerAuthority (sv_state sv) (sv_state sw)"
    using storeless.run_confined [OF assms(4) wf, of OwnerAuthority] by simp
  then have "snd (snd (sv_state sw)) = a" using assms(2) by (cases "sv_state sw") simp
  then show ?thesis
    using run [of "MemberOf n"] run [of "HoldersOf n"] run [of OwnerAuthority] assms(2,3) by auto
qed

section \<open>Every reachable server is well formed\<close>

definition server_wf :: "('c, served_state) server \<Rightarrow> bool" where
  "server_wf sv \<longleftrightarrow> registry_wf (sv_registry sv) \<and> cache_wf (sv_cache sv)
     \<and> ic_capacity (sv_cache sv) = DEFAULT_IDEMPOTENCY_CAPACITY \<and> served_wf (sv_state sv)"

text \<open>What \<open>ClusterControl::start\<close> binds: an empty cache, membership view and block map.\<close>

definition server_bind ::
  "'c peer_registry \<Rightarrow> membership_config \<Rightarrow> owner_authority \<Rightarrow> ('c, served_state) server" where
  "server_bind peers mc a = \<lparr>sv_registry = peers, sv_cache = cache_new, sv_state = (view_new mc, [], a)\<rparr>"

lemma registry_new_wf: "registry_new bs = Ok r \<Longrightarrow> registry_wf r"
proof -
  have "registry_wf r0 \<Longrightarrow> authorize_all r0 bs = Ok r \<Longrightarrow> registry_wf r" for r0
    by (induction r0 bs rule: authorize_all.induct) (auto intro: registry_wf_authorize)
  from this [of registry_default] show "registry_new bs = Ok r \<Longrightarrow> registry_wf r" by (simp add: registry_new_def)
qed

lemma serve_request_cache:
  assumes "serve_request cd handle peer peers now frame c s = (out, c', s')" and "cache_wf c"
  shows "cache_wf c' \<and> ic_capacity c' = ic_capacity c"
  using assms by (cases rule: serve_request_cases) (auto dest: dispatch_wf)

lemma server_wf_step:
  assumes "server_step cd (owner_chain nc) senders sv sv'" and "server_wf sv"
  shows "server_wf sv'"
proof -
  have "served_wf (sv_state sv')"
    using daemon.step_confined(1) [OF assms(1)] assms(2) by (simp add: server_wf_def)
  with assms show ?thesis
    by cases (auto simp: server_wf_def dest: serve_request_cache registry_wf_run [OF r_into_rtranclp])
qed

text \<open>
  C29. The server's data stays well formed: from a bound server with any authorised peers and a
  well-formed store, every reachable state has one-to-one peer bindings, a cache within its
  capacity whose entries own their cells, a membership view and a block map keyed by their own
  rows, and a metadata store keyed by its own scopes.
\<close>

theorem server_state_typed:
  assumes "(server_step cd (owner_chain nc) senders)\<^sup>*\<^sup>* (server_bind peers mc a) sv"
    and "registry_new bindings = Ok peers" and "meta_wf (oa_meta a)"
  shows "server_wf sv \<and> cache_len (sv_cache sv) \<le> DEFAULT_IDEMPOTENCY_CAPACITY"
proof -
  have "server_wf (server_bind peers mc a)"
    using assms(3) registry_new_wf [OF assms(2)]
    by (simp add: server_wf_def server_bind_def cache_new_def with_limits_def cache_wf_def view_new_def view_wf_def
        get_member_def DEFAULT_IDEMPOTENCY_CAPACITY_def)
  with assms(1) have "server_wf sv"
    by (induction rule: rtranclp_induct) (auto intro: server_wf_step)
  then show ?thesis by (auto simp: server_wf_def cache_wf_def cache_len_def)
qed

section \<open>A request that is sent again\<close>

text \<open>
  A stretch of traffic: each event is one frame with the peer that sent it, the handler and the
  peer registry it met and the time it arrived.
\<close>

type_synonym ('c, 's) traffic =
  "('s control_handler \<times> authenticated_peer \<times> 'c peer_registry \<times> nat \<times> bytes) list"

fun serve_all ::
  "wire_codec \<Rightarrow> ('c, 's) traffic \<Rightarrow> control_response idempotency_cache \<Rightarrow> 's
   \<Rightarrow> control_response idempotency_cache \<times> 's" where
  "serve_all cd [] c s = (c, s)"
| "serve_all cd ((handle, peer, peers, now, frame) # es) c s =
     (case serve_request cd handle peer peers now frame c s of (_, c', s') \<Rightarrow> serve_all cd es c' s')"

definition cacheable_frame :: "wire_codec \<Rightarrow> bytes \<Rightarrow> bool" where
  "cacheable_frame cd frame =
     (case decode_frame (wc_decode_envelope cd) frame of Ok env \<Rightarrow> cache_response (env_request env) | Err _ \<Rightarrow> False)"

definition cacheable_count :: "wire_codec \<Rightarrow> ('c, 's) traffic \<Rightarrow> nat" where
  "cacheable_count cd es = length (filter (\<lambda>(handle, peer, peers, now, frame). cacheable_frame cd frame) es)"

definition within :: "nat \<Rightarrow> nat \<Rightarrow> ('c, 's) traffic \<Rightarrow> bool" where
  "within now ttl es = list_all (\<lambda>(handle, peer, peers, t, frame). t - now < ttl) es"

text \<open>A response on record under a key.\<close>

definition recorded :: "'r idempotency_cache \<Rightarrow> idempotency_scope \<Rightarrow> cache_entry \<Rightarrow> 'r \<Rightarrow> bool" where
  "recorded c sc e v \<longleftrightarrow> cache_wf c \<and> (sc, e) \<in> set (ic_entries c) \<and> ic_slots c (ce_slot e) = Some v"

lemma get_or_compute_fresh:
  assumes "cache_wf c" and "map_of (live_entries c now) sc = None" and "length (live_entries c now) < ic_capacity c"
    and "get_or_compute c now sc d f st = (out, c', st')"
  shows "out = Computed (fst (f st)) \<and> st' = snd (f st) \<and> ic_ttl c' = ic_ttl c \<and> ic_capacity c' = ic_capacity c
    \<and> length (ic_entries c') = Suc (length (live_entries c now))
    \<and> (\<exists>e. recorded c' sc e (fst (f st)) \<and> ce_digest e = d \<and> ce_inserted_at e = now)"
proof -
  obtain rv c1 where rv: "reserve c now sc d = (rv, c1)" by (cases "reserve c now sc d")
  have empty: "ic_slots c (ic_next_slot c) = None" using assms(1) by (auto simp: cache_wf_def)
  have wf: "cache_wf c'" using get_or_compute_wf [OF assms(1,4)] by simp
  from assms(1) rv show ?thesis
  proof (cases rule: reserve_cases)
    case (inserted rest)
    then have "rest = live_entries c now" using assms(3) by auto
    with inserted show ?thesis
      using assms(4) rv wf empty
      by (auto simp: get_or_compute_def get_or_init_def Let_def fresh_entry_def recorded_def split: prod.splits)
  qed (use assms(2,3) in auto)
qed

lemma get_or_compute_hit:
  assumes "recorded c sc e v" and "now - ce_inserted_at e < ic_ttl c"
  shows "get_or_compute c now sc d f st =
    (if ce_digest e = d then Cached v else DigestConflict, c\<lparr>ic_entries := live_entries c now\<rparr>, st)"
proof -
  have "map_of (live_entries c now) sc = Some e"
    using assms unfolding live_entries_def cache_wf_def recorded_def
    by (intro map_of_is_SomeI) (auto simp: retained_def distinct_map_filter)
  then show ?thesis
    using assms(1) by (simp add: get_or_compute_def reserve_def live_entries_def [symmetric] get_or_init_def recorded_def)
qed

text \<open>A cache with room for one more entry gives up no response that has not expired.\<close>

lemma get_or_compute_keeps:
  assumes "recorded c sc e v" and "now - ce_inserted_at e < ic_ttl c" and "length (ic_entries c) < ic_capacity c"
    and "get_or_compute c now sc' d f st = (out, c', st')"
  shows "recorded c' sc e v \<and> ic_ttl c' = ic_ttl c \<and> ic_capacity c' = ic_capacity c
    \<and> length (ic_entries c') \<le> Suc (length (ic_entries c))"
proof -
  have wf: "cache_wf c" and e: "(sc, e) \<in> set (ic_entries c)" "ic_slots c (ce_slot e) = Some v"
    using assms(1) by (simp_all add: recorded_def)
  obtain rv c1 where rv: "reserve c now sc' d = (rv, c1)" by (cases "reserve c now sc' d")
  have live: "(sc, e) \<in> set (live_entries c now)" "length (live_entries c now) \<le> length (ic_entries c)"
    using e assms(2) by (simp_all add: live_entries_def retained_def)
  have c1: "(sc, e) \<in> set (ic_entries c1)" "length (ic_entries c1) \<le> Suc (length (ic_entries c))"
    "ic_slots c1 = ic_slots c" "ic_ttl c1 = ic_ttl c"
    using reserve_wf [OF wf rv] live assms(3) wf rv by (auto elim!: reserve_cases)
  moreover have "ic_entries c' = ic_entries c1 \<and> ic_ttl c' = ic_ttl c1
      \<and> (\<forall>s u. ic_slots c1 s = Some u \<longrightarrow> ic_slots c' s = Some u)"
    using assms(4) rv
    by (auto simp: get_or_compute_def get_or_init_def Let_def split: prod.splits reservation.splits option.splits)
  ultimately show ?thesis using get_or_compute_wf [OF wf assms(4)] e(2) by (simp add: recorded_def)
qed

lemma serve_request_keeps:
  assumes "recorded c sc e v" and "now - ce_inserted_at e < ic_ttl c"
    and "cacheable_frame cd frame \<longrightarrow> length (ic_entries c) < ic_capacity c"
    and "serve_request cd handle peer peers now frame c s = (out, c', s')"
  shows "recorded c' sc e v \<and> ic_ttl c' = ic_ttl c \<and> ic_capacity c' = ic_capacity c
    \<and> length (ic_entries c') \<le> length (ic_entries c) + (if cacheable_frame cd frame then 1 else 0)"
  using assms(4)
proof (cases rule: serve_request_cases)
  case refused
  then show ?thesis using assms(1) by simp
next
  case (served env res)
  then show ?thesis
    using get_or_compute_keeps [OF assms(1,2)] assms(1,3)
    by (fastforce simp: dispatch_def Let_def cacheable_frame_def
        split: if_splits sum.splits prod.splits idempotency_outcome.splits)
qed

lemma serve_all_keeps:
  assumes "recorded c sc e v" and "within (ce_inserted_at e) (ic_ttl c) es"
    and "length (ic_entries c) + cacheable_count cd es \<le> ic_capacity c" and "serve_all cd es c s = (c', s')"
  shows "recorded c' sc e v \<and> ic_ttl c' = ic_ttl c"
  using assms
proof (induction es arbitrary: c s)
  case (Cons ev es)
  obtain h p r t f where ev: "ev = (h, p, r, t, f)" by (cases ev)
  obtain out c1 s1 where sv: "serve_request cd h p r t f c s = (out, c1, s1)"
    by (cases "serve_request cd h p r t f c s")
  have k: "recorded c1 sc e v \<and> ic_ttl c1 = ic_ttl c \<and> ic_capacity c1 = ic_capacity c
      \<and> length (ic_entries c1) \<le> length (ic_entries c) + (if cacheable_frame cd f then 1 else 0)"
    using Cons.prems by (intro serve_request_keeps [OF _ _ _ sv]) (auto simp: ev within_def cacheable_count_def)
  show ?case
    using Cons.IH [of c1 s1] Cons.prems k
    by (auto simp: ev sv within_def cacheable_count_def split: if_splits)
qed simp

text \<open>The first service of a request with a fresh key puts its response on record.\<close>

lemma serve_request_records:
  assumes "cache_wf c" and "serve_request cd handle peer peers now frame c s = (Ok reply, c1, s1)"
    and "decode_frame (wc_decode_envelope cd) frame = Ok env" and "cache_response (env_request env)"
    and "map_of (live_entries c now) (request_scope peer env) = None" and "length (live_entries c now) < ic_capacity c"
  obtains d e where "request_digest (wc_sha cd) (wc_encode_request cd) (env_request env) = Ok d"
    and "recorded c1 (request_scope peer env) e (fst (handle peer (env_request env) s))"
    and "ce_digest e = d" and "ce_inserted_at e = now" and "s1 = snd (handle peer (env_request env) s)"
    and "ic_ttl c1 = ic_ttl c" and "ic_capacity c1 = ic_capacity c"
    and "length (ic_entries c1) = Suc (length (live_entries c now))" and "length frame \<le> MAX_FRAME_BYTES + 4"
    and "encode_frame (wc_encode_reply cd) \<lparr>rp_request_id = env_request_id env,
           rp_response = fst (handle peer (env_request env) s)\<rparr> = Ok reply"
proof -
  from assms(2) obtain res where len: "length frame \<le> MAX_FRAME_BYTES + 4"
    and disp: "dispatch cd handle peer now env c s = (res, c1, s1)"
    and reply: "Ok reply = try_bind res (\<lambda>r. map_err ServeCodec (encode_frame (wc_encode_reply cd)
        \<lparr>rp_request_id = env_request_id env, rp_response = r\<rparr>))"
    using assms(3) by (cases rule: serve_request_cases) auto
  from disp reply obtain d where d: "request_digest (wc_sha cd) (wc_encode_request cd) (env_request env) = Ok d"
    using assms(4) by (auto simp: dispatch_def Let_def try_bind_def split: sum.splits)
  obtain out c' s' where g: "get_or_compute c now (request_scope peer env) d (handle peer (env_request env)) s = (out, c', s')"
    by (cases "get_or_compute c now (request_scope peer env) d (handle peer (env_request env)) s") auto
  note fresh = get_or_compute_fresh [OF assms(1,5,6) g]
  have "c1 = c'" "s1 = s'" "res = Ok (fst (handle peer (env_request env) s))"
    using disp assms(4) d g fresh by (auto simp: dispatch_def Let_def)
  with that [OF d] len reply fresh show ?thesis by (auto simp: map_err_eq_Ok [symmetric] eq_commute [of "Ok reply"])
qed

text \<open>
  C28. A request that is sent again has no second effect.  Let a cacheable request whose key
  holds no live entry be served and answered, and let any traffic follow it, from any peers,
  with any handlers and any change of trust, as long as every arrival is within the time to
  live and the live entries and the cacheable requests of that traffic together stay below the
  capacity of the cache.  Then the first service ran the handler once; the same frame served
  again to the same trusted peer within the time to live returns the same reply and leaves the
  state untouched, whatever the state has become and whatever handler would run; another body
  under the same key has no effect; and a peer whose trust was withdrawn is not served at all.
\<close>

theorem resend_has_one_effect:
  assumes "cache_wf c" and "serve_request cd handle peer peers now frame c s = (Ok reply, c1, s1)"
    and "decode_frame (wc_decode_envelope cd) frame = Ok env" and "cache_response (env_request env)"
    and "map_of (live_entries c now) (request_scope peer env) = None"
    and "serve_all cd between c1 s1 = (c2, s2)" and "within now (ic_ttl c) between"
    and "length (live_entries c now) + cacheable_count cd between < ic_capacity c" and "now' - now < ic_ttl c"
  shows "s1 = snd (handle peer (env_request env) s)
    \<and> (resolve peers' (ap_fingerprint peer) = Some peer \<longrightarrow>
         (\<exists>c3. serve_request cd handle' peer peers' now' frame c2 s2 = (Ok reply, c3, s2)))
    \<and> (\<forall>env2 d d2. decode_frame (wc_decode_envelope cd) frame2 = Ok env2
         \<and> request_scope peer env2 = request_scope peer env \<and> cache_response (env_request env2)
         \<and> request_digest (wc_sha cd) (wc_encode_request cd) (env_request env) = Ok d
         \<and> request_digest (wc_sha cd) (wc_encode_request cd) (env_request env2) = Ok d2 \<and> d \<noteq> d2 \<longrightarrow>
         snd (snd (serve_request cd handle' peer peers' now' frame2 c2 s2)) = s2)
    \<and> (resolve peers' (ap_fingerprint peer) \<noteq> Some peer \<longrightarrow>
         (\<exists>e. serve_request cd handle' peer peers' now' frame2 c2 s2 = (Err e, c2, s2)))"
proof -
  have room: "length (live_entries c now) < ic_capacity c" using assms(8) by simp
  obtain d e where d: "request_digest (wc_sha cd) (wc_encode_request cd) (env_request env) = Ok d"
    and rec: "recorded c1 (request_scope peer env) e (fst (handle peer (env_request env) s))"
    and e: "ce_digest e = d" "ce_inserted_at e = now" and s1: "s1 = snd (handle peer (env_request env) s)"
    and c1: "ic_ttl c1 = ic_ttl c" "ic_capacity c1 = ic_capacity c"
      "length (ic_entries c1) = Suc (length (live_entries c now))"
    and len: "length frame \<le> MAX_FRAME_BYTES + 4"
    and reply: "encode_frame (wc_encode_reply cd) \<lparr>rp_request_id = env_request_id env,
           rp_response = fst (handle peer (env_request env) s)\<rparr> = Ok reply"
    using serve_request_records [OF assms(1-5) room] by metis
  have kept: "recorded c2 (request_scope peer env) e (fst (handle peer (env_request env) s)) \<and> ic_ttl c2 = ic_ttl c1"
    by (rule serve_all_keeps [OF rec _ _ assms(6)]) (use assms(7,8) c1 e in auto)
  have hit: "get_or_compute c2 now' (request_scope peer env) d' f s2 =
      (if d = d' then Cached (fst (handle peer (env_request env) s)) else DigestConflict,
       c2\<lparr>ic_entries := live_entries c2 now'\<rparr>, s2)" for d' f
    using get_or_compute_hit [of c2] kept e c1 assms(9) by (metis (no_types, lifting))
  have again: "\<exists>c3. serve_request cd handle' peer peers' now' frame c2 s2 = (Ok reply, c3, s2)"
    if "resolve peers' (ap_fingerprint peer) = Some peer"
    using that len assms(3,4) d reply by (simp add: serve_request_def dispatch_def Let_def hit)
  have "snd (snd (serve_request cd handle' peer peers' now' frame2 c2 s2)) = s2"
    if "decode_frame (wc_decode_envelope cd) frame2 = Ok env2" "request_scope peer env2 = request_scope peer env"
      "cache_response (env_request env2)" "request_digest (wc_sha cd) (wc_encode_request cd) (env_request env2) = Ok d2"
      "d \<noteq> d2" for env2 d2
    using that by (simp add: serve_request_def dispatch_def Let_def hit)
  moreover have "\<exists>e. serve_request cd handle' peer peers' now' frame2 c2 s2 = (Err e, c2, s2)"
    if "resolve peers' (ap_fingerprint peer) \<noteq> Some peer"
    using that by (simp add: serve_request_def split: sum.split)
  ultimately show ?thesis using s1 again d by auto
qed

section \<open>A concrete server\<close>

text \<open>
  Node 1 serves node 2.  A frame with an empty body is a heartbeat of node 2, any other a
  reference query.
\<close>

definition ex_beat2 :: heartbeat where
  "ex_beat2 = \<lparr>hb_node_id = NodeId 2, hb_alias = ''b'', hb_boot_id = 5, hb_incarnation = 0, hb_endpoints = []\<rparr>"

definition ex_wire :: wire_codec where
  "ex_wire = \<lparr>wc_decode_envelope = (\<lambda>b. Some (envelope_new 9 ''k''
        (if b = [] then MembershipHeartbeat 7 ex_beat2 else RefQuery ''r''))),
     wc_encode_request = (\<lambda>_. Some [1]), wc_encode_reply = (\<lambda>_. Some [2]), wc_sha = ex_sha\<rparr>"

definition ex_node :: node_config where
  "ex_node = \<lparr>nc_cluster_id = 7, nc_local_node_id = NodeId 1, nc_chef_node_id = Some (NodeId 1), nc_sha = ex_sha,
     nc_parse_uuid = (\<lambda>_. None)\<rparr>"

definition ex_peers :: "nat peer_registry" where
  "ex_peers = \<lparr>pr_bindings = [(CertFingerprint [1], NodeId 2)], pr_connections = [], pr_next_connection_id = 0\<rparr>"

definition ex_peer2 :: authenticated_peer where
  "ex_peer2 = \<lparr>ap_fingerprint = CertFingerprint [1], ap_node_id = NodeId 2\<rparr>"

definition ex_bound :: "(nat, served_state) server" where
  "ex_bound = server_bind ex_peers default_membership_config (ex_authority (NodeId 1) 4 [ex_agent_term, ex_world_term])"

lemma ex_peers_new: "registry_new [(CertFingerprint [1], NodeId 2)] = Ok ex_peers"
  by (simp add: registry_new_def authorize_def registry_default_def ex_peers_def)

lemma ex_trusted: "resolve ex_peers (ap_fingerprint ex_peer2) = Some ex_peer2"
  by (simp add: resolve_def ex_peers_def ex_peer2_def)

lemma ex_decoded:
  "decode_frame (wc_decode_envelope ex_wire) [0, 0, 0, 0] = Ok (envelope_new 9 ''k'' (MembershipHeartbeat 7 ex_beat2))"
  "decode_frame (wc_decode_envelope ex_wire) [0, 0, 0, 1, 8] = Ok (envelope_new 9 ''k'' (RefQuery ''r''))"
  by (simp_all add: decode_frame_def frame_body_len_def slice_get_def be_value_def MAX_FRAME_BYTES_def ex_wire_def)

lemma ex_reply: "encode_frame (wc_encode_reply ex_wire) r = Ok [0, 0, 0, 1, 2]"
proof -
  have "be_bytes 4 (1 :: u32) = [0, 0, 0, 1]" by (simp add: be_bytes_def numeral_eq_Suc)
  then show ?thesis by (simp add: encode_frame_def ex_wire_def MAX_FRAME_BYTES_def)
qed

lemma ex_beat:
  assumes "handle ex_peer2 (MembershipHeartbeat 7 ex_beat2) s = (MembershipAccepted n i, s')"
  shows "serve_request ex_wire handle ex_peer2 ex_peers now [0, 0, 0, 0] c s = (Ok [0, 0, 0, 1, 2], c, s')"
  by (simp add: serve_request_def ex_decoded ex_trusted dispatch_def ex_reply assms envelope_new_def MAX_FRAME_BYTES_def)

definition ex_beaten :: membership_view where
  "ex_beaten = snd (ingest (view_new default_membership_config) ex_beat2 3)"

lemma ex_beaten_members: "get_member ex_beaten n = (if n = NodeId 2 then Some (record_of ex_beat2 3) else None)"
  by (simp add: ex_beaten_def ingest_cases get_member_def view_new_def put_record_def ex_beat2_def om_get_def)

lemma ex_chain_beat:
  "owner_chain ex_node (3, io) ex_peer2 (MembershipHeartbeat 7 ex_beat2) (view_new default_membership_config, m, a)
     = (MembershipAccepted (NodeId 2) 0, ex_beaten, m, a)"
  "storeless_chain ex_node (3, io) ex_peer2 (MembershipHeartbeat 7 ex_beat2) (view_new default_membership_config, m, a)
     = (MembershipAccepted (NodeId 2) 0, ex_beaten, m, a)"
  by (simp_all add: owner_chain_def storeless_chain_def quic_membership_handler_def ex_node_def ex_peer2_def ingest_at_def
      ex_beaten_def ex_beat2_def ingest_def view_new_def)

definition ex_after_beat :: "(nat, served_state) server" where
  "ex_after_beat = ex_bound\<lparr>sv_state := (ex_beaten, [], ex_authority (NodeId 1) 4 [ex_agent_term, ex_world_term])\<rparr>"

lemma ex_runs:
  "(server_step ex_wire (owner_chain ex_node) {NodeId 2})\<^sup>*\<^sup>* ex_bound ex_after_beat"
  "(server_step ex_wire (storeless_chain ex_node) UNIV)\<^sup>*\<^sup>* ex_bound ex_after_beat"
proof -
  let ?a = "ex_authority (NodeId 1) 4 [ex_agent_term, ex_world_term]"
  have after: "ex_after_beat = ex_bound\<lparr>sv_cache := cache_new, sv_state := (ex_beaten, [], ?a)\<rparr>"
    by (simp add: ex_after_beat_def ex_bound_def server_bind_def)
  have "ap_node_id ex_peer2 \<in> {NodeId 2}" "ap_node_id ex_peer2 \<in> UNIV" by (simp_all add: ex_peer2_def)
  note go = step_serve [OF this(1), of ex_wire "owner_chain ex_node" "(3, \<lambda>_. True)" ex_bound]
    step_serve [OF this(2), of ex_wire "storeless_chain ex_node" "(3, \<lambda>_. True)" ex_bound]
  show "(server_step ex_wire (owner_chain ex_node) {NodeId 2})\<^sup>*\<^sup>* ex_bound ex_after_beat"
    unfolding after
    by (intro r_into_rtranclp go(1) [of 0 "[0, 0, 0, 0]"])
      (simp add: ex_bound_def server_bind_def ex_beat [where handle = "owner_chain ex_node (3, \<lambda>_. True)", OF ex_chain_beat(1)])
  show "(server_step ex_wire (storeless_chain ex_node) UNIV)\<^sup>*\<^sup>* ex_bound ex_after_beat"
    unfolding after
    by (intro r_into_rtranclp go(2) [of 0 "[0, 0, 0, 0]"])
      (simp add: ex_bound_def server_bind_def ex_beat [where handle = "storeless_chain ex_node (3, \<lambda>_. True)", OF ex_chain_beat(2)])
qed

lemma ex_authority_wf: "meta_wf (oa_meta (ex_authority n rvn [ex_agent_term, ex_world_term]))"
  by (simp add: ex_authority_def meta_wf_ex_store ex_terms_valid)

theorem peers_confined_witness:
  "(server_step ex_wire (owner_chain ex_node) {NodeId 2})\<^sup>*\<^sup>* ex_bound ex_after_beat
   \<and> get_member (fst (sv_state ex_after_beat)) (NodeId 2) \<noteq> None
   \<and> get_member (fst (sv_state ex_after_beat)) (NodeId 3) = get_member (fst (sv_state ex_bound)) (NodeId 3)
   \<and> snd (snd (sv_state ex_after_beat)) = snd (snd (sv_state ex_bound))"
proof -
  let ?a = "ex_authority (NodeId 1) 4 [ex_agent_term, ex_world_term]"
  have st: "sv_state ex_bound = (view_new default_membership_config, [], ?a)" "sv_state ex_after_beat = (ex_beaten, [], ?a)"
    by (simp_all add: ex_bound_def server_bind_def ex_after_beat_def)
  have "view_wf (view_new default_membership_config)" by (simp add: view_wf_def view_new_def get_member_def)
  from peers_confined [OF ex_runs(1) st ex_runs(2) this map_wf_empty ex_authority_wf, of "NodeId 3"] ex_runs(1) st
  show ?thesis by (simp add: ex_beaten_members)
qed

theorem server_state_typed_witness:
  "(server_step ex_wire (owner_chain ex_node) {NodeId 2})\<^sup>*\<^sup>* ex_bound ex_after_beat \<and> server_wf ex_after_beat"
  using server_state_typed [OF ex_runs(1) [unfolded ex_bound_def] ex_peers_new ex_authority_wf] ex_runs(1) by blast

text \<open>A handler that counts its runs.\<close>

definition ex_counting :: "nat control_handler" where
  "ex_counting peer req k = (RefQueryResult ''r'' False, Suc k)"

text \<open>The same query under another key, from the same peer, takes a place in the cache in between.\<close>

definition ex_wire_keyed :: wire_codec where
  "ex_wire_keyed = ex_wire\<lparr>wc_decode_envelope := (\<lambda>b. Some (envelope_new 9
     (if b = [8] then ''k'' else ''other'') (RefQuery ''r'')))\<rparr>"

lemma ex_keyed_decoded:
  "decode_frame (wc_decode_envelope ex_wire_keyed) [0, 0, 0, 1, b]
     = Ok (envelope_new 9 (if b = 8 then ''k'' else ''other'') (RefQuery ''r''))"
  by (simp add: decode_frame_def frame_body_len_def slice_get_def be_value_def MAX_FRAME_BYTES_def ex_wire_keyed_def)

lemma ex_keyed_digest:
  "request_digest (wc_sha ex_wire_keyed) (wc_encode_request ex_wire_keyed) req = Ok (ex_sha [1])"
  "encode_frame (wc_encode_reply ex_wire_keyed) r = Ok [0, 0, 0, 1, 2]"
  using ex_reply by (simp_all add: request_digest_def ex_wire_keyed_def ex_wire_def)

theorem resend_has_one_effect_witness:
  "\<exists>c1 c2. serve_request ex_wire_keyed ex_counting ex_peer2 ex_peers 10 [0, 0, 0, 1, 8] cache_new 0
        = (Ok [0, 0, 0, 1, 2], c1, 1)
     \<and> serve_all ex_wire_keyed [(ex_counting, ex_peer2, ex_peers, 15, [0, 0, 0, 1, 9])] c1 1 = (c2, 2)
     \<and> (\<exists>c3. serve_request ex_wire_keyed ex_counting ex_peer2 ex_peers 20 [0, 0, 0, 1, 8] c2 2
        = (Ok [0, 0, 0, 1, 2], c3, 2))"
proof -
  let ?env = "envelope_new 9 ''k'' (RefQuery ''r'')" and ?es = "[(ex_counting, ex_peer2, ex_peers, 15, [0, 0, 0, 1, 9])]"
  have cache: "cache_wf (cache_new :: control_response idempotency_cache)"
    "live_entries (cache_new :: control_response idempotency_cache) now = []"
    "ic_capacity (cache_new :: control_response idempotency_cache) = 4096"
    "ic_ttl (cache_new :: control_response idempotency_cache) = 300" for now
    by (simp_all add: cache_new_def DEFAULT_IDEMPOTENCY_CAPACITY_def DEFAULT_IDEMPOTENCY_TTL_def live_entries_def)
      (simp_all add: with_limits_def)
  have "\<exists>c1 c2. serve_request ex_wire_keyed ex_counting ex_peer2 ex_peers 10 [0, 0, 0, 1, 8] cache_new 0
      = (Ok [0, 0, 0, 1, 2], c1, 1) \<and> serve_all ex_wire_keyed ?es c1 1 = (c2, 2)"
    by (simp add: serve_request_def ex_keyed_decoded ex_keyed_digest ex_trusted dispatch_def envelope_new_def MAX_FRAME_BYTES_def
        get_or_compute_def reserve_def get_or_init_def cache_new_def with_limits_def request_scope_def retained_def
        DEFAULT_IDEMPOTENCY_CAPACITY_def ex_counting_def Let_def)
  then obtain c1 c2 where c1: "serve_request ex_wire_keyed ex_counting ex_peer2 ex_peers 10 [0, 0, 0, 1, 8] cache_new 0
      = (Ok [0, 0, 0, 1, 2], c1, 1)" and c2: "serve_all ex_wire_keyed ?es c1 1 = (c2, 2)" by blast
  have dec: "decode_frame (wc_decode_envelope ex_wire_keyed) [0, 0, 0, 1, 8] = Ok ?env" by (simp add: ex_keyed_decoded)
  have "cacheable_count ex_wire_keyed ?es \<le> 1" by (simp add: cacheable_count_def)
  moreover have "cache_response (env_request ?env)" by (simp add: envelope_new_def)
  ultimately have "\<exists>c3. serve_request ex_wire_keyed ex_counting ex_peer2 ex_peers 20 [0, 0, 0, 1, 8] c2 2
      = (Ok [0, 0, 0, 1, 2], c3, 2)"
    using resend_has_one_effect [OF cache(1) c1 dec _ _ c2, of 20 ex_peers ex_counting "[]"] ex_trusted
    by (simp add: cache within_def)
  with c1 c2 show ?thesis by blast
qed

end
