(* ===== verification/Handoff.thy ===== *)
theory Handoff
  imports Owner_Control
begin

text \<open>
  How the coordinator (the chef) changes the replicated authority: recipient-local halves,
  the initial and the extended snapshot, booting the owner authority
  (\<open>services/sentinel-daemon/src/orchestrator.rs\<close>), materialising scopes
  (\<open>services/sentinel-daemon/src/operator_api.rs\<close>) and the cooperative handoff saga with
  its RPC transport (\<open>services/sentinel-daemon/src/handoff.rs\<close>).  \<open>io k\<close> is the fate of
  the \<open>k\<close>-th storage call of an operation.
\<close>

section \<open>Building snapshots\<close>

definition base_state_for :: "node_id \<Rightarrow> owner_term \<Rightarrow> local_owner_base_state" where
  "base_state_for recipient t =
     (let owns_scope = (ot_owner_node t = recipient) in
      \<lparr>bs_scope = ot_scope t, bs_recipient_node = recipient, bs_owner_term = t,
       bs_base_role = (if owns_scope then BaseOwner else BaseFollower),
       bs_activation_state = (if owns_scope then Routable else NotRoutable)\<rparr>)"

definition local_snapshot_for ::
  "(bytes \<Rightarrow> bytes) \<Rightarrow> owner_term_snapshot \<Rightarrow> node_id \<Rightarrow> local_owner_state_snapshot snapshot_result" where
  "local_snapshot_for sha g recipient =
     local_owner_state_snapshot_new sha recipient (gs_generation g) (gs_revision g)
       (map (base_state_for recipient) (gs_sorted_terms g))"

definition recipient_owner_snapshot ::
  "(bytes \<Rightarrow> bytes) \<Rightarrow> owner_term_snapshot \<Rightarrow> node_id \<Rightarrow> local_owner_state_snapshot snapshot_result" where
  "recipient_owner_snapshot sha g recipient =
     (let states = map (\<lambda>t. base_state_for recipient t) (gs_sorted_terms g) in
      local_owner_state_snapshot_new sha recipient (gs_generation g) (gs_revision g) states)"

definition chef_term :: "node_id \<Rightarrow> state_transfer_scope \<Rightarrow> owner_term" where
  "chef_term chef sc = \<lparr>ot_scope = sc, ot_owner_node = chef, ot_epoch = 1,
     ot_generation = TRACK_A_COORDINATOR_GENERATION\<rparr>"

definition agent_scope :: "agent_id \<Rightarrow> state_transfer_scope" where
  "agent_scope a = for_agent (agent_display a)"

text \<open>\<open>Vec::dedup\<close> is \<^const>\<open>remdups_adj\<close>.\<close>

definition initial_owner_snapshot ::
  "(bytes \<Rightarrow> bytes) \<Rightarrow> node_id \<Rightarrow> agent_id list \<Rightarrow> owner_term_snapshot snapshot_result" where
  "initial_owner_snapshot sha seed_node agents =
     (let scopes = remdups_adj (sort_key to_wire (World # map agent_scope agents)) in
      owner_term_snapshot_new sha TRACK_A_COORDINATOR_GENERATION 1 (map (chef_term seed_node) scopes))"

datatype handoff_error =
    HandoffOwner owner_issue_error
  | NoControlAlias node_id
  | SourceAliasMismatch string string
  | EpochOverflow
  | HandoffStore meta_error
  | NoInstalledSnapshot
  | HandoffScopeMissing
  | RevisionOverflow
  | HandoffSnapshot owner_snapshot_error
  | InstallRefused owner_snapshot_install_outcome
  | UnknownControlPeer string
  | PeerUnreachable
  | PeerRefused control_response
  | RetirementRefused reject_reason
  | UnrecognizedHandoffScope string
  | OnlyChefMaterializes
  | ReplicationRefused owner_snapshot_install_outcome

text \<open>The agent loop: known scopes are skipped, unknown ones are appended by the chef only.\<close>

fun extend_terms ::
  "node_id \<Rightarrow> bool \<Rightarrow> agent_id list \<Rightarrow> owner_term list \<Rightarrow> bool \<Rightarrow> (handoff_error, owner_term list \<times> bool) result" where
  "extend_terms chef seed [] ts changed = Ok (ts, changed)"
| "extend_terms chef seed (a # as) ts changed =
     (if list_ex (\<lambda>t. ot_scope t = agent_scope a) ts then extend_terms chef seed as ts changed
      else if \<not> seed then Err OnlyChefMaterializes
      else extend_terms chef seed as (ts @ [chef_term chef (agent_scope a)]) True)"

definition extend_owner_snapshot_for_agents ::
  "(bytes \<Rightarrow> bytes) \<Rightarrow> owner_term_snapshot \<Rightarrow> agent_id list \<Rightarrow> node_id \<Rightarrow> bool
   \<Rightarrow> (handoff_error, owner_term_snapshot \<times> bool) result" where
  "extend_owner_snapshot_for_agents sha installed agents chef_node cluster_is_seed =
     try_bind (extend_terms chef_node cluster_is_seed agents (gs_sorted_terms installed) False) (\<lambda>(ts, changed).
     if changed then
       try_bind (ok_or (checked_add (gs_revision installed) 1) RevisionOverflow) (\<lambda>next_rev.
       try_bind (map_err HandoffSnapshot (owner_term_snapshot_new sha TRACK_A_COORDINATOR_GENERATION next_rev ts)) (\<lambda>g.
       Ok (g, True)))
     else Ok (installed, False))"

section \<open>Installing on the chef\<close>

text \<open>
  The section under the owner tick barrier that the handoff, the materialisation and the
  local half of the transport share: close the latch, install, rebuild from the given pair.
\<close>

definition install_locally ::
  "(bytes \<Rightarrow> bytes) \<Rightarrow> io_fate \<Rightarrow> owner_term_snapshot \<Rightarrow> local_owner_state_snapshot \<Rightarrow> owner_authority
   \<Rightarrow> (handoff_error, unit) result \<times> owner_authority" where
  "install_locally sha io g l a =
     (let closed = a\<lparr>oa_registry := close_owner_readiness (oa_registry a)\<rparr> in
      case install_owner_snapshot sha (io 0) g l (oa_meta a) of
        Err e \<Rightarrow> (Err (HandoffStore e), closed)
      | Ok (outcome, m) \<Rightarrow>
          let stored = closed\<lparr>oa_meta := m\<rparr> in
          if outcome \<noteq> Installed \<and> outcome \<noteq> AlreadyInstalled then (Err (InstallRefused outcome), stored)
          else
            (case list_local_saga_states (io 1) m of
               Err e \<Rightarrow> (Err (HandoffStore e), stored)
             | Ok sagas \<Rightarrow>
                 (case rebuild_from_owner_snapshot sha (oa_registry closed) g l sagas of
                    Err e \<Rightarrow> (Err (HandoffSnapshot e), stored)
                  | Ok r \<Rightarrow> (Ok (), stored\<lparr>oa_registry := r\<rparr>))))"

text \<open>
  The part of \<open>materialize_config_owner_scopes\<close> on this node; the result is what the seed replicates.
  It reads the installed snapshot and installs the extended one.  An installation that came in between
  has taken the next revision, and the store refuses a different one with that revision.
\<close>

definition materialize_owner_scopes ::
  "(bytes \<Rightarrow> bytes) \<Rightarrow> io_fate \<Rightarrow> agent_id list \<Rightarrow> bool \<Rightarrow> owner_authority
   \<Rightarrow> (handoff_error, owner_term_snapshot) result \<times> owner_authority" where
  "materialize_owner_scopes sha io agents cluster_is_seed a =
     (case try_bind (map_err HandoffStore (installed_owner_snapshot sha (io 0) (oa_meta a))) (\<lambda>found.
           try_bind (ok_or found NoInstalledSnapshot) (\<lambda>(installed, _).
           extend_owner_snapshot_for_agents sha installed agents (reg_this_node (oa_registry a)) cluster_is_seed)) of
        Err e \<Rightarrow> (Err e, a)
      | Ok (g, changed) \<Rightarrow>
          if changed then
            (case local_snapshot_for sha g (reg_this_node (oa_registry a)) of
               Err e \<Rightarrow> (Err (HandoffSnapshot e), a)
             | Ok l \<Rightarrow>
                 (case install_locally sha (\<lambda>k. io (Suc k)) g l a of
                    (Err e, a') \<Rightarrow> (Err e, a')
                  | (Ok _, a') \<Rightarrow> (Ok g, a')))
          else (Ok g, a))"

section \<open>The handoff saga\<close>

record handoff_request =
  hr_scope :: state_transfer_scope
  hr_source_alias :: string
  hr_target_alias :: string
  hr_target_node :: node_id

datatype handoff_outcome = Committed u64 | AbortedSourceUnreachable

text \<open>
  \<open>HandoffTransport\<close>: its operations act on the chef's authority, which a local step
  changes, and on the state \<open>'w\<close> of the peers.
\<close>

record 'w handoff_transport =
  ht_alias_for_node :: "node_id \<Rightarrow> (handoff_error, string) result"
  ht_prepare_handoff :: "string \<Rightarrow> string \<Rightarrow> u64 \<Rightarrow> owner_authority \<times> 'w
     \<Rightarrow> (handoff_error, unit) result \<times> owner_authority \<times> 'w"
  ht_replicate_owner_snapshot :: "string \<Rightarrow> owner_term_snapshot \<Rightarrow> local_owner_state_snapshot \<Rightarrow> owner_authority \<times> 'w
     \<Rightarrow> (handoff_error, unit) result \<times> owner_authority \<times> 'w"
  ht_owner_commit :: "string \<Rightarrow> string \<Rightarrow> node_id \<Rightarrow> u64 \<Rightarrow> owner_authority \<times> 'w
     \<Rightarrow> (handoff_error, unit) result \<times> owner_authority \<times> 'w"

text \<open>The checks before any participant is touched: the current term and the new epoch.\<close>

definition handoff_begin ::
  "(node_id \<Rightarrow> (handoff_error, string) result) \<Rightarrow> handoff_request \<Rightarrow> owner_registry
   \<Rightarrow> (handoff_error, owner_term \<times> string \<times> u64) result" where
  "handoff_begin alias_for_node req r =
     try_bind (map_err HandoffOwner (current_owner r (hr_scope req))) (\<lambda>current.
     try_bind (alias_for_node (ot_owner_node current)) (\<lambda>source_alias.
     if hr_source_alias req \<noteq> source_alias then Err (SourceAliasMismatch (hr_source_alias req) source_alias)
     else try_bind (ok_or (checked_add (ot_epoch current) 1) EpochOverflow) (\<lambda>new_epoch.
          Ok (current, source_alias, new_epoch))))"

text \<open>\<open>iter_mut().find\<close> with the assignment through the reference.\<close>

fun replace_term :: "state_transfer_scope \<Rightarrow> owner_term \<Rightarrow> owner_term list \<Rightarrow> owner_term list option" where
  "replace_term sc t [] = None"
| "replace_term sc t (x # xs) =
     (if ot_scope x = sc then Some (t # xs) else map_option ((#) x) (replace_term sc t xs))"

definition handoff_term :: "handoff_request \<Rightarrow> u64 \<Rightarrow> owner_term" where
  "handoff_term req new_epoch = \<lparr>ot_scope = hr_scope req, ot_owner_node = hr_target_node req,
     ot_epoch = new_epoch, ot_generation = TRACK_A_COORDINATOR_GENERATION\<rparr>"

definition handoff_snapshot ::
  "(bytes \<Rightarrow> bytes) \<Rightarrow> io_fate \<Rightarrow> handoff_request \<Rightarrow> u64 \<Rightarrow> node_id \<Rightarrow> cluster_meta_store
   \<Rightarrow> (handoff_error, owner_term_snapshot \<times> local_owner_state_snapshot) result" where
  "handoff_snapshot sha io req new_epoch this_node m =
     try_bind (map_err HandoffStore (installed_owner_snapshot sha (io 0) m)) (\<lambda>found.
     try_bind (ok_or found NoInstalledSnapshot) (\<lambda>(installed, _).
     try_bind (ok_or (replace_term (hr_scope req) (handoff_term req new_epoch) (gs_sorted_terms installed))
                HandoffScopeMissing) (\<lambda>terms.
     try_bind (ok_or (checked_add (gs_revision installed) 1) RevisionOverflow) (\<lambda>next_rev.
     try_bind (map_err HandoffSnapshot (owner_term_snapshot_new sha TRACK_A_COORDINATOR_GENERATION next_rev terms)) (\<lambda>g.
     try_bind (map_err HandoffSnapshot (local_snapshot_for sha g this_node)) (\<lambda>l.
     Ok (g, l)))))))"

definition handoff_install ::
  "(bytes \<Rightarrow> bytes) \<Rightarrow> io_fate \<Rightarrow> handoff_request \<Rightarrow> u64 \<Rightarrow> owner_authority
   \<Rightarrow> (handoff_error, owner_term_snapshot) result \<times> owner_authority" where
  "handoff_install sha io req new_epoch a =
     (case handoff_snapshot sha io req new_epoch (reg_this_node (oa_registry a)) (oa_meta a) of
        Err e \<Rightarrow> (Err e, a)
      | Ok (g, l) \<Rightarrow>
          (case install_locally sha (\<lambda>k. io (Suc k)) g l a of
             (Err e, a') \<Rightarrow> (Err e, a')
           | (Ok _, a') \<Rightarrow> (Ok g, a')))"

definition replicate_to ::
  "(bytes \<Rightarrow> bytes) \<Rightarrow> 'w handoff_transport \<Rightarrow> string \<Rightarrow> node_id \<Rightarrow> owner_term_snapshot \<Rightarrow> owner_authority \<times> 'w
   \<Rightarrow> (handoff_error, unit) result \<times> owner_authority \<times> 'w" where
  "replicate_to sha tr alias node g w =
     (case local_snapshot_for sha g node of
        Err e \<Rightarrow> (Err (HandoffSnapshot e), w)
      | Ok l \<Rightarrow> ht_replicate_owner_snapshot tr alias g l w)"

text \<open>After the chef's commit: the source's and the target's copies, then the activation.\<close>

definition handoff_publish ::
  "(bytes \<Rightarrow> bytes) \<Rightarrow> 'w handoff_transport \<Rightarrow> handoff_request \<Rightarrow> owner_term \<Rightarrow> string \<Rightarrow> u64 \<Rightarrow> owner_term_snapshot
   \<Rightarrow> owner_authority \<times> 'w \<Rightarrow> (handoff_error, handoff_outcome) result \<times> owner_authority \<times> 'w" where
  "handoff_publish sha tr req current source_alias new_epoch g w =
     (case (if ot_owner_node current \<noteq> reg_this_node (oa_registry (fst w)) \<and> ot_owner_node current \<noteq> hr_target_node req
            then replicate_to sha tr source_alias (ot_owner_node current) g w else (Ok (), w)) of
        (Err e, w1) \<Rightarrow> (Err e, w1)
      | (Ok _, w1) \<Rightarrow>
          (case replicate_to sha tr (hr_target_alias req) (hr_target_node req) g w1 of
             (Err e, w2) \<Rightarrow> (Err e, w2)
           | (Ok _, w2) \<Rightarrow>
               (case ht_owner_commit tr (hr_target_alias req) (to_wire (hr_scope req)) (hr_target_node req) new_epoch w2 of
                  (Err e, w3) \<Rightarrow> (Err e, w3)
                | (Ok _, w3) \<Rightarrow> (Ok (Committed new_epoch), w3))))"

definition run_handoff ::
  "(bytes \<Rightarrow> bytes) \<Rightarrow> io_fate \<Rightarrow> 'w handoff_transport \<Rightarrow> handoff_request \<Rightarrow> owner_authority \<times> 'w
   \<Rightarrow> (handoff_error, handoff_outcome) result \<times> owner_authority \<times> 'w" where
  "run_handoff sha io tr req w =
     (case handoff_begin (ht_alias_for_node tr) req (oa_registry (fst w)) of
        Err e \<Rightarrow> (Err e, w)
      | Ok (current, source_alias, new_epoch) \<Rightarrow>
          (case ht_prepare_handoff tr source_alias (to_wire (hr_scope req)) (ot_epoch current) w of
             (Err e, w1) \<Rightarrow> (Ok AbortedSourceUnreachable, w1)
           | (Ok _, (a1, p1)) \<Rightarrow>
               (case handoff_install sha io req new_epoch a1 of
                  (Err e, a2) \<Rightarrow> (Err e, (a2, p1))
                | (Ok g, a2) \<Rightarrow> handoff_publish sha tr req current source_alias new_epoch g (a2, p1))))"

section \<open>The RPC transport\<close>

text \<open>
  The peers are their own authorities, each served by its owner handler.  A call may lose the
  request or the reply; \<open>rf_io\<close> is the storage fate at whichever node executes it.
\<close>

datatype rpc_delivery = Delivered | RequestLost | ReplyLost

record rpc_fate =
  rf_delivery :: rpc_delivery
  rf_io :: io_fate

record rpc_transport =
  rt_sha :: "bytes \<Rightarrow> bytes"
  rt_parse_uuid :: uuid_parser
  rt_show_node :: "node_id \<Rightarrow> string"
  rt_chef :: authenticated_peer
  rt_my_alias :: string
  rt_peers :: "(node_id \<times> string) list"
  rt_prepare_fate :: rpc_fate
  rt_replicate_fate :: "string \<Rightarrow> rpc_fate"
  rt_commit_fate :: rpc_fate

type_synonym peers_world = "node_id \<Rightarrow> owner_authority"

text \<open>
  One control RPC of the chef to a paired peer.  The peer's server admits the caller, who is the
  configured chef, and each call has a key of its own (the handoff's key with the suffix of the
  step), so on its first arrival the request runs through the handler; how a server answers a key it
  has seen before is the subject of \<open>Control_Server\<close>.
\<close>

definition peer_rpc ::
  "rpc_transport \<Rightarrow> rpc_fate \<Rightarrow> string \<Rightarrow> control_request \<Rightarrow> peers_world
   \<Rightarrow> (handoff_error, control_response) result \<times> peers_world" where
  "peer_rpc rt fate peer_alias req p =
     (case List.find (\<lambda>x. snd x = peer_alias) (rt_peers rt) of
        None \<Rightarrow> (Err (UnknownControlPeer peer_alias), p)
      | Some (n, _) \<Rightarrow>
          if rf_delivery fate = RequestLost then (Err PeerUnreachable, p)
          else
            let (resp, a) = owner_handle (rt_sha rt) (rt_parse_uuid rt) (rf_io fate) n (rt_chef rt) req (p n) in
            (if rf_delivery fate = ReplyLost then Err PeerUnreachable else Ok resp, p(n := a)))"

definition rpc_alias_for_node :: "rpc_transport \<Rightarrow> node_id \<Rightarrow> (handoff_error, string) result" where
  "rpc_alias_for_node rt n =
     (if n = ap_node_id (rt_chef rt) then Ok (rt_my_alias rt)
      else ok_or (map_option snd (List.find (\<lambda>x. fst x = n) (rt_peers rt))) (NoControlAlias n))"

definition prepare_locally ::
  "(bytes \<Rightarrow> bytes) \<Rightarrow> io_fate \<Rightarrow> string \<Rightarrow> u64 \<Rightarrow> owner_authority \<Rightarrow> (handoff_error, unit) result \<times> owner_authority" where
  "prepare_locally sha io scope_wire epoch a =
     (case persist_source_retirement sha io (oa_meta a) (reg_this_node (oa_registry a)) scope_wire epoch of
        Err reason \<Rightarrow> (Err (RetirementRefused reason), a)
      | Ok (state, m) \<Rightarrow>
          (Ok (), \<lparr>oa_registry = retire_local (oa_registry a) (lo_scope state) epoch, oa_meta = m\<rparr>))"

definition rpc_prepare_handoff ::
  "rpc_transport \<Rightarrow> string \<Rightarrow> string \<Rightarrow> u64 \<Rightarrow> owner_authority \<times> peers_world
   \<Rightarrow> (handoff_error, unit) result \<times> owner_authority \<times> peers_world" where
  "rpc_prepare_handoff rt source_alias scope_wire epoch = (\<lambda>(a, p).
     if source_alias = rt_my_alias rt then
       (case prepare_locally (rt_sha rt) (rf_io (rt_prepare_fate rt)) scope_wire epoch a of (res, a') \<Rightarrow> (res, a', p))
     else
       (case peer_rpc rt (rt_prepare_fate rt) source_alias (PrepareHandoff scope_wire epoch) p of
          (Err e, p') \<Rightarrow> (Err e, a, p')
        | (Ok (HandoffPrepared _ _), p') \<Rightarrow> (Ok (), a, p')
        | (Ok other, p') \<Rightarrow> (Err (PeerRefused other), a, p')))"

definition rpc_replicate_owner_snapshot ::
  "rpc_transport \<Rightarrow> string \<Rightarrow> owner_term_snapshot \<Rightarrow> local_owner_state_snapshot \<Rightarrow> owner_authority \<times> peers_world
   \<Rightarrow> (handoff_error, unit) result \<times> owner_authority \<times> peers_world" where
  "rpc_replicate_owner_snapshot rt node_alias g l = (\<lambda>(a, p).
     if node_alias = rt_my_alias rt then
       (case install_locally (rt_sha rt) (rf_io (rt_replicate_fate rt node_alias)) g l a of (res, a') \<Rightarrow> (res, a', p))
     else
       (case peer_rpc rt (rt_replicate_fate rt node_alias) node_alias (ReplicateOwnerSnapshot g l) p of
          (Err e, p') \<Rightarrow> (Err e, a, p')
        | (Ok (OwnerSnapshotAck outcome), p') \<Rightarrow>
            (if outcome = Installed \<or> outcome = AlreadyInstalled then Ok () else Err (ReplicationRefused outcome), a, p')
        | (Ok other, p') \<Rightarrow> (Err (PeerRefused other), a, p')))"

definition commit_locally ::
  "(bytes \<Rightarrow> bytes) \<Rightarrow> io_fate \<Rightarrow> string \<Rightarrow> node_id \<Rightarrow> u64 \<Rightarrow> owner_authority
   \<Rightarrow> (handoff_error, unit) result \<times> owner_authority" where
  "commit_locally sha io scope_wire owner_node epoch a =
     (case from_wire scope_wire of
        None \<Rightarrow> (Err (UnrecognizedHandoffScope scope_wire), a)
      | Some sc \<Rightarrow>
          let term = \<lparr>ot_scope = sc, ot_owner_node = owner_node, ot_epoch = epoch,
                      ot_generation = TRACK_A_COORDINATOR_GENERATION\<rparr> in
          (case complete_handoff_overlay (io 0) term (oa_meta a) of
             Err e \<Rightarrow> (Err (HandoffStore e), a)
           | Ok m \<Rightarrow>
               let a1 = a\<lparr>oa_meta := m\<rparr> in
               (case try_bind (map_err HandoffStore (installed_owner_snapshot sha (io 1) m)) (\<lambda>found.
                     try_bind (ok_or found NoInstalledSnapshot) (\<lambda>(g, l).
                     try_bind (map_err HandoffStore (list_local_saga_states (io 2) m)) (\<lambda>sagas.
                     map_err HandoffSnapshot (rebuild_from_owner_snapshot sha (oa_registry a) g l sagas)))) of
                  Err e \<Rightarrow> (Err e, a1)
                | Ok r \<Rightarrow> (Ok (), a1\<lparr>oa_registry := r\<rparr>))))"

definition rpc_owner_commit ::
  "rpc_transport \<Rightarrow> string \<Rightarrow> string \<Rightarrow> node_id \<Rightarrow> u64 \<Rightarrow> owner_authority \<times> peers_world
   \<Rightarrow> (handoff_error, unit) result \<times> owner_authority \<times> peers_world" where
  "rpc_owner_commit rt target_alias scope_wire owner_node epoch = (\<lambda>(a, p).
     if target_alias = rt_my_alias rt then
       (case commit_locally (rt_sha rt) (rf_io (rt_commit_fate rt)) scope_wire owner_node epoch a of (res, a') \<Rightarrow> (res, a', p))
     else
       (case peer_rpc rt (rt_commit_fate rt) target_alias (OwnerCommit scope_wire (rt_show_node rt owner_node) epoch) p of
          (Err e, p') \<Rightarrow> (Err e, a, p')
        | (Ok (OwnerCommitted _ _), p') \<Rightarrow> (Ok (), a, p')
        | (Ok other, p') \<Rightarrow> (Err (PeerRefused other), a, p')))"

definition rpc_handoff_transport :: "rpc_transport \<Rightarrow> peers_world handoff_transport" where
  "rpc_handoff_transport rt = \<lparr>ht_alias_for_node = rpc_alias_for_node rt,
     ht_prepare_handoff = rpc_prepare_handoff rt,
     ht_replicate_owner_snapshot = rpc_replicate_owner_snapshot rt,
     ht_owner_commit = rpc_owner_commit rt\<rparr>"

end
