(* ===== verification/Owner_Boot.thy ===== *)
theory Owner_Boot
  imports Handoff
begin

text \<open>
  Booting the owner authority of a cluster daemon (the cluster branch at the start of the
  daemon's run, \<open>services/sentinel-daemon/src/orchestrator.rs\<close>): open the store, rebuild
  the registry from it or, on the seed, install the deterministic first snapshot, then
  extend the authority to the scopes of the boot roster.  Besides the outcome the model
  returns the file's contents, which a failed boot may have changed.
\<close>

section \<open>Definitions\<close>

datatype bootstrap_error =
    RegistryMismatch
  | StoreUnavailable meta_error
  | BootGenerationMismatch u64
  | BootFailed boot_error
  | BootSnapshotFailed owner_snapshot_error
  | BootInstallRefused owner_snapshot_install_outcome
  | BootExtendFailed handoff_error
  | SeedSnapshotMissing

record boot_state =
  bt_authority :: owner_authority
  bt_global :: "owner_term_snapshot option"
  bt_changed :: bool

text \<open>Install a snapshot for this node and rebuild from the store.\<close>

definition boot_install ::
  "(bytes \<Rightarrow> bytes) \<Rightarrow> io_fate \<Rightarrow> owner_term_snapshot \<Rightarrow> owner_authority
   \<Rightarrow> (bootstrap_error, boot_state) result \<times> owner_authority" where
  "boot_install sha io g a =
     (case recipient_owner_snapshot sha g (reg_this_node (oa_registry a)) of
        Err e \<Rightarrow> (Err (BootSnapshotFailed e), a)
      | Ok l \<Rightarrow>
          (case install_owner_snapshot sha (io 0) g l (oa_meta a) of
             Err e \<Rightarrow> (Err (StoreUnavailable e), a)
           | Ok (outcome, m) \<Rightarrow>
               let stored = a\<lparr>oa_meta := m\<rparr> in
               if outcome \<noteq> Installed \<and> outcome \<noteq> AlreadyInstalled then (Err (BootInstallRefused outcome), stored)
               else
                 (case rebuild_owner_registry_from_store sha (\<lambda>k. io (Suc k)) m (oa_registry a) of
                    Err e \<Rightarrow> (Err (BootFailed e), stored)
                  | Ok (installed, r) \<Rightarrow>
                      let up = stored\<lparr>oa_registry := r\<rparr> in
                      (Ok \<lparr>bt_authority = up, bt_global = Some installed, bt_changed = True\<rparr>, up))))"

definition boot_from_marker ::
  "(bytes \<Rightarrow> bytes) \<Rightarrow> io_fate \<Rightarrow> bool \<Rightarrow> agent_id list \<Rightarrow> owner_snapshot_install_marker option \<Rightarrow> owner_authority
   \<Rightarrow> (bootstrap_error, boot_state) result \<times> owner_authority" where
  "boot_from_marker sha io seed agents marker a =
     (if (case marker of Some mk \<Rightarrow> im_generation mk = TRACK_A_COORDINATOR_GENERATION | None \<Rightarrow> False) then
        (case rebuild_owner_registry_from_store sha io (oa_meta a) (oa_registry a) of
           Err e \<Rightarrow> (Err (BootFailed e), a)
         | Ok (g, r) \<Rightarrow>
             let up = a\<lparr>oa_registry := r\<rparr> in
             (Ok \<lparr>bt_authority = up, bt_global = Some g, bt_changed = False\<rparr>, up))
      else if seed then
        (case initial_owner_snapshot sha (reg_this_node (oa_registry a)) agents of
           Err e \<Rightarrow> (Err (BootSnapshotFailed e), a)
         | Ok g \<Rightarrow> boot_install sha io g a)
      else (Ok \<lparr>bt_authority = a, bt_global = None, bt_changed = False\<rparr>, a))"

definition boot_roster ::
  "(bytes \<Rightarrow> bytes) \<Rightarrow> io_fate \<Rightarrow> bool \<Rightarrow> agent_id list \<Rightarrow> boot_state
   \<Rightarrow> (bootstrap_error, boot_state) result \<times> owner_authority" where
  "boot_roster sha io seed agents b =
     (let a = bt_authority b in
      if \<not> seed then (Ok b, a)
      else case bt_global b of
        None \<Rightarrow> (Err SeedSnapshotMissing, a)
      | Some installed \<Rightarrow>
          (case extend_owner_snapshot_for_agents sha installed agents (reg_this_node (oa_registry a)) True of
             Err e \<Rightarrow> (Err (BootExtendFailed e), a)
           | Ok (g, changed) \<Rightarrow>
               if changed then boot_install sha io g (a\<lparr>oa_registry := close_owner_readiness (oa_registry a)\<rparr>)
               else (Ok b, a)))"

definition boot_owner_authority ::
  "(bytes \<Rightarrow> bytes) \<Rightarrow> io_fate \<Rightarrow> owner_registry option \<Rightarrow> node_id \<Rightarrow> bool \<Rightarrow> agent_id list
   \<Rightarrow> cluster_meta_store option \<Rightarrow> (bootstrap_error, boot_state) result \<times> cluster_meta_store option" where
  "boot_owner_authority sha io cell node seed agents file =
     (let (initialized, cell') = init_cluster cell node; r = global_registry cell' in
      if \<not> initialized \<and> (reg_this_node r \<noteq> node \<or> \<not> is_cluster_mode r) then (Err RegistryMismatch, file)
      else case open_store (io 0) file of
        Err e \<Rightarrow> (Err (StoreUnavailable e), file)
      | Ok m \<Rightarrow>
          (case install_marker (io 1) m of
             Err e \<Rightarrow> (Err (StoreUnavailable e), Some m)
           | Ok marker \<Rightarrow>
               if (case marker of Some mk \<Rightarrow> im_generation mk \<noteq> 0 \<and> im_generation mk \<noteq> TRACK_A_COORDINATOR_GENERATION
                   | None \<Rightarrow> False)
               then (Err (BootGenerationMismatch (case marker of Some mk \<Rightarrow> im_generation mk | None \<Rightarrow> 0)), Some m)
               else
                 (case boot_from_marker sha (\<lambda>k. io (2 + k)) seed agents marker \<lparr>oa_registry = r, oa_meta = m\<rparr> of
                    (Err e, a) \<Rightarrow> (Err e, Some (oa_meta a))
                  | (Ok b, _) \<Rightarrow>
                      (case boot_roster sha (\<lambda>k. io (5 + k)) seed agents b of
                         (Err e, a) \<Rightarrow> (Err e, Some (oa_meta a))
                       | (Ok b', a) \<Rightarrow> (Ok (b'\<lparr>bt_changed := bt_changed b \<or> bt_changed b'\<rparr>), Some (oa_meta a))))))"

end
