(* ===== verification/Authority_Invariant.thy ===== *)
theory Authority_Invariant
  imports Owner_Boot
begin

text \<open>
  Why the replicated authority never has two writers.  The chef's snapshots form a history in
  which every scope's epoch only grows; every node's store holds one snapshot of that history;
  a node that was owner under a superseded term either knows a later term or holds a durable
  overlay; and a node whose memory claims a scope claims the chef's current term.  Three kinds
  of change keep this: a node advances within the history, a commit lifts an overlay, and the
  chef appends a snapshot.
\<close>

section \<open>Terms and history\<close>

definition hterm :: "owner_term_snapshot \<Rightarrow> state_transfer_scope \<rightharpoonup> owner_term" where
  "hterm g = map_extend Map.empty ot_scope (gs_sorted_terms g)"

definition grows :: "(state_transfer_scope \<rightharpoonup> owner_term) \<Rightarrow> (state_transfer_scope \<rightharpoonup> owner_term) \<Rightarrow> bool" where
  "grows f f' \<longleftrightarrow> (\<forall>s t. f s = Some t \<longrightarrow> (\<exists>t'. f' s = Some t' \<and> (t' = t \<or> ot_epoch t < ot_epoch t')))"

definition follows :: "owner_term_snapshot \<Rightarrow> owner_term_snapshot \<Rightarrow> bool" where
  "follows g' g \<longleftrightarrow> gs_revision g < gs_revision g' \<and> grows (hterm g) (hterm g')"

definition history_ok :: "owner_term_snapshot list \<Rightarrow> bool" where
  "history_ok H \<longleftrightarrow> H \<noteq> [] \<and> sorted_wrt follows H"

lemma hterm_scope: "hterm g s = Some t \<Longrightarrow> ot_scope t = s"
  using map_extend_key [of Map.empty ot_scope "gs_sorted_terms g" s t] by (simp add: hterm_def)

lemma grows_refl: "grows f f"
  by (simp add: grows_def)

lemma growsD:
  assumes "grows f f'" and "f s = Some t"
  obtains t' where "f' s = Some t'" "t' = t \<or> ot_epoch t < ot_epoch t'"
  using assms unfolding grows_def by blast

lemma grows_trans:
  assumes "grows f g" and "grows g h"
  shows "grows f h"
  unfolding grows_def
proof (intro allI impI)
  fix s t assume "f s = Some t"
  then obtain t' where "g s = Some t'" and t': "t' = t \<or> ot_epoch t < ot_epoch t'" using growsD [OF assms(1)] by blast
  then obtain t'' where "h s = Some t''" "t'' = t' \<or> ot_epoch t' < ot_epoch t''" using growsD [OF assms(2)] by blast
  with t' show "\<exists>t'. h s = Some t' \<and> (t' = t \<or> ot_epoch t < ot_epoch t')" by force
qed

text \<open>Equal epochs mean equal terms.\<close>

lemma grows_same_epoch: "grows f f' \<Longrightarrow> f s = Some t \<Longrightarrow> f' s = Some t' \<Longrightarrow> ot_epoch t = ot_epoch t' \<Longrightarrow> t = t'"
  unfolding grows_def by fastforce

lemma history_head:
  assumes "history_ok H" and "g \<in> set H"
  shows "grows (hterm g) (hterm (hd H))" and "gs_revision g \<le> gs_revision (hd H)"
    and "gs_revision g = gs_revision (hd H) \<Longrightarrow> g = hd H"
  using assms by (cases H; auto simp: history_ok_def follows_def grows_refl)+

lemma history_order:
  assumes "history_ok H" and "g \<in> set H" and "g' \<in> set H" and "gs_revision g < gs_revision g'"
  shows "grows (hterm g) (hterm g')"
proof -
  have "sorted_wrt follows H \<Longrightarrow> g \<in> set H \<Longrightarrow> g' \<in> set H \<Longrightarrow> g = g' \<or> follows g g' \<or> follows g' g"
    by (induction H) auto
  with assms show ?thesis by (auto simp: history_ok_def follows_def)
qed

section \<open>The invariant\<close>

definition holds :: "node_id \<Rightarrow> owner_term_snapshot \<Rightarrow> cluster_meta_store \<Rightarrow> bool" where
  "holds n g m \<longleftrightarrow> meta_term m = hterm g \<and> (\<exists>mk. meta_marker m = Some mk
     \<and> im_generation mk = TRACK_A_COORDINATOR_GENERATION \<and> im_revision mk = gs_revision g \<and> im_recipient_node mk = n)"

definition blank :: "cluster_meta_store \<Rightarrow> bool" where
  "blank m \<longleftrightarrow> meta_marker m = None \<and> meta_term m = Map.empty"

definition node_ok :: "owner_term_snapshot list \<Rightarrow> node_id \<Rightarrow> owner_authority \<Rightarrow> bool" where
  "node_ok H n a \<longleftrightarrow> meta_wf (oa_meta a) \<and> is_cluster_mode (oa_registry a) \<and> reg_this_node (oa_registry a) = n
     \<and> (blank (oa_meta a) \<or> (\<exists>g \<in> set H. holds n g (oa_meta a)))"

text \<open>The owner of a superseded term knows a later term or is held by an overlay.\<close>

definition fenced_term :: "cluster_meta_store \<Rightarrow> owner_term \<Rightarrow> bool" where
  "fenced_term m t \<longleftrightarrow> (\<exists>t'. meta_term m (ot_scope t) = Some t'
     \<and> (ot_epoch t < ot_epoch t' \<or> (t' = t \<and> meta_overlay m (ot_scope t) \<noteq> None)))"

definition mem_claim :: "owner_registry \<Rightarrow> state_transfer_scope \<Rightarrow> owner_term \<Rightarrow> bool" where
  "mem_claim r s t \<longleftrightarrow> reg_terms r s = Some t \<and> ot_owner_node t = reg_this_node r \<and> reg_saga_states r s = None"

definition superseded_fenced :: "owner_term_snapshot list \<Rightarrow> (node_id \<Rightarrow> owner_authority) \<Rightarrow> bool" where
  "superseded_fenced H N \<longleftrightarrow> (\<forall>g \<in> set H. \<forall>s t. hterm g s = Some t \<longrightarrow> hterm (hd H) s \<noteq> Some t \<longrightarrow>
     fenced_term (oa_meta (N (ot_owner_node t))) t)"

definition claims_current :: "owner_term_snapshot list \<Rightarrow> (node_id \<Rightarrow> owner_authority) \<Rightarrow> bool" where
  "claims_current H N \<longleftrightarrow> (\<forall>n s t. mem_claim (oa_registry (N n)) s t \<longrightarrow> hterm (hd H) s = Some t)"

definition authority_inv :: "node_id \<Rightarrow> owner_term_snapshot list \<Rightarrow> (node_id \<Rightarrow> owner_authority) \<Rightarrow> bool" where
  "authority_inv c H N \<longleftrightarrow> history_ok H \<and> holds c (hd H) (oa_meta (N c)) \<and> (\<forall>n. node_ok H n (N n))
     \<and> superseded_fenced H N \<and> claims_current H N"

lemma authority_invD:
  assumes "authority_inv c H N"
  shows "history_ok H" "holds c (hd H) (oa_meta (N c))" "node_ok H n (N n)" "superseded_fenced H N" "claims_current H N"
  using assms by (simp_all add: authority_inv_def)

text \<open>A store that names its node without an overlay names the chef's current term.\<close>

lemma durable_claim_current:
  assumes "history_ok H" and "node_ok H n a" and "superseded_fenced H N" and "N n = a"
    and "meta_term (oa_meta a) s = Some t" and "ot_owner_node t = n" and "meta_overlay (oa_meta a) s = None"
  shows "hterm (hd H) s = Some t"
proof (rule ccontr)
  assume sup: "hterm (hd H) s \<noteq> Some t"
  from assms(2,5) obtain g where "g \<in> set H" "hterm g s = Some t"
    by (auto simp: node_ok_def blank_def holds_def)
  with assms(3) sup have "fenced_term (oa_meta (N (ot_owner_node t))) t"
    unfolding superseded_fenced_def by blast
  with assms(4-7) hterm_scope [OF \<open>hterm g s = Some t\<close>] show False by (auto simp: fenced_term_def)
qed

text \<open>Two nodes that accept a guard for one scope are the same node, with the same term.\<close>

lemma one_writer:
  assumes "authority_inv c H N" and "may_write (oa_registry (N n)) s t" and "may_write (oa_registry (N n')) s t'"
  shows "n = n' \<and> t = t'"
proof -
  have "hterm (hd H) s = Some t \<and> ot_owner_node t = n" if "may_write (oa_registry (N n)) s t" for n t
  proof -
    have ok: "is_cluster_mode (oa_registry (N n))" "reg_this_node (oa_registry (N n)) = n"
      using authority_invD(3) [OF assms(1)] by (simp_all add: node_ok_def)
    from that ok have "mem_claim (oa_registry (N n)) s t"
      by (auto simp: may_write_def mem_claim_def current_owner_def is_cluster_mode_def split: if_splits)
    with authority_invD(5) [OF assms(1)] have "hterm (hd H) s = Some t" unfolding claims_current_def by blast
    with \<open>mem_claim _ s t\<close> ok(2) show ?thesis by (simp add: mem_claim_def)
  qed
  from this [OF assms(2)] this [OF assms(3)] show ?thesis by auto
qed

section \<open>A node advances within the history\<close>

definition same_install :: "cluster_meta_store \<Rightarrow> cluster_meta_store \<Rightarrow> bool" where
  "same_install m m' \<longleftrightarrow> meta_term m' = meta_term m
     \<and> (meta_marker m = None \<longrightarrow> meta_marker m' = None)
     \<and> (\<forall>mk. meta_marker m = Some mk \<longrightarrow> (\<exists>mk'. meta_marker m' = Some mk' \<and> im_generation mk' = im_generation mk
          \<and> im_revision mk' = im_revision mk \<and> im_recipient_node mk' = im_recipient_node mk))"

definition keeps_overlays :: "(state_transfer_scope \<rightharpoonup> 'a) \<Rightarrow> (state_transfer_scope \<rightharpoonup> 'a) \<Rightarrow> bool" where
  "keeps_overlays f f' \<longleftrightarrow> (\<forall>s. f s \<noteq> None \<longrightarrow> f' s \<noteq> None)"

text \<open>The memory keeps its terms and overlays, mirrors the store, or is empty.\<close>

definition mem_step :: "owner_registry \<Rightarrow> owner_authority \<Rightarrow> bool" where
  "mem_step r a' \<longleftrightarrow> is_cluster_mode (oa_registry a') \<and> reg_this_node (oa_registry a') = reg_this_node r
     \<and> (mirrors (oa_registry a') (oa_meta a')
        \<or> reg_terms (oa_registry a') = reg_terms r \<and> keeps_overlays (reg_saga_states r) (reg_saga_states (oa_registry a'))
        \<or> reg_terms (oa_registry a') = Map.empty)"

definition store_step :: "owner_term_snapshot list \<Rightarrow> node_id \<Rightarrow> cluster_meta_store \<Rightarrow> cluster_meta_store \<Rightarrow> bool" where
  "store_step H n m m' \<longleftrightarrow> meta_wf m' \<and> keeps_overlays (meta_overlay m) (meta_overlay m')
     \<and> (same_install m m'
        \<or> (\<exists>g \<in> set H. holds n g m' \<and> (\<forall>mk. meta_marker m = Some mk \<longrightarrow> im_revision mk < gs_revision g)))"

definition node_step :: "owner_term_snapshot list \<Rightarrow> owner_authority \<Rightarrow> owner_authority \<Rightarrow> bool" where
  "node_step H a a' \<longleftrightarrow> store_step H (reg_this_node (oa_registry a)) (oa_meta a) (oa_meta a') \<and> mem_step (oa_registry a) a'"

lemma holds_same: "holds n g m \<Longrightarrow> same_install m m' \<Longrightarrow> holds n g m'"
  unfolding holds_def same_install_def by fastforce

lemma blank_same: "blank m \<Longrightarrow> same_install m m' \<Longrightarrow> blank m'"
  by (simp add: blank_def same_install_def)

lemma fenced_grows:
  assumes "fenced_term m t" and "grows (meta_term m) (meta_term m')"
    and "keeps_overlays (meta_overlay m) (meta_overlay m')"
  shows "fenced_term m' t"
proof -
  from assms(1) obtain t' where t': "meta_term m (ot_scope t) = Some t'"
    and w: "ot_epoch t < ot_epoch t' \<or> (t' = t \<and> meta_overlay m (ot_scope t) \<noteq> None)"
    by (auto simp: fenced_term_def)
  from assms(2) t' obtain t'' where "meta_term m' (ot_scope t) = Some t''" "t'' = t' \<or> ot_epoch t' < ot_epoch t''"
    by (rule growsD)
  with w assms(3) show ?thesis unfolding fenced_term_def keeps_overlays_def by (metis order.strict_trans)
qed

lemma claims_after:
  assumes "history_ok H" and "\<And>n. node_ok H n (N' n)" and "superseded_fenced H N'"
    and old: "\<And>n s t. mem_claim (oa_registry (N n)) s t \<Longrightarrow> mem_claim (oa_registry (N' n)) s t \<Longrightarrow> hterm (hd H) s = Some t"
    and "\<And>n. mem_step (oa_registry (N n)) (N' n)"
  shows "claims_current H N'"
  unfolding claims_current_def
proof (intro allI impI)
  fix n s t assume claim: "mem_claim (oa_registry (N' n)) s t"
  have this': "reg_this_node (oa_registry (N' n)) = n" using assms(2) [of n] by (simp add: node_ok_def)
  have "mirrors (oa_registry (N' n)) (oa_meta (N' n)) \<or> mem_claim (oa_registry (N n)) s t"
    using assms(5) [of n] claim by (auto simp: mem_step_def mem_claim_def keeps_overlays_def)
  then show "hterm (hd H) s = Some t"
  proof
    assume "mirrors (oa_registry (N' n)) (oa_meta (N' n))"
    with claim this' show ?thesis
      using durable_claim_current [OF assms(1,2,3) refl, of n s t] by (simp add: mirrors_def mem_claim_def)
  qed (use old claim in blast)
qed

lemma mem_step_refl: "is_cluster_mode (oa_registry a) \<Longrightarrow> mem_step (oa_registry a) a"
  by (simp add: mem_step_def keeps_overlays_def)

lemma node_step_store:
  assumes inv: "authority_inv c H N" and step: "node_step H (N n) a'"
  shows "node_ok H n a' \<and> grows (meta_term (oa_meta (N n))) (meta_term (oa_meta a'))
    \<and> (n = c \<longrightarrow> holds c (hd H) (oa_meta a'))"
proof -
  note I = authority_invD [OF inv]
  let ?m = "oa_meta (N n)" and ?m' = "oa_meta a'"
  have n: "reg_this_node (oa_registry (N n)) = n" and old: "blank ?m \<or> (\<exists>g0 \<in> set H. holds n g0 ?m)"
    using I(3) [of n] by (simp_all add: node_ok_def)
  from step have a': "is_cluster_mode (oa_registry a')" "reg_this_node (oa_registry a') = n" "meta_wf ?m'"
    using n by (simp_all add: node_step_def store_step_def mem_step_def)
  consider (same) "same_install ?m ?m'"
    | (adv) g where "g \<in> set H" "holds n g ?m'" "\<forall>mk. meta_marker ?m = Some mk \<longrightarrow> im_revision mk < gs_revision g"
    using step n by (auto simp: node_step_def store_step_def)
  then show ?thesis
  proof cases
    case same
    have "blank ?m' \<or> (\<exists>g0 \<in> set H. holds n g0 ?m')" using old same holds_same blank_same by metis
    moreover have "n = c \<longrightarrow> holds c (hd H) ?m'" using I(2) same holds_same by blast
    moreover have "meta_term ?m' = meta_term ?m" using same by (simp add: same_install_def)
    ultimately show ?thesis using a' by (simp add: node_ok_def grows_refl)
  next
    case adv
    have below: "gs_revision g0 < gs_revision g" if "holds n g0 ?m" for g0 using that adv(3) by (auto simp: holds_def)
    have "n \<noteq> c" using below [of "hd H"] I(2) history_head(2) [OF I(1) adv(1)] by auto
    moreover have "grows (meta_term ?m) (meta_term ?m')" using old
    proof
      assume "\<exists>g0 \<in> set H. holds n g0 ?m"
      then obtain g0 where g0: "g0 \<in> set H" "holds n g0 ?m" by blast
      from history_order [OF I(1) g0(1) adv(1) below [OF g0(2)]] g0(2) adv(2) show ?thesis by (simp add: holds_def)
    qed (simp add: blank_def grows_def)
    moreover have "node_ok H n a'" unfolding node_ok_def using a' adv(1,2) by blast
    ultimately show ?thesis by blast
  qed
qed

lemma inv_node_step:
  assumes inv: "authority_inv c H N" and step: "node_step H (N n) a'"
  shows "authority_inv c H (N(n := a'))"
proof -
  note I = authority_invD [OF inv] and st = node_step_store [OF inv step]
  from step have mem: "mem_step (oa_registry (N n)) a'"
    and keep: "keeps_overlays (meta_overlay (oa_meta (N n))) (meta_overlay (oa_meta a'))"
    by (simp_all add: node_step_def store_step_def)
  have ok': "node_ok H k ((N(n := a')) k)" for k using st I(3) by simp
  have fenced: "superseded_fenced H (N(n := a'))"
    unfolding superseded_fenced_def
  proof (intro ballI allI impI)
    fix g s t assume h: "g \<in> set H" "hterm g s = Some t" "hterm (hd H) s \<noteq> Some t"
    with I(4) have f: "fenced_term (oa_meta (N (ot_owner_node t))) t" unfolding superseded_fenced_def by blast
    show "fenced_term (oa_meta ((N(n := a')) (ot_owner_node t))) t"
    proof (cases "ot_owner_node t = n")
      case True
      then show ?thesis using fenced_grows [of "oa_meta (N n)" t "oa_meta a'"] f st keep by simp
    qed (use f in simp)
  qed
  have "claims_current H (N(n := a'))"
  proof (rule claims_after [OF I(1) ok' fenced, where N = N])
    show "hterm (hd H) s = Some t" if "mem_claim (oa_registry (N k)) s t" for k s t
      using I(5) that unfolding claims_current_def by blast
    show "mem_step (oa_registry (N k)) ((N(n := a')) k)" for k
      using mem mem_step_refl [of "N k"] I(3) [of k] by (simp add: node_ok_def)
  qed
  moreover have "holds c (hd H) (oa_meta ((N(n := a')) c))" using I(2) st by auto
  ultimately show ?thesis using I(1) ok' fenced by (simp add: authority_inv_def)
qed

section \<open>A commit lifts an overlay\<close>

definition commit_step :: "owner_term_snapshot list \<Rightarrow> state_transfer_scope \<Rightarrow> owner_authority \<Rightarrow> owner_authority \<Rightarrow> bool" where
  "commit_step H s a a' \<longleftrightarrow> meta_wf (oa_meta a') \<and> same_install (oa_meta a) (oa_meta a')
     \<and> meta_overlay (oa_meta a') = (meta_overlay (oa_meta a))(s := None)
     \<and> meta_term (oa_meta a) s = hterm (hd H) s \<and> mem_step (oa_registry a) a'"

lemma inv_commit_step:
  assumes inv: "authority_inv c H N" and step: "commit_step H s (N n) a'"
  shows "authority_inv c H (N(n := a'))"
proof -
  note I = authority_invD [OF inv]
  have n: "reg_this_node (oa_registry (N n)) = n" using I(3) [of n] by (simp add: node_ok_def)
  from step have mem: "mem_step (oa_registry (N n)) a'" and same: "same_install (oa_meta (N n)) (oa_meta a')"
    and wf: "meta_wf (oa_meta a')" and cur: "meta_term (oa_meta (N n)) s = hterm (hd H) s"
    and ov: "meta_overlay (oa_meta a') = (meta_overlay (oa_meta (N n)))(s := None)"
    by (simp_all add: commit_step_def)
  have "blank (oa_meta a') \<or> (\<exists>g \<in> set H. holds n g (oa_meta a'))"
    using I(3) [of n] same holds_same blank_same unfolding node_ok_def by metis
  then have "node_ok H n a'" using mem wf n by (simp add: node_ok_def mem_step_def)
  then have ok': "node_ok H k ((N(n := a')) k)" for k using I(3) by simp
  have fenced: "superseded_fenced H (N(n := a'))"
    unfolding superseded_fenced_def
  proof (intro ballI allI impI)
    fix g s' t assume h: "g \<in> set H" "hterm g s' = Some t" "hterm (hd H) s' \<noteq> Some t"
    with I(4) have f: "fenced_term (oa_meta (N (ot_owner_node t))) t" unfolding superseded_fenced_def by blast
    have "meta_term (oa_meta a') = meta_term (oa_meta (N n))" using same by (simp add: same_install_def)
    with f h(3) hterm_scope [OF h(2)] cur ov show "fenced_term (oa_meta ((N(n := a')) (ot_owner_node t))) t"
      by (cases "ot_owner_node t = n"; cases "s' = s") (force simp: fenced_term_def)+
  qed
  have "claims_current H (N(n := a'))"
  proof (rule claims_after [OF I(1) ok' fenced, where N = N])
    show "hterm (hd H) s = Some t" if "mem_claim (oa_registry (N k)) s t" for k s t
      using I(5) that unfolding claims_current_def by blast
    show "mem_step (oa_registry (N k)) ((N(n := a')) k)" for k
      using mem mem_step_refl [of "N k"] I(3) [of k] by (simp add: node_ok_def)
  qed
  moreover have "holds c (hd H) (oa_meta ((N(n := a')) c))" using I(2) same holds_same by auto
  ultimately show ?thesis using I(1) ok' fenced by (simp add: authority_inv_def)
qed

section \<open>The chef appends a snapshot\<close>

definition head_step :: "node_id \<Rightarrow> owner_term_snapshot list \<Rightarrow> owner_term_snapshot \<Rightarrow> owner_authority \<Rightarrow> owner_authority \<Rightarrow> bool" where
  "head_step c H g a a' \<longleftrightarrow> follows g (hd H) \<and> meta_wf (oa_meta a') \<and> holds c g (oa_meta a')
     \<and> keeps_overlays (meta_overlay (oa_meta a)) (meta_overlay (oa_meta a')) \<and> mem_step (oa_registry a) a'"

text \<open>A term is retired when its owner's store fences it and its owner's memory does not claim it.\<close>

definition retired_at :: "(node_id \<Rightarrow> owner_authority) \<Rightarrow> state_transfer_scope \<Rightarrow> owner_term \<Rightarrow> bool" where
  "retired_at N s t \<longleftrightarrow> fenced_term (oa_meta (N (ot_owner_node t))) t \<and> \<not> mem_claim (oa_registry (N (ot_owner_node t))) s t"

text \<open>Every term the new snapshot replaces must be retired.\<close>

definition handover_ready :: "owner_term_snapshot list \<Rightarrow> owner_term_snapshot \<Rightarrow> (node_id \<Rightarrow> owner_authority) \<Rightarrow> bool" where
  "handover_ready H g N \<longleftrightarrow> (\<forall>s t. hterm (hd H) s = Some t \<longrightarrow> hterm g s \<noteq> Some t \<longrightarrow> retired_at N s t)"

lemma retired_keep:
  assumes "retired_at N s t" and "grows (meta_term (oa_meta (N n))) (meta_term (oa_meta a'))"
    and "keeps_overlays (meta_overlay (oa_meta (N n))) (meta_overlay (oa_meta a'))" and "mem_step (oa_registry (N n)) a'"
    and "ot_scope t = s"
  shows "retired_at (N(n := a')) s t"
proof (cases "ot_owner_node t = n")
  case True
  with assms(1) fenced_grows [OF _ assms(2,3)] have f: "fenced_term (oa_meta a') t" by (simp add: retired_at_def)
  have "\<not> mem_claim (oa_registry a') s t"
  proof
    assume c: "mem_claim (oa_registry a') s t"
    then have "mirrors (oa_registry a') (oa_meta a') \<or> mem_claim (oa_registry (N n)) s t"
      using assms(4) by (auto simp: mem_step_def mem_claim_def keeps_overlays_def)
    then show False
    proof
      assume "mirrors (oa_registry a') (oa_meta a')"
      with c f assms(5) show False by (auto simp: mirrors_def mem_claim_def fenced_term_def)
    qed (use assms(1) True in \<open>simp add: retired_at_def\<close>)
  qed
  with f True show ?thesis by (simp add: retired_at_def)
qed (use assms(1) in \<open>simp add: retired_at_def\<close>)

lemma history_cons: "history_ok H \<Longrightarrow> follows g (hd H) \<Longrightarrow> history_ok (g # H)"
  unfolding history_ok_def
  by (cases H) (auto simp: follows_def intro: grows_trans order.strict_trans)

lemma node_ok_cons: "node_ok H n a \<Longrightarrow> node_ok (g # H) n a"
  by (auto simp: node_ok_def)

lemma inv_head_step:
  assumes inv: "authority_inv c H N" and step: "head_step c H g (N c) a'" and ready: "handover_ready H g N"
  shows "authority_inv c (g # H) (N(c := a'))"
proof -
  note I = authority_invD [OF inv]
  let ?N = "N(c := a')"
  have n: "reg_this_node (oa_registry (N c)) = c" using I(3) [of c] by (simp add: node_ok_def)
  from step have mem: "mem_step (oa_registry (N c)) a'" and new: "holds c g (oa_meta a')"
    and wf: "meta_wf (oa_meta a')" and fol: "follows g (hd H)"
    and keep: "keeps_overlays (meta_overlay (oa_meta (N c))) (meta_overlay (oa_meta a'))"
    by (simp_all add: head_step_def)
  have H: "history_ok (g # H)" by (rule history_cons [OF I(1) fol])
  have grow: "grows (meta_term (oa_meta (N c))) (meta_term (oa_meta a'))"
    using fol I(2) new by (simp add: follows_def holds_def)
  have "node_ok (g # H) c a'" using mem wf n new by (simp add: node_ok_def mem_step_def)
  then have ok': "node_ok (g # H) k (?N k)" for k using node_ok_cons [OF I(3)] by simp
  have keepN: "fenced_term (oa_meta (?N k)) t" if "fenced_term (oa_meta (N k)) t" for k t
    using that fenced_grows [OF _ grow keep] by (cases "k = c") auto
  have fenced: "superseded_fenced (g # H) ?N"
    unfolding superseded_fenced_def
  proof (intro ballI allI impI)
    fix g' s t assume h: "g' \<in> set (g # H)" "hterm g' s = Some t" "hterm (hd (g # H)) s \<noteq> Some t"
    then have "g' \<in> set H" by auto
    with I(4) h ready have "fenced_term (oa_meta (N (ot_owner_node t))) t"
      unfolding superseded_fenced_def handover_ready_def retired_at_def by (metis list.sel(1))
    then show "fenced_term (oa_meta (?N (ot_owner_node t))) t" by (rule keepN)
  qed
  have "claims_current (g # H) ?N"
  proof (rule claims_after [OF H ok' fenced, where N = N])
    fix k s t assume claim: "mem_claim (oa_registry (N k)) s t"
    with I(5) have "hterm (hd H) s = Some t" unfolding claims_current_def by blast
    moreover have "ot_owner_node t = k" using claim I(3) [of k] by (simp add: mem_claim_def node_ok_def)
    ultimately show "hterm (hd (g # H)) s = Some t"
      using ready claim unfolding handover_ready_def retired_at_def by auto
  next
    show "mem_step (oa_registry (N k)) (?N k)" for k
      using mem mem_step_refl [of "N k"] I(3) [of k] by (simp add: node_ok_def)
  qed
  with H new ok' fenced show ?thesis by (simp add: authority_inv_def)
qed

end
