(* ===== verification/Authority_Steps.thy ===== *)
theory Authority_Steps
  imports Authority_Invariant
begin

text \<open>
  Every operation of the owner authority is one of the three kinds of change: the requests of
  the owner handler, the installs of the chef, the boot of a node.
\<close>

section \<open>Installing a snapshot\<close>

lemma same_install_refl [simp]: "same_install m m"
  by (simp add: same_install_def)

lemma keeps_overlays_refl [simp]: "keeps_overlays f f"
  by (simp add: keeps_overlays_def)

lemma store_step_refl: "meta_wf m \<Longrightarrow> store_step H n m m"
  by (simp add: store_step_def)

lemma same_install_tables:
  "cm_cluster_owner m' = cm_cluster_owner m \<Longrightarrow> cm_snapshot_meta m' = cm_snapshot_meta m \<Longrightarrow> same_install m m'"
  by (simp add: same_install_def meta_marker_def)

lemma install_same:
  assumes "meta_wf m" and "install_owner_snapshot sha ok g l m = Ok (out, m')" and "out \<noteq> Installed"
  shows "same_install m m'"
  using install_other [OF assms(2,3)] assms(1) by (auto simp: same_install_def meta_wf_def)

lemma install_holds:
  assumes "meta_wf m" and "install_owner_snapshot sha ok g l m = Ok (Installed, m')"
  shows "holds (ls_recipient_node l) g m'" and "meta_marker m = Some mk \<Longrightarrow> im_generation mk \<noteq> 0 \<Longrightarrow> im_revision mk < gs_revision g"
  using install_view(3) [OF assms refl] by (auto simp: holds_def hterm_def marker_admits_def)

lemma install_already:
  assumes "install_owner_snapshot sha ok g l m = Ok (AlreadyInstalled, m')"
  shows "\<exists>mk. meta_marker m = Some mk \<and> im_revision mk = gs_revision g"
proof -
  from assms obtain e where "get_decoded (cm_snapshot_meta m) INSTALL_MARKER_KEY = Ok e"
    "install_against e g l m = Ok (AlreadyInstalled, m')"
    by (auto simp: install_owner_snapshot_def split: if_splits)
  then show ?thesis
    by (cases e) (auto simp: install_against_def replace_snapshot_def meta_marker_def split: if_splits)
qed

lemma node_ok_generation:
  "node_ok H n a \<Longrightarrow> meta_marker (oa_meta a) = Some mk \<Longrightarrow> im_generation mk \<noteq> 0"
  by (auto simp: node_ok_def blank_def holds_def TRACK_A_COORDINATOR_GENERATION_def)

text \<open>A snapshot that agrees with one of the history in its terms and revision.\<close>

definition in_history :: "owner_term_snapshot list \<Rightarrow> owner_term_snapshot \<Rightarrow> bool" where
  "in_history H g \<longleftrightarrow> (\<exists>g' \<in> set H. hterm g = hterm g' \<and> gs_revision g = gs_revision g')"

lemma install_store_step:
  assumes ok: "node_ok H n a" and "in_history H g" and "ls_recipient_node l = n"
    and i: "install_owner_snapshot sha io g l (oa_meta a) = Ok (out, m')"
  shows "store_step H n (oa_meta a) m'"
proof -
  have wf: "meta_wf (oa_meta a)" using ok by (simp add: node_ok_def)
  have "same_install (oa_meta a) m' \<or> (\<exists>g \<in> set H. holds n g m'
      \<and> (\<forall>mk. meta_marker (oa_meta a) = Some mk \<longrightarrow> im_revision mk < gs_revision g))"
  proof (cases "out = Installed")
    case True
    with install_holds [OF wf] i assms(2,3) node_ok_generation [OF ok]
    have "holds n g m'" "\<forall>mk. meta_marker (oa_meta a) = Some mk \<longrightarrow> im_revision mk < gs_revision g" by auto
    with assms(2) show ?thesis by (auto simp: in_history_def holds_def)
  qed (use install_same [OF wf i] in simp)
  then show ?thesis
    using meta_wf_install [OF wf i] install_view(1) [OF wf i] by (simp add: store_step_def)
qed

section \<open>The owner handler\<close>

lemma mem_stepI:
  assumes "is_cluster_mode (oa_registry a')" and "reg_this_node (oa_registry a') = reg_this_node r"
    and "mirrors (oa_registry a') (oa_meta a') \<or> reg_terms (oa_registry a') = reg_terms r
      \<and> keeps_overlays (reg_saga_states r) (reg_saga_states (oa_registry a'))"
  shows "mem_step r a'"
  using assms by (auto simp: mem_step_def)

lemma retirement_node_step:
  assumes "node_ok H n a" and "persist_source_retirement sha io (oa_meta a) k w ep = Ok (st, m)"
  shows "node_step H a \<lparr>oa_registry = retire_local (oa_registry a) (lo_scope st) ep, oa_meta = m\<rparr>"
proof -
  have wf: "meta_wf (oa_meta a)" using assms(1) by (simp add: node_ok_def)
  from retirement_OkD [OF this assms(2)] show ?thesis
    using assms(1) same_install_tables [of m "oa_meta a"]
    by (auto simp: node_step_def store_step_def mem_step_def node_ok_def keeps_overlays_def)
qed

lemma prepare_node_step:
  assumes "node_ok H n a" and "handle_prepare sha io k w ep a = (resp, a')"
  shows "node_step H a a'"
  using assms(2)
proof (cases rule: handle_prepare_cases)
  case rejected
  with assms(1) mem_step_refl [of a] show ?thesis by (simp add: node_step_def store_step_refl node_ok_def)
next
  case prepared
  with retirement_node_step [OF assms(1)] show ?thesis by blast
qed

lemma replicate_node_step:
  assumes ok: "node_ok H n a" and g: "in_history H g" and h: "handle_replicate sha io g l a = (resp, a')"
  shows "node_step H a a'"
proof -
  have wf: "meta_wf (oa_meta a)" and n: "is_cluster_mode (oa_registry a)" "reg_this_node (oa_registry a) = n"
    using ok by (simp_all add: node_ok_def)
  note st = install_store_step [OF ok g]
  from h wf show ?thesis
  proof (cases rule: handle_replicate_cases)
    case not_ours
    with wf n mem_step_refl [of a] show ?thesis by (simp add: node_step_def store_step_refl)
  next
    case closed
    with n wf st [of l sha "io 0"] store_step_refl [of "oa_meta a" H n]
    have "store_step H n (oa_meta a) (oa_meta a')" by auto
    moreover have "mem_step (oa_registry a) a'" using closed(2) n by (intro mem_stepI) simp_all
    ultimately show ?thesis using n by (simp add: node_step_def)
  next
    case rebuilt
    with n st [of l sha "io 0"] show ?thesis
      by (auto simp: node_step_def mirrors_def intro: mem_stepI)
  qed
qed

text \<open>A commit for the chef's current epoch.\<close>

lemma from_wire_inverse: "from_wire (to_wire s) = Some s' \<Longrightarrow> s' = s"
  by (cases "s = NanoContainer []") (auto simp: from_wire_to_wire, simp add: from_wire_def strip_prefix_def)

lemma complete_commit_step:
  assumes "node_ok H n a" and "complete_handoff_overlay ok t (oa_meta a) = Ok m"
    and "meta_term (oa_meta a) (ot_scope t) = hterm (hd H) (ot_scope t)"
    and "oa_meta a' = m" and "mem_step (oa_registry a) a'"
  shows "commit_step H (ot_scope t) a a'"
proof -
  have "meta_wf (oa_meta a)" using assms(1) by (simp add: node_ok_def)
  from meta_wf_complete [OF this assms(2)] complete_other_tables [OF assms(2)] assms(3-5)
  show ?thesis by (simp add: commit_step_def same_install_tables)
qed

lemma current_term:
  assumes "history_ok H" and "node_ok H n a" and "meta_term (oa_meta a) s = Some t"
    and "hterm (hd H) s = Some t'" and "ot_epoch t' = ot_epoch t"
  shows "t = t'"
proof -
  from assms(2,3) obtain g where "g \<in> set H" "hterm g s = Some t"
    by (auto simp: node_ok_def blank_def holds_def)
  with grows_same_epoch [OF history_head(1) [OF assms(1)]] assms(4,5) show ?thesis by metis
qed

lemma commit_commit_step:
  assumes H: "history_ok H" and ok: "node_ok H n a"
    and h: "handle_owner_commit sha pu io (to_wire s) owner ep a = (resp, a')"
    and cur: "hterm (hd H) s = Some t" "ot_epoch t = ep"
  shows "node_step H a a' \<or> commit_step H s a a'"
proof -
  have wf: "meta_wf (oa_meta a)" and n: "is_cluster_mode (oa_registry a)" "reg_this_node (oa_registry a) = n"
    using ok by (simp_all add: node_ok_def)
  have lifted: "commit_step H s a a'"
    if p: "persist_commit sha pu io (oa_meta a) (to_wire s) owner ep = Ok (t', m)" and "oa_meta a' = m"
      and "mem_step (oa_registry a) a'" for t' m
  proof -
    note c = commit_OkD [OF wf p]
    have sc: "ot_scope t' = s" using c by (simp add: from_wire_inverse)
    moreover have "t' = t" using c current_term [OF H ok _ cur(1)] cur(2) sc by auto
    ultimately show ?thesis
      using complete_commit_step [OF ok, of "io 1" t' m a'] c that(2,3) cur(1) by auto
  qed
  from h wf show ?thesis
  proof (cases rule: handle_commit_cases)
    case rejected
    with wf n mem_step_refl [of a] show ?thesis by (simp add: node_step_def store_step_refl)
  next
    case unread
    with n have "mem_step (oa_registry a) a'" by (intro mem_stepI) auto
    with lifted unread show ?thesis by blast
  next
    case committed
    with n have "mem_step (oa_registry a) a'" by (intro mem_stepI) (auto simp: mirrors_def)
    with lifted committed show ?thesis by blast
  qed
qed

section \<open>The chef's installs\<close>

lemma hterm_new:
  assumes "owner_term_snapshot_new sha gen rvn ts = Ok g"
  shows "hterm g s = Some t \<longleftrightarrow> t \<in> set ts \<and> ot_scope t = s"
proof -
  note new = owner_term_snapshot_new_OkD [OF assms]
  have "distinct (map ot_scope (gs_sorted_terms g))"
    using new(4,5) by (metis mset_eq_imp_distinct_iff mset_map mset_sort)
  from map_extend_empty_eq_Some [OF this] show ?thesis by (simp add: hterm_def new(4))
qed

lemma hterm_spec:
  "owner_pair_spec sha g l \<Longrightarrow> hterm g s = Some t \<longleftrightarrow> t \<in> set (gs_sorted_terms g) \<and> ot_scope t = s"
  using owner_pair_spec_maps(1) by (simp add: hterm_def)

lemma extend_terms_keeps: "extend_terms chef seed as ts ch = Ok (ts', ch') \<Longrightarrow> set ts \<subseteq> set ts'"
  by (induction chef seed as ts ch rule: extend_terms.induct) (auto split: if_splits)

lemma extend_snapshot_new:
  assumes "extend_owner_snapshot_for_agents sha g agents n seed = Ok (g', True)"
  obtains ts rvn where "set (gs_sorted_terms g) \<subseteq> set ts" "gs_revision g < gs_revision g'"
    "owner_term_snapshot_new sha TRACK_A_COORDINATOR_GENERATION rvn ts = Ok g'"
proof -
  from assms obtain ts rvn where ts: "extend_terms n seed agents (gs_sorted_terms g) False = Ok (ts, True)"
    and rvn: "checked_add (gs_revision g) 1 = Some rvn"
    and new: "owner_term_snapshot_new sha TRACK_A_COORDINATOR_GENERATION rvn ts = Ok g'"
    by (auto simp: extend_owner_snapshot_for_agents_def split: if_splits)
  from extend_terms_keeps [OF ts] checked_add_one_less [OF rvn] owner_term_snapshot_new_OkD(3) [OF new] new
  show thesis by (intro that) simp_all
qed

lemma extend_snapshot:
  assumes "extend_owner_snapshot_for_agents sha g agents n seed = Ok (g', True)" and "owner_pair_spec sha g l"
  shows "follows g' g" and "hterm g \<subseteq>\<^sub>m hterm g'"
proof -
  obtain ts rvn where ts: "set (gs_sorted_terms g) \<subseteq> set ts" and rv: "gs_revision g < gs_revision g'"
    and new: "owner_term_snapshot_new sha TRACK_A_COORDINATOR_GENERATION rvn ts = Ok g'"
    by (rule extend_snapshot_new [OF assms(1)])
  note t' = hterm_new [OF new] and t = hterm_spec [OF assms(2)]
  have le: "hterm g' s = Some t" if "hterm g s = Some t" for s t
    using that ts unfolding t t' by auto
  then show "hterm g \<subseteq>\<^sub>m hterm g'" by (auto simp: map_le_def dom_def)
  from le rv show "follows g' g" by (auto simp: follows_def grows_def)
qed

lemma replace_term_set:
  assumes "replace_term sc t ts = Some ts'" and "distinct (map ot_scope ts)"
  shows "x \<in> set ts' \<longleftrightarrow> x = t \<or> x \<in> set ts \<and> ot_scope x \<noteq> sc"
  using assms
proof (induction sc t ts arbitrary: ts' rule: replace_term.induct)
  case (2 sc t y ys)
  show ?case
  proof (cases "ot_scope y = sc")
    case True
    with 2(2,3) show ?thesis by (auto simp: image_iff) metis
  next
    case False
    with 2(2) obtain zs where "replace_term sc t ys = Some zs" "ts' = y # zs" by auto
    with 2(1) [OF False] 2(3) False show ?thesis by auto
  qed
qed simp

lemma replace_term_scope: "replace_term sc t ts = Some ts' \<Longrightarrow> sc \<in> ot_scope ` set ts"
  by (induction sc t ts arbitrary: ts' rule: replace_term.induct) (auto split: if_splits)

text \<open>The snapshot of a handoff changes the one scope.\<close>

lemma handoff_snapshot_OkD:
  assumes "meta_wf m" and "handoff_snapshot sha io req ne n m = Ok (g, l)"
  shows "hterm g = (meta_term m)(hr_scope req \<mapsto> handoff_term req ne)"
    and "\<exists>mk. meta_marker m = Some mk \<and> im_revision mk < gs_revision g"
    and "ls_recipient_node l = n" and "meta_term m (hr_scope req) \<noteq> None"
proof -
  from assms(2) obtain inst li ts rvn where i: "installed_owner_snapshot sha (io 0) m = Ok (Some (inst, li))"
    and ts: "replace_term (hr_scope req) (handoff_term req ne) (gs_sorted_terms inst) = Some ts"
    and rvn: "checked_add (gs_revision inst) 1 = Some rvn"
    and new: "owner_term_snapshot_new sha TRACK_A_COORDINATOR_GENERATION rvn ts = Ok g"
    and l: "local_snapshot_for sha g n = Ok l"
    by (auto simp: handoff_snapshot_def split: prod.splits)
  note inst = installed_OkD [OF assms(1) i]
  have d: "distinct (map ot_scope (gs_sorted_terms inst))"
    using inst(1) strictly_sorted_distinct by (auto simp: owner_pair_spec_def)
  have t: "meta_term m s = Some t \<longleftrightarrow> t \<in> set (gs_sorted_terms inst) \<and> ot_scope t = s" for s t
    using map_extend_empty_eq_Some [OF d] inst(2) by metis
  have "hterm g s = Some t \<longleftrightarrow> ((meta_term m)(hr_scope req \<mapsto> handoff_term req ne)) s = Some t" for s t
    unfolding hterm_new [OF new] replace_term_set [OF ts d] by (auto simp: t handoff_term_def)
  then show "hterm g = (meta_term m)(hr_scope req \<mapsto> handoff_term req ne)"
    by (intro ext) (metis not_Some_eq)
  show "\<exists>mk. meta_marker m = Some mk \<and> im_revision mk < gs_revision g"
    using inst(3) checked_add_one_less [OF rvn] owner_term_snapshot_new_OkD(3) [OF new] by auto
  show "ls_recipient_node l = n"
    using l local_owner_state_snapshot_new_OkD(2) by (auto simp: local_snapshot_for_def)
  have "\<exists>t \<in> set (gs_sorted_terms inst). ot_scope t = hr_scope req"
    using replace_term_scope [OF ts] by auto
  then show "meta_term m (hr_scope req) \<noteq> None" using t by fastforce
qed

lemma install_locally_cases:
  assumes "install_locally sha io g l a = (res, a')"
  obtains (closed) "\<not> is_ok res" "oa_registry a' = close_owner_readiness (oa_registry a)"
      "oa_meta a' = oa_meta a \<or> (\<exists>out. install_owner_snapshot sha (io 0) g l (oa_meta a) = Ok (out, oa_meta a'))"
  | (rebuilt) out ss where "res = Ok ()" "install_owner_snapshot sha (io 0) g l (oa_meta a) = Ok (out, oa_meta a')"
      "out = Installed \<or> out = AlreadyInstalled" "list_local_saga_states (io 1) (oa_meta a') = Ok ss"
      "rebuild_from_owner_snapshot sha (close_owner_readiness (oa_registry a)) g l ss = Ok (oa_registry a')"
proof (cases "install_owner_snapshot sha (io 0) g l (oa_meta a)")
  case (Inl e)
  then show ?thesis using assms by (intro that(1)) (auto simp: install_locally_def Let_def)
next
  case i: (Inr p)
  obtain out m where p: "p = (out, m)" by (cases p)
  show ?thesis
  proof (cases "\<exists>ss r. (out = Installed \<or> out = AlreadyInstalled) \<and> list_local_saga_states (io 1) m = Ok ss
      \<and> rebuild_from_owner_snapshot sha (close_owner_readiness (oa_registry a)) g l ss = Ok r")
    case True
    then obtain ss r where "out = Installed \<or> out = AlreadyInstalled" "list_local_saga_states (io 1) m = Ok ss"
      "rebuild_from_owner_snapshot sha (close_owner_readiness (oa_registry a)) g l ss = Ok r" by blast
    with assms i p show ?thesis by (intro that(2) [of out ss]) (auto simp: install_locally_def Let_def)
  next
    case False
    with assms i p show ?thesis
      by (intro that(1)) (auto simp: install_locally_def Let_def split: if_splits sum.splits)
  qed
qed

text \<open>
  A new snapshot with a higher revision is installed, or nothing of the installation changes;
  reinstalling the head changes nothing.
\<close>

definition appended :: "(bytes \<Rightarrow> bytes) \<Rightarrow> owner_term_snapshot \<Rightarrow> owner_authority \<Rightarrow> owner_authority \<Rightarrow> bool" where
  "appended sha g a a' \<longleftrightarrow> meta_wf (oa_meta a') \<and> holds (reg_this_node (oa_registry a)) g (oa_meta a')
     \<and> keeps_overlays (meta_overlay (oa_meta a)) (meta_overlay (oa_meta a')) \<and> mem_step (oa_registry a) a'
     \<and> (\<exists>l. installed_owner_snapshot sha True (oa_meta a') = Ok (Some (g, l)))"

lemma install_read_back:
  assumes "meta_wf m" and "install_owner_snapshot sha ok g l m = Ok (Installed, m')"
  shows "installed_owner_snapshot sha True m' = Ok (Some (g, l))"
  using assms installed_after_replace by (auto simp: install_Installed_iff meta_wf_def)

lemma install_new:
  assumes ok: "node_ok H n a" and "holds n (hd H) (oa_meta a)" and "gs_revision (hd H) < gs_revision g"
    and "ls_recipient_node l = n" and i: "install_owner_snapshot sha io g l (oa_meta a) = Ok (out, m)"
  shows "out \<noteq> AlreadyInstalled"
    and "store_step H n (oa_meta a) m \<and> out \<noteq> Installed
      \<or> out = Installed \<and> meta_wf m \<and> holds n g m \<and> keeps_overlays (meta_overlay (oa_meta a)) (meta_overlay m)
        \<and> installed_owner_snapshot sha True m = Ok (Some (g, l))"
proof -
  have wf: "meta_wf (oa_meta a)" using ok by (simp add: node_ok_def)
  have m: "meta_wf m" "keeps_overlays (meta_overlay (oa_meta a)) (meta_overlay m)"
    using meta_wf_install [OF wf i] install_view(1) [OF wf i] by simp_all
  show "out \<noteq> AlreadyInstalled" using install_already [of sha io g l "oa_meta a" m] i assms(2,3) by (auto simp: holds_def)
  show "store_step H n (oa_meta a) m \<and> out \<noteq> Installed
      \<or> out = Installed \<and> meta_wf m \<and> holds n g m \<and> keeps_overlays (meta_overlay (oa_meta a)) (meta_overlay m)
        \<and> installed_owner_snapshot sha True m = Ok (Some (g, l))"
    using install_holds(1) [OF wf, of sha io g l m] install_read_back [OF wf, of sha io g l m] install_same [OF wf i] m i assms(4)
    by (cases "out = Installed") (auto simp: store_step_def)
qed

lemma install_locally_new:
  assumes ok: "node_ok H n a" and "holds n (hd H) (oa_meta a)" and "gs_revision (hd H) < gs_revision g"
    and "ls_recipient_node l = n" and i: "install_locally sha io g l a = (res, a')"
  shows "node_step H a a' \<and> same_install (oa_meta a) (oa_meta a') \<and> \<not> is_ok res
    \<or> appended sha g a a' \<and> (is_ok res \<longrightarrow> mirrors (oa_registry a') (oa_meta a'))"
proof -
  have wf: "meta_wf (oa_meta a)" and n: "is_cluster_mode (oa_registry a)" "reg_this_node (oa_registry a) = n"
    using ok by (simp_all add: node_ok_def)
  note new = install_new [OF assms(1-4)]
  from i show ?thesis
  proof (cases rule: install_locally_cases)
    case closed
    then have mem: "mem_step (oa_registry a) a'" using n by (intro mem_stepI) simp_all
    from closed(3) consider "oa_meta a' = oa_meta a"
      | out where "install_owner_snapshot sha (io 0) g l (oa_meta a) = Ok (out, oa_meta a')" by blast
    then show ?thesis
    proof cases
      case 1
      with mem n wf closed(1) show ?thesis by (simp add: node_step_def store_step_refl)
    next
      case 2
      from new(2) [OF 2] install_same [OF wf 2] mem n closed(1) show ?thesis
        by (auto simp: node_step_def appended_def)
    qed
  next
    case (rebuilt out ss)
    from new [OF rebuilt(2)] rebuilt(3) have m: "meta_wf (oa_meta a')" "holds n g (oa_meta a')"
      "keeps_overlays (meta_overlay (oa_meta a)) (meta_overlay (oa_meta a'))"
      "installed_owner_snapshot sha True (oa_meta a') = Ok (Some (g, l))" by auto
    have "mirrors (oa_registry a') (oa_meta a')" "reg_this_node (oa_registry a') = n"
      using rebuild_from_store [OF m(1,4) rebuilt(4,5)] n by (simp_all add: mirrors_def)
    then have "mem_step (oa_registry a) a'" using n by (intro mem_stepI) (simp_all add: mirrors_def)
    with m n \<open>mirrors _ _\<close> show ?thesis by (auto simp: appended_def)
  qed
qed

lemma install_locally_held:
  assumes H: "history_ok H" and ok: "node_ok H n a" and hd: "holds n (hd H) (oa_meta a)" and g: "g \<in> set H"
    and i: "install_locally sha io g l a = (res, a')"
  shows "node_step H a a'"
proof -
  have wf: "meta_wf (oa_meta a)" and n: "is_cluster_mode (oa_registry a)" "reg_this_node (oa_registry a) = n"
    using ok by (simp_all add: node_ok_def)
  obtain mk where mk: "meta_marker (oa_meta a) = Some mk" "im_revision mk = gs_revision (hd H)"
    using hd by (auto simp: holds_def)
  have same: "same_install (oa_meta a) m \<and> store_step H n (oa_meta a) m \<and> out \<noteq> Installed"
    if r: "install_owner_snapshot sha (io 0) g l (oa_meta a) = Ok (out, m)" for out m
  proof -
    have ni: "out \<noteq> Installed"
      using install_holds(2) [OF wf, of sha "io 0" g l m mk] r mk node_ok_generation [OF ok] history_head(2) [OF H g] by auto
    from install_same [OF wf r ni] meta_wf_install [OF wf r] install_view(1) [OF wf r] ni
    show ?thesis by (simp add: store_step_def)
  qed
  from i show ?thesis
  proof (cases rule: install_locally_cases)
    case closed
    then have "mem_step (oa_registry a) a'" using n by (intro mem_stepI) simp_all
    with closed(3) same store_step_refl [OF wf] n show ?thesis by (auto simp: node_step_def)
  next
    case (rebuilt out ss)
    note st = same [OF rebuilt(2)]
    have "g = hd H"
      using install_already rebuilt(2,3) st mk history_head(3) [OF H g] by fastforce
    then have "reg_terms (oa_registry a') = hterm (hd H)" "reg_this_node (oa_registry a') = n"
      "is_cluster_mode (oa_registry a')" "reg_saga_states (oa_registry a') = map_extend Map.empty sg_scope ss"
      using rebuilt(5) n by (auto simp: rebuild_eq_Ok hterm_def is_cluster_mode_def)
    moreover have "meta_term (oa_meta a') = hterm (hd H)"
      using st hd by (simp add: holds_def same_install_def)
    moreover have "map_extend Map.empty sg_scope ss = meta_overlay (oa_meta a')"
      using list_sagas_OkD(1) [OF _ rebuilt(4)] st by (simp add: store_step_def)
    ultimately have "mem_step (oa_registry a) a'" using n by (intro mem_stepI) (simp_all add: mirrors_def)
    with st n show ?thesis by (simp add: node_step_def)
  qed
qed

section \<open>Booting a node\<close>

text \<open>The authority after a start: the booted one, or an empty registry over the file a failed start left.\<close>

definition booted ::
  "node_id \<Rightarrow> (bootstrap_error, boot_state) result \<times> cluster_meta_store option \<Rightarrow> owner_authority" where
  "booted n b = (case b of
     (Ok st, _) \<Rightarrow> bt_authority st
   | (Err _, file) \<Rightarrow> \<lparr>oa_registry = cluster_node n, oa_meta = (case file of Some m \<Rightarrow> m | None \<Rightarrow> empty_meta)\<rparr>)"

lemma cluster_node_sel [simp]:
  "reg_this_node (cluster_node n) = n" "reg_terms (cluster_node n) = Map.empty" "is_cluster_mode (cluster_node n)"
  by (simp_all add: cluster_node_def is_cluster_mode_def)

lemma mem_step_booted: "mem_step (cluster_node n) a' \<Longrightarrow> reg_this_node r = n \<Longrightarrow> mem_step r a'"
  by (auto simp: mem_step_def)

lemma same_install_trans: "same_install m m' \<Longrightarrow> same_install m' m'' \<Longrightarrow> same_install m m''"
  unfolding same_install_def by force

lemma store_step_after:
  assumes "same_install m m'" and "keeps_overlays (meta_overlay m) (meta_overlay m')" and "store_step H n m' m''"
  shows "store_step H n m m''"
  using assms same_install_trans [OF assms(1)] unfolding store_step_def same_install_def keeps_overlays_def by fastforce

lemma rebuild_holds:
  assumes "meta_wf m" and "rebuild_owner_registry_from_store sha io m r = Ok (g, r')"
  shows "holds (reg_this_node r) g m" and "\<exists>l. owner_pair_spec sha g l"
proof -
  from assms(2) obtain l ss where i: "installed_owner_snapshot sha (io 0) m = Ok (Some (g, l))"
    and r: "rebuild_from_owner_snapshot sha r g l ss = Ok r'"
    by (auto simp: rebuild_owner_registry_from_store_def split: prod.splits)
  from installed_OkD [OF assms(1) i] r show "holds (reg_this_node r) g m" and "\<exists>l. owner_pair_spec sha g l"
    by (auto simp: holds_def hterm_def rebuild_eq_Ok)
qed

lemma boot_install_cases:
  assumes "boot_install sha io g a = (res, a')"
  obtains (failed) "\<not> is_ok res" "oa_registry a' = oa_registry a"
      "oa_meta a' = oa_meta a \<or> (\<exists>l out. ls_recipient_node l = reg_this_node (oa_registry a)
         \<and> install_owner_snapshot sha (io 0) g l (oa_meta a) = Ok (out, oa_meta a'))"
  | (up) l out inst where "ls_recipient_node l = reg_this_node (oa_registry a)"
      "install_owner_snapshot sha (io 0) g l (oa_meta a) = Ok (out, oa_meta a')"
      "out = Installed \<or> out = AlreadyInstalled"
      "rebuild_owner_registry_from_store sha (\<lambda>k. io (Suc k)) (oa_meta a') (oa_registry a) = Ok (inst, oa_registry a')"
      "res = Ok \<lparr>bt_authority = a', bt_global = Some inst, bt_changed = True\<rparr>"
proof (cases "recipient_owner_snapshot sha g (reg_this_node (oa_registry a))")
  case (Inl e)
  then show ?thesis using assms by (intro that(1)) (auto simp: boot_install_def)
next
  case l: (Inr l)
  have rl: "ls_recipient_node l = reg_this_node (oa_registry a)"
    using l local_owner_state_snapshot_new_OkD(2) by (auto simp: recipient_owner_snapshot_def Let_def)
  show ?thesis
  proof (cases "install_owner_snapshot sha (io 0) g l (oa_meta a)")
    case (Inl e)
    then show ?thesis using assms l by (intro that(1)) (auto simp: boot_install_def)
  next
    case i: (Inr p)
    obtain out m where p: "p = (out, m)" by (cases p)
    show ?thesis
    proof (cases "\<exists>inst r. (out = Installed \<or> out = AlreadyInstalled)
        \<and> rebuild_owner_registry_from_store sha (\<lambda>k. io (Suc k)) m (oa_registry a) = Ok (inst, r)")
      case True
      then obtain inst r where "out = Installed \<or> out = AlreadyInstalled"
        "rebuild_owner_registry_from_store sha (\<lambda>k. io (Suc k)) m (oa_registry a) = Ok (inst, r)" by blast
      with assms l i p rl show ?thesis by (intro that(2) [of l out inst]) (auto simp: boot_install_def Let_def)
    next
      case False
      with assms l i p rl show ?thesis
        by (intro that(1)) (auto simp: boot_install_def Let_def split: if_splits sum.splits)
    qed
  qed
qed

lemma boot_install_new:
  assumes ok: "node_ok H n a" and "holds n (hd H) (oa_meta a)" and "gs_revision (hd H) < gs_revision g"
    and i: "boot_install sha io g a = (res, a')"
  shows "node_step H a a' \<and> same_install (oa_meta a) (oa_meta a') \<or> appended sha g a a'"
proof -
  have wf: "meta_wf (oa_meta a)" and n: "is_cluster_mode (oa_registry a)" "reg_this_node (oa_registry a) = n"
    using ok by (simp_all add: node_ok_def)
  have store: "same_install (oa_meta a) (oa_meta a') \<and> store_step H n (oa_meta a) (oa_meta a') \<and> out \<noteq> Installed \<and> out \<noteq> AlreadyInstalled
      \<or> meta_wf (oa_meta a') \<and> holds n g (oa_meta a') \<and> keeps_overlays (meta_overlay (oa_meta a)) (meta_overlay (oa_meta a'))
        \<and> (\<exists>l. installed_owner_snapshot sha True (oa_meta a') = Ok (Some (g, l)))"
    if l: "ls_recipient_node l = n" and r: "install_owner_snapshot sha (io 0) g l (oa_meta a) = Ok (out, oa_meta a')" for l out
    using install_new [OF ok assms(2,3) l r] install_same [OF wf r] by blast
  from i show ?thesis
  proof (cases rule: boot_install_cases)
    case failed
    then have mem: "mem_step (oa_registry a) a'" using n by (intro mem_stepI) simp_all
    from failed(3) n mem store store_step_refl [OF wf, of H n] show ?thesis
      by (auto simp: node_step_def appended_def)
  next
    case (up l out inst)
    from store [OF _ up(2)] up(1,3) n have m: "meta_wf (oa_meta a')" "holds n g (oa_meta a')"
      "keeps_overlays (meta_overlay (oa_meta a)) (meta_overlay (oa_meta a'))"
      "\<exists>l. installed_owner_snapshot sha True (oa_meta a') = Ok (Some (g, l))" by auto
    from rebuild_from_store_boot(1,2) [OF m(1) up(4)] n have "mem_step (oa_registry a) a'"
      by (intro mem_stepI) (simp_all add: mirrors_def)
    with m n show ?thesis by (simp add: appended_def)
  qed
qed

end
