(* ===== verification/Authority_Restart.thy ===== *)
theory Authority_Restart
  imports Authority_Steps
begin

text \<open>
  A restart of a node is again one of the three kinds of change: a member rebuilds from its
  file, the chef additionally appends a snapshot that only adds the scopes of its boot roster.
\<close>

text \<open>The chef keeps its installation or appends a snapshot that keeps every term.\<close>

definition chef_stored ::
  "(bytes \<Rightarrow> bytes) \<Rightarrow> owner_term_snapshot list \<Rightarrow> node_id \<Rightarrow> cluster_meta_store \<Rightarrow> cluster_meta_store \<Rightarrow> bool" where
  "chef_stored sha H n m m' \<longleftrightarrow> meta_wf m' \<and> keeps_overlays (meta_overlay m) (meta_overlay m') \<and>
     (same_install m m' \<or> (\<exists>g l. holds n g m' \<and> installed_owner_snapshot sha True m' = Ok (Some (g, l))
        \<and> follows g (hd H) \<and> hterm (hd H) \<subseteq>\<^sub>m hterm g))"

definition chef_extended :: "(bytes \<Rightarrow> bytes) \<Rightarrow> owner_term_snapshot list \<Rightarrow> owner_authority \<Rightarrow> owner_authority \<Rightarrow> bool" where
  "chef_extended sha H a a' \<longleftrightarrow> chef_stored sha H (reg_this_node (oa_registry a)) (oa_meta a) (oa_meta a') \<and> mem_step (oa_registry a) a'"

lemma chef_extendedI:
  "node_step H a a' \<and> same_install (oa_meta a) (oa_meta a') \<or> appended sha g a a' \<Longrightarrow> follows g (hd H) \<Longrightarrow>
     hterm (hd H) \<subseteq>\<^sub>m hterm g \<Longrightarrow> chef_extended sha H a a'"
  by (auto simp: chef_extended_def chef_stored_def node_step_def store_step_def appended_def)

lemma chef_stored_same: "store_step H n m m' \<Longrightarrow> same_install m m' \<Longrightarrow> chef_stored sha H n m m'"
  by (simp add: chef_stored_def store_step_def)

lemma extension_of_held:
  assumes "holds n (hd H) m" and "holds n g m" and "owner_pair_spec sha g l"
    and "extend_owner_snapshot_for_agents sha g agents c seed = Ok (g', True)"
  shows "follows g' (hd H)" and "hterm (hd H) \<subseteq>\<^sub>m hterm g'"
proof -
  have "hterm g = hterm (hd H)" "gs_revision g = gs_revision (hd H)" using assms(1,2) by (auto simp: holds_def)
  with extend_snapshot [OF assms(4,3)] show "follows g' (hd H)" and "hterm (hd H) \<subseteq>\<^sub>m hterm g'"
    by (simp_all add: follows_def)
qed

lemma boot_marker_step:
  assumes ok: "node_ok H n a" and mk: "install_marker io1 (oa_meta a) = Ok marker"
    and seed: "seed \<longrightarrow> meta_marker (oa_meta a) \<noteq> None"
    and b: "boot_from_marker sha io seed agents marker a = (res, a')"
  shows "node_step H a a' \<and> oa_meta a' = oa_meta a" and "res = Ok st \<Longrightarrow> bt_authority st = a'"
    and "res = Ok st \<Longrightarrow> seed \<Longrightarrow> \<exists>g l. bt_global st = Some g \<and> holds n g (oa_meta a) \<and> owner_pair_spec sha g l"
proof -
  have wf: "meta_wf (oa_meta a)" and n: "is_cluster_mode (oa_registry a)" "reg_this_node (oa_registry a) = n"
    using ok by (simp_all add: node_ok_def)
  have stay: "node_step H a a" using mem_step_refl [OF n(1)] n wf by (simp add: node_step_def store_step_refl)
  have m: "meta_marker (oa_meta a) = marker" using mk by (cases marker) (auto simp: install_marker_def meta_marker_def)
  have gen: "im_generation x = TRACK_A_COORDINATOR_GENERATION" if "marker = Some x" for x
    using that ok m by (auto simp: node_ok_def blank_def holds_def)
  let ?rb = "rebuild_owner_registry_from_store sha io (oa_meta a) (oa_registry a)"
  consider (none) "\<not> seed" "res = Ok \<lparr>bt_authority = a, bt_global = None, bt_changed = False\<rparr>" "a' = a"
    | (bad) "\<not> is_ok res" "a' = a"
    | (up) g r where "?rb = Ok (g, r)" "a' = a\<lparr>oa_registry := r\<rparr>"
        "res = Ok \<lparr>bt_authority = a', bt_global = Some g, bt_changed = False\<rparr>"
  proof (cases marker)
    case None
    with seed m b show ?thesis by (intro that(1)) (auto simp: boot_from_marker_def)
  next
    case (Some x)
    note x = Some gen [OF Some]
    show ?thesis
    proof (cases ?rb)
      case (Inl e)
      with b x show ?thesis by (intro that(2)) (auto simp: boot_from_marker_def)
    next
      case (Inr p)
      with b x show ?thesis by (intro that(3) [of "fst p" "snd p"]) (auto simp: boot_from_marker_def Let_def split: prod.splits)
    qed
  qed
  then have "node_step H a a' \<and> oa_meta a' = oa_meta a \<and> (res = Ok st \<longrightarrow> bt_authority st = a')
    \<and> (res = Ok st \<longrightarrow> seed \<longrightarrow> (\<exists>g l. bt_global st = Some g \<and> holds n g (oa_meta a) \<and> owner_pair_spec sha g l))" for st
  proof cases
    case none
    with stay show ?thesis by auto
  next
    case bad
    with stay show ?thesis by auto
  next
    case up
    from rebuild_from_store_boot(1,2) [OF wf up(1)] up(2) n have "mem_step (oa_registry a) a'"
      by (intro mem_stepI) (simp_all add: mirrors_def)
    with up rebuild_holds [OF wf up(1)] n wf show ?thesis by (auto simp: node_step_def store_step_refl)
  qed
  then show "node_step H a a' \<and> oa_meta a' = oa_meta a" and "res = Ok st \<Longrightarrow> bt_authority st = a'"
    and "res = Ok st \<Longrightarrow> seed \<Longrightarrow> \<exists>g l. bt_global st = Some g \<and> holds n g (oa_meta a) \<and> owner_pair_spec sha g l" for st
    by blast+
qed

lemma boot_marker_meta:
  assumes "node_ok H n \<lparr>oa_registry = r, oa_meta = m\<rparr>" and "install_marker io1 m = Ok marker"
    and "seed \<longrightarrow> meta_marker m \<noteq> None"
    and "\<exists>e. boot_from_marker sha io seed agents marker \<lparr>oa_registry = r, oa_meta = m\<rparr> = (Err e, a')"
  shows "oa_meta a' = m"
proof -
  from assms(4) obtain e where "boot_from_marker sha io seed agents marker \<lparr>oa_registry = r, oa_meta = m\<rparr> = (Err e, a')" ..
  from boot_marker_step(1) [OF assms(1) _ _ this, of io1] assms(2,3) show ?thesis by simp
qed

lemma boot_roster_step:
  assumes ok: "node_ok H n (bt_authority b)" and hd: "holds n (hd H) (oa_meta (bt_authority b))"
    and g: "bt_global b = Some g" "holds n g (oa_meta (bt_authority b))" "owner_pair_spec sha g l"
    and r: "boot_roster sha io True agents b = (res, a')"
  shows "chef_stored sha H n (oa_meta (bt_authority b)) (oa_meta a')"
    and "res = Ok b' \<Longrightarrow> bt_authority b' = a' \<and> (a' = bt_authority b \<or>
      mirrors (oa_registry a') (oa_meta a') \<and> reg_this_node (oa_registry a') = n)"
proof -
  let ?a = "bt_authority b" let ?c = "?a\<lparr>oa_registry := close_owner_readiness (oa_registry ?a)\<rparr>"
  have wf: "meta_wf (oa_meta ?a)" and n: "is_cluster_mode (oa_registry ?a)" "reg_this_node (oa_registry ?a) = n"
    using ok by (simp_all add: node_ok_def)
  have okc: "node_ok H n ?c" and hdc: "holds n (hd H) (oa_meta ?c)" using ok hd by (simp_all add: node_ok_def)
  let ?ext = "extend_owner_snapshot_for_agents sha g agents n True"
  consider (stop) "a' = ?a" "\<forall>b'. res = Ok b' \<longrightarrow> b' = b"
    | (grow) g' where "?ext = Ok (g', True)" "boot_install sha io g' ?c = (res, a')"
    using r g(1) n by (cases ?ext) (auto simp: boot_roster_def Let_def split: if_splits)
  then have "chef_stored sha H n (oa_meta ?a) (oa_meta a') \<and> (\<forall>b'. res = Ok b' \<longrightarrow> bt_authority b' = a' \<and>
      (a' = ?a \<or> mirrors (oa_registry a') (oa_meta a') \<and> reg_this_node (oa_registry a') = n))"
  proof cases
    case stop
    with chef_stored_same [OF store_step_refl [OF wf]] show ?thesis by auto
  next
    case grow
    note e = extension_of_held [OF hd g(2,3) grow(1)]
    have "gs_revision (hd H) < gs_revision g'" using e(1) by (simp add: follows_def)
    from chef_extendedI [OF boot_install_new [OF okc hdc this grow(2)] e]
    have st: "chef_stored sha H n (oa_meta ?a) (oa_meta a')" using n by (simp add: chef_extended_def)
    from grow(2) have "\<forall>b'. res = Ok b' \<longrightarrow> bt_authority b' = a' \<and>
      mirrors (oa_registry a') (oa_meta a') \<and> reg_this_node (oa_registry a') = n"
    proof (cases rule: boot_install_cases)
      case (up l out inst)
      from rebuild_from_store_boot(1,2) [OF _ up(4)] up(5) st n show ?thesis by (simp add: chef_stored_def)
    qed auto
    with st show ?thesis by blast
  qed
  then show "chef_stored sha H n (oa_meta ?a) (oa_meta a')"
    and "res = Ok b' \<Longrightarrow> bt_authority b' = a' \<and> (a' = ?a \<or>
      mirrors (oa_registry a') (oa_meta a') \<and> reg_this_node (oa_registry a') = n)" by blast+
qed

text \<open>The two stages after a successful open, from the fresh registry.\<close>

lemma boot_stages:
  assumes "boot_owner_authority sha io None n seed agents (Some m0) = (res, file)"
  obtains (closed) m where "booted n (res, file) = \<lparr>oa_registry = cluster_node n, oa_meta = m\<rparr>"
      "m = m0 \<or> open_store (io 0) (Some m0) = Ok m"
  | (marker_failed) m marker a where "open_store (io 0) (Some m0) = Ok m" "install_marker (io 1) m = Ok marker"
      "\<exists>e. boot_from_marker sha (\<lambda>k. io (2 + k)) seed agents marker \<lparr>oa_registry = cluster_node n, oa_meta = m\<rparr> = (Err e, a)"
      "booted n (res, file) = \<lparr>oa_registry = cluster_node n, oa_meta = oa_meta a\<rparr>"
  | (roster) m marker a b res' a' where "open_store (io 0) (Some m0) = Ok m" "install_marker (io 1) m = Ok marker"
      "boot_from_marker sha (\<lambda>k. io (2 + k)) seed agents marker \<lparr>oa_registry = cluster_node n, oa_meta = m\<rparr> = (Ok b, a)"
      "boot_roster sha (\<lambda>k. io (5 + k)) seed agents b = (res', a')"
      "booted n (res, file) = (case res' of Ok b' \<Rightarrow> bt_authority b' | Err _ \<Rightarrow> \<lparr>oa_registry = cluster_node n, oa_meta = oa_meta a'\<rparr>)"
proof (cases "open_store (io 0) (Some m0)")
  case (Inl e)
  with assms show ?thesis
    by (intro that(1) [of m0]) (auto simp: boot_owner_authority_def init_cluster_def global_registry_def booted_def)
next
  case o: (Inr m)
  let ?a = "\<lparr>oa_registry = cluster_node n, oa_meta = m\<rparr>"
  show ?thesis
  proof (cases "install_marker (io 1) m")
    case (Inl e)
    with assms o show ?thesis
      by (intro that(1) [of m]) (auto simp: boot_owner_authority_def init_cluster_def global_registry_def booted_def)
  next
    case mk: (Inr marker)
    show ?thesis
    proof (cases "case marker of Some mk \<Rightarrow> im_generation mk \<noteq> 0 \<and> im_generation mk \<noteq> TRACK_A_COORDINATOR_GENERATION | None \<Rightarrow> False")
      case True
      with assms o mk show ?thesis
        by (intro that(1) [of m]) (auto simp: boot_owner_authority_def init_cluster_def global_registry_def booted_def)
    next
      case False
      obtain r1 a where b: "boot_from_marker sha (\<lambda>k. io (2 + k)) seed agents marker ?a = (r1, a)" by force
      show ?thesis
      proof (cases r1)
        case (Inl e)
        with assms o mk False b show ?thesis
          by (intro that(2) [OF o mk, of a]) (auto simp: boot_owner_authority_def init_cluster_def global_registry_def booted_def)
      next
        case (Inr b0)
        obtain r2 a' where r2: "boot_roster sha (\<lambda>k. io (5 + k)) seed agents b0 = (r2, a')" by force
        with assms o mk False b Inr show ?thesis
          by (intro that(3) [OF o mk b [unfolded Inr] r2])
            (cases r2; auto simp: boot_owner_authority_def init_cluster_def global_registry_def booted_def)
      qed
    qed
  qed
qed

text \<open>Opening the file.\<close>

lemma open_fresh:
  assumes "node_ok H n a" and "open_store ok (Some (oa_meta a)) = Ok m"
  shows "node_ok H n \<lparr>oa_registry = cluster_node n, oa_meta = m\<rparr>" and "same_install (oa_meta a) m"
    and "keeps_overlays (meta_overlay (oa_meta a)) (meta_overlay m)" and "meta_wf m"
proof -
  have wf: "meta_wf (oa_meta a)" using assms(1) by (simp add: node_ok_def)
  note o = open_store_keeps [OF wf assms(2)]
  show same: "same_install (oa_meta a) m" and "meta_wf m" using o by (simp_all add: same_install_tables)
  show "keeps_overlays (meta_overlay (oa_meta a)) (meta_overlay m)" using o(4) by (auto simp: keeps_overlays_def)
  have "blank m \<or> (\<exists>g \<in> set H. holds n g m)"
    using assms(1) same holds_same blank_same unfolding node_ok_def by metis
  then show "node_ok H n \<lparr>oa_registry = cluster_node n, oa_meta = m\<rparr>" using o(1) by (simp add: node_ok_def)
qed

lemma mem_step_fresh: "reg_this_node r = n \<Longrightarrow> mem_step r \<lparr>oa_registry = cluster_node n, oa_meta = m\<rparr>"
  by (simp add: mem_step_def)

lemma restart_member:
  assumes ok: "node_ok H n a"
    and b: "boot_owner_authority sha io None n False agents (Some (oa_meta a)) = (res, file)"
  shows "node_step H a (booted n (res, file))"
proof -
  have wf: "meta_wf (oa_meta a)" and n: "reg_this_node (oa_registry a) = n" using ok by (simp_all add: node_ok_def)
  have from_open: "store_step H n (oa_meta a) m'" if "open_store (io 0) (Some (oa_meta a)) = Ok m" "store_step H n m m'" for m m'
    by (rule store_step_after [OF open_fresh(2,3) [OF ok that(1)] that(2)])
  from b show ?thesis
  proof (cases rule: boot_stages)
    case (closed m)
    from closed(2) have "store_step H n (oa_meta a) m"
    proof
      assume o: "open_store (io 0) (Some (oa_meta a)) = Ok m"
      show ?thesis by (rule from_open [OF o store_step_refl [OF open_fresh(4) [OF ok o]]])
    qed (simp add: store_step_refl wf)
    with closed(1) n show ?thesis by (simp add: node_step_def mem_step_fresh)
  next
    case (marker_failed m marker a1)
    note fresh = open_fresh [OF ok marker_failed(1)]
    have "oa_meta a1 = m" by (rule boot_marker_meta [OF fresh(1) marker_failed(2) _ marker_failed(3)]) simp
    with marker_failed(4) n from_open [OF marker_failed(1) store_step_refl [OF fresh(4)]] show ?thesis
      by (simp add: node_step_def mem_step_fresh)
  next
    case (roster m marker a1 b0 res' a')
    note fresh = open_fresh [OF ok roster(1)]
    have mk: "install_marker (io 1) (oa_meta \<lparr>oa_registry = cluster_node n, oa_meta = m\<rparr>) = Ok marker"
      "False \<longrightarrow> meta_marker (oa_meta \<lparr>oa_registry = cluster_node n, oa_meta = m\<rparr>) \<noteq> None"
      using roster(2) by simp_all
    note st = boot_marker_step(1) [OF fresh(1) mk roster(3), THEN conjunct1] boot_marker_step(2) [OF fresh(1) mk roster(3) refl]
    have "res' = Ok b0" using roster(4) by (simp add: boot_roster_def)
    then have up: "booted n (res, file) = a1" using roster(5) st(2) by simp
    have "store_step H n (oa_meta a) (oa_meta a1)"
      by (rule from_open [OF roster(1)]) (use st(1) in \<open>simp add: node_step_def\<close>)
    moreover have "mem_step (oa_registry a) a1"
      by (rule mem_step_booted [OF _ n]) (use st(1) in \<open>simp add: node_step_def\<close>)
    ultimately show ?thesis using up n by (simp add: node_step_def)
  qed
qed

lemma chef_stored_after:
  assumes "same_install m m'" and "keeps_overlays (meta_overlay m) (meta_overlay m')" and "chef_stored sha H n m' m''"
  shows "chef_stored sha H n m m''"
  using assms same_install_trans [OF assms(1)] unfolding chef_stored_def keeps_overlays_def by blast

lemma restart_chef:
  assumes ok: "node_ok H n a" and hd: "holds n (hd H) (oa_meta a)"
    and b: "boot_owner_authority sha io None n True agents (Some (oa_meta a)) = (res, file)"
  shows "chef_extended sha H a (booted n (res, file))"
proof -
  have wf: "meta_wf (oa_meta a)" and n: "reg_this_node (oa_registry a) = n" using ok by (simp_all add: node_ok_def)
  have same: "chef_stored sha H n m m" if "meta_wf m" for m
    using chef_stored_same [OF store_step_refl [OF that]] by simp
  have from_open: "chef_stored sha H n (oa_meta a) m'" if "open_store (io 0) (Some (oa_meta a)) = Ok m" "chef_stored sha H n m m'" for m m'
    by (rule chef_stored_after [OF open_fresh(2,3) [OF ok that(1)] that(2)])
  have held: "holds n (hd H) m" "meta_marker m \<noteq> None" if "open_store (io 0) (Some (oa_meta a)) = Ok m" for m
    using holds_same [OF hd open_fresh(2) [OF ok that]] by (auto simp: holds_def)
  from b show ?thesis
  proof (cases rule: boot_stages)
    case (closed m)
    from closed(2) have "chef_stored sha H n (oa_meta a) m"
    proof
      assume o: "open_store (io 0) (Some (oa_meta a)) = Ok m"
      show ?thesis by (rule from_open [OF o same [OF open_fresh(4) [OF ok o]]])
    qed (simp add: same wf)
    with closed(1) n show ?thesis by (simp add: chef_extended_def mem_step_fresh)
  next
    case (marker_failed m marker a1)
    note fresh = open_fresh [OF ok marker_failed(1)]
    have "oa_meta a1 = m"
      by (rule boot_marker_meta [OF fresh(1) marker_failed(2) _ marker_failed(3)]) (simp add: held(2) [OF marker_failed(1)])
    with marker_failed(4) n from_open [OF marker_failed(1) same [OF fresh(4)]] show ?thesis
      by (simp add: chef_extended_def mem_step_fresh)
  next
    case (roster m marker a1 b0 res' a')
    note fresh = open_fresh [OF ok roster(1)]
    have mk: "install_marker (io 1) (oa_meta \<lparr>oa_registry = cluster_node n, oa_meta = m\<rparr>) = Ok marker"
      "True \<longrightarrow> meta_marker (oa_meta \<lparr>oa_registry = cluster_node n, oa_meta = m\<rparr>) \<noteq> None"
      using roster(2) held(2) [OF roster(1)] by simp_all
    note st = boot_marker_step [OF fresh(1) mk roster(3)]
    have b0: "bt_authority b0 = a1" and a1: "oa_meta a1 = m" "mem_step (cluster_node n) a1"
      using st(1,2) by (auto simp: node_step_def)
    obtain g l where g: "bt_global b0 = Some g" "holds n g m" "owner_pair_spec sha g l" using st(3) by auto
    have "node_ok H n (bt_authority b0)"
      using fresh(1) a1 b0 by (simp add: node_ok_def mem_step_def)
    note rs = boot_roster_step [OF this _ g(1) _ g(3) roster(4)]
    have store: "chef_stored sha H n (oa_meta a) (oa_meta a')"
      using from_open [OF roster(1)] rs(1) held(1) [OF roster(1)] a1 b0 g(2) by simp
    show ?thesis
    proof (cases res')
      case (Inl e)
      with roster(5) store n show ?thesis by (simp add: chef_extended_def mem_step_fresh)
    next
      case (Inr b')
      from rs(2) [OF _ _ Inr] held(1) [OF roster(1)] a1(1) b0 g(2)
      have "bt_authority b' = a'" "a' = a1 \<or> mirrors (oa_registry a') (oa_meta a') \<and> reg_this_node (oa_registry a') = n"
        by simp_all
      note up = this
      have "booted n (res, file) = a'" using roster(5) Inr up(1) by simp
      moreover have "mem_step (oa_registry a) a'" using up(2)
      proof
        assume "a' = a1"
        then show ?thesis using mem_step_booted [OF a1(2) n] by simp
      next
        assume "mirrors (oa_registry a') (oa_meta a') \<and> reg_this_node (oa_registry a') = n"
        then show ?thesis using n by (simp add: mem_step_def mirrors_def)
      qed
      ultimately show ?thesis using store n by (simp add: chef_extended_def)
    qed
  qed
qed

end
