(* ===== verification/Cluster.thy ===== *)
theory Cluster
  imports Authority_Restart
begin

text \<open>
  The whole cluster: one authority per node, the chef driving any number of handoffs at once,
  materialisations and replication, messages delivered late or twice, storage calls failing,
  nodes restarting.  The steps themselves have no conditions but those of the code; each
  carries the event it answers to, so that a statement can say which runs it is about.
\<close>

section \<open>The steps\<close>

text \<open>Where a running \<open>run_handoff\<close> stands: its request, the term it read and the epoch it commits.\<close>

datatype saga_phase =
    Preparing handoff_request owner_term u64
  | Prepared handoff_request owner_term u64
  | Published handoff_request owner_term u64 owner_term_snapshot

fun saga_scope :: "saga_phase \<Rightarrow> state_transfer_scope" where
  "saga_scope (Preparing req cur ne) = hr_scope req"
| "saga_scope (Prepared req cur ne) = hr_scope req"
| "saga_scope (Published req cur ne g) = hr_scope req"

fun unpublished :: "saga_phase \<Rightarrow> bool" where
  "unpublished (Published req cur ne g) \<longleftrightarrow> False"
| "unpublished p \<longleftrightarrow> True"

text \<open>Running handoffs are told apart by a number.\<close>

record cluster =
  cl_nodes :: "node_id \<Rightarrow> owner_authority"
  cl_sent :: "(node_id \<times> control_request) set"
  cl_history :: "owner_term_snapshot list"
  cl_sagas :: "nat \<rightharpoonup> saga_phase"

datatype cluster_event = Begin handoff_request | Executes node_id control_request | Internal

text \<open>The history gains the snapshot of the chef's store when its revision is new.\<close>

definition record_head ::
  "(bytes \<Rightarrow> bytes) \<Rightarrow> cluster_meta_store \<Rightarrow> owner_term_snapshot list \<Rightarrow> owner_term_snapshot list" where
  "record_head sha m H = (case installed_owner_snapshot sha True m of
     Ok (Some (g, _)) \<Rightarrow> if gs_revision (hd H) < gs_revision g then g # H else H
   | _ \<Rightarrow> H)"

definition published ::
  "handoff_request \<Rightarrow> owner_term \<Rightarrow> u64 \<Rightarrow> (handoff_error, owner_term_snapshot) result \<Rightarrow> saga_phase option" where
  "published req cur ne res = (case res of Ok g \<Rightarrow> Some (Published req cur ne g) | Err _ \<Rightarrow> None)"

inductive cluster_step ::
  "(bytes \<Rightarrow> bytes) \<Rightarrow> uuid_parser \<Rightarrow> authenticated_peer \<Rightarrow> node_id \<Rightarrow> cluster \<Rightarrow> cluster_event \<Rightarrow> cluster \<Rightarrow> bool"
  for sha pu peer c where
  deliver: "(n, req) \<in> cl_sent \<sigma> \<Longrightarrow> n \<noteq> c \<Longrightarrow>
     owner_handle sha pu io n peer req (cl_nodes \<sigma> n) = (resp, a') \<Longrightarrow>
     cluster_step sha pu peer c \<sigma> (Executes n req) (\<sigma>\<lparr>cl_nodes := (cl_nodes \<sigma>)(n := a')\<rparr>)"
| replicate: "g \<in> set (cl_history \<sigma>) \<or> (\<exists>ok l. installed_owner_snapshot sha ok (oa_meta (cl_nodes \<sigma> c)) = Ok (Some (g, l))) \<Longrightarrow>
     local_snapshot_for sha g k = Ok l \<Longrightarrow>
     cluster_step sha pu peer c \<sigma> Internal (\<sigma>\<lparr>cl_sent := insert (n, ReplicateOwnerSnapshot g l) (cl_sent \<sigma>)\<rparr>)"
| begin_handoff: "cl_sagas \<sigma> i = None \<Longrightarrow>
     handoff_begin alias_for_node req (oa_registry (cl_nodes \<sigma> c)) = Ok (cur, source_alias, ne) \<Longrightarrow>
     cluster_step sha pu peer c \<sigma> (Begin req) (\<sigma>\<lparr>cl_sagas := (cl_sagas \<sigma>)(i \<mapsto> Preparing req cur ne),
       cl_sent := insert (n, PrepareHandoff (to_wire (hr_scope req)) (ot_epoch cur)) (cl_sent \<sigma>)\<rparr>)"
| prepare_remote: "cl_sagas \<sigma> i = Some (Preparing req cur ne) \<Longrightarrow> n \<noteq> c \<Longrightarrow>
     owner_handle sha pu io n peer (PrepareHandoff (to_wire (hr_scope req)) (ot_epoch cur)) (cl_nodes \<sigma> n)
       = (HandoffPrepared w ep, a') \<Longrightarrow>
     cluster_step sha pu peer c \<sigma> (Executes n (PrepareHandoff (to_wire (hr_scope req)) (ot_epoch cur)))
       (\<sigma>\<lparr>cl_nodes := (cl_nodes \<sigma>)(n := a'), cl_sagas := (cl_sagas \<sigma>)(i \<mapsto> Prepared req cur ne)\<rparr>)"
| prepare_local: "cl_sagas \<sigma> i = Some (Preparing req cur ne) \<Longrightarrow>
     prepare_locally sha io (to_wire (hr_scope req)) (ot_epoch cur) (cl_nodes \<sigma> c) = (res, a') \<Longrightarrow>
     cluster_step sha pu peer c \<sigma> (Executes c (PrepareHandoff (to_wire (hr_scope req)) (ot_epoch cur)))
       (\<sigma>\<lparr>cl_nodes := (cl_nodes \<sigma>)(c := a'),
         cl_sagas := (cl_sagas \<sigma>)(i := if is_ok res then Some (Prepared req cur ne) else None)\<rparr>)"
| end_handoff: "cluster_step sha pu peer c \<sigma> Internal (\<sigma>\<lparr>cl_sagas := (cl_sagas \<sigma>)(i := None)\<rparr>)"
| install: "cl_sagas \<sigma> i = Some (Prepared req cur ne) \<Longrightarrow>
     handoff_install sha io req ne (cl_nodes \<sigma> c) = (res, a') \<Longrightarrow>
     cluster_step sha pu peer c \<sigma> Internal (\<sigma>\<lparr>cl_nodes := (cl_nodes \<sigma>)(c := a'),
       cl_history := record_head sha (oa_meta a') (cl_history \<sigma>),
       cl_sagas := (cl_sagas \<sigma>)(i := published req cur ne res)\<rparr>)"
| replicate_local: "cl_sagas \<sigma> i = Some (Published req cur ne g) \<Longrightarrow>
     local_snapshot_for sha g k = Ok l \<Longrightarrow> install_locally sha io g l (cl_nodes \<sigma> c) = (res, a') \<Longrightarrow>
     cluster_step sha pu peer c \<sigma> Internal (\<sigma>\<lparr>cl_nodes := (cl_nodes \<sigma>)(c := a')\<rparr>)"
| send_commit: "cl_sagas \<sigma> i = Some (Published req cur ne g) \<Longrightarrow>
     cluster_step sha pu peer c \<sigma> Internal
       (\<sigma>\<lparr>cl_sent := insert (n, OwnerCommit (to_wire (hr_scope req)) owner ne) (cl_sent \<sigma>)\<rparr>)"
| commit_local: "cl_sagas \<sigma> i = Some (Published req cur ne g) \<Longrightarrow>
     commit_locally sha io (to_wire (hr_scope req)) (hr_target_node req) ne (cl_nodes \<sigma> c) = (res, a') \<Longrightarrow>
     cluster_step sha pu peer c \<sigma> (Executes c (OwnerCommit (to_wire (hr_scope req)) owner ne))
       (\<sigma>\<lparr>cl_nodes := (cl_nodes \<sigma>)(c := a')\<rparr>)"
| materialize: "materialize_owner_scopes sha io agents True (cl_nodes \<sigma> c) = (res, a') \<Longrightarrow>
     cluster_step sha pu peer c \<sigma> Internal (\<sigma>\<lparr>cl_nodes := (cl_nodes \<sigma>)(c := a'),
       cl_history := record_head sha (oa_meta a') (cl_history \<sigma>)\<rparr>)"
| restart_node: "n \<noteq> c \<Longrightarrow>
     boot_owner_authority sha io None n False agents (Some (oa_meta (cl_nodes \<sigma> n))) = b \<Longrightarrow>
     cluster_step sha pu peer c \<sigma> Internal (\<sigma>\<lparr>cl_nodes := (cl_nodes \<sigma>)(n := booted n b)\<rparr>)"
| restart_coordinator: "boot_owner_authority sha io None c True agents (Some (oa_meta (cl_nodes \<sigma> c))) = b \<Longrightarrow>
     cluster_step sha pu peer c \<sigma> Internal (\<sigma>\<lparr>cl_nodes := (cl_nodes \<sigma>)(c := booted c b),
       cl_history := record_head sha (oa_meta (booted c b)) (cl_history \<sigma>), cl_sagas := Map.empty\<rparr>)"
| close_readiness: "cluster_step sha pu peer c \<sigma> Internal
     (\<sigma>\<lparr>cl_nodes := (cl_nodes \<sigma>)(n := (cl_nodes \<sigma> n)\<lparr>oa_registry := close_owner_readiness (oa_registry (cl_nodes \<sigma> n))\<rparr>)\<rparr>)"
| reopen_readiness: "reopen_owner_readiness (oa_registry (cl_nodes \<sigma> n)) = Ok r \<Longrightarrow>
     cluster_step sha pu peer c \<sigma> Internal (\<sigma>\<lparr>cl_nodes := (cl_nodes \<sigma>)(n := (cl_nodes \<sigma> n)\<lparr>oa_registry := r\<rparr>)\<rparr>)"

text \<open>At first the members are empty and the chef has booted its seed snapshot.\<close>

definition cluster_start :: "node_id \<Rightarrow> boot_state \<Rightarrow> cluster" where
  "cluster_start c b = \<lparr>cl_nodes = (\<lambda>n. if n = c then bt_authority b else \<lparr>oa_registry = cluster_node n, oa_meta = empty_meta\<rparr>),
     cl_sent = {}, cl_history = (case bt_global b of Some g \<Rightarrow> [g] | None \<Rightarrow> []), cl_sagas = Map.empty\<rparr>"

text \<open>The states of the runs in which every event meets a condition on the state before it.\<close>

inductive cluster_reachable ::
  "(cluster \<Rightarrow> cluster_event \<Rightarrow> bool) \<Rightarrow> (bytes \<Rightarrow> bytes) \<Rightarrow> uuid_parser \<Rightarrow> authenticated_peer \<Rightarrow> node_id \<Rightarrow> cluster \<Rightarrow> bool"
  for cond sha pu peer c where
  start: "boot_owner_authority sha io None c True agents None = (Ok b, file) \<Longrightarrow>
     cluster_reachable cond sha pu peer c (cluster_start c b)"
| step: "cluster_reachable cond sha pu peer c \<sigma> \<Longrightarrow> cond \<sigma> ev \<Longrightarrow> cluster_step sha pu peer c \<sigma> ev \<sigma>' \<Longrightarrow>
     cluster_reachable cond sha pu peer c \<sigma>'"

text \<open>
  An orderly run.  A handoff begins when the chef's registry agrees with its store about the
  scope and no other handoff of that scope is still to install its term.  An \<open>OwnerCommit\<close> is
  executed while the epoch it commits is the chef's current one and no later handoff of the
  scope has begun to replace it.  The code enforces neither: operator requests call
  \<open>run_handoff\<close> concurrently, a failed rebuild leaves the registry behind the store, and
  \<open>handle_owner_commit\<close> has no way to tell a late message.
\<close>

definition being_replaced :: "cluster \<Rightarrow> state_transfer_scope \<Rightarrow> bool" where
  "being_replaced \<sigma> s \<longleftrightarrow> (\<exists>i p. cl_sagas \<sigma> i = Some p \<and> unpublished p \<and> saga_scope p = s)"

definition current_epoch :: "node_id \<Rightarrow> cluster \<Rightarrow> state_transfer_scope \<Rightarrow> u64 \<Rightarrow> bool" where
  "current_epoch c \<sigma> s ep \<longleftrightarrow> (\<exists>t. meta_term (oa_meta (cl_nodes \<sigma> c)) s = Some t \<and> ot_epoch t = ep)"

fun orderly :: "node_id \<Rightarrow> cluster \<Rightarrow> cluster_event \<Rightarrow> bool" where
  "orderly c \<sigma> (Begin req) \<longleftrightarrow> \<not> being_replaced \<sigma> (hr_scope req)
     \<and> reg_terms (oa_registry (cl_nodes \<sigma> c)) (hr_scope req) = meta_term (oa_meta (cl_nodes \<sigma> c)) (hr_scope req)"
| "orderly c \<sigma> (Executes n (OwnerCommit w owner ep)) \<longleftrightarrow>
     (\<forall>s. w = to_wire s \<longrightarrow> \<not> being_replaced \<sigma> s \<and> current_epoch c \<sigma> s ep)"
| "orderly c \<sigma> ev \<longleftrightarrow> True"

section \<open>The cluster invariant\<close>

text \<open>What is on the way: preparations, snapshots of the history, and commits for some scope.\<close>

definition sent_ok :: "owner_term_snapshot list \<Rightarrow> (node_id \<times> control_request) set \<Rightarrow> bool" where
  "sent_ok H S \<longleftrightarrow> (\<forall>n req. (n, req) \<in> S \<longrightarrow> (\<exists>w ep. req = PrepareHandoff w ep)
     \<or> (\<exists>g l. req = ReplicateOwnerSnapshot g l \<and> in_history H g) \<or> (\<exists>s owner ep. req = OwnerCommit (to_wire s) owner ep))"

fun saga_ok :: "owner_term_snapshot list \<Rightarrow> (node_id \<Rightarrow> owner_authority) \<Rightarrow> saga_phase \<Rightarrow> bool" where
  "saga_ok H N (Preparing req cur ne) \<longleftrightarrow> hterm (hd H) (hr_scope req) = Some cur \<and> ot_epoch cur < ne"
| "saga_ok H N (Prepared req cur ne) \<longleftrightarrow> hterm (hd H) (hr_scope req) = Some cur \<and> ot_epoch cur < ne
     \<and> retired_at N (hr_scope req) cur"
| "saga_ok H N (Published req cur ne g) \<longleftrightarrow> g \<in> set H"

definition sagas_ok_at ::
  "owner_term_snapshot list \<Rightarrow> (node_id \<Rightarrow> owner_authority) \<Rightarrow> (nat \<rightharpoonup> saga_phase) \<Rightarrow> bool" where
  "sagas_ok_at H N P \<longleftrightarrow> (\<forall>i p. P i = Some p \<longrightarrow> saga_ok H N p)
     \<and> (\<forall>i j p q. P i = Some p \<and> P j = Some q \<and> unpublished p \<and> unpublished q \<and> saga_scope p = saga_scope q \<longrightarrow> i = j)"

definition cluster_inv :: "node_id \<Rightarrow> cluster \<Rightarrow> bool" where
  "cluster_inv c \<sigma> \<longleftrightarrow> authority_inv c (cl_history \<sigma>) (cl_nodes \<sigma>) \<and> sent_ok (cl_history \<sigma>) (cl_sent \<sigma>)
     \<and> sagas_ok_at (cl_history \<sigma>) (cl_nodes \<sigma>) (cl_sagas \<sigma>)"

lemma cluster_invD:
  assumes "cluster_inv c \<sigma>"
  shows "authority_inv c (cl_history \<sigma>) (cl_nodes \<sigma>)" and "sent_ok (cl_history \<sigma>) (cl_sent \<sigma>)"
    and "sagas_ok_at (cl_history \<sigma>) (cl_nodes \<sigma>) (cl_sagas \<sigma>)"
    and "cl_sagas \<sigma> i = Some p \<Longrightarrow> saga_ok (cl_history \<sigma>) (cl_nodes \<sigma>) p"
  using assms by (auto simp: cluster_inv_def sagas_ok_at_def)

lemma in_history_mem: "g \<in> set H \<Longrightarrow> in_history H g"
  by (auto simp: in_history_def)

lemma sent_ok_cons: "sent_ok H S \<Longrightarrow> sent_ok (g # H) S"
  unfolding sent_ok_def in_history_def by (meson list.set_intros(2))

text \<open>Sagas that are all kept, and one that moves on without coming to meet another.\<close>

lemma sagas_mono:
  "sagas_ok_at H N P \<Longrightarrow> (\<And>i p. P i = Some p \<Longrightarrow> saga_ok H N p \<Longrightarrow> saga_ok H' N' p) \<Longrightarrow> sagas_ok_at H' N' P"
  unfolding sagas_ok_at_def by blast

lemma sagas_update:
  assumes "sagas_ok_at H N P"
    and "\<And>q. p' = Some q \<Longrightarrow> saga_ok H N q"
    and "\<And>q. p' = Some q \<Longrightarrow> unpublished q \<Longrightarrow> \<exists>p. P i = Some p \<and> unpublished p \<and> saga_scope p = saga_scope q
       \<or> (\<forall>j p. P j = Some p \<and> unpublished p \<longrightarrow> saga_scope p \<noteq> saga_scope q)"
  shows "sagas_ok_at H N (P(i := p'))"
  unfolding sagas_ok_at_def
proof (intro conjI allI impI)
  show "saga_ok H N p" if "(P(i := p')) j = Some p" for j p
    using that assms(1,2) by (auto simp: sagas_ok_at_def split: if_splits)
  fix j k p q
  assume h: "(P(i := p')) j = Some p \<and> (P(i := p')) k = Some q \<and> unpublished p \<and> unpublished q \<and> saga_scope p = saga_scope q"
  have u: "\<And>j k p q. P j = Some p \<Longrightarrow> P k = Some q \<Longrightarrow> unpublished p \<Longrightarrow> unpublished q \<Longrightarrow> saga_scope p = saga_scope q \<Longrightarrow> j = k"
    using assms(1) unfolding sagas_ok_at_def by blast
  show "j = k"
  proof (cases "j = i"; cases "k = i")
    assume "j = i" "k \<noteq> i"
    with h assms(3) [of p] u show ?thesis by (metis fun_upd_apply)
  next
    assume "j \<noteq> i" "k = i"
    with h assms(3) [of q] u show ?thesis by (metis fun_upd_apply)
  qed (use h u in auto)
qed

lemma saga_node_step:
  assumes "authority_inv c H N" and "node_step H (N n) a'" and "saga_ok H N p"
  shows "saga_ok H (N(n := a')) p"
proof -
  have "retired_at (N(n := a')) s t" if "retired_at N s t" "hterm (hd H) s = Some t" for s t
    using that retired_keep [OF that(1), of n a'] node_step_store [OF assms(1,2)] assms(2) hterm_scope [OF that(2)]
    by (simp add: node_step_def store_step_def)
  with assms(3) show ?thesis by (cases p) auto
qed

lemma cluster_node_step:
  assumes "cluster_inv c \<sigma>" and "node_step (cl_history \<sigma>) (cl_nodes \<sigma> n) a'"
  shows "cluster_inv c (\<sigma>\<lparr>cl_nodes := (cl_nodes \<sigma>)(n := a')\<rparr>)"
  using cluster_invD(1-3) [OF assms(1)] inv_node_step [where N = "cl_nodes \<sigma>", OF _ assms(2)]
    saga_node_step [where N = "cl_nodes \<sigma>", OF _ assms(2)]
  by (auto simp: cluster_inv_def elim!: sagas_mono)

lemma record_same:
  assumes "meta_wf m" and "holds c (hd H) m"
  shows "record_head sha m H = H"
proof (cases "\<exists>g l. installed_owner_snapshot sha True m = Ok (Some (g, l))")
  case True
  then obtain g l where i: "installed_owner_snapshot sha True m = Ok (Some (g, l))" by blast
  with installed_OkD(3) [OF assms(1) i] assms(2) show ?thesis by (auto simp: record_head_def holds_def)
qed (auto simp: record_head_def split: sum.split option.split)

text \<open>Appending a snapshot that keeps every term.\<close>

lemma cluster_extend_step:
  assumes inv: "cluster_inv c \<sigma>" and ext: "chef_extended sha (cl_history \<sigma>) (cl_nodes \<sigma> c) a'"
  shows "cluster_inv c (\<sigma>\<lparr>cl_nodes := (cl_nodes \<sigma>)(c := a'), cl_history := record_head sha (oa_meta a') (cl_history \<sigma>)\<rparr>)"
proof -
  let ?H = "cl_history \<sigma>" and ?N = "cl_nodes \<sigma>"
  note A = cluster_invD(1) [OF inv] and sent = cluster_invD(2) [OF inv] and saga = cluster_invD(3) [OF inv]
  note I = authority_invD [OF A]
  have c: "reg_this_node (oa_registry (?N c)) = c" using I(3) [of c] by (simp add: node_ok_def)
  have wf: "meta_wf (oa_meta a')" and keep: "keeps_overlays (meta_overlay (oa_meta (?N c))) (meta_overlay (oa_meta a'))"
    and mem: "mem_step (oa_registry (?N c)) a'" using ext by (simp_all add: chef_extended_def chef_stored_def)
  from ext c consider (same) "same_install (oa_meta (?N c)) (oa_meta a')"
    | (new) g l where "holds c g (oa_meta a')" "installed_owner_snapshot sha True (oa_meta a') = Ok (Some (g, l))"
        "follows g (hd ?H)" "hterm (hd ?H) \<subseteq>\<^sub>m hterm g"
    by (auto simp: chef_extended_def chef_stored_def)
  then show ?thesis
  proof cases
    case same
    then have "node_step ?H (?N c) a'" using wf keep mem by (simp add: node_step_def store_step_def)
    moreover have "record_head sha (oa_meta a') ?H = ?H" by (rule record_same [OF wf holds_same [OF I(2) same]])
    ultimately show ?thesis using cluster_node_step [OF inv, of c a'] by simp
  next
    case new
    have H': "record_head sha (oa_meta a') ?H = g # ?H" using new(2,3) by (simp add: record_head_def follows_def)
    have kept: "hterm g s = Some t" if "hterm (hd ?H) s = Some t" for s t
      using that new(4) by (metis map_le_def domI)
    have "authority_inv c (g # ?H) (?N(c := a'))"
    proof (rule inv_head_step [OF A])
      show "head_step c ?H g (?N c) a'" using new(1,3) wf keep mem by (simp add: head_step_def)
      show "handover_ready ?H g ?N" using kept by (simp add: handover_ready_def)
    qed
    moreover have "sagas_ok_at (g # ?H) (?N(c := a')) (cl_sagas \<sigma>)"
    proof (rule sagas_mono [OF saga])
      fix i p assume p: "saga_ok ?H ?N p"
      have "grows (meta_term (oa_meta (?N c))) (meta_term (oa_meta a'))"
        using new(1,3) I(2) by (simp add: follows_def holds_def)
      then have "retired_at (?N(c := a')) s t" if "retired_at ?N s t" "hterm (hd ?H) s = Some t" for s t
        using retired_keep [OF that(1) _ keep mem] hterm_scope [OF that(2)] by simp
      with p kept show "saga_ok (g # ?H) (?N(c := a')) p" by (cases p) auto
    qed
    ultimately show ?thesis using H' sent_ok_cons [OF sent] by (simp add: cluster_inv_def)
  qed
qed

text \<open>A handoff that was prepared: the other sagas are about other scopes, whose terms stay.\<close>

lemma sagas_head:
  assumes "sagas_ok_at H N P" and "P i = Some (Prepared req cur ne)"
    and "grows (meta_term (oa_meta (N c))) (meta_term (oa_meta a'))"
    and hg: "hterm g = (hterm (hd H))(hr_scope req \<mapsto> t)"
    and keep: "keeps_overlays (meta_overlay (oa_meta (N c))) (meta_overlay (oa_meta a'))" "mem_step (oa_registry (N c)) a'"
    and p': "\<And>q. p' = Some q \<Longrightarrow> q = Published req cur ne g"
  shows "sagas_ok_at (g # H) (N(c := a')) (P(i := p'))"
proof -
  have ok: "saga_ok (g # H) (N(c := a')) q" if "P j = Some q" "j \<noteq> i" for j q
  proof -
    have q: "saga_ok H N q" and apart: "unpublished q \<Longrightarrow> saga_scope q \<noteq> hr_scope req"
      using assms(1,2) that unfolding sagas_ok_at_def by force+
    have "retired_at (N(c := a')) s t" if "retired_at N s t" "hterm (hd H) s = Some t" for s t
      using retired_keep [OF that(1) assms(3) keep] hterm_scope [OF that(2)] by simp
    with q apart show ?thesis by (cases q) (auto simp: hg)
  qed
  have "sagas_ok_at (g # H) (N(c := a')) (P(i := None))"
    using ok assms(1) unfolding sagas_ok_at_def by (auto split: if_splits)
  from sagas_update [OF this, of p' i] show ?thesis using p' by fastforce
qed

lemma cluster_install_step:
  assumes inv: "cluster_inv c \<sigma>" and saga: "cl_sagas \<sigma> i = Some (Prepared req cur ne)"
    and h: "handoff_install sha io req ne (cl_nodes \<sigma> c) = (res, a')"
  shows "cluster_inv c (\<sigma>\<lparr>cl_nodes := (cl_nodes \<sigma>)(c := a'), cl_history := record_head sha (oa_meta a') (cl_history \<sigma>),
    cl_sagas := (cl_sagas \<sigma>)(i := published req cur ne res)\<rparr>)"
proof -
  let ?H = "cl_history \<sigma>" and ?N = "cl_nodes \<sigma>" and ?s = "hr_scope req"
  note A = cluster_invD(1) [OF inv] and sent = cluster_invD(2) [OF inv]
  have cur: "hterm (hd ?H) ?s = Some cur" "ot_epoch cur < ne" "retired_at ?N ?s cur"
    using cluster_invD(4) [OF inv saga] by simp_all
  note I = authority_invD [OF A]
  have ok: "node_ok ?H c (?N c)" and hd: "holds c (hd ?H) (oa_meta (?N c))" using I by simp_all
  then have c: "reg_this_node (oa_registry (?N c)) = c" "is_cluster_mode (oa_registry (?N c))" and wf: "meta_wf (oa_meta (?N c))"
    by (simp_all add: node_ok_def)
  have stay: "cluster_inv c (\<sigma>\<lparr>cl_nodes := ?N(c := a'), cl_history := record_head sha (oa_meta a') ?H,
      cl_sagas := (cl_sagas \<sigma>)(i := None)\<rparr>)"
    if "node_step ?H (?N c) a'" "same_install (oa_meta (?N c)) (oa_meta a')"
    using cluster_node_step [OF inv that(1)] record_same [OF _ holds_same [OF hd that(2)]] that(1)
      sagas_update [of ?H "?N(c := a')" "cl_sagas \<sigma>" None i]
    by (simp add: cluster_inv_def node_step_def store_step_def)
  show ?thesis
  proof (cases "handoff_snapshot sha io req ne c (oa_meta (?N c))")
    case (Inl e)
    with h c have "a' = ?N c" "\<not> is_ok res" by (auto simp: handoff_install_def)
    then have "published req cur ne res = None" by (auto simp: published_def split: sum.split)
    with stay \<open>a' = _\<close> mem_step_refl [OF c(2)] c wf show ?thesis by (simp add: node_step_def store_step_refl)
  next
    case (Inr p)
    obtain g l where p: "p = (g, l)" by (cases p)
    note sn = handoff_snapshot_OkD [OF wf Inr [unfolded p]]
    obtain ires where i: "install_locally sha (\<lambda>k. io (Suc k)) g l (?N c) = (ires, a')" and res: "res = map_sum id (\<lambda>_. g) ires"
      using h Inr p c by (auto simp: handoff_install_def split: prod.splits sum.splits)
    have hg: "hterm g = (hterm (hd ?H))(?s \<mapsto> handoff_term req ne)" using sn(1) hd by (simp add: holds_def)
    have rv: "gs_revision (hd ?H) < gs_revision g" using sn(2) hd by (auto simp: holds_def)
    have fol: "follows g (hd ?H)" using rv cur(1,2) by (auto simp: follows_def grows_def hg handoff_term_def)
    from install_locally_new [OF ok hd rv sn(3) i] show ?thesis
    proof
      assume same: "node_step ?H (?N c) a' \<and> same_install (oa_meta (?N c)) (oa_meta a') \<and> \<not> is_ok ires"
      then have "published req cur ne res = None" using res by (cases ires) (auto simp: published_def)
      with stay same show ?thesis by simp
    next
      assume "appended sha g (?N c) a' \<and> (is_ok ires \<longrightarrow> mirrors (oa_registry a') (oa_meta a'))"
      then have app: "appended sha g (?N c) a'" by simp
      have H': "record_head sha (oa_meta a') ?H = g # ?H" using app rv by (auto simp: appended_def record_head_def)
      have "authority_inv c (g # ?H) (?N(c := a'))"
      proof (rule inv_head_step [OF A])
        show "head_step c ?H g (?N c) a'" using app fol c by (simp add: appended_def head_step_def)
        show "handover_ready ?H g ?N" using cur by (auto simp: handover_ready_def hg)
      qed
      moreover have "q = Published req cur ne g" if "published req cur ne res = Some q" for q
        using that res by (cases ires) (auto simp: published_def)
      moreover have "grows (meta_term (oa_meta (?N c))) (meta_term (oa_meta a'))"
        using app hd fol c by (simp add: follows_def holds_def appended_def)
      ultimately have "authority_inv c (g # ?H) (?N(c := a'))"
        "sagas_ok_at (g # ?H) (?N(c := a')) ((cl_sagas \<sigma>)(i := published req cur ne res))"
        using app by (auto simp: appended_def intro!: sagas_head [OF cluster_invD(3) [OF inv] saga _ hg])
      then show ?thesis using H' sent_ok_cons [OF sent] by (simp add: cluster_inv_def)
    qed
  qed
qed

lemma commit_locally_step:
  assumes H: "history_ok H" and ok: "node_ok H c a" and hd: "holds c (hd H) (oa_meta a)"
    and h: "commit_locally sha io (to_wire s) owner ep a = (res, a')"
  shows "node_step H a a' \<or> commit_step H s a a'"
proof -
  have wf: "meta_wf (oa_meta a)" and c: "is_cluster_mode (oa_registry a)" "reg_this_node (oa_registry a) = c"
    using ok by (simp_all add: node_ok_def)
  let ?t = "\<lparr>ot_scope = s, ot_owner_node = owner, ot_epoch = ep, ot_generation = TRACK_A_COORDINATOR_GENERATION\<rparr>"
  consider (refused) "a' = a" | (done_) m where "complete_handoff_overlay (io 0) ?t (oa_meta a) = Ok m" "oa_meta a' = m"
      "oa_registry a' = oa_registry a \<or> mirrors (oa_registry a') m \<and> reg_this_node (oa_registry a') = c"
  proof (cases "from_wire (to_wire s)")
    case None
    with h show ?thesis by (intro that(1)) (simp add: commit_locally_def)
  next
    case (Some s')
    then have s: "from_wire (to_wire s) = Some s" using from_wire_inverse by blast
    show ?thesis
    proof (cases "complete_handoff_overlay (io 0) ?t (oa_meta a)")
      case (Inl e)
      with h s show ?thesis by (intro that(1)) (simp add: commit_locally_def Let_def)
    next
      case (Inr m)
      let ?rb = "rebuild_owner_registry_from_store sha (\<lambda>k. io (Suc k)) m (oa_registry a)"
      have "oa_meta a' = m \<and> (oa_registry a' = oa_registry a \<or> (\<exists>g. ?rb = Ok (g, oa_registry a')))"
        using h s Inr by (auto simp: commit_locally_def rebuild_owner_registry_from_store_def Let_def numeral_2_eq_2 split: sum.splits)
      with rebuild_from_store_boot(1,2) [OF meta_wf_complete(1) [OF wf Inr]] c Inr show ?thesis
        by (intro that(2) [of m]) auto
    qed
  qed
  then show ?thesis
  proof cases
    case refused
    with mem_step_refl [OF c(1)] c wf show ?thesis by (simp add: node_step_def store_step_refl)
  next
    case done_
    have "mem_step (oa_registry a) a'" using done_(2,3) c by (intro mem_stepI) (auto simp: mirrors_def)
    with complete_commit_step [OF ok done_(1)] done_(2) hd show ?thesis by (simp add: holds_def)
  qed
qed

lemma retired_commit:
  assumes "retired_at N s' t" and "commit_step H s (N n) a'" and "s' \<noteq> s" and "ot_scope t = s'"
  shows "retired_at (N(n := a')) s' t"
proof (cases "ot_owner_node t = n")
  case True
  from assms(2) have mem: "mem_step (oa_registry (N n)) a'" and "meta_term (oa_meta a') = meta_term (oa_meta (N n))"
    and "meta_overlay (oa_meta a') s' = meta_overlay (oa_meta (N n)) s'"
    using assms(3) by (simp_all add: commit_step_def same_install_def)
  with assms(1,4) True have f: "fenced_term (oa_meta a') t" by (simp add: retired_at_def fenced_term_def)
  have "\<not> mem_claim (oa_registry a') s' t"
  proof
    assume c: "mem_claim (oa_registry a') s' t"
    then have "mirrors (oa_registry a') (oa_meta a') \<or> mem_claim (oa_registry (N n)) s' t"
      using mem by (auto simp: mem_step_def mem_claim_def keeps_overlays_def)
    then show False
      using c f assms(1,4) True by (auto simp: mirrors_def mem_claim_def fenced_term_def retired_at_def)
  qed
  with f True show ?thesis by (simp add: retired_at_def)
qed (use assms(1) in \<open>simp add: retired_at_def\<close>)

lemma cluster_commit_step:
  assumes inv: "cluster_inv c \<sigma>" and free: "\<not> being_replaced \<sigma> s"
    and h: "node_step (cl_history \<sigma>) (cl_nodes \<sigma> n) a' \<or> commit_step (cl_history \<sigma>) s (cl_nodes \<sigma> n) a'"
  shows "cluster_inv c (\<sigma>\<lparr>cl_nodes := (cl_nodes \<sigma>)(n := a')\<rparr>)"
  using h
proof
  assume st: "commit_step (cl_history \<sigma>) s (cl_nodes \<sigma> n) a'"
  have "sagas_ok_at (cl_history \<sigma>) ((cl_nodes \<sigma>)(n := a')) (cl_sagas \<sigma>)"
  proof (rule sagas_mono [OF cluster_invD(3) [OF inv]])
    fix i p assume "cl_sagas \<sigma> i = Some p" and p: "saga_ok (cl_history \<sigma>) (cl_nodes \<sigma>) p"
    then have "unpublished p \<Longrightarrow> saga_scope p \<noteq> s" using free unfolding being_replaced_def by blast
    with p retired_commit [where N = "cl_nodes \<sigma>", OF _ st] show "saga_ok (cl_history \<sigma>) ((cl_nodes \<sigma>)(n := a')) p"
      by (cases p) (auto simp: hterm_scope)
  qed
  with cluster_invD(1,2) [OF inv] inv_commit_step [of c "cl_history \<sigma>" "cl_nodes \<sigma>" s n a'] st show ?thesis
    by (simp add: cluster_inv_def)
qed (rule cluster_node_step [OF inv])

lemma materialize_extended:
  assumes ok: "node_ok H c a" and hd: "holds c (hd H) (oa_meta a)"
    and h: "materialize_owner_scopes sha io agents seed a = (res, a')"
  shows "chef_extended sha H a a'"
proof -
  have wf: "meta_wf (oa_meta a)" and c: "is_cluster_mode (oa_registry a)" "reg_this_node (oa_registry a) = c"
    using ok by (simp_all add: node_ok_def)
  have stay: "chef_extended sha H a a"
    using mem_step_refl [OF c(1)] chef_stored_same [OF store_step_refl [OF wf]] by (simp add: chef_extended_def)
  consider (stop) "a' = a" | (grow) g l' g' l res' where "installed_owner_snapshot sha (io 0) (oa_meta a) = Ok (Some (g, l'))"
      "extend_owner_snapshot_for_agents sha g agents c seed = Ok (g', True)" "local_snapshot_for sha g' c = Ok l"
      "install_locally sha (\<lambda>k. io (Suc k)) g' l a = (res', a')"
  proof (cases "\<exists>g l' g' l. installed_owner_snapshot sha (io 0) (oa_meta a) = Ok (Some (g, l'))
      \<and> extend_owner_snapshot_for_agents sha g agents c seed = Ok (g', True) \<and> local_snapshot_for sha g' c = Ok l")
    case True
    then obtain g l' g' l where e: "installed_owner_snapshot sha (io 0) (oa_meta a) = Ok (Some (g, l'))"
      "extend_owner_snapshot_for_agents sha g agents c seed = Ok (g', True)" "local_snapshot_for sha g' c = Ok l" by blast
    with h c obtain res' where "install_locally sha (\<lambda>k. io (Suc k)) g' l a = (res', a')"
      by (auto simp: materialize_owner_scopes_def split: prod.splits sum.splits)
    with e show ?thesis by (rule that(2))
  next
    case False
    with h c show ?thesis
      by (intro that(1)) (auto simp: materialize_owner_scopes_def split: if_splits sum.splits)
  qed
  then show ?thesis
  proof cases
    case grow
    note inst = installed_OkD [OF wf grow(1)]
    have "holds c g (oa_meta a)" using inst hd by (auto simp: holds_def hterm_def)
    note e = extension_of_held [OF hd this inst(1) grow(2)]
    have "ls_recipient_node l = c" using grow(3) local_owner_state_snapshot_new_OkD(2) by (auto simp: local_snapshot_for_def)
    with install_locally_new [OF ok hd _ _ grow(4)] e(1) show ?thesis
      by (intro chef_extendedI [OF _ e]) (auto simp: follows_def)
  qed (use stay in simp)
qed

lemma prepared_retired:
  assumes A: "authority_inv c H N" and "hterm (hd H) (hr_scope req) = Some cur"
    and p: "persist_source_retirement sha io (oa_meta (N n)) n (to_wire (hr_scope req)) (ot_epoch cur) = Ok (st, m)"
  shows "retired_at (N(n := \<lparr>oa_registry = retire_local (oa_registry (N n)) (lo_scope st) (ot_epoch cur), oa_meta = m\<rparr>))
    (hr_scope req) cur"
proof -
  note I = authority_invD [OF A]
  have wf: "meta_wf (oa_meta (N n))" using I(3) [of n] by (simp add: node_ok_def)
  obtain sc where sc: "from_wire (to_wire (hr_scope req)) = Some sc" and st: "lo_scope st = sc"
    and t: "meta_term (oa_meta (N n)) sc = Some \<lparr>ot_scope = sc, ot_owner_node = n, ot_epoch = ot_epoch cur,
          ot_generation = TRACK_A_COORDINATOR_GENERATION\<rparr>"
    and m: "meta_overlay m = (meta_overlay (oa_meta (N n)))(sc \<mapsto> retired_overlay sc n (ot_epoch cur))"
      "cm_cluster_owner m = cm_cluster_owner (oa_meta (N n))"
    using retirement_OkD [OF wf p] by auto
  have s: "sc = hr_scope req" using from_wire_inverse [OF sc] .
  define t' where "t' = \<lparr>ot_scope = hr_scope req, ot_owner_node = n, ot_epoch = ot_epoch cur,
    ot_generation = TRACK_A_COORDINATOR_GENERATION\<rparr>"
  have t': "meta_term m (hr_scope req) = Some t'" "meta_term (oa_meta (N n)) (hr_scope req) = Some t'"
    using t m(2) s by (simp_all add: t'_def)
  have "t' = cur" by (rule current_term [OF I(1) I(3) t'(2) assms(2)]) (simp add: t'_def)
  moreover have "ot_owner_node t' = n" "ot_scope t' = hr_scope req" by (simp_all add: t'_def)
  ultimately show ?thesis using m(1) s st t'(1) by (simp add: retired_at_def fenced_term_def mem_claim_def)
qed

lemma cluster_prepare_step:
  assumes inv: "cluster_inv c \<sigma>" and saga: "cl_sagas \<sigma> i = Some (Preparing req cur ne)"
    and p: "persist_source_retirement sha io (oa_meta (cl_nodes \<sigma> n)) n (to_wire (hr_scope req)) (ot_epoch cur) = Ok (st, m)"
    and a': "a' = \<lparr>oa_registry = retire_local (oa_registry (cl_nodes \<sigma> n)) (lo_scope st) (ot_epoch cur), oa_meta = m\<rparr>"
  shows "cluster_inv c (\<sigma>\<lparr>cl_nodes := (cl_nodes \<sigma>)(n := a'), cl_sagas := (cl_sagas \<sigma>)(i \<mapsto> Prepared req cur ne)\<rparr>)"
proof -
  note A = cluster_invD(1) [OF inv]
  have cur: "hterm (hd (cl_history \<sigma>)) (hr_scope req) = Some cur" "ot_epoch cur < ne"
    using cluster_invD(4) [OF inv saga] by simp_all
  note n = cluster_node_step [OF inv retirement_node_step [OF authority_invD(3) [OF A] p]]
  have "sagas_ok_at (cl_history \<sigma>) ((cl_nodes \<sigma>)(n := a')) ((cl_sagas \<sigma>)(i \<mapsto> Prepared req cur ne))"
    using cluster_invD(3) [OF n] prepared_retired [OF A cur(1) p] cur saga
    by (intro sagas_update) (auto simp: a')
  with cluster_invD(1,2) [OF n] show ?thesis by (simp add: cluster_inv_def a')
qed

lemma read_in_history:
  assumes "authority_inv c H N" and "installed_owner_snapshot sha ok (oa_meta (N c)) = Ok (Some (g, l))"
  shows "in_history H g"
proof -
  note I = authority_invD [OF assms(1)]
  have "hd H \<in> set H" using I(1) by (simp add: history_ok_def)
  moreover have "meta_wf (oa_meta (N c))" using I(3) [of c] by (simp add: node_ok_def)
  ultimately show ?thesis using installed_OkD(2,3) [OF _ assms(2)] I(2) by (auto simp: in_history_def hterm_def holds_def)
qed

lemma reopen_OkD: "reopen_owner_readiness r = Ok r' \<Longrightarrow> r' = r\<lparr>reg_readiness := True\<rparr>"
  by (auto simp: reopen_owner_readiness_def split: if_splits option.splits)

text \<open>Every step keeps the invariant.\<close>

lemma cluster_step_inv:
  assumes inv: "cluster_inv c \<sigma>" and step: "cluster_step sha pu peer c \<sigma> ev \<sigma>'" and ord: "orderly c \<sigma> ev"
  shows "cluster_inv c \<sigma>'"
proof -
  note A = cluster_invD(1) [OF inv] and sent = cluster_invD(2) [OF inv] and saga = cluster_invD(3) [OF inv]
  note I = authority_invD [OF A]
  have wf: "meta_wf (oa_meta (cl_nodes \<sigma> n))" and md: "is_cluster_mode (oa_registry (cl_nodes \<sigma> n))"
    "reg_this_node (oa_registry (cl_nodes \<sigma> n)) = n" for n using I(3) [of n] by (simp_all add: node_ok_def)
  from step show ?thesis
  proof cases
    case (deliver n req io resp a')
    from sent deliver(3) consider w ep where "req = PrepareHandoff w ep"
      | g l where "req = ReplicateOwnerSnapshot g l" "in_history (cl_history \<sigma>) g"
      | s owner ep where "req = OwnerCommit (to_wire s) owner ep" unfolding sent_ok_def by blast
    then show ?thesis
    proof cases
      case 3
      then have o: "\<not> being_replaced \<sigma> s" "current_epoch c \<sigma> s ep" using ord deliver(1) by auto
      then obtain t where t: "hterm (hd (cl_history \<sigma>)) s = Some t" "ot_epoch t = ep"
        using I(2) by (auto simp: current_epoch_def holds_def)
      have "handle_owner_commit sha pu io (to_wire s) owner ep (cl_nodes \<sigma> n) = (resp, a')" using deliver(5) 3 by simp
      from commit_commit_step [OF I(1,3) this t]
      show ?thesis unfolding deliver(2) by (rule cluster_commit_step [OF inv o(1)])
    qed (use deliver(2,5) prepare_node_step [OF I(3)] replicate_node_step [OF I(3)] cluster_node_step [OF inv] in auto)
  next
    case (replicate g k l n)
    have "in_history (cl_history \<sigma>) g" using replicate(3) in_history_mem read_in_history [OF A] by blast
    then show ?thesis using A sent saga unfolding replicate(2) by (auto simp: cluster_inv_def sent_ok_def)
  next
    case (begin_handoff i alias_for_node req cur source_alias ne n)
    have "reg_terms (oa_registry (cl_nodes \<sigma> c)) (hr_scope req) = Some cur" and lt: "ot_epoch cur < ne"
      using begin_handoff(4) md(1) [of c] checked_add_one_less
      by (auto simp: handoff_begin_def current_owner_def is_cluster_mode_def split: if_splits)
    then have cur: "hterm (hd (cl_history \<sigma>)) (hr_scope req) = Some cur"
      using ord I(2) by (simp add: begin_handoff(1) holds_def)
    have "sagas_ok_at (cl_history \<sigma>) (cl_nodes \<sigma>) ((cl_sagas \<sigma>)(i \<mapsto> Preparing req cur ne))"
      using ord cur lt by (intro sagas_update [OF saga]) (auto simp: begin_handoff(1) being_replaced_def)
    then show ?thesis using A sent unfolding begin_handoff(2) by (auto simp: cluster_inv_def sent_ok_def)
  next
    case (prepare_remote i req cur ne n io w ep a')
    have "handle_prepare sha io n (to_wire (hr_scope req)) (ot_epoch cur) (cl_nodes \<sigma> n) = (HandoffPrepared w ep, a')"
      using prepare_remote(5) by simp
    then show ?thesis unfolding prepare_remote(2)
      by (cases rule: handle_prepare_cases) (use cluster_prepare_step [OF inv prepare_remote(3)] in auto)
  next
    case (prepare_local i req cur ne io res a')
    let ?p = "persist_source_retirement sha io (oa_meta (cl_nodes \<sigma> c)) c (to_wire (hr_scope req)) (ot_epoch cur)"
    show ?thesis
    proof (cases ?p)
      case (Inl e)
      then have "a' = cl_nodes \<sigma> c" "\<not> is_ok res" using prepare_local(4) md by (auto simp: prepare_locally_def)
      then show ?thesis using A sent sagas_update [OF saga, of None i] unfolding prepare_local(2) by (simp add: cluster_inv_def)
    next
      case (Inr p)
      then have "is_ok res" "a' = \<lparr>oa_registry = retire_local (oa_registry (cl_nodes \<sigma> c)) (lo_scope (fst p)) (ot_epoch cur), oa_meta = snd p\<rparr>"
        using prepare_local(4) md by (auto simp: prepare_locally_def split: prod.splits)
      with cluster_prepare_step [OF inv prepare_local(3), of sha io c "fst p" "snd p" a'] Inr show ?thesis
        unfolding prepare_local(2) by simp
    qed
  next
    case (end_handoff i)
    then show ?thesis using A sent sagas_update [OF saga, of None i] by (simp add: cluster_inv_def)
  next
    case (install i req cur ne io res a')
    show ?thesis unfolding install(2) by (rule cluster_install_step [OF inv install(3,4)])
  next
    case (replicate_local i req cur ne g k l io res a')
    have "g \<in> set (cl_history \<sigma>)" using cluster_invD(4) [OF inv replicate_local(3)] by simp
    from install_locally_held [OF I(1,3,2) this replicate_local(5)]
    show ?thesis unfolding replicate_local(2) by (rule cluster_node_step [OF inv])
  next
    case (send_commit i req cur ne g n owner)
    then show ?thesis using A sent saga by (auto simp: cluster_inv_def sent_ok_def)
  next
    case (commit_local i req cur ne g io res a' owner)
    have "\<not> being_replaced \<sigma> (hr_scope req)" using ord by (auto simp: commit_local(1))
    with commit_locally_step [OF I(1,3,2) commit_local(4)]
    show ?thesis unfolding commit_local(2) by (metis cluster_commit_step [OF inv])
  next
    case (materialize io agents res a')
    from materialize_extended [OF I(3,2) materialize(3)]
    show ?thesis unfolding materialize(2) by (rule cluster_extend_step [OF inv])
  next
    case (restart_node n io agents b)
    obtain res fl where b: "b = (res, fl)" by (cases b)
    from restart_member [OF I(3) restart_node(4) [unfolded b]]
    show ?thesis unfolding restart_node(2) b by (rule cluster_node_step [OF inv])
  next
    case (restart_coordinator io agents b)
    obtain res fl where b: "b = (res, fl)" by (cases b)
    from cluster_extend_step [OF inv restart_chef [OF I(3,2) restart_coordinator(3) [unfolded b]]]
    show ?thesis unfolding restart_coordinator(2) b by (simp add: cluster_inv_def sagas_ok_at_def)
  next
    case (close_readiness n)
    have "node_step (cl_history \<sigma>) (cl_nodes \<sigma> n) ((cl_nodes \<sigma> n)\<lparr>oa_registry := close_owner_readiness (oa_registry (cl_nodes \<sigma> n))\<rparr>)"
      using wf md by (simp add: node_step_def store_step_refl mem_step_def)
    then show ?thesis unfolding close_readiness(2) by (rule cluster_node_step [OF inv])
  next
    case (reopen_readiness n r)
    have "node_step (cl_history \<sigma>) (cl_nodes \<sigma> n) ((cl_nodes \<sigma> n)\<lparr>oa_registry := r\<rparr>)"
      using wf md md(1) [of n, unfolded is_cluster_mode_def] unfolding reopen_OkD [OF reopen_readiness(3)]
      by (simp add: node_step_def store_step_refl mem_step_def is_cluster_mode_def)
    then show ?thesis unfolding reopen_readiness(2) by (rule cluster_node_step [OF inv])
  qed
qed

section \<open>The first boot\<close>

definition boot_up :: "node_id \<Rightarrow> boot_state \<Rightarrow> bool" where
  "boot_up n b \<longleftrightarrow> (\<exists>g. bt_global b = Some g \<and> holds n g (oa_meta (bt_authority b)))
     \<and> meta_wf (oa_meta (bt_authority b)) \<and> mirrors (oa_registry (bt_authority b)) (oa_meta (bt_authority b))
     \<and> reg_this_node (oa_registry (bt_authority b)) = n"

lemma boot_install_up:
  assumes "boot_install sha io g a = (Ok b, a')" and "meta_wf (oa_meta a)"
  shows "boot_up (reg_this_node (oa_registry a)) b" and "bt_authority b = a'"
proof -
  have "boot_up (reg_this_node (oa_registry a)) b \<and> bt_authority b = a'" using assms(1)
  proof (cases rule: boot_install_cases)
    case (up l out inst)
    have wf: "meta_wf (oa_meta a')" by (rule meta_wf_install [OF assms(2) up(2)])
    from rebuild_from_store_boot(1,2) [OF wf up(4)] rebuild_holds(1) [OF wf up(4)] up(5) wf show ?thesis
      by (auto simp: boot_up_def)
  qed auto
  then show "boot_up (reg_this_node (oa_registry a)) b" and "bt_authority b = a'" by simp_all
qed

lemma boot_from_marker_up:
  assumes "boot_from_marker sha io True agents marker a = (Ok b, a')" and "meta_wf (oa_meta a)"
  shows "boot_up (reg_this_node (oa_registry a)) b"
proof (cases "case marker of Some mk \<Rightarrow> im_generation mk = TRACK_A_COORDINATOR_GENERATION | None \<Rightarrow> False")
  case True
  then obtain g r where "rebuild_owner_registry_from_store sha io (oa_meta a) (oa_registry a) = Ok (g, r)"
    "b = \<lparr>bt_authority = a\<lparr>oa_registry := r\<rparr>, bt_global = Some g, bt_changed = False\<rparr>"
    using assms(1) by (auto simp: boot_from_marker_def Let_def split: sum.splits)
  with rebuild_from_store_boot(1,2) [OF assms(2)] rebuild_holds(1) [OF assms(2)] assms(2) show ?thesis
    by (auto simp: boot_up_def)
next
  case False
  then obtain g where "boot_install sha io g a = (Ok b, a')"
    using assms(1) by (auto simp: boot_from_marker_def split: sum.splits)
  from boot_install_up(1) [OF this assms(2)] show ?thesis .
qed

lemma boot_roster_up:
  assumes "boot_roster sha io True agents b = (Ok b', a')" and "boot_up n b"
  shows "boot_up n b'"
proof -
  let ?c = "(bt_authority b)\<lparr>oa_registry := close_owner_readiness (oa_registry (bt_authority b))\<rparr>"
  have b: "meta_wf (oa_meta ?c)" "reg_this_node (oa_registry ?c) = n" using assms(2) by (simp_all add: boot_up_def)
  from assms(1) consider "b' = b" | g where "boot_install sha io g ?c = (Ok b', a')"
    by (auto simp: boot_roster_def Let_def split: option.splits sum.splits if_splits)
  then show ?thesis using assms(2) boot_install_up(1) [OF _ b(1)] b(2) by cases auto
qed

lemma first_boot_up:
  assumes "boot_owner_authority sha io None c True agents None = (Ok b, fl)"
  shows "boot_up c b"
proof -
  let ?a = "\<lambda>m. \<lparr>oa_registry = cluster_node c, oa_meta = m\<rparr>"
  from assms obtain m marker b0 a0 b1 a1 where m: "open_store (io 0) None = Ok m"
    and b0: "boot_from_marker sha (\<lambda>k. io (2 + k)) True agents marker (?a m) = (Ok b0, a0)"
    and b1: "boot_roster sha (\<lambda>k. io (5 + k)) True agents b0 = (Ok b1, a1)"
    and b: "b = b1\<lparr>bt_changed := bt_changed b0 \<or> bt_changed b1\<rparr>"
    by (auto simp: boot_owner_authority_def init_cluster_def global_registry_def split: sum.splits prod.splits if_splits)
  have "open_store (io 0) (Some empty_meta) = Ok m" using m by (auto simp: open_store_def)
  then have wf: "meta_wf (oa_meta (?a m))" using open_store_keeps(1) [OF meta_wf_empty] by simp
  have "boot_up c b0" using boot_from_marker_up [OF b0 wf] by simp
  from boot_roster_up [OF b1 this] show ?thesis by (simp add: b boot_up_def)
qed

lemma cluster_start_inv:
  assumes "boot_owner_authority sha io None c True agents None = (Ok b, fl)"
  shows "cluster_inv c (cluster_start c b)"
proof -
  from first_boot_up [OF assms] obtain g where g: "bt_global b = Some g" "holds c g (oa_meta (bt_authority b))"
    "meta_wf (oa_meta (bt_authority b))" "mirrors (oa_registry (bt_authority b)) (oa_meta (bt_authority b))"
    "reg_this_node (oa_registry (bt_authority b)) = c" by (auto simp: boot_up_def)
  have "blank empty_meta" by (auto simp: blank_def empty_meta_def meta_marker_def row_at_def)
  with g show ?thesis
    by (auto simp: cluster_inv_def cluster_start_def authority_inv_def history_ok_def node_ok_def superseded_fenced_def
        claims_current_def mem_claim_def mirrors_def holds_def sent_ok_def sagas_ok_at_def split: if_splits)
qed

lemma reachable_inv: "cluster_reachable (orderly c) sha pu peer c \<sigma> \<Longrightarrow> cluster_inv c \<sigma>"
  by (induction rule: cluster_reachable.induct) (blast intro: cluster_start_inv cluster_step_inv)+

end
