(* ===== verification/Handoff_Progress.thy ===== *)
theory Handoff_Progress
  imports Cluster
begin

text \<open>
  The handoff makes progress: when the participants are in service, the transport delivers
  and the storage works, the saga commits, the target accepts writes and the source refuses
  them.  A node is in service when its registry is what a rebuild of its store gives.
\<close>

section \<open>Building snapshots succeeds\<close>

definition fits :: "owner_term list \<Rightarrow> bool" where
  "fits ts \<longleftrightarrow> length ts < 2 ^ 32 \<and> (\<forall>t \<in> set ts. length (to_wire (ot_scope t)) < 2 ^ 32)"

lemma rows_sorted_sort:
  assumes "distinct (map sc rows)"
  shows "rows_are_strictly_sorted sc (sort_key (\<lambda>r. to_wire (sc r)) rows)"
proof -
  have "distinct (map sc (sort_key (\<lambda>r. to_wire (sc r)) rows))"
    using assms by (metis mset_eq_imp_distinct_iff mset_map mset_sort)
  then have "distinct (map (\<lambda>r. to_wire (sc r)) (sort_key (\<lambda>r. to_wire (sc r)) rows))"
    by (simp add: distinct_map inj_on_def)
  then show ?thesis by (simp add: rows_are_strictly_sorted_iff strict_sorted_iff comp_def)
qed

lemma snapshot_new_ok:
  assumes "distinct (map ot_scope ts)" and "\<forall>t \<in> set ts. ot_generation t = gen" and "fits ts"
  shows "\<exists>g. owner_term_snapshot_new sha gen rvn ts = Ok g"
proof -
  define S where "S = \<lparr>gs_schema_version = OWNER_SNAPSHOT_SCHEMA_VERSION, gs_generation = gen, gs_revision = rvn,
    gs_sorted_terms = sort_key (\<lambda>t. to_wire (ot_scope t)) ts, gs_checksum = replicate 32 0\<rparr>"
  have "global_validate_rows S = Ok ()"
    using rows_sorted_sort [OF assms(1)] assms(2) by (simp add: global_validate_rows_def S_def)
  moreover obtain p where "global_canonical_payload S = Ok p"
    using global_payload_Ok [of S] assms(3) by (auto simp: S_def fits_def)
  ultimately show ?thesis unfolding owner_term_snapshot_new_def Let_def S_def [symmetric] by simp
qed

lemma base_state_sel [simp]:
  "bs_scope (base_state_for n t) = ot_scope t" "bs_owner_term (base_state_for n t) = t"
  "bs_recipient_node (base_state_for n t) = n"
  "bs_base_role (base_state_for n t) = (if ot_owner_node t = n then BaseOwner else BaseFollower)"
  "bs_activation_state (base_state_for n t) = (if ot_owner_node t = n then Routable else NotRoutable)"
  by (simp_all add: base_state_for_def Let_def)

lemma local_snapshot_ok:
  assumes g: "global_validate sha g = Ok ()" and "fits (gs_sorted_terms g)"
  shows "\<exists>l. local_snapshot_for sha g n = Ok l \<and> owner_pair_spec sha g l \<and> ls_recipient_node l = n
    \<and> ls_sorted_base_states l = map (base_state_for n) (gs_sorted_terms g)"
proof -
  let ?bs = "map (base_state_for n) (gs_sorted_terms g)"
  have s: "rows_are_strictly_sorted ot_scope (gs_sorted_terms g)" and gen: "\<forall>t \<in> set (gs_sorted_terms g). ot_generation t = gs_generation g"
    and sv: "gs_schema_version g = OWNER_SNAPSHOT_SCHEMA_VERSION" and cs: "\<exists>p. global_canonical_payload g = Ok p \<and> gs_checksum g = sha p"
    using g by (simp_all add: global_validate_eq_Ok)
  have sb: "rows_are_strictly_sorted bs_scope ?bs" using s by (simp add: rows_are_strictly_sorted_iff comp_def)
  then have sort: "sort_key (\<lambda>b. to_wire (bs_scope b)) ?bs = ?bs" by (rule sort_key_strict)
  define S where "S = \<lparr>ls_schema_version = OWNER_SNAPSHOT_SCHEMA_VERSION, ls_recipient_node = n,
    ls_generation = gs_generation g, ls_revision = gs_revision g, ls_sorted_base_states = ?bs, ls_checksum = replicate 32 0\<rparr>"
  have v: "local_validate_rows S = Ok ()" using sb gen by (simp add: local_validate_rows_def S_def)
  obtain p where p: "local_canonical_payload S = Ok p"
    using local_payload_Ok [of S] assms(2) by (auto simp: S_def fits_def)
  have l: "local_snapshot_for sha g n = Ok (S\<lparr>ls_checksum := sha p\<rparr>)"
    using v p by (simp add: local_snapshot_for_def local_owner_state_snapshot_new_def Let_def sort S_def [symmetric])
  have "local_canonical_payload (S\<lparr>ls_checksum := sha p\<rparr>) = Ok p" using p by simp
  moreover have "map bs_owner_term ?bs = gs_sorted_terms g" by (simp add: comp_def)
  ultimately have "owner_pair_spec sha g (S\<lparr>ls_checksum := sha p\<rparr>)"
    using s gen sv cs by (simp add: owner_pair_spec_def S_def)
  with l show ?thesis by (simp add: S_def)
qed

section \<open>Nodes in service\<close>

text \<open>A store from which the pair and the overlays can be read, and a registry rebuilt from it.\<close>

definition readable ::
  "(bytes \<Rightarrow> bytes) \<Rightarrow> cluster_meta_store \<Rightarrow> owner_term_snapshot \<Rightarrow> local_owner_state_snapshot \<Rightarrow> bool" where
  "readable sha m g l \<longleftrightarrow> meta_wf m \<and> installed_owner_snapshot sha True m = Ok (Some (g, l))
     \<and> is_ok (list_local_saga_states True m)"

definition serving ::
  "(bytes \<Rightarrow> bytes) \<Rightarrow> owner_authority \<Rightarrow> owner_term_snapshot \<Rightarrow> local_owner_state_snapshot \<Rightarrow> bool" where
  "serving sha a g l \<longleftrightarrow> readable sha (oa_meta a) g l
     \<and> try_bind (map_err HandoffStore (list_local_saga_states True (oa_meta a))) (\<lambda>sagas.
         map_err HandoffSnapshot (rebuild_from_owner_snapshot sha (oa_registry a) g l sagas)) = Ok (oa_registry a)"

lemma rebuild_base_states:
  "rebuild_from_owner_snapshot sha r g l ss = Ok r' \<Longrightarrow> reg_base_states r' = map_extend Map.empty bs_scope (ls_sorted_base_states l)"
  by (auto simp: rebuild_eq_Ok)

lemma serving_view:
  assumes "serving sha a g l"
  shows "readable sha (oa_meta a) g l" and "mirrors (oa_registry a) (oa_meta a)" and "reg_readiness (oa_registry a)"
    and "ls_recipient_node l = reg_this_node (oa_registry a)" and "gs_generation g = TRACK_A_COORDINATOR_GENERATION"
    and "may_write (oa_registry a) s t \<longleftrightarrow>
      (\<exists>b \<in> set (ls_sorted_base_states l). bs_scope b = s \<and> bs_owner_term b = t
        \<and> ot_owner_node t = reg_this_node (oa_registry a) \<and> bs_activation_state b = Routable)
      \<and> meta_overlay (oa_meta a) s = None"
proof -
  from assms obtain ss where rd: "readable sha (oa_meta a) g l" and ss: "list_local_saga_states True (oa_meta a) = Ok ss"
    and r: "rebuild_from_owner_snapshot sha (oa_registry a) g l ss = Ok (oa_registry a)"
    by (auto simp: serving_def)
  then have wf: "meta_wf (oa_meta a)" and i: "installed_owner_snapshot sha True (oa_meta a) = Ok (Some (g, l))"
    by (simp_all add: readable_def)
  note st = rebuild_from_store [OF wf i ss r]
  show "readable sha (oa_meta a) g l" by (rule rd)
  show "mirrors (oa_registry a) (oa_meta a)" "reg_readiness (oa_registry a)" using st by (simp_all add: mirrors_def)
  show "ls_recipient_node l = reg_this_node (oa_registry a)" "gs_generation g = TRACK_A_COORDINATOR_GENERATION"
    using r by (simp_all add: rebuild_eq_Ok)
  have spec: "owner_pair_spec sha g l" by (rule installed_OkD(1) [OF wf i])
  have "reg_base_states (oa_registry a) = map_extend Map.empty bs_scope (ls_sorted_base_states l)"
    using r rebuild_base_states by blast
  then show "may_write (oa_registry a) s t \<longleftrightarrow>
      (\<exists>b \<in> set (ls_sorted_base_states l). bs_scope b = s \<and> bs_owner_term b = t
        \<and> ot_owner_node t = reg_this_node (oa_registry a) \<and> bs_activation_state b = Routable)
      \<and> meta_overlay (oa_meta a) s = None"
    unfolding rebuild_may_write [OF r] st(2) using owner_pair_spec_maps(2) [OF spec] by auto
qed

lemma readable_view:
  assumes "readable sha m g l"
  shows "meta_wf m" and "owner_pair_spec sha g l" and "meta_term m = hterm g"
    and "om_get (cm_cluster_owner m) k \<noteq> Some Garbled"
    and "\<exists>mk. get_decoded (cm_snapshot_meta m) INSTALL_MARKER_KEY = Ok (Some mk) \<and> im_status mk = StatusInstalled
      \<and> im_generation mk = gs_generation g \<and> im_revision mk = gs_revision g \<and> im_recipient_node mk = ls_recipient_node l"
proof -
  have wf: "meta_wf m" and i: "installed_owner_snapshot sha True m = Ok (Some (g, l))" using assms by (simp_all add: readable_def)
  show "meta_wf m" by (rule wf)
  show "owner_pair_spec sha g l" "meta_term m = hterm g" using installed_OkD [OF wf i] by (simp_all add: hterm_def)
  from i obtain mk where mk: "install_marker True m = Ok (Some mk)"
    by (auto simp: installed_owner_snapshot_def split: option.splits)
  with i obtain ts where "list_owner_terms True m = Ok ts"
    by (auto simp: installed_owner_snapshot_def Let_def split: if_splits)
  then obtain xs where "om_values (cm_cluster_owner m) = map Row xs"
    by (auto simp: list_owner_terms_def try_collect_decode)
  then have "Garbled \<notin> set (om_values (cm_cluster_owner m))" by auto
  then show "om_get (cm_cluster_owner m) k \<noteq> Some Garbled" using om_values_set [of "cm_cluster_owner m" Garbled] wf by (auto simp: meta_wf_def)
  obtain mk where "meta_marker m = Some mk" "im_status mk = StatusInstalled" "im_generation mk = gs_generation g"
    "im_revision mk = gs_revision g" "im_recipient_node mk = ls_recipient_node l" using installed_OkD(3) [OF wf i] by blast
  moreover from this(1) have "get_decoded (cm_snapshot_meta m) INSTALL_MARKER_KEY = Ok (Some mk)"
    by (simp add: meta_marker_def split: option.splits stored.splits)
  ultimately show "\<exists>mk. get_decoded (cm_snapshot_meta m) INSTALL_MARKER_KEY = Ok (Some mk) \<and> im_status mk = StatusInstalled
      \<and> im_generation mk = gs_generation g \<and> im_revision mk = gs_revision g \<and> im_recipient_node mk = ls_recipient_node l"
    by blast
qed

text \<open>A later snapshot for the same node installs.\<close>

text \<open>A snapshot that a store accepts after another: a higher revision and no lower epoch.\<close>

definition later :: "owner_term_snapshot \<Rightarrow> owner_term_snapshot \<Rightarrow> bool" where
  "later g' g \<longleftrightarrow> gs_revision g < gs_revision g'
     \<and> (\<forall>s t t'. hterm g s = Some t \<and> hterm g' s = Some t' \<longrightarrow> ot_epoch t \<le> ot_epoch t')"

lemma follows_later: "follows g' g \<Longrightarrow> later g' g"
  unfolding later_def follows_def grows_def by (metis less_imp_le option.inject order_refl)

lemma install_later:
  assumes rd: "readable sha m g l" and spec: "owner_pair_spec sha g' l'" and "later g' g"
    and gen: "gs_generation g' = TRACK_A_COORDINATOR_GENERATION" "gs_generation g = TRACK_A_COORDINATOR_GENERATION"
    and "ls_recipient_node l' = ls_recipient_node l"
  shows "\<exists>m'. install_owner_snapshot sha True g' l' m = Ok (Installed, m') \<and> readable sha m' g' l'
    \<and> meta_overlay m' = meta_overlay m \<and> list_local_saga_states True m' = list_local_saga_states True m"
proof -
  note v = readable_view [OF rd]
  let ?m = "put_marker (marker_of g' l') (replace_rows g' l' m)"
  have "epoch_regresses (cm_cluster_owner m) (gs_generation g') (gs_sorted_terms g') = Ok False"
    unfolding epoch_regresses_False
  proof (intro ballI conjI allI impI)
    fix x old assume x: "x \<in> set (gs_sorted_terms g')" and old: "meta_term m (ot_scope x) = Some old"
    have "hterm g' (ot_scope x) = Some x" using x hterm_spec [OF spec] by simp
    with old v(3) \<open>later g' g\<close> have "ot_epoch old \<le> ot_epoch x" by (auto simp: later_def)
    then show "\<not> (ot_generation old = gs_generation g' \<and> ot_epoch x < ot_epoch old)" by auto
  qed (rule v(4))
  moreover obtain mk where "get_decoded (cm_snapshot_meta m) INSTALL_MARKER_KEY = Ok (Some mk)" "im_status mk = StatusInstalled"
    "im_generation mk = gs_generation g" "im_revision mk = gs_revision g" "im_recipient_node mk = ls_recipient_node l"
    using v(5) by blast
  ultimately have i: "install_owner_snapshot sha True g' l' m = Ok (Installed, ?m)"
    unfolding install_Installed_iff using spec assms(3,6) gen
    by (auto simp: marker_admits_def later_def simp del: get_decoded_eq_Some)
  have "installed_owner_snapshot sha True ?m = Ok (Some (g', l'))" by (rule install_read_back [OF v(1) i])
  moreover have "list_local_saga_states True ?m = list_local_saga_states True m" by (simp add: list_local_saga_states_def)
  ultimately show ?thesis
    using i rd meta_wf_install [OF v(1) i] by (auto simp: readable_def)
qed

lemma rebuild_serving:
  assumes rd: "readable sha m g l" and "ls_recipient_node l = reg_this_node r" and "gs_generation g = TRACK_A_COORDINATOR_GENERATION"
  shows "\<exists>ss r'. list_local_saga_states True m = Ok ss \<and> rebuild_from_owner_snapshot sha r g l ss = Ok r'
    \<and> serving sha \<lparr>oa_registry = r', oa_meta = m\<rparr> g l \<and> reg_this_node r' = reg_this_node r"
proof -
  obtain ss where ss: "list_local_saga_states True m = Ok ss" using rd by (auto simp: readable_def is_ok_def split: sum.splits)
  obtain r' where r': "rebuild_from_owner_snapshot sha r g l ss = Ok r'"
    using readable_view(2) [OF rd] assms(2,3) by (auto simp: rebuild_eq_Ok)
  then have "rebuild_from_owner_snapshot sha r' g l ss = Ok r'" "reg_this_node r' = reg_this_node r" by (auto simp: rebuild_eq_Ok)
  with ss r' rd show ?thesis by (auto simp: serving_def)
qed

text \<open>Delivery, remote or on the chef itself.\<close>

lemma replicate_serves:
  assumes rd: "readable sha (oa_meta a) g l" and spec: "owner_pair_spec sha g' l'" and "later g' g"
    and gen: "gs_generation g' = TRACK_A_COORDINATOR_GENERATION" "gs_generation g = TRACK_A_COORDINATOR_GENERATION"
    and rl: "ls_recipient_node l' = ls_recipient_node l" "ls_recipient_node l = reg_this_node (oa_registry a)"
  shows "\<exists>a'. handle_replicate sha (\<lambda>_. True) g' l' a = (OwnerSnapshotAck Installed, a') \<and> serving sha a' g' l'
      \<and> meta_overlay (oa_meta a') = meta_overlay (oa_meta a) \<and> reg_this_node (oa_registry a') = reg_this_node (oa_registry a)"
    and "\<exists>a'. install_locally sha (\<lambda>_. True) g' l' a = (Ok (), a') \<and> serving sha a' g' l'
      \<and> meta_overlay (oa_meta a') = meta_overlay (oa_meta a) \<and> reg_this_node (oa_registry a') = reg_this_node (oa_registry a)"
proof -
  obtain m' where i: "install_owner_snapshot sha True g' l' (oa_meta a) = Ok (Installed, m')" and rd': "readable sha m' g' l'"
    and ov: "meta_overlay m' = meta_overlay (oa_meta a)" using install_later [OF assms(1-6)] by blast
  have "ls_recipient_node l' = reg_this_node (close_owner_readiness (oa_registry a))" using rl by simp
  from rebuild_serving [OF rd' this gen(1)] obtain ss r' where ss: "list_local_saga_states True m' = Ok ss"
    and r': "rebuild_from_owner_snapshot sha (close_owner_readiness (oa_registry a)) g' l' ss = Ok r'"
    and sv: "serving sha \<lparr>oa_registry = r', oa_meta = m'\<rparr> g' l'" and n: "reg_this_node r' = reg_this_node (oa_registry a)" by auto
  have inst: "installed_owner_snapshot sha True m' = Ok (Some (g', l'))" using rd' by (simp add: readable_def)
  have a': "a\<lparr>oa_registry := r', oa_meta := m'\<rparr> = \<lparr>oa_registry = r', oa_meta = m'\<rparr>" by (cases a) simp
  have "handle_replicate sha (\<lambda>_. True) g' l' a = (OwnerSnapshotAck Installed, \<lparr>oa_registry = r', oa_meta = m'\<rparr>)"
    by (simp add: handle_replicate_def rebuild_after_install_def rl i inst ss r' a')
  with sv ov n show "\<exists>a'. handle_replicate sha (\<lambda>_. True) g' l' a = (OwnerSnapshotAck Installed, a') \<and> serving sha a' g' l'
      \<and> meta_overlay (oa_meta a') = meta_overlay (oa_meta a) \<and> reg_this_node (oa_registry a') = reg_this_node (oa_registry a)"
    by (intro exI [of _ "\<lparr>oa_registry = r', oa_meta = m'\<rparr>"]) simp
  have "install_locally sha (\<lambda>_. True) g' l' a = (Ok (), \<lparr>oa_registry = r', oa_meta = m'\<rparr>)"
    by (simp add: install_locally_def Let_def i ss r' a')
  with sv ov n show "\<exists>a'. install_locally sha (\<lambda>_. True) g' l' a = (Ok (), a') \<and> serving sha a' g' l'
      \<and> meta_overlay (oa_meta a') = meta_overlay (oa_meta a) \<and> reg_this_node (oa_registry a') = reg_this_node (oa_registry a)"
    by (intro exI [of _ "\<lparr>oa_registry = r', oa_meta = m'\<rparr>"]) simp
qed

section \<open>Retiring the source and committing at the target\<close>

lemma pair_find:
  assumes "owner_pair_spec sha g l" and "b \<in> set (ls_sorted_base_states l)" and "bs_scope b = s"
  shows "List.find (\<lambda>x. bs_scope x = s) (ls_sorted_base_states l) = Some b"
    and "List.find (\<lambda>x. ot_scope x = s) (gs_sorted_terms g) = Some (bs_owner_term b)" and "ot_scope (bs_owner_term b) = s"
proof -
  have d: "distinct (map ot_scope (gs_sorted_terms g))" "distinct (map bs_scope (ls_sorted_base_states l))"
    using assms(1) strictly_sorted_distinct owner_pair_spec_base_sorted [OF assms(1)] by (auto simp: owner_pair_spec_def)
  note maps = owner_pair_spec_maps [OF assms(1)]
  show "List.find (\<lambda>x. bs_scope x = s) (ls_sorted_base_states l) = Some b"
    using map_extend_empty_find [OF d(2), of s] maps(2) [of s b] assms(2,3) by simp
  then show "List.find (\<lambda>x. ot_scope x = s) (gs_sorted_terms g) = Some (bs_owner_term b)"
    using map_extend_empty_find [OF d(1), of s] map_extend_empty_find [OF d(2), of s] maps(3) [of s] by simp
  show "ot_scope (bs_owner_term b) = s" using assms by (auto simp: owner_pair_spec_def)
qed

lemma sagas_ok: "meta_wf m \<Longrightarrow> is_ok (list_local_saga_states True m) \<longleftrightarrow> (\<forall>k. om_get (cm_local_owner_saga m) k \<noteq> Some Garbled)"
proof -
  assume wf: "meta_wf m"
  have "is_ok (try_collect decode_row cs) \<longleftrightarrow> Garbled \<notin> set cs" for cs :: "local_owner_saga_state stored list"
  proof (induction cs)
    case (Cons c cs)
    then show ?case by (cases c; cases "try_collect decode_row cs") auto
  qed simp
  moreover have "is_ok (list_local_saga_states True m) = is_ok (try_collect decode_row (om_values (cm_local_owner_saga m)))"
    by (cases "try_collect decode_row (om_values (cm_local_owner_saga m))") (simp_all add: list_local_saga_states_def)
  ultimately have "is_ok (list_local_saga_states True m) \<longleftrightarrow> Garbled \<notin> set (om_values (cm_local_owner_saga m))" by simp
  then show ?thesis using om_values_set [of "cm_local_owner_saga m" Garbled] wf by (auto simp: meta_wf_def)
qed

lemma retirement_ok:
  assumes sv: "serving sha a g l" and w: "may_write (oa_registry a) s t" and "s \<noteq> NanoContainer []"
  shows "\<exists>st m'. persist_source_retirement sha (\<lambda>_. True) (oa_meta a) (reg_this_node (oa_registry a)) (to_wire s) (ot_epoch t) = Ok (st, m')
    \<and> lo_scope st = s \<and> readable sha m' g l"
proof -
  note v = serving_view [OF sv] and rv = readable_view [OF serving_view(1) [OF sv]]
  from w v(6) obtain b where b: "b \<in> set (ls_sorted_base_states l)" "bs_scope b = s" "bs_owner_term b = t"
    "ot_owner_node t = reg_this_node (oa_registry a)" "bs_activation_state b = Routable"
    and ov: "meta_overlay (oa_meta a) s = None" by blast
  note f = pair_find [OF rv(2) b(1,2)]
  have spec: "bs_recipient_node b = reg_this_node (oa_registry a)" "bs_base_role b = BaseOwner"
    "ls_generation l = TRACK_A_COORDINATOR_GENERATION"
    using rv(2) b(1,3,4) v(4,5) by (auto simp: owner_pair_spec_def split: if_splits)
  have tg: "t \<in> set (gs_sorted_terms g)" using find_SomeD [OF f(2)] b(3) by simp
  have gen: "ot_generation t = TRACK_A_COORDINATOR_GENERATION"
    using rv(2) tg v(5) by (auto simp: owner_pair_spec_def)
  have none: "om_get (cm_local_owner_saga (oa_meta a)) (scope_key s) = None"
    using ov sagas_ok [OF rv(1)] v(1) by (auto simp: readable_def row_at_def split: option.splits stored.splits)
  let ?st = "\<lparr>lo_scope = s, lo_node_id = reg_this_node (oa_registry a), lo_epoch = ot_epoch t, lo_role = RoleRetired\<rparr>"
  let ?m = "put_overlay (retired_overlay s (reg_this_node (oa_registry a)) (ot_epoch t)) (oa_meta a)"
  have put: "put_local_state True ?st (oa_meta a) = Ok ?m"
    using none by (simp add: put_local_state_def put_handoff_saga_state_cas_def retired_overlay_def get_decoded_def)
  have i: "installed_owner_snapshot sha True (oa_meta a) = Ok (Some (g, l))" using v(1) by (simp add: readable_def)
  have "persist_source_retirement sha (\<lambda>_. True) (oa_meta a) (reg_this_node (oa_registry a)) (to_wire s) (ot_epoch t) = Ok (?st, ?m)"
    by (simp add: persist_source_retirement_def from_wire_to_wire [OF assms(3)] i f b gen v(4,5) spec put)
  moreover have wf: "meta_wf ?m" by (rule meta_wf_put_overlay [OF rv(1)])
  moreover have "installed_owner_snapshot sha True ?m = installed_owner_snapshot sha True (oa_meta a)"
    by (rule installed_same_tables) simp_all
  moreover have "is_ok (list_local_saga_states True ?m)"
    using v(1) rv(1) unfolding sagas_ok [OF wf] by (auto simp: readable_def sagas_ok put_overlay_def meta_wf_def)
  ultimately show ?thesis using i by (auto simp: readable_def)
qed

text \<open>Retiring again at the same epoch succeeds and changes nothing.\<close>

lemma retirement_again:
  assumes wf: "meta_wf m" and p: "persist_source_retirement sha (\<lambda>_. True) m n w ep = Ok (st, m')"
  shows "persist_source_retirement sha (\<lambda>_. True) m' n w ep = Ok (st, m')"
proof -
  note r = retirement_OkD [OF wf p]
  then obtain sc where sc: "from_wire w = Some sc" and ov: "meta_overlay m' sc = Some (retired_overlay sc n ep)" by auto
  from ov have g: "get_decoded (cm_local_owner_saga m') (scope_key sc) = Ok (Some (retired_overlay sc n ep))"
    by (auto simp: row_at_def get_decoded_def split: option.splits stored.splits)
  have i: "installed_owner_snapshot sha True m' = installed_owner_snapshot sha True m"
    using r by (intro installed_same_tables) auto
  have "put_local_state True \<lparr>lo_scope = sc, lo_node_id = n, lo_epoch = ep, lo_role = RoleRetired\<rparr> m' = Ok m'"
    using g by (simp add: put_local_state_def put_handoff_saga_state_cas_def retired_overlay_def)
  then show ?thesis
    using p unfolding persist_source_retirement_def by (auto simp: sc i Let_def split: if_splits prod.splits)
qed

text \<open>An overlay a commit may lift: none, or one of a handoff at most at the committed epoch.\<close>

definition liftable :: "cluster_meta_store \<Rightarrow> owner_term \<Rightarrow> bool" where
  "liftable m t \<longleftrightarrow> (case meta_overlay m (ot_scope t) of None \<Rightarrow> True
     | Some e \<Rightarrow> sg_operation_kind e = Handoff \<and> overlay_term e \<le> (ot_generation t, ot_epoch t))"

lemma complete_ok:
  assumes rd: "readable sha m g l" and "liftable m t"
  shows "\<exists>m'. complete_handoff_overlay True t m = Ok m' \<and> readable sha m' g l \<and> meta_overlay m' (ot_scope t) = None"
proof -
  note rv = readable_view [OF rd]
  have ng: "om_get (cm_local_owner_saga m) k \<noteq> Some Garbled" for k using sagas_ok [OF rv(1)] rd by (simp add: readable_def)
  obtain m' where c: "complete_handoff_overlay True t m = Ok m'"
  proof (cases "om_get (cm_local_owner_saga m) (scope_key (ot_scope t))")
    case None
    then show ?thesis by (intro that [of m]) (simp add: complete_handoff_overlay_def get_decoded_def)
  next
    case (Some x)
    then obtain e where e: "x = Row e" using ng by (cases x) auto
    then have "meta_overlay m (ot_scope t) = Some e" using Some by (simp add: row_at_eq_Some)
    then have "sg_operation_kind e \<noteq> Migration" "overlay_term e \<le> (ot_generation t, ot_epoch t)"
      using assms(2) by (auto simp: liftable_def)
    moreover from this(2) have "\<not> (ot_generation t < ot_generation (sg_owner_term e)
        \<or> ot_generation (sg_owner_term e) = ot_generation t \<and> ot_epoch t < ot_epoch (sg_owner_term e))"
      by (auto simp: overlay_term_def)
    ultimately have "complete_handoff_overlay True t m
        = Ok (m\<lparr>cm_local_owner_saga := om_remove (scope_key (ot_scope t)) (cm_local_owner_saga m)\<rparr>)"
      using Some e by (auto simp: complete_handoff_overlay_def get_decoded_def Let_def)
    then show ?thesis by (rule that)
  qed
  note wf = meta_wf_complete [OF rv(1) c] and tb = complete_other_tables [OF c]
  have "cm_local_owner_saga m' = cm_local_owner_saga m \<or> cm_local_owner_saga m' = om_remove (scope_key (ot_scope t)) (cm_local_owner_saga m)"
    using complete_OkD [OF c] by auto
  then have "om_get (cm_local_owner_saga m') k \<noteq> Some Garbled" for k
    by (rule disjE; simp add: om_get_remove ng)
  then have "is_ok (list_local_saga_states True m')" by (simp add: sagas_ok [OF wf(1)])
  moreover have "installed_owner_snapshot sha True m' = installed_owner_snapshot sha True m"
    by (rule installed_same_tables) (use tb in simp_all)
  ultimately show ?thesis using c wf rd by (intro exI [of _ m']) (simp add: readable_def)
qed

lemma commit_serves:
  assumes sv: "serving sha a g l" and b: "b \<in> set (ls_sorted_base_states l)" "bs_owner_term b = t" "bs_activation_state b = Routable"
    and t: "ot_owner_node t = reg_this_node (oa_registry a)" "ot_scope t = s" "s \<noteq> NanoContainer []"
    and lift: "liftable (oa_meta a) t"
  shows "map_option NodeId (pu owner) = Some (ot_owner_node t) \<Longrightarrow>
      \<exists>a'. handle_owner_commit sha pu (\<lambda>_. True) (to_wire s) owner (ot_epoch t) a = (OwnerCommitted (to_wire s) (ot_epoch t), a')
        \<and> may_write (oa_registry a') s t \<and> reg_this_node (oa_registry a') = reg_this_node (oa_registry a)"
    and "\<exists>a'. commit_locally sha (\<lambda>_. True) (to_wire s) (ot_owner_node t) (ot_epoch t) a = (Ok (), a')
        \<and> may_write (oa_registry a') s t \<and> reg_this_node (oa_registry a') = reg_this_node (oa_registry a)"
proof -
  note v = serving_view [OF sv] and rv = readable_view [OF serving_view(1) [OF sv]]
  have sc: "bs_scope b = s" using rv(2) b(1,2) t(2) by (auto simp: owner_pair_spec_def)
  note f = pair_find [OF rv(2) b(1) sc]
  have spec: "bs_recipient_node b = ot_owner_node t" "bs_base_role b = BaseOwner"
    using rv(2) b(1,2) v(4) t(1) by (auto simp: owner_pair_spec_def split: if_splits)
  have gen: "ot_generation t = TRACK_A_COORDINATOR_GENERATION"
    using rv(2) find_SomeD [OF f(2)] b(2) v(5) by (auto simp: owner_pair_spec_def)
  obtain m' where c: "complete_handoff_overlay True t (oa_meta a) = Ok m'" and rd: "readable sha m' g l"
    and ov: "meta_overlay m' s = None" using complete_ok [OF v(1) lift] t(2) by auto
  obtain ss r' where ss: "list_local_saga_states True m' = Ok ss" and r': "rebuild_from_owner_snapshot sha (oa_registry a) g l ss = Ok r'"
    and sv': "serving sha \<lparr>oa_registry = r', oa_meta = m'\<rparr> g l" and n: "reg_this_node r' = reg_this_node (oa_registry a)"
    using rebuild_serving [OF rd v(4,5)] by blast
  have i: "installed_owner_snapshot sha True (oa_meta a) = Ok (Some (g, l))" "installed_owner_snapshot sha True m' = Ok (Some (g, l))"
    using v(1) rd by (simp_all add: readable_def)
  have mw: "may_write r' s t" using serving_view(6) [OF sv', of s t] b sc t(1) n ov by auto
  have tt: "\<lparr>ot_scope = s, ot_owner_node = ot_owner_node t, ot_epoch = ot_epoch t, ot_generation = TRACK_A_COORDINATOR_GENERATION\<rparr> = t"
    using t(2) gen by (cases t) simp
  note w = from_wire_to_wire [OF t(3)]
  have "handle_owner_commit sha pu (\<lambda>_. True) (to_wire s) owner (ot_epoch t) a
      = (OwnerCommitted (to_wire s) (ot_epoch t), a\<lparr>oa_meta := m', oa_registry := r'\<rparr>)"
    if pu: "map_option NodeId (pu owner) = Some (ot_owner_node t)"
  proof -
    from pu obtain u where u: "pu owner = Some u" "NodeId u = ot_owner_node t" by auto
    have "persist_commit sha pu (\<lambda>_. True) (oa_meta a) (to_wire s) owner (ot_epoch t) = Ok (t, m')"
      by (simp add: persist_commit_def w u i f b spec tt c)
    then show ?thesis by (simp add: handle_owner_commit_def i ss r')
  qed
  with mw n show "map_option NodeId (pu owner) = Some (ot_owner_node t) \<Longrightarrow>
      \<exists>a'. handle_owner_commit sha pu (\<lambda>_. True) (to_wire s) owner (ot_epoch t) a = (OwnerCommitted (to_wire s) (ot_epoch t), a')
        \<and> may_write (oa_registry a') s t \<and> reg_this_node (oa_registry a') = reg_this_node (oa_registry a)"
    by (intro exI [of _ "a\<lparr>oa_meta := m', oa_registry := r'\<rparr>"]) simp
  have "commit_locally sha (\<lambda>_. True) (to_wire s) (ot_owner_node t) (ot_epoch t) a = (Ok (), a\<lparr>oa_meta := m', oa_registry := r'\<rparr>)"
    by (simp add: commit_locally_def w tt c i ss r')
  with mw n show "\<exists>a'. commit_locally sha (\<lambda>_. True) (to_wire s) (ot_owner_node t) (ot_epoch t) a = (Ok (), a')
        \<and> may_write (oa_registry a') s t \<and> reg_this_node (oa_registry a') = reg_this_node (oa_registry a)"
    by (intro exI [of _ "a\<lparr>oa_meta := m', oa_registry := r'\<rparr>"]) simp
qed

section \<open>The chef's install\<close>

lemma replace_term_ok:
  "x \<in> set ts \<Longrightarrow> ot_scope x = sc \<Longrightarrow> ot_scope t = sc \<Longrightarrow>
     \<exists>ts'. replace_term sc t ts = Some ts' \<and> map ot_scope ts' = map ot_scope ts"
  by (induction ts) (auto split: if_splits)

lemma handoff_install_ok:
  assumes v: "readable sha (oa_meta a) g l" "ls_recipient_node l = reg_this_node (oa_registry a)"
      "gs_generation g = TRACK_A_COORDINATOR_GENERATION"
    and cur: "hterm g (hr_scope req) = Some cur" "ot_epoch cur \<le> ne"
    and rv: "checked_add (gs_revision g) 1 = Some rvn" and fit: "fits (gs_sorted_terms g)"
  shows "\<exists>g' l' a'. handoff_install sha (\<lambda>_. True) req ne a = (Ok g', a') \<and> serving sha a' g' l'
    \<and> local_snapshot_for sha g' (reg_this_node (oa_registry a)) = Ok l'
    \<and> hterm g' = (hterm g)(hr_scope req \<mapsto> handoff_term req ne) \<and> gs_revision g' = rvn \<and> (ot_epoch cur < ne \<longrightarrow> follows g' g)
    \<and> global_validate sha g' = Ok ()
    \<and> gs_generation g' = TRACK_A_COORDINATOR_GENERATION \<and> fits (gs_sorted_terms g')
    \<and> meta_overlay (oa_meta a') = meta_overlay (oa_meta a) \<and> reg_this_node (oa_registry a') = reg_this_node (oa_registry a)"
proof -
  note rd = readable_view [OF v(1)]
  let ?t = "handoff_term req ne"
  have i: "installed_owner_snapshot sha True (oa_meta a) = Ok (Some (g, l))" using v(1) by (simp add: readable_def)
  have d: "distinct (map ot_scope (gs_sorted_terms g))" using rd(2) strictly_sorted_distinct by (auto simp: owner_pair_spec_def)
  have mem: "cur \<in> set (gs_sorted_terms g)" "ot_scope cur = hr_scope req" using cur(1) hterm_spec [OF rd(2)] by simp_all
  obtain ts where ts: "replace_term (hr_scope req) ?t (gs_sorted_terms g) = Some ts" and sc: "map ot_scope ts = map ot_scope (gs_sorted_terms g)"
    using replace_term_ok [of cur "gs_sorted_terms g" "hr_scope req" ?t] mem by (auto simp: handoff_term_def)
  note st = replace_term_set [OF ts d]
  have "fits ts"
  proof -
    have "length ts = length (gs_sorted_terms g)" using sc by (metis length_map)
    moreover have "ot_scope ` set ts = ot_scope ` set (gs_sorted_terms g)" using sc by (metis set_map)
    ultimately show ?thesis using fit unfolding fits_def by (metis (no_types, lifting) image_iff)
  qed
  moreover have "\<forall>t \<in> set ts. ot_generation t = TRACK_A_COORDINATOR_GENERATION"
    using rd(2) v(3) by (auto simp: st handoff_term_def owner_pair_spec_def)
  ultimately obtain g' where g': "owner_term_snapshot_new sha TRACK_A_COORDINATOR_GENERATION rvn ts = Ok g'"
    using snapshot_new_ok [of ts TRACK_A_COORDINATOR_GENERATION sha rvn] sc d by auto
  note new = owner_term_snapshot_new_OkD [OF g']
  have fit': "fits (gs_sorted_terms g')" using \<open>fits ts\<close> by (simp add: new(4) fits_def)
  obtain l' where l': "local_snapshot_for sha g' (reg_this_node (oa_registry a)) = Ok l'" "owner_pair_spec sha g' l'"
    "ls_recipient_node l' = reg_this_node (oa_registry a)" using local_snapshot_ok [OF new(1) fit'] by blast
  have snap: "handoff_snapshot sha (\<lambda>_. True) req ne (reg_this_node (oa_registry a)) (oa_meta a) = Ok (g', l')"
    by (simp add: handoff_snapshot_def i ts rv g' l')
  have hg: "hterm g' = (hterm g)(hr_scope req \<mapsto> ?t)" using handoff_snapshot_OkD(1) [OF rd(1) snap] rd(3) by simp
  have fol': "ot_epoch cur < ne \<longrightarrow> follows g' g"
    using cur(1) checked_add_one_less [OF rv] by (auto simp: follows_def grows_def hg new(3) handoff_term_def)
  have fol: "later g' g"
    using cur checked_add_one_less [OF rv] by (auto simp: later_def hg new(3) handoff_term_def)
  have "ls_recipient_node l' = ls_recipient_node l" using l'(3) v(2) by simp
  from replicate_serves(2) [OF v(1) l'(2) fol new(2) v(3) this v(2)]
  obtain a' where "install_locally sha (\<lambda>_. True) g' l' a = (Ok (), a')" "serving sha a' g' l'"
    "meta_overlay (oa_meta a') = meta_overlay (oa_meta a)" "reg_this_node (oa_registry a') = reg_this_node (oa_registry a)" by blast
  with snap l'(1) hg fol' new(1,2,3) fit' show ?thesis
    by (intro exI [of _ g'] exI [of _ l'] exI [of _ a']) (simp add: handoff_install_def)
qed

end
