(* ===== verification/Handoff_Transport.thy ===== *)
theory Handoff_Transport
  imports Handoff_Progress
begin

text \<open>
  The contract of the seam the handoff saga drives (the doc comments of
  \<open>HandoffTransport\<close> in \<open>services/sentinel-daemon/src/handoff.rs\<close>) as a locale, what
  the saga guarantees over any transport that keeps it, and the RPC transport as an
  instance.
\<close>

section \<open>The contract\<close>

text \<open>
  \<open>ok\<close> is the well-formedness the transport maintains; \<open>fenced al s ep\<close> says that the
  node behind the alias can never again act as owner of the scope at that epoch or below.
\<close>

lemma handoff_install_term:
  assumes "meta_wf (oa_meta a)" and "handoff_install sha io req ne a = (Ok g, a')"
  shows "hterm g (hr_scope req) = Some (handoff_term req ne)" and "meta_term (oa_meta a') (hr_scope req) = Some (handoff_term req ne)"
proof -
  from assms(2) obtain l where s: "handoff_snapshot sha io req ne (reg_this_node (oa_registry a)) (oa_meta a) = Ok (g, l)"
    and i: "install_locally sha (\<lambda>k. io (Suc k)) g l a = (Ok (), a')"
    by (auto simp: handoff_install_def split: sum.splits prod.splits)
  note sn = handoff_snapshot_OkD [OF assms(1) s]
  show g: "hterm g (hr_scope req) = Some (handoff_term req ne)" using sn(1) by simp
  from i show "meta_term (oa_meta a') (hr_scope req) = Some (handoff_term req ne)"
  proof (cases rule: install_locally_cases)
    case (rebuilt out ss)
    have "out \<noteq> AlreadyInstalled" using install_already [of sha "io (Suc 0)" g l "oa_meta a" "oa_meta a'"] rebuilt(2) sn(2) by auto
    then have "install_owner_snapshot sha (io (Suc 0)) g l (oa_meta a) = Ok (Installed, oa_meta a')" using rebuilt(2,3) by auto
    from install_holds(1) [OF assms(1) this] g show ?thesis by (simp add: holds_def)
  qed simp
qed

text \<open>The chef's store holds a later epoch.\<close>

definition chef_newer :: "state_transfer_scope \<Rightarrow> u64 \<Rightarrow> owner_authority \<Rightarrow> bool" where
  "chef_newer s ep a \<longleftrightarrow> (case meta_term (oa_meta a) s of Some t \<Rightarrow> ep < ot_epoch t | None \<Rightarrow> False)"

locale handoff_seam =
  fixes sha :: "bytes \<Rightarrow> bytes" and tr :: "'w handoff_transport"
    and ok :: "owner_authority \<times> 'w \<Rightarrow> bool"
    and fenced :: "string \<Rightarrow> state_transfer_scope \<Rightarrow> u64 \<Rightarrow> owner_authority \<times> 'w \<Rightarrow> bool"
  assumes ok_wf: "ok W \<Longrightarrow> meta_wf (oa_meta (fst W))"
    and prepare_fences: "ok W \<Longrightarrow> ht_prepare_handoff tr al (to_wire s) ep W = (Ok (), W') \<Longrightarrow> fenced al s ep W'"
    and prepare_keeps: "ok W \<Longrightarrow> ht_prepare_handoff tr al w ep W = (res, W') \<Longrightarrow>
      ok W' \<and> same_install (oa_meta (fst W)) (oa_meta (fst W'))"
    and install_keeps: "ok (a, p) \<Longrightarrow> handoff_install sha io req ne a = (ires, a') \<Longrightarrow> ok (a', p)
      \<and> (fenced al (hr_scope req) ep (a, p) \<longrightarrow> ep < ne \<longrightarrow> fenced al (hr_scope req) ep (a', p))"
    and replicate_keeps: "ok W \<Longrightarrow> ht_replicate_owner_snapshot tr al' g l W = (res, W') \<Longrightarrow> hterm g s = Some t \<Longrightarrow>
      ep < ot_epoch t \<Longrightarrow> ok W' \<and> (fenced al s ep W \<longrightarrow> fenced al s ep W') \<and> (chef_newer s ep (fst W) \<longrightarrow> chef_newer s ep (fst W'))"
    and commit_keeps: "ok W \<Longrightarrow> ht_owner_commit tr al' (to_wire s) n ne W = (res, W') \<Longrightarrow> ep < ne \<Longrightarrow>
      chef_newer s ep (fst W) \<Longrightarrow> ok W' \<and> (fenced al s ep W \<longrightarrow> fenced al s ep W')"
begin

lemma replicate_to_keeps:
  assumes "ok W" and "replicate_to sha tr al' n g W = (res, W')" and "hterm g s = Some t" and "ep < ot_epoch t"
  shows "ok W' \<and> (fenced al s ep W \<longrightarrow> fenced al s ep W') \<and> (chef_newer s ep (fst W) \<longrightarrow> chef_newer s ep (fst W'))"
proof (cases "local_snapshot_for sha g n")
  case (Inl e)
  with assms(1,2) show ?thesis by (simp add: replicate_to_def)
next
  case (Inr l)
  with assms(2) have "ht_replicate_owner_snapshot tr al' g l W = (res, W')" by (simp add: replicate_to_def)
  from replicate_keeps [OF assms(1) this assms(3,4)] show ?thesis .
qed

lemma publish_keeps:
  assumes "ok W" and pub: "handoff_publish sha tr req cur al' ne g W = (res, W')"
    and g: "hterm g (hr_scope req) = Some t" "ep < ot_epoch t" and "ep < ne"
    and "fenced al (hr_scope req) ep W" and "chef_newer (hr_scope req) ep (fst W)"
  shows "ok W' \<and> fenced al (hr_scope req) ep W'"
proof -
  let ?inv = "\<lambda>W. ok W \<and> fenced al (hr_scope req) ep W \<and> chef_newer (hr_scope req) ep (fst W)"
  obtain r1 W1 where w1: "(if ot_owner_node cur \<noteq> reg_this_node (oa_registry (fst W)) \<and> ot_owner_node cur \<noteq> hr_target_node req
      then replicate_to sha tr al' (ot_owner_node cur) g W else (Ok (), W)) = (r1, W1)" by (metis surj_pair)
  have k1: "?inv W1"
    using assms(1,6,7) w1 replicate_to_keeps [where W = W and W' = W1 and ep = ep and al = al] g by (auto split: if_splits)
  obtain r2 W2 where w2: "replicate_to sha tr (hr_target_alias req) (hr_target_node req) g W1 = (r2, W2)" by (metis surj_pair)
  have k2: "?inv W2"
    using replicate_to_keeps [OF k1 [THEN conjunct1] w2 g, of al] k1 by blast
  obtain r3 W3 where w3: "ht_owner_commit tr (hr_target_alias req) (to_wire (hr_scope req)) (hr_target_node req) ne W2 = (r3, W3)"
    by (metis surj_pair)
  have k3: "ok W3 \<and> fenced al (hr_scope req) ep W3"
    using commit_keeps [OF k2 [THEN conjunct1] w3 assms(5), of al] k2 by blast
  from pub have "W' = W1 \<or> W' = W2 \<or> W' = W3"
    by (auto simp: handoff_publish_def w1 w2 w3 split: sum.splits)
  with k1 k2 k3 show ?thesis by blast
qed

text \<open>The saga over any such transport: nothing is stolen.\<close>

lemma saga_never_steals:
  assumes W: "ok W" and run: "run_handoff sha io tr req W = (res, W')"
  shows "ok W' \<and> (same_install (oa_meta (fst W)) (oa_meta (fst W'))
    \<or> (\<exists>cur al ne. handoff_begin (ht_alias_for_node tr) req (oa_registry (fst W)) = Ok (cur, al, ne)
         \<and> res \<noteq> Ok AbortedSourceUnreachable \<and> fenced al (hr_scope req) (ot_epoch cur) W'))"
proof (cases "handoff_begin (ht_alias_for_node tr) req (oa_registry (fst W))")
  case (Inl e)
  then have "W' = W" using run by (simp add: run_handoff_def)
  then show ?thesis using W by simp
next
  case (Inr x)
  obtain cur al ne where x: "x = (cur, al, ne)" by (cases x)
  note b = Inr [unfolded x]
  have lt: "ot_epoch cur < ne" using b checked_add_one_less by (auto simp: handoff_begin_def split: if_splits)
  obtain r1 a1 p1 where p: "ht_prepare_handoff tr al (to_wire (hr_scope req)) (ot_epoch cur) W = (r1, a1, p1)" by (metis surj_pair)
  note pk = prepare_keeps [OF W p]
  show ?thesis
  proof (cases r1)
    case (Inl e)
    then have "W' = (a1, p1)" using run b p by (simp add: run_handoff_def)
    then show ?thesis using pk by simp
  next
    case (Inr u)
    have f1: "fenced al (hr_scope req) (ot_epoch cur) (a1, p1)" using prepare_fences [OF W] p Inr by simp
    obtain r2 a2 where i: "handoff_install sha io req ne a1 = (r2, a2)" by force
    have k2: "ok (a2, p1)" "fenced al (hr_scope req) (ot_epoch cur) (a2, p1)"
      using install_keeps [OF pk [THEN conjunct1] i] f1 lt by blast+
    show ?thesis
    proof (cases r2)
      case (Inl e)
      then have "W' = (a2, p1)" "res = Err e" using run b p \<open>r1 = _\<close> i by (auto simp: run_handoff_def)
      then show ?thesis using k2 b by auto
    next
      case (Inr g)
      then have pub: "handoff_publish sha tr req cur al ne g (a2, p1) = (res, W')" using run b p \<open>r1 = _\<close> i by (auto simp: run_handoff_def)
      have wf: "meta_wf (oa_meta a1)" using ok_wf [OF pk [THEN conjunct1]] by simp
      have t: "hterm g (hr_scope req) = Some (handoff_term req ne)" "meta_term (oa_meta a2) (hr_scope req) = Some (handoff_term req ne)"
        using handoff_install_term [OF wf i [unfolded Inr]] by simp_all
      have "ok W' \<and> fenced al (hr_scope req) (ot_epoch cur) W'"
        by (rule publish_keeps [OF k2(1) pub t(1) _ lt k2(2)]) (use lt t(2) in \<open>simp_all add: handoff_term_def chef_newer_def\<close>)
      moreover have "res \<noteq> Ok AbortedSourceUnreachable"
        using pub by (auto simp: handoff_publish_def split: sum.splits prod.splits if_splits)
      ultimately show ?thesis using b by blast
    qed
  qed
qed

end

section \<open>The RPC transport keeps the contract\<close>

definition rpc_ok :: "owner_authority \<times> peers_world \<Rightarrow> bool" where
  "rpc_ok W \<longleftrightarrow> meta_wf (oa_meta (fst W)) \<and> (\<forall>n. meta_wf (oa_meta (snd W n)))"

text \<open>The authority an alias leads to.\<close>

definition at_alias :: "rpc_transport \<Rightarrow> string \<Rightarrow> owner_authority \<times> peers_world \<Rightarrow> owner_authority option" where
  "at_alias rt al W = (if al = rt_my_alias rt then Some (fst W)
     else map_option (\<lambda>x. snd W (fst x)) (List.find (\<lambda>x. snd x = al) (rt_peers rt)))"

text \<open>The store knows a later epoch of the scope, or holds an overlay at this one.\<close>

definition fence :: "state_transfer_scope \<Rightarrow> u64 \<Rightarrow> cluster_meta_store \<Rightarrow> bool" where
  "fence s ep m \<longleftrightarrow> (case meta_term m s of None \<Rightarrow> False
     | Some t \<Rightarrow> ep < ot_epoch t \<or> (ot_epoch t = ep \<and> meta_overlay m s \<noteq> None))"

definition rpc_fenced :: "rpc_transport \<Rightarrow> string \<Rightarrow> state_transfer_scope \<Rightarrow> u64 \<Rightarrow> owner_authority \<times> peers_world \<Rightarrow> bool" where
  "rpc_fenced rt al s ep W \<longleftrightarrow> (case at_alias rt al W of None \<Rightarrow> False | Some a \<Rightarrow> fence s ep (oa_meta a))"

lemma chef_newer_fence: "chef_newer s ep a \<Longrightarrow> fence s ep (oa_meta a)"
  by (auto simp: chef_newer_def fence_def split: option.splits)

lemma install_fence:
  assumes "meta_wf m" and i: "install_owner_snapshot sha ok g l m = Ok (out, m')" and "hterm g s = Some t" and "ep < ot_epoch t"
  shows "meta_wf m' \<and> (fence s ep m \<longrightarrow> fence s ep m') \<and> (meta_term m' = meta_term m \<or> meta_term m' s = Some t)"
proof (cases "out = Installed")
  case True
  with install_holds(1) [OF assms(1)] i assms(3) have "meta_term m' s = Some t" by (auto simp: holds_def)
  then show ?thesis using meta_wf_install [OF assms(1) i] assms(4) by (simp add: fence_def)
next
  case False
  have "meta_term m' = meta_term m" using install_view(2) [OF assms(1) i False] by simp
  then show ?thesis using meta_wf_install [OF assms(1) i] install_view(1) [OF assms(1) i]
    by (simp add: fence_def split: option.split)
qed

lemma replicate_fence:
  assumes "meta_wf (oa_meta a)" and "hterm g s = Some t" and "ep < ot_epoch t"
  shows "handle_replicate sha io g l a = (resp, a') \<Longrightarrow> meta_wf (oa_meta a') \<and> (fence s ep (oa_meta a) \<longrightarrow> fence s ep (oa_meta a'))"
    and "install_locally sha io g l a = (res, a') \<Longrightarrow> meta_wf (oa_meta a') \<and> (fence s ep (oa_meta a) \<longrightarrow> fence s ep (oa_meta a'))
      \<and> (chef_newer s ep a \<longrightarrow> chef_newer s ep a')"
proof -
  note f = install_fence [OF assms(1) _ assms(2,3)]
  show "meta_wf (oa_meta a') \<and> (fence s ep (oa_meta a) \<longrightarrow> fence s ep (oa_meta a'))" if "handle_replicate sha io g l a = (resp, a')"
    using replicate_store [OF that assms(1)] f [of sha "io 0" l] assms(1) by auto
  show "meta_wf (oa_meta a') \<and> (fence s ep (oa_meta a) \<longrightarrow> fence s ep (oa_meta a')) \<and> (chef_newer s ep a \<longrightarrow> chef_newer s ep a')"
    if "install_locally sha io g l a = (res, a')"
  proof -
    from that have "oa_meta a' = oa_meta a \<or> (\<exists>out. install_owner_snapshot sha (io 0) g l (oa_meta a) = Ok (out, oa_meta a'))"
      by (cases rule: install_locally_cases) auto
    then show ?thesis using f [of sha "io 0" l] assms(1,3) by (auto simp: chef_newer_def)
  qed
qed

lemma retirement_fence:
  assumes "meta_wf m" and "persist_source_retirement sha io m n (to_wire s) ep = Ok (st, m')"
  shows "fence s ep m'"
proof -
  note r = retirement_OkD [OF assms]
  then have "lo_scope st = s" using from_wire_inverse by blast
  with r show ?thesis by (auto simp: fence_def)
qed

lemma retirement_keeps:
  assumes "meta_wf m" and "persist_source_retirement sha io m n w ep = Ok (st, m')"
  shows "meta_wf m'" and "same_install m m'"
  using retirement_OkD [OF assms] by (auto intro: same_install_tables)

lemma commit_fence:
  assumes "meta_wf (oa_meta a)" and h: "handle_owner_commit sha pu io (to_wire s) owner ne a = (resp, a')" and "ep < ne"
  shows "meta_wf (oa_meta a') \<and> (fence s ep (oa_meta a) \<longrightarrow> fence s ep (oa_meta a'))"
proof -
  have "meta_wf m \<and> fence s ep m" if "persist_commit sha pu io (oa_meta a) (to_wire s) owner ne = Ok (t, m)" for t m
  proof -
    note c = commit_OkD [OF assms(1) that]
    have "ot_scope t = s" using c from_wire_inverse by blast
    with c meta_wf_complete(1) [OF assms(1)] complete_other_tables(1) assms(3) show ?thesis by (auto simp: fence_def)
  qed
  note p = this
  from h assms(1) show ?thesis by (cases rule: handle_commit_cases) (use p assms(1) in auto)
qed

lemma commit_locally_fence:
  assumes "meta_wf (oa_meta a)" and h: "commit_locally sha io w n ne a = (res, a')"
  shows "meta_wf (oa_meta a') \<and> cm_cluster_owner (oa_meta a') = cm_cluster_owner (oa_meta a)"
  using h meta_wf_complete(1) [OF assms(1)] complete_other_tables(1) assms(1)
  by (auto simp: commit_locally_def Let_def split: option.splits sum.splits)

text \<open>One RPC at a peer: what is kept of every authority the peer may have.\<close>

lemma peer_rpc_cases:
  assumes "peer_rpc rt fate al req p = (res, p')"
  obtains (same) "p' = p" "\<not> is_ok res"
  | (served) n x resp a where "List.find (\<lambda>x. snd x = al) (rt_peers rt) = Some (n, x)"
      "owner_handle (rt_sha rt) (rt_parse_uuid rt) (rf_io fate) n (rt_chef rt) req (p n) = (resp, a)" "p' = p(n := a)"
      "is_ok res \<longrightarrow> res = Ok resp"
proof (cases "List.find (\<lambda>x. snd x = al) (rt_peers rt)")
  case None
  with assms show ?thesis by (intro that(1)) (auto simp: peer_rpc_def)
next
  case (Some y)
  obtain n x where y: "y = (n, x)" by (cases y)
  obtain resp a where h: "owner_handle (rt_sha rt) (rt_parse_uuid rt) (rf_io fate) n (rt_chef rt) req (p n) = (resp, a)" by (metis surj_pair)
  show ?thesis
  proof (cases "rf_delivery fate = RequestLost")
    case True
    with assms Some y show ?thesis by (intro that(1)) (auto simp: peer_rpc_def)
  next
    case False
    with assms Some y h show ?thesis by (intro that(2) [of n x resp a]) (auto simp: peer_rpc_def split: if_splits)
  qed
qed

lemma rpc_fenced_upd:
  assumes "List.find (\<lambda>x. snd x = al') (rt_peers rt) = Some (n, x)" and "fence s ep (oa_meta (p n)) \<longrightarrow> fence s ep (oa_meta a')"
    and "rpc_fenced rt al s ep (a, p)"
  shows "rpc_fenced rt al s ep (a, p(n := a'))"
  using assms by (auto simp: rpc_fenced_def at_alias_def split: option.splits if_splits)

lemma rpc_fenced_chef:
  assumes "fence s ep (oa_meta a) \<longrightarrow> fence s ep (oa_meta a')" and "rpc_fenced rt al s ep (a, p)"
  shows "rpc_fenced rt al s ep (a', p)"
  using assms by (auto simp: rpc_fenced_def at_alias_def split: option.splits if_splits)

lemma rpc_prepare:
  assumes W: "rpc_ok W" and h: "rpc_prepare_handoff rt al w ep W = (res, W')"
  shows "rpc_ok W' \<and> same_install (oa_meta (fst W)) (oa_meta (fst W'))" and "res = Ok () \<Longrightarrow> w = to_wire s \<Longrightarrow> rpc_fenced rt al s ep W'"
proof -
  obtain a p where ap: "W = (a, p)" by (cases W)
  have wf: "meta_wf (oa_meta a)" "meta_wf (oa_meta (p n))" for n using W by (simp_all add: rpc_ok_def ap)
  have "rpc_ok W' \<and> same_install (oa_meta a) (oa_meta (fst W')) \<and> (res = Ok () \<longrightarrow> w = to_wire s \<longrightarrow> rpc_fenced rt al s ep W')"
  proof (cases "al = rt_my_alias rt")
    case True
    let ?ret = "persist_source_retirement (rt_sha rt) (rf_io (rt_prepare_fate rt)) (oa_meta a) (reg_this_node (oa_registry a)) w ep"
    show ?thesis
    proof (cases ?ret)
      case (Inl e)
      then show ?thesis using h True W by (auto simp: rpc_prepare_handoff_def prepare_locally_def ap)
    next
      case (Inr x)
      obtain st m where x: "x = (st, m)" by (cases x)
      have W': "W' = (\<lparr>oa_registry = retire_local (oa_registry a) (lo_scope st) ep, oa_meta = m\<rparr>, p)"
        using h True Inr x by (auto simp: rpc_prepare_handoff_def prepare_locally_def ap)
      show ?thesis
        using retirement_keeps [OF wf(1) Inr [unfolded x]] retirement_fence [OF wf(1)] Inr x wf True
        by (auto simp: W' rpc_ok_def rpc_fenced_def at_alias_def)
    qed
  next
    case False
    obtain r p' where r: "peer_rpc rt (rt_prepare_fate rt) al (PrepareHandoff w ep) p = (r, p')" by (metis surj_pair)
    have W': "W' = (a, p')" "res = Ok () \<Longrightarrow> \<exists>x y. r = Ok (HandoffPrepared x y)"
      using h False r by (auto simp: rpc_prepare_handoff_def ap split: sum.splits control_response.splits)
    from r show ?thesis
    proof (cases rule: peer_rpc_cases)
      case same
      then show ?thesis using W W' by (auto simp: ap)
    next
      case (served n x resp a1)
      have hp: "handle_prepare (rt_sha rt) (rf_io (rt_prepare_fate rt)) n w ep (p n) = (resp, a1)" using served(2) by simp
      then have "meta_wf (oa_meta a1) \<and> (\<forall>x y. resp = HandoffPrepared x y \<longrightarrow> w = to_wire s \<longrightarrow> fence s ep (oa_meta a1))"
        by (cases rule: handle_prepare_cases) (use wf retirement_keeps(1) [OF wf(2)] retirement_fence [OF wf(2)] in auto)
      then show ?thesis using served wf W' False by (auto simp: rpc_ok_def rpc_fenced_def at_alias_def)
    qed
  qed
  then show "rpc_ok W' \<and> same_install (oa_meta (fst W)) (oa_meta (fst W'))" and "res = Ok () \<Longrightarrow> w = to_wire s \<Longrightarrow> rpc_fenced rt al s ep W'"
    by (simp_all add: ap)
qed

lemma rpc_replicate:
  assumes W: "rpc_ok W" and h: "rpc_replicate_owner_snapshot rt al' g l W = (res, W')"
    and t: "hterm g s = Some t" "ep < ot_epoch t"
  shows "rpc_ok W' \<and> (rpc_fenced rt al s ep W \<longrightarrow> rpc_fenced rt al s ep W') \<and> (chef_newer s ep (fst W) \<longrightarrow> chef_newer s ep (fst W'))"
proof -
  obtain a p where ap: "W = (a, p)" by (cases W)
  have wf: "meta_wf (oa_meta a)" "meta_wf (oa_meta (p n))" for n using W by (simp_all add: rpc_ok_def ap)
  show ?thesis
  proof (cases "al' = rt_my_alias rt")
    case True
    obtain r a' where i: "install_locally (rt_sha rt) (rf_io (rt_replicate_fate rt al')) g l a = (r, a')" by (metis surj_pair)
    have W': "W' = (a', p)" using h True i by (auto simp: rpc_replicate_owner_snapshot_def ap)
    from replicate_fence(2) [OF wf(1) t i] show ?thesis
      using rpc_fenced_chef [of s ep a a' rt al p] wf by (auto simp: W' ap rpc_ok_def)
  next
    case False
    obtain r p' where r: "peer_rpc rt (rt_replicate_fate rt al') al' (ReplicateOwnerSnapshot g l) p = (r, p')" by (metis surj_pair)
    have W': "W' = (a, p')"
      using h False r by (auto simp: rpc_replicate_owner_snapshot_def ap split: sum.splits control_response.splits)
    from r show ?thesis
    proof (cases rule: peer_rpc_cases)
      case same
      then show ?thesis using W W' by (auto simp: ap)
    next
      case (served n x resp a1)
      from served(2) have "handle_replicate (rt_sha rt) (rf_io (rt_replicate_fate rt al')) g l (p n) = (resp, a1)" by simp
      from replicate_fence(1) [OF wf(2) t this] show ?thesis
        using rpc_fenced_upd [OF served(1), of s ep p a1 al a] wf served(3) by (auto simp: W' ap rpc_ok_def)
    qed
  qed
qed

lemma rpc_commit:
  assumes W: "rpc_ok W" and h: "rpc_owner_commit rt al' (to_wire s) n ne W = (res, W')" and "ep < ne" and nw: "chef_newer s ep (fst W)"
  shows "rpc_ok W' \<and> (rpc_fenced rt al s ep W \<longrightarrow> rpc_fenced rt al s ep W')"
proof -
  obtain a p where ap: "W = (a, p)" by (cases W)
  have wf: "meta_wf (oa_meta a)" "meta_wf (oa_meta (p n))" for n using W by (simp_all add: rpc_ok_def ap)
  show ?thesis
  proof (cases "al' = rt_my_alias rt")
    case True
    obtain r a' where i: "commit_locally (rt_sha rt) (rf_io (rt_commit_fate rt)) (to_wire s) n ne a = (r, a')" by (metis surj_pair)
    have W': "W' = (a', p)" using h True i by (auto simp: rpc_owner_commit_def ap)
    note c = commit_locally_fence [OF wf(1) i]
    then have "chef_newer s ep a'" using nw by (simp add: chef_newer_def ap)
    from chef_newer_fence [OF this] c show ?thesis
      using rpc_fenced_chef [of s ep a a' rt al p] wf by (auto simp: W' ap rpc_ok_def)
  next
    case False
    obtain r p' where r: "peer_rpc rt (rt_commit_fate rt) al' (OwnerCommit (to_wire s) (rt_show_node rt n) ne) p = (r, p')"
      by (metis surj_pair)
    have W': "W' = (a, p')"
      using h False r by (auto simp: rpc_owner_commit_def ap split: sum.splits control_response.splits)
    from r show ?thesis
    proof (cases rule: peer_rpc_cases)
      case same
      then show ?thesis using W W' by (auto simp: ap)
    next
      case (served k x resp a1)
      from served(2) have "handle_owner_commit (rt_sha rt) (rt_parse_uuid rt) (rf_io (rt_commit_fate rt)) (to_wire s) (rt_show_node rt n) ne (p k)
          = (resp, a1)" by simp
      from commit_fence [OF wf(2) this assms(3)] show ?thesis
        using rpc_fenced_upd [OF served(1), of s ep p a1 al a] wf served(3) by (auto simp: W' ap rpc_ok_def)
    qed
  qed
qed

lemma handoff_install_fence:
  assumes wf: "meta_wf (oa_meta a)" and h: "handoff_install sha io req ne a = (res, a')"
  shows "meta_wf (oa_meta a') \<and> (ep < ne \<longrightarrow> fence (hr_scope req) ep (oa_meta a) \<longrightarrow> fence (hr_scope req) ep (oa_meta a'))"
proof (cases "handoff_snapshot sha io req ne (reg_this_node (oa_registry a)) (oa_meta a)")
  case (Inl e)
  then show ?thesis using h wf by (simp add: handoff_install_def)
next
  case (Inr x)
  obtain g l where x: "x = (g, l)" by (cases x)
  obtain r where i: "install_locally sha (\<lambda>k. io (Suc k)) g l a = (r, a')"
    using h Inr x by (auto simp: handoff_install_def split: prod.splits sum.splits)
  have t: "hterm g (hr_scope req) = Some (handoff_term req ne)" using handoff_snapshot_OkD(1) [OF wf Inr [unfolded x]] by simp
  have e: "ot_epoch (handoff_term req ne) = ne" by (simp add: handoff_term_def)
  have "meta_wf (oa_meta a')" using i
    by (cases rule: install_locally_cases) (use wf meta_wf_install [OF wf] in auto)
  then show ?thesis using replicate_fence(2) [OF wf t _ i, of ep] e by simp
qed

interpretation rpc: handoff_seam "rt_sha rt" "rpc_handoff_transport rt" rpc_ok "rpc_fenced rt" for rt
proof (unfold_locales, goal_cases)
  case (1 W)
  then show ?case by (simp add: rpc_ok_def)
next
  case (2 W al s ep W')
  then show ?case using rpc_prepare(2) by (simp add: rpc_handoff_transport_def)
next
  case (3 W al w ep res W')
  then show ?case using rpc_prepare(1) by (simp add: rpc_handoff_transport_def)
next
  case (4 a p io req ne ires a' al ep)
  then show ?case
    using handoff_install_fence [of a "rt_sha rt" io req ne ires a' ep] rpc_fenced_chef [of "hr_scope req" ep a a' rt al p]
    by (auto simp: rpc_ok_def)
next
  case (5 W al' g l res W' s t ep al)
  then show ?case using rpc_replicate by (simp add: rpc_handoff_transport_def)
next
  case (6 W al' s n ne res W' ep al)
  then show ?case using rpc_commit by (simp add: rpc_handoff_transport_def)
qed

end
