(* ===== verification/Handoff_Completes.thy ===== *)
theory Handoff_Completes
  imports Handoff_Transport
begin

text \<open>
  The saga over the RPC transport when requests and replies arrive and storage works: every
  operation of the transport succeeds at a participant in service, so the handoff commits.
\<close>

section \<open>A working transport\<close>

definition works :: "rpc_fate \<Rightarrow> bool" where
  "works f \<longleftrightarrow> f = \<lparr>rf_delivery = Delivered, rf_io = (\<lambda>_. True)\<rparr>"

definition working :: "rpc_transport \<Rightarrow> bool" where
  "working rt \<longleftrightarrow> works (rt_prepare_fate rt) \<and> works (rt_commit_fate rt) \<and> (\<forall>al. works (rt_replicate_fate rt al))"

text \<open>The authority of a node, the chef's own being the first component.\<close>

definition at_node :: "rpc_transport \<Rightarrow> owner_authority \<times> peers_world \<Rightarrow> node_id \<Rightarrow> owner_authority" where
  "at_node rt W n = (if n = ap_node_id (rt_chef rt) then fst W else snd W n)"

definition routes :: "rpc_transport \<Rightarrow> string \<Rightarrow> node_id \<Rightarrow> bool" where
  "routes rt al n \<longleftrightarrow> (if n = ap_node_id (rt_chef rt) then al = rt_my_alias rt
     else al \<noteq> rt_my_alias rt \<and> map_option fst (List.find (\<lambda>x. snd x = al) (rt_peers rt)) = Some n)"

definition set_node :: "rpc_transport \<Rightarrow> node_id \<Rightarrow> owner_authority \<Rightarrow> owner_authority \<times> peers_world \<Rightarrow> owner_authority \<times> peers_world" where
  "set_node rt n a W = (if n = ap_node_id (rt_chef rt) then (a, snd W) else (fst W, (snd W)(n := a)))"

lemma at_set [simp]: "at_node rt (set_node rt n a W) k = (if k = n then a else at_node rt W k)"
  by (auto simp: at_node_def set_node_def)

lemma fst_at: "fst W = at_node rt W (ap_node_id (rt_chef rt))"
  by (simp add: at_node_def)

lemma peer_rpc_working:
  assumes "works f" and "routes rt al n" and "n \<noteq> ap_node_id (rt_chef rt)"
    and "owner_handle (rt_sha rt) (rt_parse_uuid rt) (\<lambda>_. True) n (rt_chef rt) req (p n) = (resp, a)"
  shows "peer_rpc rt f al req p = (Ok resp, p(n := a))"
  using assms by (auto simp: peer_rpc_def works_def routes_def)

section \<open>The operations at a participant in service\<close>

lemma prepare_working:
  assumes w: "working rt" and r: "routes rt al n" and sv: "serving (rt_sha rt) (at_node rt W n) g l"
    and mw: "may_write (oa_registry (at_node rt W n)) s t" and n: "reg_this_node (oa_registry (at_node rt W n)) = n"
    and "s \<noteq> NanoContainer []"
  shows "\<exists>a. rpc_prepare_handoff rt al (to_wire s) (ot_epoch t) W = (Ok (), set_node rt n a W)
    \<and> readable (rt_sha rt) (oa_meta a) g l \<and> reg_terms (oa_registry a) = reg_terms (oa_registry (at_node rt W n))
    \<and> reg_this_node (oa_registry a) = n \<and> is_cluster_mode (oa_registry a)"
proof -
  obtain st m where ret: "persist_source_retirement (rt_sha rt) (\<lambda>_. True) (oa_meta (at_node rt W n)) n (to_wire s) (ot_epoch t) = Ok (st, m)"
    and rd: "readable (rt_sha rt) m g l" using retirement_ok [OF sv mw assms(6)] n by auto
  let ?a = "\<lparr>oa_registry = retire_local (oa_registry (at_node rt W n)) (lo_scope st) (ot_epoch t), oa_meta = m\<rparr>"
  have f: "works (rt_prepare_fate rt)" using w by (simp add: working_def)
  have cm: "is_cluster_mode (oa_registry (at_node rt W n))" using serving_view(2) [OF sv] by (simp add: mirrors_def)
  have "rpc_prepare_handoff rt al (to_wire s) (ot_epoch t) W = (Ok (), set_node rt n ?a W)"
  proof (cases "n = ap_node_id (rt_chef rt)")
    case True
    then show ?thesis using ret r f n
      by (cases W) (simp add: rpc_prepare_handoff_def prepare_locally_def routes_def at_node_def set_node_def works_def)
  next
    case False
    have "owner_handle (rt_sha rt) (rt_parse_uuid rt) (\<lambda>_. True) n (rt_chef rt) (PrepareHandoff (to_wire s) (ot_epoch t)) (snd W n)
        = (HandoffPrepared (to_wire s) (ot_epoch t), ?a)"
      using ret False by (simp add: handle_prepare_def at_node_def)
    from peer_rpc_working [where p = "snd W", OF f r False this] r False show ?thesis
      by (cases W) (simp add: rpc_prepare_handoff_def routes_def set_node_def)
  qed
  with rd n cm show ?thesis by (intro exI [of _ ?a]) simp
qed

text \<open>A store that already holds the pair answers \<open>AlreadyInstalled\<close>.\<close>

lemma install_again:
  assumes "readable sha m g l" and gen: "gs_generation g = TRACK_A_COORDINATOR_GENERATION"
  shows "install_owner_snapshot sha True g l m = Ok (AlreadyInstalled, m)"
proof -
  have i: "installed_owner_snapshot sha True m = Ok (Some (g, l))" using assms(1) by (simp add: readable_def)
  from i obtain mk where mk: "install_marker True m = Ok (Some mk)"
    by (auto simp: installed_owner_snapshot_def split: option.splits)
  with i have "im_status mk = StatusInstalled" "im_generation mk = gs_generation g" "im_revision mk = gs_revision g"
    "im_recipient_node mk = ls_recipient_node l" "im_global_checksum mk = gs_checksum g" "im_local_checksum mk = ls_checksum l"
    by (auto simp: installed_owner_snapshot_def Let_def status_not_conflict [symmetric] split: if_splits)
  moreover have "get_decoded (cm_snapshot_meta m) INSTALL_MARKER_KEY = Ok (Some mk)" using mk by (simp add: install_marker_def)
  moreover have "validate_owner_snapshot_pair sha g l = Ok ()" using readable_view(2) [OF assms(1)] by (simp add: validate_pair_iff_spec)
  ultimately show ?thesis using gen
    by (simp add: install_owner_snapshot_def install_against_def TRACK_A_COORDINATOR_GENERATION_def del: get_decoded_eq_Some)
qed

lemma replicate_again:
  assumes rd: "readable sha (oa_meta a) g l" and "gs_generation g = TRACK_A_COORDINATOR_GENERATION"
    and rl: "ls_recipient_node l = reg_this_node (oa_registry a)"
  shows "\<exists>a'. install_locally sha (\<lambda>_. True) g l a = (Ok (), a') \<and> serving sha a' g l
      \<and> meta_overlay (oa_meta a') = meta_overlay (oa_meta a) \<and> reg_this_node (oa_registry a') = reg_this_node (oa_registry a)"
proof -
  have "ls_recipient_node l = reg_this_node (close_owner_readiness (oa_registry a))" using rl by simp
  from rebuild_serving [OF rd this assms(2)] obtain ss r' where ss: "list_local_saga_states True (oa_meta a) = Ok ss"
    and r': "rebuild_from_owner_snapshot sha (close_owner_readiness (oa_registry a)) g l ss = Ok r'"
    and sv: "serving sha \<lparr>oa_registry = r', oa_meta = oa_meta a\<rparr> g l" and n: "reg_this_node r' = reg_this_node (oa_registry a)" by auto
  have a': "a\<lparr>oa_registry := r'\<rparr> = \<lparr>oa_registry = r', oa_meta = oa_meta a\<rparr>" by (cases a) simp
  have "install_locally sha (\<lambda>_. True) g l a = (Ok (), a\<lparr>oa_registry := r'\<rparr>)"
    by (simp add: install_locally_def Let_def install_again [OF rd assms(2)] ss r')
  with sv n show ?thesis unfolding a' by (intro exI [of _ "\<lparr>oa_registry = r', oa_meta = oa_meta a\<rparr>"]) simp
qed

text \<open>Delivering a snapshot to a participant that is behind it, or to the chef that has it.\<close>

lemma replicate_working:
  assumes w: "working rt" and r: "routes rt al n" and n: "reg_this_node (oa_registry (at_node rt W n)) = n"
    and rd: "readable (rt_sha rt) (oa_meta (at_node rt W n)) g l" and rl: "ls_recipient_node l = n"
    and gen: "gs_generation g = TRACK_A_COORDINATOR_GENERATION" "gs_generation g' = TRACK_A_COORDINATOR_GENERATION"
    and g': "global_validate (rt_sha rt) g' = Ok ()" "fits (gs_sorted_terms g')"
    and beh: "follows g' g \<or> n = ap_node_id (rt_chef rt) \<and> g = g' \<and> local_snapshot_for (rt_sha rt) g' n = Ok l"
  shows "\<exists>a l'. replicate_to (rt_sha rt) (rpc_handoff_transport rt) al n g' W = (Ok (), set_node rt n a W)
    \<and> serving (rt_sha rt) a g' l' \<and> ls_sorted_base_states l' = map (base_state_for n) (gs_sorted_terms g')
    \<and> meta_overlay (oa_meta a) = meta_overlay (oa_meta (at_node rt W n)) \<and> reg_this_node (oa_registry a) = n"
proof -
  let ?a = "at_node rt W n"
  obtain l' where l': "local_snapshot_for (rt_sha rt) g' n = Ok l'" "owner_pair_spec (rt_sha rt) g' l'"
    "ls_recipient_node l' = n" "ls_sorted_base_states l' = map (base_state_for n) (gs_sorted_terms g')"
    using local_snapshot_ok [OF g'] by blast
  have f: "works (rt_replicate_fate rt al)" using w by (simp add: working_def)
  note later = replicate_serves [OF rd l'(2) _ gen(2,1), unfolded l'(3) rl n]
  show ?thesis
  proof (cases "n = ap_node_id (rt_chef rt)")
    case True
    have "\<exists>a'. install_locally (rt_sha rt) (\<lambda>_. True) g' l' ?a = (Ok (), a') \<and> serving (rt_sha rt) a' g' l'
        \<and> meta_overlay (oa_meta a') = meta_overlay (oa_meta ?a) \<and> reg_this_node (oa_registry a') = n"
      using beh
    proof
      assume "follows g' g"
      from later(2) [OF follows_later [OF this] refl refl] show ?thesis .
    next
      assume "n = ap_node_id (rt_chef rt) \<and> g = g' \<and> local_snapshot_for (rt_sha rt) g' n = Ok l"
      then have "l = l'" "g = g'" using l'(1) by auto
      with replicate_again [OF rd gen(1)] rl n show ?thesis by simp
    qed
    then obtain a' where a': "install_locally (rt_sha rt) (\<lambda>_. True) g' l' ?a = (Ok (), a')" "serving (rt_sha rt) a' g' l'"
      "meta_overlay (oa_meta a') = meta_overlay (oa_meta ?a)" "reg_this_node (oa_registry a') = n" by blast
    have "replicate_to (rt_sha rt) (rpc_handoff_transport rt) al n g' W = (Ok (), set_node rt n a' W)"
      using l'(1) a'(1) r f True
      by (cases W) (simp add: replicate_to_def rpc_handoff_transport_def rpc_replicate_owner_snapshot_def routes_def at_node_def
          set_node_def works_def)
    with a' l'(4) show ?thesis by blast
  next
    case False
    with beh have "follows g' g" by simp
    from later(1) [OF follows_later [OF this] refl refl] obtain a' where a': "handle_replicate (rt_sha rt) (\<lambda>_. True) g' l' ?a = (OwnerSnapshotAck Installed, a')"
      "serving (rt_sha rt) a' g' l'" "meta_overlay (oa_meta a') = meta_overlay (oa_meta ?a)" "reg_this_node (oa_registry a') = n" by blast
    have "owner_handle (rt_sha rt) (rt_parse_uuid rt) (\<lambda>_. True) n (rt_chef rt) (ReplicateOwnerSnapshot g' l') (snd W n)
        = (OwnerSnapshotAck Installed, a')" using a'(1) False by (simp add: at_node_def)
    from peer_rpc_working [where p = "snd W", OF f r False this]
    have "replicate_to (rt_sha rt) (rpc_handoff_transport rt) al n g' W = (Ok (), set_node rt n a' W)"
      using l'(1) r False
      by (cases W) (simp add: replicate_to_def rpc_handoff_transport_def rpc_replicate_owner_snapshot_def routes_def set_node_def)
    with a' l'(4) show ?thesis by blast
  qed
qed

lemma commit_working:
  assumes w: "working rt" and r: "routes rt al n" and n: "reg_this_node (oa_registry (at_node rt W n)) = n"
    and sv: "serving (rt_sha rt) (at_node rt W n) g l" and l: "ls_sorted_base_states l = map (base_state_for n) (gs_sorted_terms g)"
    and t: "t \<in> set (gs_sorted_terms g)" "ot_owner_node t = n" "ot_scope t = s" "s \<noteq> NanoContainer []"
    and lift: "liftable (oa_meta (at_node rt W n)) t"
    and pu: "map_option NodeId (rt_parse_uuid rt (rt_show_node rt n)) = Some n"
  shows "\<exists>a. rpc_owner_commit rt al (to_wire s) n (ot_epoch t) W = (Ok (), set_node rt n a W)
    \<and> may_write (oa_registry a) s t"
proof -
  let ?a = "at_node rt W n"
  have b: "base_state_for n t \<in> set (ls_sorted_base_states l)" "bs_owner_term (base_state_for n t) = t"
    "bs_activation_state (base_state_for n t) = Routable" using l t(1,2) by simp_all
  have own: "ot_owner_node t = reg_this_node (oa_registry ?a)" using t(2) n by simp
  note cs = commit_serves [OF sv b own t(3,4) lift]
  have f: "works (rt_commit_fate rt)" using w by (simp add: working_def)
  show ?thesis
  proof (cases "n = ap_node_id (rt_chef rt)")
    case True
    from cs(2) obtain a' where a': "commit_locally (rt_sha rt) (\<lambda>_. True) (to_wire s) n (ot_epoch t) ?a = (Ok (), a')"
      "may_write (oa_registry a') s t" using t(2) by auto
    have "rpc_owner_commit rt al (to_wire s) n (ot_epoch t) W = (Ok (), set_node rt n a' W)"
      using a'(1) r f True by (cases W) (simp add: rpc_owner_commit_def routes_def at_node_def set_node_def works_def)
    with a' show ?thesis by blast
  next
    case False
    from cs(1) [of "rt_parse_uuid rt" "rt_show_node rt n"] pu t(2)
    obtain a' where a': "handle_owner_commit (rt_sha rt) (rt_parse_uuid rt) (\<lambda>_. True) (to_wire s) (rt_show_node rt n) (ot_epoch t) ?a
        = (OwnerCommitted (to_wire s) (ot_epoch t), a')" "may_write (oa_registry a') s t" by auto
    have "owner_handle (rt_sha rt) (rt_parse_uuid rt) (\<lambda>_. True) n (rt_chef rt) (OwnerCommit (to_wire s) (rt_show_node rt n) (ot_epoch t)) (snd W n)
        = (OwnerCommitted (to_wire s) (ot_epoch t), a')" using a'(1) False by (simp add: at_node_def)
    from peer_rpc_working [where p = "snd W", OF f r False this]
    have "rpc_owner_commit rt al (to_wire s) n (ot_epoch t) W = (Ok (), set_node rt n a' W)"
      using r False by (cases W) (simp add: rpc_owner_commit_def routes_def set_node_def)
    with a' show ?thesis by blast
  qed
qed

section \<open>The whole saga\<close>

text \<open>The participants before the handoff: each is the node it claims to be, and none is ahead of the chef.\<close>

definition behind :: "owner_term_snapshot \<Rightarrow> owner_term_snapshot \<Rightarrow> bool" where
  "behind g g' \<longleftrightarrow> gs_revision g \<le> gs_revision g' \<and> grows (hterm g) (hterm g')"

lemma follows_behind: "follows g'' g' \<Longrightarrow> behind g g' \<Longrightarrow> follows g'' g"
  by (auto simp: follows_def behind_def intro: grows_trans order.strict_trans1)

lemma handed_over:
  assumes sv: "serving sha a g l" and "hterm g s = Some t" and "ot_owner_node t \<noteq> reg_this_node (oa_registry a)" and "gd_scope gd = s"
  shows "validate (oa_registry a) gd \<noteq> Ok ()"
proof
  assume "validate (oa_registry a) gd = Ok ()"
  then obtain u where "may_write (oa_registry a) s u" using assms(4) by (auto simp: validate_eq_Ok)
  then obtain b where b: "b \<in> set (ls_sorted_base_states l)" "bs_scope b = s" "bs_owner_term b = u"
    "ot_owner_node u = reg_this_node (oa_registry a)" using serving_view(6) [OF sv] by blast
  note rd = readable_view [OF serving_view(1) [OF sv]]
  have "hterm g s = Some u" using pair_find(2,3) [OF rd(2) b(1,2)] b(3) hterm_spec [OF rd(2)] find_SomeD by metis
  with assms(2,3) b(4) show False by simp
qed

text \<open>The participants of a handoff, ready for it.\<close>

record participants =
  pt_chef :: "owner_term_snapshot \<times> local_owner_state_snapshot"
  pt_source :: "owner_term_snapshot \<times> local_owner_state_snapshot"
  pt_target :: "owner_term_snapshot \<times> local_owner_state_snapshot"

definition in_service :: "rpc_transport \<Rightarrow> owner_authority \<times> peers_world \<Rightarrow> node_id \<Rightarrow> owner_term_snapshot \<times> local_owner_state_snapshot \<Rightarrow> bool" where
  "in_service rt W n gl \<longleftrightarrow> serving (rt_sha rt) (at_node rt W n) (fst gl) (snd gl) \<and> reg_this_node (oa_registry (at_node rt W n)) = n"

definition handoff_ready ::
  "rpc_transport \<Rightarrow> handoff_request \<Rightarrow> owner_term \<Rightarrow> u64 \<Rightarrow> participants \<Rightarrow> owner_authority \<times> peers_world \<Rightarrow> bool" where
  "handoff_ready rt req cur ne pt W \<longleftrightarrow>
     in_service rt W (ap_node_id (rt_chef rt)) (pt_chef pt) \<and> in_service rt W (ot_owner_node cur) (pt_source pt)
     \<and> in_service rt W (hr_target_node req) (pt_target pt)
     \<and> behind (fst (pt_source pt)) (fst (pt_chef pt)) \<and> behind (fst (pt_target pt)) (fst (pt_chef pt))
     \<and> hr_target_node req \<noteq> ot_owner_node cur \<and> hr_scope req \<noteq> NanoContainer []
     \<and> hterm (fst (pt_chef pt)) (hr_scope req) = Some cur
     \<and> may_write (oa_registry (at_node rt W (ot_owner_node cur))) (hr_scope req) cur
     \<and> rpc_alias_for_node rt (ot_owner_node cur) = Ok (hr_source_alias req)
     \<and> routes rt (hr_source_alias req) (ot_owner_node cur) \<and> routes rt (hr_target_alias req) (hr_target_node req)
     \<and> checked_add (ot_epoch cur) 1 = Some ne \<and> checked_add (gs_revision (fst (pt_chef pt))) 1 \<noteq> None
     \<and> fits (gs_sorted_terms (fst (pt_chef pt)))
     \<and> liftable (oa_meta (at_node rt W (hr_target_node req))) (handoff_term req ne)"

lemma handoff_begin_ready:
  assumes "handoff_ready rt req cur ne pt W"
  shows "handoff_begin (rpc_alias_for_node rt) req (oa_registry (fst W)) = Ok (cur, hr_source_alias req, ne)"
proof -
  obtain g l where gl: "pt_chef pt = (g, l)" by (cases "pt_chef pt")
  have sv: "serving (rt_sha rt) (fst W) g l" using assms gl by (simp add: handoff_ready_def in_service_def at_node_def)
  have "reg_terms (oa_registry (fst W)) (hr_scope req) = Some cur" "is_cluster_mode (oa_registry (fst W))"
    using serving_view(2) [OF sv] readable_view(3) [OF serving_view(1) [OF sv]] assms gl
    by (simp_all add: mirrors_def handoff_ready_def)
  then show ?thesis using assms
    by (simp add: handoff_begin_def current_owner_def is_cluster_mode_def handoff_ready_def)
qed

text \<open>A participant that can take the new snapshot: it is behind it, or it is the chef that has installed it.\<close>

definition takes ::
  "rpc_transport \<Rightarrow> owner_authority \<times> peers_world \<Rightarrow> node_id \<Rightarrow> owner_term_snapshot \<Rightarrow> owner_term_snapshot \<Rightarrow> local_owner_state_snapshot \<Rightarrow> bool" where
  "takes rt W n g' g l \<longleftrightarrow> readable (rt_sha rt) (oa_meta (at_node rt W n)) g l \<and> ls_recipient_node l = n
     \<and> gs_generation g = TRACK_A_COORDINATOR_GENERATION \<and> reg_this_node (oa_registry (at_node rt W n)) = n
     \<and> (follows g' g \<or> n = ap_node_id (rt_chef rt) \<and> g = g' \<and> local_snapshot_for (rt_sha rt) g' n = Ok l)"

lemma publish_working:
  assumes w: "working rt" and g': "global_validate (rt_sha rt) g' = Ok ()" "fits (gs_sorted_terms g')"
      "gs_generation g' = TRACK_A_COORDINATOR_GENERATION" "hterm g' (hr_scope req) = Some (handoff_term req ne)"
    and rS: "routes rt (hr_source_alias req) (ot_owner_node cur)" and rD: "routes rt (hr_target_alias req) (hr_target_node req)"
    and ne: "hr_target_node req \<noteq> ot_owner_node cur" and s: "hr_scope req \<noteq> NanoContainer []"
    and c: "reg_this_node (oa_registry (fst W)) = ap_node_id (rt_chef rt)" "serving (rt_sha rt) (fst W) g' lc"
    and tS: "takes rt W (ot_owner_node cur) g' gS lS" and tD: "takes rt W (hr_target_node req) g' gD lD"
    and lift: "liftable (oa_meta (at_node rt W (hr_target_node req))) (handoff_term req ne)"
    and pu: "map_option NodeId (rt_parse_uuid rt (rt_show_node rt (hr_target_node req))) = Some (hr_target_node req)"
  shows "\<exists>W' l. handoff_publish (rt_sha rt) (rpc_handoff_transport rt) req cur (hr_source_alias req) ne g' W = (Ok (Committed ne), W')
    \<and> may_write (oa_registry (at_node rt W' (hr_target_node req))) (hr_scope req) (handoff_term req ne)
    \<and> serving (rt_sha rt) (at_node rt W' (ot_owner_node cur)) g' l
    \<and> reg_this_node (oa_registry (at_node rt W' (ot_owner_node cur))) = ot_owner_node cur
    \<and> (\<forall>k. k \<noteq> ot_owner_node cur \<longrightarrow> k \<noteq> hr_target_node req \<longrightarrow> at_node rt W' k = at_node rt W k)"
proof -
  let ?S = "ot_owner_node cur" and ?D = "hr_target_node req" and ?s = "hr_scope req" and ?t = "handoff_term req ne"
  have t: "ot_owner_node ?t = ?D" "ot_scope ?t = ?s" "ot_epoch ?t = ne" by (simp_all add: handoff_term_def)
  obtain W1 lS' where w1: "(if ?S \<noteq> reg_this_node (oa_registry (fst W)) \<and> ?S \<noteq> ?D
        then replicate_to (rt_sha rt) (rpc_handoff_transport rt) (hr_source_alias req) ?S g' W else (Ok (), W)) = (Ok (), W1)"
    and S1: "serving (rt_sha rt) (at_node rt W1 ?S) g' lS'" "reg_this_node (oa_registry (at_node rt W1 ?S)) = ?S"
    and rest: "\<forall>k. k \<noteq> ?S \<longrightarrow> at_node rt W1 k = at_node rt W k"
  proof (cases "?S = ap_node_id (rt_chef rt)")
    case True
    with c that [of W lc] show ?thesis by (simp add: at_node_def)
  next
    case False
    from tS obtain aS l where "replicate_to (rt_sha rt) (rpc_handoff_transport rt) (hr_source_alias req) ?S g' W = (Ok (), set_node rt ?S aS W)"
      "serving (rt_sha rt) aS g' l" "reg_this_node (oa_registry aS) = ?S"
      using replicate_working [OF w rS _ _ _ _ g'(3,1,2), of W gS lS] unfolding takes_def by blast
    with False c ne that [of "set_node rt ?S aS W" l] show ?thesis by simp
  qed
  have D1: "at_node rt W1 ?D = at_node rt W ?D" using rest ne by simp
  from tD obtain aD l where w2: "replicate_to (rt_sha rt) (rpc_handoff_transport rt) (hr_target_alias req) ?D g' W1 = (Ok (), set_node rt ?D aD W1)"
    and D2: "serving (rt_sha rt) aD g' l" "ls_sorted_base_states l = map (base_state_for ?D) (gs_sorted_terms g')"
      "meta_overlay (oa_meta aD) = meta_overlay (oa_meta (at_node rt W ?D))" "reg_this_node (oa_registry aD) = ?D"
    using replicate_working [OF w rD _ _ _ _ g'(3,1,2), of W1 gD lD] unfolding takes_def D1 by blast
  let ?W2 = "set_node rt ?D aD W1"
  have at2: "at_node rt ?W2 ?D = aD" by simp
  have mem: "?t \<in> set (gs_sorted_terms g')"
    using g'(4) hterm_spec [OF readable_view(2) [OF serving_view(1) [OF D2(1)]]] by blast
  have "liftable (oa_meta aD) ?t" using lift D2(3) by (simp add: liftable_def)
  from commit_working [of rt "hr_target_alias req" ?D ?W2 g' l ?t ?s, unfolded at2, OF w rD D2(4,1,2) mem t(1,2) s this pu]
  obtain a where w3: "rpc_owner_commit rt (hr_target_alias req) (to_wire ?s) ?D ne ?W2 = (Ok (), set_node rt ?D a ?W2)"
    and mw: "may_write (oa_registry a) ?s ?t" by (auto simp: t(3))
  have "ht_owner_commit (rpc_handoff_transport rt) (hr_target_alias req) (to_wire ?s) ?D ne ?W2 = (Ok (), set_node rt ?D a ?W2)"
    using w3 by (simp add: rpc_handoff_transport_def)
  then have "handoff_publish (rt_sha rt) (rpc_handoff_transport rt) req cur (hr_source_alias req) ne g' W = (Ok (Committed ne), set_node rt ?D a ?W2)"
    unfolding handoff_publish_def w1 by (simp add: w2)
  with mw S1 ne rest show ?thesis by (intro exI [of _ "set_node rt ?D a ?W2"] exI [of _ lS']) simp
qed

lemma run_handoff_working:
  assumes w: "working rt" and rdy: "handoff_ready rt req cur ne pt W"
    and pu: "map_option NodeId (rt_parse_uuid rt (rt_show_node rt (hr_target_node req))) = Some (hr_target_node req)"
  shows "\<exists>W' g l. run_handoff (rt_sha rt) (\<lambda>_. True) (rpc_handoff_transport rt) req W = (Ok (Committed ne), W')
    \<and> hterm g (hr_scope req) = Some (handoff_term req ne)
    \<and> may_write (oa_registry (at_node rt W' (hr_target_node req))) (hr_scope req) (handoff_term req ne)
    \<and> serving (rt_sha rt) (at_node rt W' (ot_owner_node cur)) g l
    \<and> reg_this_node (oa_registry (at_node rt W' (ot_owner_node cur))) = ot_owner_node cur
    \<and> (\<forall>c. c = ap_node_id (rt_chef rt) \<longrightarrow> c \<noteq> ot_owner_node cur \<longrightarrow> c \<noteq> hr_target_node req \<longrightarrow>
         meta_term (oa_meta (at_node rt W' c)) = hterm g)"
proof -
  let ?c = "ap_node_id (rt_chef rt)" and ?S = "ot_owner_node cur" and ?D = "hr_target_node req" and ?s = "hr_scope req"
  let ?sha = "rt_sha rt" and ?t = "handoff_term req ne"
  obtain gc lc gS lS gD lD where pt: "pt_chef pt = (gc, lc)" "pt_source pt = (gS, lS)" "pt_target pt = (gD, lD)"
    by (metis surj_pair)
  note R = rdy [unfolded handoff_ready_def in_service_def pt fst_conv snd_conv]
  have sD: "?D \<noteq> ?S" and s: "?s \<noteq> NanoContainer []" and cur: "hterm gc ?s = Some cur" and mw: "may_write (oa_registry (at_node rt W ?S)) ?s cur"
    and rS: "routes rt (hr_source_alias req) ?S" and rD: "routes rt (hr_target_alias req) ?D" and fit: "fits (gs_sorted_terms gc)"
    and lift: "liftable (oa_meta (at_node rt W ?D)) ?t" and ne: "checked_add (ot_epoch cur) 1 = Some ne"
    and bS: "behind gS gc" and bD: "behind gD gc" using R by blast+
  have svc: "serving ?sha (at_node rt W ?c) gc lc" "reg_this_node (oa_registry (at_node rt W ?c)) = ?c"
    and svS: "serving ?sha (at_node rt W ?S) gS lS" "reg_this_node (oa_registry (at_node rt W ?S)) = ?S"
    and svD: "serving ?sha (at_node rt W ?D) gD lD" "reg_this_node (oa_registry (at_node rt W ?D)) = ?D" using R by blast+
  obtain rvn where rvn: "checked_add (gs_revision gc) 1 = Some rvn" using R by blast
  obtain aS where pS: "rpc_prepare_handoff rt (hr_source_alias req) (to_wire ?s) (ot_epoch cur) W = (Ok (), set_node rt ?S aS W)"
    and rdS: "readable ?sha (oa_meta aS) gS lS" and nS: "reg_this_node (oa_registry aS) = ?S"
    using prepare_working [OF w rS svS(1) mw svS(2) s] by blast
  let ?W1 = "set_node rt ?S aS W"
  have gen: "gs_generation gc = TRACK_A_COORDINATOR_GENERATION" "gs_generation gS = TRACK_A_COORDINATOR_GENERATION"
    "gs_generation gD = TRACK_A_COORDINATOR_GENERATION" using serving_view(5) svc svS svD by blast+
  have rec: "ls_recipient_node lc = ?c" "ls_recipient_node lS = ?S" "ls_recipient_node lD = ?D"
    using serving_view(4) svc svS svD by metis+
  have at1: "at_node rt ?W1 ?c = (if ?S = ?c then aS else at_node rt W ?c)" "at_node rt ?W1 ?D = at_node rt W ?D" using sD by auto
  have rdc: "readable ?sha (oa_meta (at_node rt ?W1 ?c)) gc lc" "ls_recipient_node lc = reg_this_node (oa_registry (at_node rt ?W1 ?c))"
    using serving_view(1) [OF svc(1)] svc(2) serving_view(1) [OF svS(1)] rdS nS rec(1) unfolding at1 by (auto simp: readable_def)
  obtain g' lc' ac where i: "handoff_install ?sha (\<lambda>_. True) req ne (at_node rt ?W1 ?c) = (Ok g', ac)" and svc': "serving ?sha ac g' lc'"
    and lc': "local_snapshot_for ?sha g' ?c = Ok lc'" and hg: "hterm g' ?s = Some ?t" and fol: "follows g' gc"
    and g': "global_validate ?sha g' = Ok ()" "gs_generation g' = TRACK_A_COORDINATOR_GENERATION" "fits (gs_sorted_terms g')"
    and ov: "meta_overlay (oa_meta ac) = meta_overlay (oa_meta (at_node rt ?W1 ?c))" and nc: "reg_this_node (oa_registry ac) = ?c"
    using handoff_install_ok [OF rdc gen(1) cur less_imp_le [OF checked_add_one_less [OF ne]] rvn fit]
      checked_add_one_less [OF ne] rec(1) rdc(2) by auto
  let ?W2 = "set_node rt ?c ac ?W1"
  have f2: "fst ?W2 = ac" by (simp add: set_node_def)
  have own: "takes rt ?W2 ?c g' g' lc'"
    using serving_view(1,4) [OF svc'] nc lc' g'(2) by (simp add: takes_def)
  have tS: "\<exists>g l. takes rt ?W2 ?S g' g l"
  proof (cases "?S = ?c")
    case True
    with own show ?thesis by metis
  next
    case False
    then have "takes rt ?W2 ?S g' gS lS" using rdS nS rec(2) gen(2) follows_behind [OF fol bS] by (simp add: takes_def)
    then show ?thesis by blast
  qed
  have tD: "\<exists>g l. takes rt ?W2 ?D g' g l"
  proof (cases "?D = ?c")
    case True
    with own show ?thesis by metis
  next
    case False
    then have "takes rt ?W2 ?D g' gD lD" using serving_view(1) [OF svD(1)] svD(2) sD rec(3) gen(3) follows_behind [OF fol bD]
      by (simp add: takes_def)
    then show ?thesis by blast
  qed
  have lift2: "liftable (oa_meta (at_node rt ?W2 ?D)) ?t" using lift ov sD by (cases "?D = ?c") (auto simp: liftable_def)
  from tS obtain gS' lS' where tS': "takes rt ?W2 ?S g' gS' lS'" by blast
  from tD obtain gD' lD' where tD': "takes rt ?W2 ?D g' gD' lD'" by blast
  from publish_working [OF w g'(1,3,2) hg rS rD sD s _ _ tS' tD' lift2 pu, unfolded f2, OF nc svc']
  obtain W' l where pub: "handoff_publish ?sha (rpc_handoff_transport rt) req cur (hr_source_alias req) ne g' ?W2 = (Ok (Committed ne), W')"
    and mwD: "may_write (oa_registry (at_node rt W' ?D)) ?s ?t"
    and fin: "serving ?sha (at_node rt W' ?S) g' l" "reg_this_node (oa_registry (at_node rt W' ?S)) = ?S"
    and rest: "\<forall>k. k \<noteq> ?S \<longrightarrow> k \<noteq> ?D \<longrightarrow> at_node rt W' k = at_node rt ?W2 k" by blast
  have "run_handoff ?sha (\<lambda>_. True) (rpc_handoff_transport rt) req W = (Ok (Committed ne), W')"
    using handoff_begin_ready [OF rdy] pS i pub
    by (cases ?W1) (simp add: run_handoff_def rpc_handoff_transport_def at_node_def set_node_def)
  moreover have "\<forall>c. c = ?c \<longrightarrow> c \<noteq> ?S \<longrightarrow> c \<noteq> ?D \<longrightarrow> meta_term (oa_meta (at_node rt W' c)) = hterm g'"
    using rest readable_view(3) [OF serving_view(1) [OF svc']] by simp
  ultimately show ?thesis using hg mwD fin by blast
qed

text \<open>
  C4. A handoff completes: when chef, source and target are in service, the transport delivers
  and storage works, the saga reports the scope committed at the next epoch, the target accepts
  writes to it under that term, and the source accepts none.
\<close>

theorem handoff_completes:
  assumes w: "working rt" and rdy: "handoff_ready rt req cur ne pt W"
    and pu: "map_option NodeId (rt_parse_uuid rt (rt_show_node rt (hr_target_node req))) = Some (hr_target_node req)"
  shows "\<exists>W'. run_handoff (rt_sha rt) (\<lambda>_. True) (rpc_handoff_transport rt) req W = (Ok (Committed ne), W')
    \<and> validate (oa_registry (at_node rt W' (hr_target_node req))) (guard_of (hr_scope req) (handoff_term req ne)) = Ok ()
    \<and> (\<forall>gd. gd_scope gd = hr_scope req \<longrightarrow> validate (oa_registry (at_node rt W' (ot_owner_node cur))) gd \<noteq> Ok ())"
proof -
  obtain W' g l where r: "run_handoff (rt_sha rt) (\<lambda>_. True) (rpc_handoff_transport rt) req W = (Ok (Committed ne), W')"
    and g: "hterm g (hr_scope req) = Some (handoff_term req ne)"
    and mw: "may_write (oa_registry (at_node rt W' (hr_target_node req))) (hr_scope req) (handoff_term req ne)"
    and S: "serving (rt_sha rt) (at_node rt W' (ot_owner_node cur)) g l" "reg_this_node (oa_registry (at_node rt W' (ot_owner_node cur))) = ot_owner_node cur"
    using run_handoff_working [OF assms] by blast
  have "hr_target_node req \<noteq> ot_owner_node cur" using rdy by (simp add: handoff_ready_def)
  then have "validate (oa_registry (at_node rt W' (ot_owner_node cur))) gd \<noteq> Ok ()" if "gd_scope gd = hr_scope req" for gd
    by (intro handed_over [OF S(1) g _ that]) (simp add: S(2) handoff_term_def)
  moreover have "validate (oa_registry (at_node rt W' (hr_target_node req))) (guard_of (hr_scope req) (handoff_term req ne)) = Ok ()"
    using mw by (auto simp: validate_eq_Ok)
  ultimately show ?thesis using r by blast
qed

text \<open>
  C3. A handoff never steals a scope, whatever the transport loses and whichever storage call
  fails: either the chef's installed terms and revision are as before, which is so whenever the
  handoff is reported as aborted, or the node behind the source's alias is durably fenced for
  the epoch at which it owned the scope.
\<close>

theorem handoff_never_steals:
  assumes "rpc_ok W" and "run_handoff (rt_sha rt) io (rpc_handoff_transport rt) req W = (res, W')"
  shows "same_install (oa_meta (fst W)) (oa_meta (fst W')) \<or>
    (\<exists>cur. current_owner (oa_registry (fst W)) (hr_scope req) = Ok cur \<and> res \<noteq> Ok AbortedSourceUnreachable
       \<and> rpc_fenced rt (hr_source_alias req) (hr_scope req) (ot_epoch cur) W')"
proof -
  have "hr_source_alias req = al \<and> current_owner (oa_registry (fst W)) (hr_scope req) = Ok cur"
    if "handoff_begin (ht_alias_for_node (rpc_handoff_transport rt)) req (oa_registry (fst W)) = Ok (cur, al, ne)" for cur al ne
    using that by (auto simp: handoff_begin_def split: if_splits)
  with rpc.saga_never_steals [OF assms] show ?thesis by blast
qed

section \<open>A worked handoff\<close>

text \<open>Three nodes hold the example snapshot; node 1 is the chef, node 2 owns the agent, node 3 takes it over.\<close>

definition ex_fate :: rpc_fate where
  "ex_fate = \<lparr>rf_delivery = Delivered, rf_io = (\<lambda>_. True)\<rparr>"

definition ex_chef_print :: cert_fingerprint where
  "ex_chef_print = CertFingerprint (replicate 32 0)"

definition ex_transport :: rpc_transport where
  "ex_transport = \<lparr>rt_sha = ex_sha, rt_parse_uuid = (\<lambda>_. Some 3), rt_show_node = (\<lambda>_. ''n3''),
     rt_chef = \<lparr>ap_fingerprint = ex_chef_print, ap_node_id = NodeId 1\<rparr>, rt_my_alias = ''n1'',
     rt_peers = [(NodeId 2, ''n2''), (NodeId 3, ''n3'')], rt_prepare_fate = ex_fate,
     rt_replicate_fate = (\<lambda>_. ex_fate), rt_commit_fate = ex_fate\<rparr>"

definition ex_handoff :: handoff_request where
  "ex_handoff = \<lparr>hr_scope = NanoContainer ''a'', hr_source_alias = ''n2'', hr_target_alias = ''n3'', hr_target_node = NodeId 3\<rparr>"

lemma ex_readable:
  "readable ex_sha (ex_store n 4 [ex_agent_term, ex_world_term] empty_meta)
     (ex_snap_global 4 [ex_agent_term, ex_world_term]) (ex_snap_local n 4 [ex_agent_term, ex_world_term])"
proof -
  let ?m = "ex_store n 4 [ex_agent_term, ex_world_term] empty_meta"
  have wf: "meta_wf ?m" by (simp add: meta_wf_ex_store ex_terms_valid)
  have "om_get (cm_local_owner_saga ?m) k \<noteq> Some Garbled" for k by (simp add: ex_store_def empty_meta_def)
  then have "is_ok (list_local_saga_states True ?m)" using sagas_ok [OF wf] by simp
  then show ?thesis using wf ex_installed [OF meta_wf_empty ex_terms_valid(1)] by (simp add: readable_def)
qed

text \<open>Nodes in service over these stores.\<close>

lemma ex_nodes:
  "\<exists>f. \<forall>n. serving ex_sha (f n) (ex_snap_global 4 [ex_agent_term, ex_world_term]) (ex_snap_local n 4 [ex_agent_term, ex_world_term])
     \<and> reg_this_node (oa_registry (f n)) = n \<and> oa_meta (f n) = ex_store n 4 [ex_agent_term, ex_world_term] empty_meta"
proof (intro choice allI)
  fix n
  from rebuild_serving [OF ex_readable, of n "cluster_node n"]
  obtain r where "serving ex_sha \<lparr>oa_registry = r, oa_meta = ex_store n 4 [ex_agent_term, ex_world_term] empty_meta\<rparr>
      (ex_snap_global 4 [ex_agent_term, ex_world_term]) (ex_snap_local n 4 [ex_agent_term, ex_world_term])" "reg_this_node r = n"
    by (auto simp: TRACK_A_COORDINATOR_GENERATION_def)
  then show "\<exists>a. serving ex_sha a (ex_snap_global 4 [ex_agent_term, ex_world_term]) (ex_snap_local n 4 [ex_agent_term, ex_world_term])
      \<and> reg_this_node (oa_registry a) = n \<and> oa_meta a = ex_store n 4 [ex_agent_term, ex_world_term] empty_meta"
    by (intro exI [of _ "\<lparr>oa_registry = r, oa_meta = ex_store n 4 [ex_agent_term, ex_world_term] empty_meta\<rparr>"]) simp
qed

lemma ex_overlay: "meta_overlay (ex_store n rvn ts empty_meta) s = None"
  by (simp add: ex_store_def empty_meta_def row_at_def)

lemma ex_handoff_ready:
  assumes f: "\<forall>n. serving ex_sha (f n) (ex_snap_global 4 [ex_agent_term, ex_world_term]) (ex_snap_local n 4 [ex_agent_term, ex_world_term])
     \<and> reg_this_node (oa_registry (f n)) = n \<and> oa_meta (f n) = ex_store n 4 [ex_agent_term, ex_world_term] empty_meta"
  defines "gl \<equiv> \<lambda>n. (ex_snap_global 4 [ex_agent_term, ex_world_term], ex_snap_local n 4 [ex_agent_term, ex_world_term])"
  shows "handoff_ready ex_transport ex_handoff ex_agent_term 4
      \<lparr>pt_chef = gl (NodeId 1), pt_source = gl (NodeId 2), pt_target = gl (NodeId 3)\<rparr> (f (NodeId 1), f)"
    and "rpc_ok (f (NodeId 1), f)" and "working ex_transport"
proof -
  have at: "at_node ex_transport (f (NodeId 1), f) n = f n" for n by (simp add: at_node_def ex_transport_def)
  have svc: "in_service ex_transport (f (NodeId 1), f) n (gl n)" for n
    using f by (simp add: in_service_def at gl_def) (simp add: ex_transport_def)
  have "ex_base (NodeId 2) ex_agent_term \<in> set (ls_sorted_base_states (ex_snap_local (NodeId 2) 4 [ex_agent_term, ex_world_term]))"
    by (simp add: ex_snap_local_def)
  then have mw: "may_write (oa_registry (f (NodeId 2))) (NanoContainer ''a'') ex_agent_term"
    using serving_view(6) [OF f [rule_format, THEN conjunct1], of "NodeId 2" "NanoContainer ''a''" ex_agent_term] f
    by (auto simp: ex_base_def ex_overlay intro!: bexI)
  have t: "hterm (ex_snap_global 4 [ex_agent_term, ex_world_term]) (NanoContainer ''a'') = Some ex_agent_term"
    using hterm_spec [OF ex_valid_spec [OF ex_terms_valid(1)], of 4 "NanoContainer ''a''" ex_agent_term] by simp
  have beh: "behind g g" for g by (simp add: behind_def grows_refl)
  have fit: "fits [ex_agent_term, ex_world_term]" by (simp add: fits_def)
  have lift: "liftable (oa_meta (f (NodeId 3))) u" for u using f by (simp add: liftable_def ex_overlay)
  have al: "rpc_alias_for_node ex_transport (NodeId 2) = Ok ''n2''" "routes ex_transport ''n2'' (NodeId 2)"
    "routes ex_transport ''n3'' (NodeId 3)" "ap_node_id (rt_chef ex_transport) = NodeId 1"
    by (simp_all add: rpc_alias_for_node_def routes_def ex_transport_def)
  have num: "checked_add (3::u64) 1 = Some 4" "checked_add (4::u64) 1 \<noteq> None" by (simp_all add: checked_add_def)
  show "handoff_ready ex_transport ex_handoff ex_agent_term 4
      \<lparr>pt_chef = gl (NodeId 1), pt_source = gl (NodeId 2), pt_target = gl (NodeId 3)\<rparr> (f (NodeId 1), f)"
    unfolding handoff_ready_def al(4) using svc mw t beh fit lift al num
    by (simp add: ex_handoff_def at) (simp add: gl_def)
  show "rpc_ok (f (NodeId 1), f)" using f by (simp add: rpc_ok_def meta_wf_ex_store ex_terms_valid)
  show "working ex_transport" by (simp add: working_def works_def ex_transport_def ex_fate_def)
qed

theorem handoff_completes_witness:
  "\<exists>W W'. run_handoff (rt_sha ex_transport) (\<lambda>_. True) (rpc_handoff_transport ex_transport) ex_handoff W = (Ok (Committed 4), W')
     \<and> validate (oa_registry (at_node ex_transport W' (NodeId 3))) (guard_of (NanoContainer ''a'') (handoff_term ex_handoff 4)) = Ok ()"
proof -
  obtain f where f: "\<forall>n. serving ex_sha (f n) (ex_snap_global 4 [ex_agent_term, ex_world_term]) (ex_snap_local n 4 [ex_agent_term, ex_world_term])
     \<and> reg_this_node (oa_registry (f n)) = n \<and> oa_meta (f n) = ex_store n 4 [ex_agent_term, ex_world_term] empty_meta"
    using ex_nodes by blast
  have "map_option NodeId (rt_parse_uuid ex_transport (rt_show_node ex_transport (hr_target_node ex_handoff))) = Some (hr_target_node ex_handoff)"
    by (simp add: ex_transport_def ex_handoff_def)
  from handoff_completes [OF ex_handoff_ready(3) [OF f] ex_handoff_ready(1) [OF f] this] show ?thesis
    by (auto simp: ex_handoff_def)
qed

theorem handoff_never_steals_witness:
  "\<exists>W W'. run_handoff (rt_sha ex_transport) (\<lambda>_. True) (rpc_handoff_transport ex_transport) ex_handoff W = (Ok (Committed 4), W')
     \<and> rpc_fenced ex_transport ''n2'' (NanoContainer ''a'') 3 W'"
proof -
  obtain f where f: "\<forall>n. serving ex_sha (f n) (ex_snap_global 4 [ex_agent_term, ex_world_term]) (ex_snap_local n 4 [ex_agent_term, ex_world_term])
     \<and> reg_this_node (oa_registry (f n)) = n \<and> oa_meta (f n) = ex_store n 4 [ex_agent_term, ex_world_term] empty_meta"
    using ex_nodes by blast
  note rdy = ex_handoff_ready [OF f]
  have pu: "map_option NodeId (rt_parse_uuid ex_transport (rt_show_node ex_transport (hr_target_node ex_handoff))) = Some (hr_target_node ex_handoff)"
    by (simp add: ex_transport_def ex_handoff_def)
  obtain W' g where r: "run_handoff (rt_sha ex_transport) (\<lambda>_. True) (rpc_handoff_transport ex_transport) ex_handoff (f (NodeId 1), f) = (Ok (Committed 4), W')"
    and g: "hterm g (NanoContainer ''a'') = Some (handoff_term ex_handoff 4)" "meta_term (oa_meta (fst W')) = hterm g"
    using run_handoff_working [OF rdy(3,1) pu] by (auto simp: ex_handoff_def ex_transport_def at_node_def)
  have "meta_term (oa_meta (f (NodeId 1))) (NanoContainer ''a'') = Some ex_agent_term"
    using f readable_view(3) [OF serving_view(1) [OF f [rule_format, THEN conjunct1]], of "NodeId 1"]
      hterm_spec [OF ex_valid_spec [OF ex_terms_valid(1)], of 4 "NanoContainer ''a''" ex_agent_term] by simp
  then have "\<not> same_install (oa_meta (f (NodeId 1))) (oa_meta (fst W'))"
    using g by (auto simp: same_install_def handoff_term_def ex_agent_term_def ex_handoff_def dest: fun_cong [where x = "NanoContainer ''a''"])
  moreover have "current_owner (oa_registry (f (NodeId 1))) (NanoContainer ''a'') = Ok ex_agent_term"
    using handoff_begin_ready [OF rdy(1)] by (auto simp: handoff_begin_def ex_handoff_def split: if_splits)
  ultimately have "rpc_fenced ex_transport ''n2'' (NanoContainer ''a'') 3 W'"
    using handoff_never_steals [OF rdy(2) r] by (auto simp: ex_handoff_def)
  with r show ?thesis by blast
qed

end
