(* ===== verification/Cluster_Safety.thy ===== *)
theory Cluster_Safety
  imports Handoff_Completes
begin

text \<open>
  The first boot of the seed, and the statement the whole library is for: no two nodes ever
  accept writes to one scope.
\<close>

section \<open>The first boot of the seed\<close>

definition roster_terms :: "node_id \<Rightarrow> agent_id list \<Rightarrow> owner_term list" where
  "roster_terms n agents = map (chef_term n) (remdups_adj (sort_key to_wire (World # map agent_scope agents)))"

lemma remdups_adj_sorted_key:
  fixes k :: "'a \<Rightarrow> 'b :: linorder"
  assumes "inj k" and "sorted (map k xs)"
  shows "distinct (remdups_adj xs)"
proof -
  have "sorted ys \<Longrightarrow> distinct (remdups_adj ys)" for ys :: "'b list"
    by (induction ys rule: remdups_adj.induct) (auto simp: order_antisym)
  then have "distinct (remdups_adj (map k xs))" using assms(2) .
  then show ?thesis using remdups_adj_map_injective [OF assms(1), of xs] by (simp add: distinct_map)
qed

lemma roster_terms:
  "set (roster_terms n agents) = chef_term n ` insert World (agent_scope ` set agents)" "distinct (map ot_scope (roster_terms n agents))"
proof -
  show "set (roster_terms n agents) = chef_term n ` insert World (agent_scope ` set agents)" 
    unfolding roster_terms_def by (simp only: set_map remdups_adj_set set_sort list.set)
  have "map ot_scope (map (chef_term n) xs) = xs" for xs by (induction xs) (simp_all add: chef_term_def)
  then show "distinct (map ot_scope (roster_terms n agents))"
    unfolding roster_terms_def by (simp only:) (rule remdups_adj_sorted_key [OF _ sorted_sort_key], simp add: inj_def)
qed

lemma extend_terms_known:
  "\<forall>a \<in> set agents. \<exists>t \<in> set ts. ot_scope t = agent_scope a \<Longrightarrow> extend_terms n seed agents ts ch = Ok (ts, ch)"
  by (induction agents) (auto simp: list_ex_iff)

lemma recipient_local: "recipient_owner_snapshot = local_snapshot_for"
  by (intro ext) (simp add: recipient_owner_snapshot_def local_snapshot_for_def)

lemma install_first:
  assumes spec: "owner_pair_spec sha g l" and "gs_generation g = TRACK_A_COORDINATOR_GENERATION"
  shows "\<exists>m. install_owner_snapshot sha True g l empty_meta = Ok (Installed, m) \<and> readable sha m g l \<and> meta_overlay m = Map.empty"
proof -
  let ?m = "put_marker (marker_of g l) (replace_rows g l empty_meta)"
  have i: "install_owner_snapshot sha True g l empty_meta = Ok (Installed, ?m)"
    unfolding install_Installed_iff epoch_regresses_False using assms
    by (simp add: marker_admits_def empty_meta_def row_at_def)
  have wf: "meta_wf ?m" by (rule meta_wf_install [OF meta_wf_empty i])
  have ov: "om_get (cm_local_owner_saga ?m) k = None" for k by (simp add: empty_meta_def)
  then have "is_ok (list_local_saga_states True ?m)" by (simp add: sagas_ok [OF wf])
  moreover have "installed_owner_snapshot sha True ?m = Ok (Some (g, l))" by (rule install_read_back [OF meta_wf_empty i])
  moreover have "meta_overlay ?m = Map.empty" using ov by (intro ext) (simp add: row_at_def)
  ultimately show ?thesis using i wf by (simp add: readable_def)
qed

lemma first_boot:
  assumes fit: "fits (roster_terms n agents)"
  shows "\<exists>b fl g l. boot_owner_authority sha (\<lambda>_. True) None n True agents None = (Ok b, fl)
    \<and> serving sha (bt_authority b) g l \<and> bt_global b = Some g \<and> reg_this_node (oa_registry (bt_authority b)) = n
    \<and> set (gs_sorted_terms g) = set (roster_terms n agents) \<and> ls_sorted_base_states l = map (base_state_for n) (gs_sorted_terms g)
    \<and> meta_overlay (oa_meta (bt_authority b)) = Map.empty \<and> gs_revision g = 1
    \<and> fits (gs_sorted_terms g)"
proof -
  have "\<forall>t \<in> set (roster_terms n agents). ot_generation t = TRACK_A_COORDINATOR_GENERATION" by (auto simp: roster_terms(1) chef_term_def)
  then obtain g where g: "initial_owner_snapshot sha n agents = Ok g"
    using snapshot_new_ok [OF roster_terms(2) _ fit, of TRACK_A_COORDINATOR_GENERATION sha 1]
    by (auto simp: initial_owner_snapshot_def roster_terms_def Let_def)
  note new = owner_term_snapshot_new_OkD [OF g [unfolded initial_owner_snapshot_def Let_def, folded roster_terms_def]]
  have fit': "fits (gs_sorted_terms g)" using fit by (simp add: new(4) fits_def)
  then obtain l where l: "local_snapshot_for sha g n = Ok l" "owner_pair_spec sha g l" "ls_recipient_node l = n"
    "ls_sorted_base_states l = map (base_state_for n) (gs_sorted_terms g)" using local_snapshot_ok [OF new(1)] by blast
  obtain m where m: "install_owner_snapshot sha True g l empty_meta = Ok (Installed, m)" "readable sha m g l" "meta_overlay m = Map.empty"
    using install_first [OF l(2) new(2)] by blast
  have "ls_recipient_node l = reg_this_node (cluster_node n)" using l(3) by simp
  from rebuild_serving [OF m(2) this new(2)] obtain ss r where ss: "list_local_saga_states True m = Ok ss"
    and r: "rebuild_from_owner_snapshot sha (cluster_node n) g l ss = Ok r"
    and sv: "serving sha \<lparr>oa_registry = r, oa_meta = m\<rparr> g l" and rn: "reg_this_node r = n" by auto
  have rb: "rebuild_owner_registry_from_store sha (\<lambda>_. True) m (cluster_node n) = Ok (g, r)"
    using m(2) ss r by (simp add: rebuild_owner_registry_from_store_def readable_def)
  let ?up = "\<lparr>oa_registry = r, oa_meta = m\<rparr>"
  let ?b = "\<lparr>bt_authority = ?up, bt_global = Some g, bt_changed = True\<rparr>"
  have mk: "boot_from_marker sha (\<lambda>_. True) True agents None \<lparr>oa_registry = cluster_node n, oa_meta = empty_meta\<rparr> = (Ok ?b, ?up)"
    using g l(1) m(1) rb by (simp add: boot_from_marker_def boot_install_def recipient_local Let_def)
  have "\<exists>t \<in> set (gs_sorted_terms g). ot_scope t = agent_scope a" if "a \<in> set agents" for a
    using that by (simp add: new(4) roster_terms(1) chef_term_def)
  then have "extend_owner_snapshot_for_agents sha g agents n True = Ok (g, False)"
    by (simp add: extend_owner_snapshot_for_agents_def extend_terms_known)
  then have ro: "boot_roster sha (\<lambda>_. True) True agents ?b = (Ok ?b, ?up)" by (simp add: boot_roster_def Let_def rn)
  have op: "open_store True None = Ok empty_meta" "install_marker True empty_meta = Ok None"
    by (simp_all add: open_store_def migrate_legacy_overlays_def install_marker_def empty_meta_def get_decoded_def)
  have "boot_owner_authority sha (\<lambda>_. True) None n True agents None = (Ok ?b, Some m)"
    using mk ro op by (simp add: boot_owner_authority_def init_cluster_def global_registry_def)
  with sv rn new(3,4) l(4) m(3) fit' show ?thesis
    by (intro exI [of _ ?b] exI [of _ "Some m"] exI [of _ g] exI [of _ l]) simp
qed

lemma roster_fits:
  assumes "length agents < 2 ^ 32 - 1" and "\<forall>a \<in> set agents. length (to_wire (agent_scope a)) < 2 ^ 32"
  shows "fits (roster_terms n agents)"
proof -
  have "length (roster_terms n agents) \<le> Suc (length agents)"
    unfolding roster_terms_def using remdups_adj_length [of "sort_key to_wire (World # map agent_scope agents)"]
    by (simp only: length_map length_sort list.size)
  then show ?thesis using assms by (auto simp: fits_def roster_terms(1) chef_term_def)
qed

lemma chef_writes:
  assumes "serving sha a g l" and "reg_this_node (oa_registry a) = n" and "meta_overlay (oa_meta a) = Map.empty"
    and "ls_sorted_base_states l = map (base_state_for n) (gs_sorted_terms g)" and "chef_term n s \<in> set (gs_sorted_terms g)"
  shows "may_write (oa_registry a) s (chef_term n s)"
  using assms by (force simp: serving_view(6) [OF assms(1)] base_state_for_def chef_term_def)

text \<open>
  C9. The first boot of the seed on an empty data directory, with storage that works, succeeds:
  the node comes up owning the world and every agent of its roster, each at epoch 1, and accepts
  their guards at once.
\<close>

theorem first_boot_owns_roster:
  assumes "length agents < 2 ^ 32 - 1" and "\<forall>a \<in> set agents. length (to_wire (agent_scope a)) < 2 ^ 32"
  shows "\<exists>b fl. boot_owner_authority sha (\<lambda>_. True) None n True agents None = (Ok b, fl)
    \<and> (\<forall>s \<in> insert World (agent_scope ` set agents). validate (oa_registry (bt_authority b)) (guard_of s (chef_term n s)) = Ok ())"
proof -
  from first_boot [OF roster_fits [OF assms]] obtain b fl g l where b: "boot_owner_authority sha (\<lambda>_. True) None n True agents None = (Ok b, fl)"
    and g: "serving sha (bt_authority b) g l" "reg_this_node (oa_registry (bt_authority b)) = n"
      "meta_overlay (oa_meta (bt_authority b)) = Map.empty" "ls_sorted_base_states l = map (base_state_for n) (gs_sorted_terms g)"
    and ts: "set (gs_sorted_terms g) = set (roster_terms n agents)" by blast
  have "chef_term n s \<in> set (gs_sorted_terms g)" if "s \<in> insert World (agent_scope ` set agents)" for s
    using that by (auto simp: ts roster_terms(1))
  then have "validate (oa_registry (bt_authority b)) (guard_of s (chef_term n s)) = Ok ()"
    if "s \<in> insert World (agent_scope ` set agents)" for s
    using chef_writes [OF g] that by (auto simp: validate_eq_Ok intro!: exI [of _ "chef_term n s"])
  with b show ?thesis by blast
qed

theorem first_boot_owns_roster_witness:
  "\<exists>b fl. boot_owner_authority ex_sha (\<lambda>_. True) None (NodeId 1) True [] None = (Ok b, fl)
     \<and> validate (oa_registry (bt_authority b)) (guard_of World (chef_term (NodeId 1) World)) = Ok ()"
  using first_boot_owns_roster [of "[]" ex_sha "NodeId 1"] by auto

section \<open>Handing the world over\<close>

text \<open>A condition on runs that restrains neither replication nor preparation.\<close>

definition harmless :: "(cluster \<Rightarrow> cluster_event \<Rightarrow> bool) \<Rightarrow> bool" where
  "harmless cond \<longleftrightarrow> (\<forall>\<sigma> n g l w ep. cond \<sigma> Internal \<and> cond \<sigma> (Executes n (ReplicateOwnerSnapshot g l))
     \<and> cond \<sigma> (Executes n (PrepareHandoff w ep)))"

lemma harmlessD:
  assumes "harmless cond"
  shows "cond \<sigma> Internal" and "cond \<sigma> (Executes n (ReplicateOwnerSnapshot g l))" and "cond \<sigma> (Executes n (PrepareHandoff w ep))"
  using assms by (auto simp: harmless_def)

lemma harmless_runs: "harmless (orderly c)" "harmless (\<lambda>_ _. True)"
  by (simp_all add: harmless_def)

text \<open>The snapshot of a serving chef reaches a member that holds nothing yet.\<close>

lemma replicate_first:
  assumes spec: "owner_pair_spec sha g l" and gen: "gs_generation g = TRACK_A_COORDINATOR_GENERATION"
    and n: "ls_recipient_node l = n"
  shows "\<exists>a. handle_replicate sha (\<lambda>_. True) g l \<lparr>oa_registry = cluster_node n, oa_meta = empty_meta\<rparr>
      = (OwnerSnapshotAck Installed, a) \<and> serving sha a g l \<and> meta_overlay (oa_meta a) = Map.empty
      \<and> reg_this_node (oa_registry a) = n"
proof -
  obtain m where i: "install_owner_snapshot sha True g l empty_meta = Ok (Installed, m)" and rd: "readable sha m g l"
    and ov: "meta_overlay m = Map.empty" using install_first [OF spec gen] by blast
  have "ls_recipient_node l = reg_this_node (close_owner_readiness (cluster_node n))" using n by simp
  from rebuild_serving [OF rd this gen] obtain ss r where ss: "list_local_saga_states True m = Ok ss"
    and r: "rebuild_from_owner_snapshot sha (close_owner_readiness (cluster_node n)) g l ss = Ok r"
    and sv: "serving sha \<lparr>oa_registry = r, oa_meta = m\<rparr> g l" and rn: "reg_this_node r = n" by auto
  have inst: "installed_owner_snapshot sha True m = Ok (Some (g, l))" using rd by (simp add: readable_def)
  have "handle_replicate sha (\<lambda>_. True) g l \<lparr>oa_registry = cluster_node n, oa_meta = empty_meta\<rparr>
      = (OwnerSnapshotAck Installed, \<lparr>oa_registry = r, oa_meta = m\<rparr>)"
    by (simp add: handle_replicate_def rebuild_after_install_def n i inst ss r)
  with sv ov rn show ?thesis by (intro exI [of _ "\<lparr>oa_registry = r, oa_meta = m\<rparr>"]) simp
qed

lemma member_takes_over:
  assumes ok: "harmless cond" and run: "cluster_reachable cond sha pu peer c \<sigma>" and n: "cl_nodes \<sigma> n = \<lparr>oa_registry = cluster_node n, oa_meta = empty_meta\<rparr>" "n \<noteq> c"
    and chef: "serving sha (cl_nodes \<sigma> c) g lc" and g: "global_validate sha g = Ok ()" "fits (gs_sorted_terms g)"
    and t: "hterm g s = Some t" "ot_owner_node t = n"
  shows "\<exists>\<sigma>'. cluster_reachable cond sha pu peer c \<sigma>' \<and> may_write (oa_registry (cl_nodes \<sigma>' n)) s t
    \<and> (\<forall>k. k \<noteq> n \<longrightarrow> cl_nodes \<sigma>' k = cl_nodes \<sigma> k) \<and> cl_sagas \<sigma>' = cl_sagas \<sigma>"
proof -
  obtain l where l: "local_snapshot_for sha g n = Ok l" "owner_pair_spec sha g l" "ls_recipient_node l = n"
    "ls_sorted_base_states l = map (base_state_for n) (gs_sorted_terms g)" using local_snapshot_ok [OF g] by blast
  have "installed_owner_snapshot sha True (oa_meta (cl_nodes \<sigma> c)) = Ok (Some (g, lc))"
    using serving_view(1) [OF chef] by (simp add: readable_def)
  then have "cluster_step sha pu peer c \<sigma> Internal (\<sigma>\<lparr>cl_sent := insert (n, ReplicateOwnerSnapshot g l) (cl_sent \<sigma>)\<rparr>)" (is "cluster_step _ _ _ _ _ _ ?\<sigma>1")
    by (intro replicate [OF _ l(1)]) blast
  then have run1: "cluster_reachable cond sha pu peer c ?\<sigma>1" by (rule step [OF run harmlessD(1) [OF ok]])
  obtain a where a: "handle_replicate sha (\<lambda>_. True) g l (cl_nodes \<sigma> n) = (OwnerSnapshotAck Installed, a)" "serving sha a g l"
    "meta_overlay (oa_meta a) = Map.empty" "reg_this_node (oa_registry a) = n"
    using replicate_first [OF l(2) serving_view(5) [OF chef] l(3)] n(1) by auto
  have "cluster_step sha pu peer c ?\<sigma>1 (Executes n (ReplicateOwnerSnapshot g l)) (?\<sigma>1\<lparr>cl_nodes := (cl_nodes ?\<sigma>1)(n := a)\<rparr>)"
    by (rule deliver [OF _ n(2), where io = "\<lambda>_. True"]) (use a(1) in simp_all)
  from step [OF run1 harmlessD(2) [OF ok] this] have "cluster_reachable cond sha pu peer c (?\<sigma>1\<lparr>cl_nodes := (cl_nodes \<sigma>)(n := a)\<rparr>)" by simp
  moreover have "base_state_for n t \<in> set (ls_sorted_base_states l)" "ot_scope t = s"
    using t hterm_spec [OF l(2)] l(4) by auto
  then have "may_write (oa_registry a) s t"
    unfolding serving_view(6) [OF a(2)] using t(2) a(3,4) by (auto intro!: bexI [of _ "base_state_for n t"])
  ultimately show ?thesis by (intro exI [of _ "?\<sigma>1\<lparr>cl_nodes := (cl_nodes \<sigma>)(n := a)\<rparr>"]) simp
qed

text \<open>A prepared handoff installs its term over one of the same epoch.\<close>

lemma prepared_installs:
  assumes ok: "harmless cond" and run: "cluster_reachable cond sha pu peer c \<sigma>" and saga: "cl_sagas \<sigma> i = Some (Prepared req cur ne)"
    and v: "readable sha (oa_meta (cl_nodes \<sigma> c)) g l" "ls_recipient_node l = c" "reg_this_node (oa_registry (cl_nodes \<sigma> c)) = c"
      "gs_generation g = TRACK_A_COORDINATOR_GENERATION"
    and t: "hterm g (hr_scope req) = Some t" "ot_epoch t \<le> ne" and rv: "checked_add (gs_revision g) 1 = Some rvn"
    and fit: "fits (gs_sorted_terms g)"
  shows "\<exists>\<sigma>' g' l'. cluster_reachable cond sha pu peer c \<sigma>' \<and> serving sha (cl_nodes \<sigma>' c) g' l' \<and> reg_this_node (oa_registry (cl_nodes \<sigma>' c)) = c
    \<and> hterm g' (hr_scope req) = Some (handoff_term req ne) \<and> gs_revision g' = rvn \<and> global_validate sha g' = Ok ()
    \<and> fits (gs_sorted_terms g') \<and> (\<forall>k. k \<noteq> c \<longrightarrow> cl_nodes \<sigma>' k = cl_nodes \<sigma> k) \<and> (\<forall>j. j \<noteq> i \<longrightarrow> cl_sagas \<sigma>' j = cl_sagas \<sigma> j)"
proof -
  have "ls_recipient_node l = reg_this_node (oa_registry (cl_nodes \<sigma> c))" using v(2,3) by simp
  from handoff_install_ok [OF v(1) this v(4) t rv fit] obtain g' l' a where
    a: "handoff_install sha (\<lambda>_. True) req ne (cl_nodes \<sigma> c) = (Ok g', a)" and g': "serving sha a g' l'"
      "hterm g' = (hterm g)(hr_scope req \<mapsto> handoff_term req ne)" "gs_revision g' = rvn" "global_validate sha g' = Ok ()"
      "fits (gs_sorted_terms g')" "reg_this_node (oa_registry a) = c"
    using v(3) by auto
  from step [OF run harmlessD(1) [OF ok] install [OF saga a]] g' show ?thesis by fastforce
qed

lemma begin_run:
  assumes "cluster_reachable cond sha pu peer c \<sigma>" and "cl_sagas \<sigma> i = None"
    and "handoff_begin al req (oa_registry (cl_nodes \<sigma> c)) = Ok (cur, sa, ne)" and "cond \<sigma> (Begin req)"
  shows "\<exists>\<sigma>'. cluster_reachable cond sha pu peer c \<sigma>' \<and> cl_nodes \<sigma>' = cl_nodes \<sigma> \<and> cl_sagas \<sigma>' = (cl_sagas \<sigma>)(i \<mapsto> Preparing req cur ne)"
  using step [OF assms(1,4) begin_handoff [OF assms(2,3)]] by fastforce

lemma prepare_run:
  assumes "cluster_reachable cond sha pu peer c \<sigma>" and "cl_sagas \<sigma> i = Some (Preparing req cur ne)"
    and "prepare_locally sha io (to_wire (hr_scope req)) (ot_epoch cur) (cl_nodes \<sigma> c) = (Ok (), a)" and "harmless cond"
  shows "\<exists>\<sigma>'. cluster_reachable cond sha pu peer c \<sigma>' \<and> cl_nodes \<sigma>' = (cl_nodes \<sigma>)(c := a) \<and> cl_sagas \<sigma>' = (cl_sagas \<sigma>)(i \<mapsto> Prepared req cur ne)"
  using step [OF assms(1) harmlessD(3) [OF assms(4)] prepare_local [OF assms(2,3)]] by fastforce

definition world_to :: "node_id \<Rightarrow> handoff_request" where
  "world_to n = \<lparr>hr_scope = World, hr_source_alias = [], hr_target_alias = [], hr_target_node = n\<rparr>"

text \<open>What a handoff of the world finds after the first boot, and after it retired the chef once and twice.\<close>

definition world_booted ::
  "(bytes \<Rightarrow> bytes) \<Rightarrow> node_id \<Rightarrow> boot_state \<Rightarrow> owner_term_snapshot \<Rightarrow> local_owner_state_snapshot
   \<Rightarrow> owner_authority \<Rightarrow> owner_authority \<Rightarrow> bool" where
  "world_booted sha c b g l a1 a2 \<longleftrightarrow>
     (\<forall>k. handoff_begin (\<lambda>_. Ok []) (world_to k) (oa_registry (bt_authority b)) = Ok (chef_term c World, [], 2))
     \<and> prepare_locally sha (\<lambda>_. True) (to_wire World) (ot_epoch (chef_term c World)) (bt_authority b) = (Ok (), a1)
     \<and> prepare_locally sha (\<lambda>_. True) (to_wire World) (ot_epoch (chef_term c World)) a1 = (Ok (), a2)
     \<and> (\<forall>a \<in> {a1, a2}. readable sha (oa_meta a) g l \<and> reg_this_node (oa_registry a) = c)
     \<and> ls_recipient_node l = c \<and> gs_generation g = TRACK_A_COORDINATOR_GENERATION
     \<and> hterm g World = Some (chef_term c World) \<and> gs_revision g = 1 \<and> fits (gs_sorted_terms g)
     \<and> reg_terms (oa_registry (bt_authority b)) = meta_term (oa_meta (bt_authority b))"

lemma world_boot:
  "\<exists>b fl g l a1 a2. boot_owner_authority sha (\<lambda>_. True) None c True [] None = (Ok b, fl) \<and> world_booted sha c b g l a1 a2"
proof -
  let ?t = "chef_term c World"
  obtain b fl g l where b: "boot_owner_authority sha (\<lambda>_. True) None c True [] None = (Ok b, fl)"
    and g: "serving sha (bt_authority b) g l" "reg_this_node (oa_registry (bt_authority b)) = c"
      "meta_overlay (oa_meta (bt_authority b)) = Map.empty"
      "ls_sorted_base_states l = map (base_state_for c) (gs_sorted_terms g)"
    and ts: "set (gs_sorted_terms g) = set (roster_terms c [])" and rv: "gs_revision g = 1" and fit: "fits (gs_sorted_terms g)"
    using first_boot [OF roster_fits, of "[]" sha c] by auto
  note v = serving_view [OF g(1)] and rd = readable_view [OF serving_view(1) [OF g(1)]]
  let ?a = "bt_authority b"
  have ht: "hterm g World = Some ?t" using hterm_spec [OF rd(2)] by (simp add: ts roster_terms(1) chef_term_def)
  have mw: "may_write (oa_registry ?a) World ?t" by (rule chef_writes [OF g]) (simp add: ts roster_terms(1))
  have beg: "handoff_begin (\<lambda>_. Ok []) (world_to k) (oa_registry ?a) = Ok (?t, [], 2)" for k
    using v(2) rd(3) ht
    by (simp add: handoff_begin_def world_to_def current_owner_def mirrors_def is_cluster_mode_def chef_term_def checked_add_def)
  obtain st m where p: "persist_source_retirement sha (\<lambda>_. True) (oa_meta ?a) c (to_wire World) (ot_epoch ?t) = Ok (st, m)"
    "readable sha m g l" using retirement_ok [OF g(1) mw] g(2) by auto
  let ?r = "retire_local (oa_registry ?a) (lo_scope st) (ot_epoch ?t)"
  let ?a1 = "\<lparr>oa_registry = ?r, oa_meta = m\<rparr>"
  let ?a2 = "\<lparr>oa_registry = retire_local ?r (lo_scope st) (ot_epoch ?t), oa_meta = m\<rparr>"
  have "prepare_locally sha (\<lambda>_. True) (to_wire World) (ot_epoch ?t) ?a = (Ok (), ?a1)"
    using p g(2) by (simp add: prepare_locally_def)
  moreover have "prepare_locally sha (\<lambda>_. True) (to_wire World) (ot_epoch ?t) ?a1 = (Ok (), ?a2)"
    using retirement_again [OF rd(1) p(1)] g(2) by (simp add: prepare_locally_def)
  ultimately have "world_booted sha c b g l ?a1 ?a2"
    using beg p(2) g(2) v(2,4,5) ht rv fit by (simp add: world_booted_def mirrors_def)
  with b show ?thesis by blast
qed

lemma world_bootedD:
  assumes "world_booted sha c b g l a1 a2"
  shows "handoff_begin (\<lambda>_. Ok []) (world_to k) (oa_registry (bt_authority b)) = Ok (chef_term c World, [], 2)"
    and "prepare_locally sha (\<lambda>_. True) (to_wire World) (ot_epoch (chef_term c World)) (bt_authority b) = (Ok (), a1)"
    and "prepare_locally sha (\<lambda>_. True) (to_wire World) (ot_epoch (chef_term c World)) a1 = (Ok (), a2)"
    and "readable sha (oa_meta a1) g l" and "reg_this_node (oa_registry a1) = c"
    and "readable sha (oa_meta a2) g l" and "reg_this_node (oa_registry a2) = c"
    and "ls_recipient_node l = c" and "gs_generation g = TRACK_A_COORDINATOR_GENERATION"
    and "hterm g World = Some (chef_term c World)" and "gs_revision g = 1" and "fits (gs_sorted_terms g)"
    and "reg_terms (oa_registry (bt_authority b)) = meta_term (oa_meta (bt_authority b))"
  using assms by (simp_all add: world_booted_def)

lemma world_to_scope [simp]: "hr_scope (world_to n) = World" "hr_target_node (world_to n) = n"
  by (simp_all add: world_to_def)

text \<open>One handoff of the world in an orderly run.\<close>

lemma world_handed_over:
  assumes "n \<noteq> c"
  shows "\<exists>\<sigma>. cluster_reachable (orderly c) sha pu peer c \<sigma>
    \<and> may_write (oa_registry (cl_nodes \<sigma> n)) World (handoff_term (world_to n) 2)"
proof -
  note ok = harmless_runs(1) [of c]
  obtain b fl g l a1 a2 where b: "boot_owner_authority sha (\<lambda>_. True) None c True [] None = (Ok b, fl)"
    and W: "world_booted sha c b g l a1 a2" using world_boot by blast
  note D = world_bootedD [OF W]
  let ?t = "chef_term c World" and ?\<sigma> = "cluster_start c b"
  have chef: "cl_nodes ?\<sigma> c = bt_authority b" and none: "cl_sagas ?\<sigma> = Map.empty" by (simp_all add: cluster_start_def)
  have run: "cluster_reachable (orderly c) sha pu peer c ?\<sigma>" by (rule start [OF b])
  have "orderly c ?\<sigma> (Begin (world_to n))" using D(13) chef none by (simp add: being_replaced_def)
  from begin_run [OF run _ D(1) [of n, folded chef] this, of 0] none obtain s1 where
    s1: "cluster_reachable (orderly c) sha pu peer c s1" "cl_nodes s1 = cl_nodes ?\<sigma>" "cl_sagas s1 0 = Some (Preparing (world_to n) ?t 2)"
    by auto
  have "prepare_locally sha (\<lambda>_. True) (to_wire (hr_scope (world_to n))) (ot_epoch ?t) (cl_nodes s1 c) = (Ok (), a1)"
    using D(2) by (simp add: s1(2) chef)
  from prepare_run [OF s1(1,3) this ok] obtain s2 where
    s2: "cluster_reachable (orderly c) sha pu peer c s2" "cl_nodes s2 = (cl_nodes s1)(c := a1)" "cl_sagas s2 0 = Some (Prepared (world_to n) ?t 2)"
    by auto
  have a1: "cl_nodes s2 c = a1" by (simp add: s2(2))
  have rvn: "checked_add (gs_revision g) 1 = Some 2" by (simp add: D(11) checked_add_def)
  have "hterm g (hr_scope (world_to n)) = Some ?t" "ot_epoch ?t \<le> 2" using D(10) by (simp_all add: chef_term_def)
  from prepared_installs [OF ok s2(1,3) D(4) [folded a1] D(8) D(5) [folded a1] D(9) this rvn D(12)] obtain s3 g' l' where
    s3: "cluster_reachable (orderly c) sha pu peer c s3" "serving sha (cl_nodes s3 c) g' l'"
      "global_validate sha g' = Ok ()" "fits (gs_sorted_terms g')" "hterm g' World = Some (handoff_term (world_to n) 2)"
      "\<forall>k. k \<noteq> c \<longrightarrow> cl_nodes s3 k = cl_nodes s2 k" unfolding world_to_scope by blast
  have "cl_nodes s3 n = \<lparr>oa_registry = cluster_node n, oa_meta = empty_meta\<rparr>"
    using s3(6) assms by (simp add: s2(2) s1(2) cluster_start_def)
  from member_takes_over [OF ok s3(1) this assms s3(2-5)] show ?thesis by (auto simp: handoff_term_def)
qed

section \<open>No split brain\<close>

text \<open>
  C1. No split brain in orderly runs.  Take any run in which a handoff begins only when the
  chef's registry agrees with its store about the scope and no other handoff of that scope is
  still to install its term, and in which an OwnerCommit is executed only while its epoch is
  the chef's current one and no later handoff of the scope is under way.  Then in every state,
  whatever is lost, repeated or late, however many handoffs of different scopes overlap,
  whichever storage calls fail and whoever restarts, two nodes that accept a write guard for
  one scope are the same node and the guards carry the same term.
\<close>

theorem no_split_brain:
  assumes "cluster_reachable (orderly c) sha pu peer c \<sigma>"
    and "validate (oa_registry (cl_nodes \<sigma> n)) gd = Ok ()" and "validate (oa_registry (cl_nodes \<sigma> n')) gd' = Ok ()"
    and "gd_scope gd = gd_scope gd'"
  shows "n = n' \<and> gd = gd'"
proof -
  have inv: "authority_inv c (cl_history \<sigma>) (cl_nodes \<sigma>)" using reachable_inv [OF assms(1)] by (simp add: cluster_inv_def)
  from assms(2,3) obtain t t' where "may_write (oa_registry (cl_nodes \<sigma> n)) (gd_scope gd) t" "carries_term gd t"
    "may_write (oa_registry (cl_nodes \<sigma> n')) (gd_scope gd) t'" "carries_term gd' t'"
    unfolding validate_eq_Ok assms(4) by blast
  with one_writer [OF inv] assms(4) show ?thesis using guard_of_iff by metis
qed

text \<open>After one handoff of the world, its new owner writes and no other node does.\<close>

theorem no_split_brain_witness:
  "\<exists>\<sigma>. cluster_reachable (orderly (NodeId 1)) ex_sha (\<lambda>_. None) (rt_chef ex_transport) (NodeId 1) \<sigma>
     \<and> validate (oa_registry (cl_nodes \<sigma> (NodeId 2))) (guard_of World (handoff_term (world_to (NodeId 2)) 2)) = Ok ()
     \<and> (\<forall>n gd. n \<noteq> NodeId 2 \<longrightarrow> gd_scope gd = World \<longrightarrow> validate (oa_registry (cl_nodes \<sigma> n)) gd \<noteq> Ok ())"
proof -
  obtain \<sigma> where r: "cluster_reachable (orderly (NodeId 1)) ex_sha (\<lambda>_. None) (rt_chef ex_transport) (NodeId 1) \<sigma>"
    and "may_write (oa_registry (cl_nodes \<sigma> (NodeId 2))) World (handoff_term (world_to (NodeId 2)) 2)"
    using world_handed_over [of "NodeId 2" "NodeId 1" ex_sha "\<lambda>_. None" "rt_chef ex_transport"] by auto
  then have v: "validate (oa_registry (cl_nodes \<sigma> (NodeId 2))) (guard_of World (handoff_term (world_to (NodeId 2)) 2)) = Ok ()"
    by (auto simp: validate_eq_Ok)
  have "validate (oa_registry (cl_nodes \<sigma> n)) gd \<noteq> Ok ()" if "n \<noteq> NodeId 2" "gd_scope gd = World" for n gd
    using no_split_brain [OF r v, of n gd] that by auto
  with r v show ?thesis by blast
qed

section \<open>Overlapping handoffs\<close>

text \<open>Runs with no condition on the order of events.\<close>

abbreviation any_run :: "(bytes \<Rightarrow> bytes) \<Rightarrow> uuid_parser \<Rightarrow> authenticated_peer \<Rightarrow> node_id \<Rightarrow> cluster \<Rightarrow> bool" where
  "any_run \<equiv> cluster_reachable (\<lambda>_ _. True)"

text \<open>Two handoffs of the world that have both been prepared.\<close>

lemma both_prepared:
  "\<exists>\<sigma> g l. any_run sha pu peer c \<sigma> \<and> cl_sagas \<sigma> 0 = Some (Prepared (world_to n) (chef_term c World) 2)
     \<and> cl_sagas \<sigma> 1 = Some (Prepared (world_to n') (chef_term c World) 2)
     \<and> readable sha (oa_meta (cl_nodes \<sigma> c)) g l \<and> ls_recipient_node l = c \<and> reg_this_node (oa_registry (cl_nodes \<sigma> c)) = c
     \<and> gs_generation g = TRACK_A_COORDINATOR_GENERATION \<and> hterm g World = Some (chef_term c World) \<and> gs_revision g = 1
     \<and> fits (gs_sorted_terms g)
     \<and> (\<forall>k. k \<noteq> c \<longrightarrow> cl_nodes \<sigma> k = \<lparr>oa_registry = cluster_node k, oa_meta = empty_meta\<rparr>)"
proof -
  obtain b fl g l a1 a2 where b: "boot_owner_authority sha (\<lambda>_. True) None c True [] None = (Ok b, fl)"
    and W: "world_booted sha c b g l a1 a2" using world_boot by blast
  note D = world_bootedD [OF W] and ok = harmless_runs(2)
  let ?t = "chef_term c World" and ?\<sigma> = "cluster_start c b"
  have chef: "cl_nodes ?\<sigma> c = bt_authority b" and none: "cl_sagas ?\<sigma> = Map.empty" by (simp_all add: cluster_start_def)
  have run: "any_run sha pu peer c ?\<sigma>" by (rule start [OF b])
  from begin_run [OF run _ D(1) [of n, folded chef] TrueI, of 0] none obtain s1 where
    s1: "any_run sha pu peer c s1" "cl_nodes s1 = cl_nodes ?\<sigma>" "cl_sagas s1 = [0 \<mapsto> Preparing (world_to n) ?t 2]" by auto
  have chef1: "cl_nodes s1 c = bt_authority b" by (simp add: s1(2) chef)
  from begin_run [OF s1(1) _ D(1) [of n', folded chef1] TrueI, of 1] s1(3) obtain s2 where
    s2: "any_run sha pu peer c s2" "cl_nodes s2 = cl_nodes s1"
      "cl_sagas s2 = [0 \<mapsto> Preparing (world_to n) ?t 2, 1 \<mapsto> Preparing (world_to n') ?t 2]" by auto
  have p1: "cl_sagas s2 0 = Some (Preparing (world_to n) ?t 2)"
    "prepare_locally sha (\<lambda>_. True) (to_wire (hr_scope (world_to n))) (ot_epoch ?t) (cl_nodes s2 c) = (Ok (), a1)"
    using D(2) by (simp_all add: s2(2,3) chef1)
  from prepare_run [OF s2(1) p1 ok] obtain s3 where s3: "any_run sha pu peer c s3" "cl_nodes s3 = (cl_nodes s2)(c := a1)"
    "cl_sagas s3 = (cl_sagas s2)(0 \<mapsto> Prepared (world_to n) ?t 2)" by auto
  have p2: "cl_sagas s3 1 = Some (Preparing (world_to n') ?t 2)"
    "prepare_locally sha (\<lambda>_. True) (to_wire (hr_scope (world_to n'))) (ot_epoch ?t) (cl_nodes s3 c) = (Ok (), a2)"
    using D(3) by (simp_all add: s3(2,3) s2(3))
  from prepare_run [OF s3(1) p2 ok] obtain s4 where s4: "any_run sha pu peer c s4" "cl_nodes s4 = (cl_nodes s3)(c := a2)"
    "cl_sagas s4 = (cl_sagas s3)(1 \<mapsto> Prepared (world_to n') ?t 2)" by auto
  have "\<forall>k. k \<noteq> c \<longrightarrow> cl_nodes s4 k = \<lparr>oa_registry = cluster_node k, oa_meta = empty_meta\<rparr>"
    by (simp add: s4(2) s3(2) s2(2) s1(2) cluster_start_def)
  moreover have "cl_nodes s4 c = a2" by (simp add: s4(2))
  ultimately show ?thesis using s4(1,3) s3(3) D(6-12) by (intro exI [of _ s4] exI [of _ g] exI [of _ l]) simp
qed

text \<open>
  C2. The order of handoffs matters: without it the cluster can have two writers.  Let the
  chef boot on an empty directory and let two operator requests hand the world to two
  different members.  If both read the registry and have the chef retire before either
  installs, both commit epoch 2; with no message lost, no storage call failing and no node
  restarting, both targets then accept writes to the world at epoch 2.
\<close>

theorem overlapping_handoffs_split_brain:
  assumes "n \<noteq> c" and "n' \<noteq> c" and "n \<noteq> n'"
  shows "\<exists>\<sigma> t t'. any_run sha pu peer c \<sigma> \<and> ot_owner_node t = n \<and> ot_owner_node t' = n' \<and> ot_epoch t = 2 \<and> ot_epoch t' = 2
    \<and> validate (oa_registry (cl_nodes \<sigma> n)) (guard_of World t) = Ok ()
    \<and> validate (oa_registry (cl_nodes \<sigma> n')) (guard_of World t') = Ok ()"
proof -
  obtain \<sigma> g l where run: "any_run sha pu peer c \<sigma>" and s: "cl_sagas \<sigma> 0 = Some (Prepared (world_to n) (chef_term c World) 2)"
      "cl_sagas \<sigma> 1 = Some (Prepared (world_to n') (chef_term c World) 2)"
    and g: "readable sha (oa_meta (cl_nodes \<sigma> c)) g l" "ls_recipient_node l = c" "reg_this_node (oa_registry (cl_nodes \<sigma> c)) = c"
      "gs_generation g = TRACK_A_COORDINATOR_GENERATION"
    and t: "hterm g (hr_scope (world_to n)) = Some (chef_term c World)" "ot_epoch (chef_term c World) \<le> 2"
    and rv: "checked_add (gs_revision g) 1 = Some 2" and fit: "fits (gs_sorted_terms g)"
    and rest: "\<forall>k. k \<noteq> c \<longrightarrow> cl_nodes \<sigma> k = \<lparr>oa_registry = cluster_node k, oa_meta = empty_meta\<rparr>"
    using both_prepared [of sha pu peer c n n'] by (auto simp: world_to_def chef_term_def checked_add_def)
  from prepared_installs [OF harmless_runs(2) run s(1) g t rv fit] obtain \<sigma>1 g1 l1 where r1: "any_run sha pu peer c \<sigma>1"
    and c1: "serving sha (cl_nodes \<sigma>1 c) g1 l1" "reg_this_node (oa_registry (cl_nodes \<sigma>1 c)) = c"
    and g1: "hterm g1 World = Some (handoff_term (world_to n) 2)" "gs_revision g1 = 2" "global_validate sha g1 = Ok ()" "fits (gs_sorted_terms g1)"
    and n1: "\<forall>k. k \<noteq> c \<longrightarrow> cl_nodes \<sigma>1 k = cl_nodes \<sigma> k" "cl_sagas \<sigma>1 1 = cl_sagas \<sigma> 1"
    by (auto simp: world_to_def)
  obtain \<sigma>2 where r2: "any_run sha pu peer c \<sigma>2" and w: "may_write (oa_registry (cl_nodes \<sigma>2 n)) World (handoff_term (world_to n) 2)"
    and n2: "\<forall>k. k \<noteq> n \<longrightarrow> cl_nodes \<sigma>2 k = cl_nodes \<sigma>1 k" "cl_sagas \<sigma>2 = cl_sagas \<sigma>1"
    using member_takes_over [OF harmless_runs(2) r1 _ assms(1) c1(1) g1(3,4,1)] n1 rest assms(1) by (auto simp: handoff_term_def world_to_def)
  have c2: "cl_nodes \<sigma>2 c = cl_nodes \<sigma>1 c" and n': "cl_nodes \<sigma>2 n' = \<lparr>oa_registry = cluster_node n', oa_meta = empty_meta\<rparr>"
    using n1 n2 rest assms by simp_all
  have "\<exists>\<sigma>3 g3 l3. any_run sha pu peer c \<sigma>3 \<and> serving sha (cl_nodes \<sigma>3 c) g3 l3
      \<and> hterm g3 World = Some (handoff_term (world_to n') 2) \<and> global_validate sha g3 = Ok () \<and> fits (gs_sorted_terms g3)
      \<and> (\<forall>k. k \<noteq> c \<longrightarrow> cl_nodes \<sigma>3 k = cl_nodes \<sigma>2 k)"
    using prepared_installs [OF harmless_runs(2) r2, of 1 "world_to n'" "chef_term c World" 2 g1 l1 "handoff_term (world_to n) 2" 3]
      s(2) n1 n2 serving_view(1,4,5) [OF c1(1)] c1(2) c2 g1 by (simp add: world_to_def handoff_term_def checked_add_def) blast
  then obtain \<sigma>3 g3 l3 where r3: "any_run sha pu peer c \<sigma>3" and c3: "serving sha (cl_nodes \<sigma>3 c) g3 l3"
    and g3: "hterm g3 World = Some (handoff_term (world_to n') 2)" "global_validate sha g3 = Ok ()" "fits (gs_sorted_terms g3)"
    and n3: "\<forall>k. k \<noteq> c \<longrightarrow> cl_nodes \<sigma>3 k = cl_nodes \<sigma>2 k" by blast
  obtain \<sigma>4 where r4: "any_run sha pu peer c \<sigma>4" and w': "may_write (oa_registry (cl_nodes \<sigma>4 n')) World (handoff_term (world_to n') 2)"
    and n4: "\<forall>k. k \<noteq> n' \<longrightarrow> cl_nodes \<sigma>4 k = cl_nodes \<sigma>3 k"
    using member_takes_over [OF harmless_runs(2) r3 _ assms(2) c3 g3(2,3,1)] n3 n' assms(2) by (auto simp: handoff_term_def world_to_def)
  have "cl_nodes \<sigma>4 n = cl_nodes \<sigma>2 n" using n3 n4 assms by simp
  with w w' have "validate (oa_registry (cl_nodes \<sigma>4 n)) (guard_of World (handoff_term (world_to n) 2)) = Ok ()"
    "validate (oa_registry (cl_nodes \<sigma>4 n')) (guard_of World (handoff_term (world_to n') 2)) = Ok ()"
    by (auto simp: validate_eq_Ok)
  with r4 show ?thesis
    by (intro exI [of _ \<sigma>4] exI [of _ "handoff_term (world_to n) 2"] exI [of _ "handoff_term (world_to n') 2"])
      (simp add: handoff_term_def world_to_def)
qed

theorem overlapping_handoffs_split_brain_witness:
  "\<exists>\<sigma> t t'. any_run ex_sha (\<lambda>_. None) (rt_chef ex_transport) (NodeId 1) \<sigma>
     \<and> ot_owner_node t = NodeId 2 \<and> ot_owner_node t' = NodeId 3
     \<and> validate (oa_registry (cl_nodes \<sigma> (NodeId 2))) (guard_of World t) = Ok ()
     \<and> validate (oa_registry (cl_nodes \<sigma> (NodeId 3))) (guard_of World t') = Ok ()"
  using overlapping_handoffs_split_brain [of "NodeId 2" "NodeId 1" "NodeId 3" ex_sha "\<lambda>_. None" "rt_chef ex_transport"]
  by fastforce

end
