(* ===== verification/Workflow_Text.thy ===== *)
theory Workflow_Text
  imports Block_Ref Scope
begin

text \<open>
  The text rules of the workflow core: error values (\<open>error.rs\<close>), digests
  (\<open>digest.rs\<close>) and the identifier, path, program and media-type checks of
  \<open>model.rs\<close> in \<open>crates/sentinel-workflow/src\<close>.  A string is its UTF-8 bytes;
  \<open>Path::components\<close> is the Unix one.  SHA-256 is an argument.
\<close>

section \<open>Errors\<close>

datatype workflow_error_code =
    InvalidInput | InvalidDigest | InvalidTransition | WfNotFound | VersionConflict | IdempotencyConflict
  | AuthorityConflict | OrganizationUnavailable | ExecutionUnavailable | CompletionUnavailable
  | GateUnavailable | WfUnknownOutcome | CorruptStore | PersistenceFailure

record workflow_error =
  we_code :: workflow_error_code
  we_retryable :: bool
  we_message :: string

type_synonym 'a wf_result = "(workflow_error, 'a) result"

definition workflow_error_new :: "workflow_error_code \<Rightarrow> bool \<Rightarrow> string \<Rightarrow> workflow_error" where
  "workflow_error_new code retryable message = \<lparr>we_code = code, we_retryable = retryable, we_message = message\<rparr>"

definition wf_persistence :: workflow_error where
  "wf_persistence = workflow_error_new PersistenceFailure False ''workflow persistence operation failed''"

definition wf_transient_persistence :: workflow_error where
  "wf_transient_persistence = workflow_error_new PersistenceFailure True ''workflow persistence operation failed''"

definition corrupt_store :: workflow_error where
  "corrupt_store = workflow_error_new CorruptStore False ''workflow store integrity validation failed''"

definition wf_invalid :: "string \<Rightarrow> workflow_error" where
  "wf_invalid message = workflow_error_new InvalidInput False message"

definition wf_authority :: "string \<Rightarrow> workflow_error" where
  "wf_authority message = workflow_error_new AuthorityConflict False message"

section \<open>Bytes\<close>

definition byte_in :: "nat \<Rightarrow> nat \<Rightarrow> char \<Rightarrow> bool" where
  "byte_in lo hi c \<longleftrightarrow> lo \<le> of_char c \<and> of_char c \<le> hi"

definition is_ascii_lowercase :: "char \<Rightarrow> bool" where
  "is_ascii_lowercase = byte_in 97 122"

definition is_ascii_uppercase :: "char \<Rightarrow> bool" where
  "is_ascii_uppercase = byte_in 65 90"

definition is_ascii_alphanumeric :: "char \<Rightarrow> bool" where
  "is_ascii_alphanumeric c \<longleftrightarrow> is_ascii_digit c \<or> is_ascii_lowercase c \<or> is_ascii_uppercase c"

definition is_ascii_hexdigit :: "char \<Rightarrow> bool" where
  "is_ascii_hexdigit c \<longleftrightarrow> is_ascii_digit c \<or> byte_in 97 102 c \<or> byte_in 65 70 c"

text \<open>
  \<open>chars().any(char::is_control)\<close>: the C0 controls and DEL are single bytes, the C1 controls
  U+0080 to U+009F are the byte C2 followed by 80 to 9F.
\<close>

definition c0_control :: "char \<Rightarrow> bool" where
  "c0_control c \<longleftrightarrow> byte_in 0 31 c \<or> byte_in 127 127 c"

fun has_control :: "string \<Rightarrow> bool" where
  "has_control [] \<longleftrightarrow> False"
| "has_control [c] \<longleftrightarrow> c0_control c"
| "has_control (c # d # s) \<longleftrightarrow> c0_control c \<or> byte_in 194 194 c \<and> byte_in 128 159 d \<or> has_control (d # s)"

section \<open>Digests\<close>

definition str_bytes :: "string \<Rightarrow> bytes" where
  "str_bytes s = map (\<lambda>c. of_nat (of_char c)) s"

definition hex_sha256 :: "bytes \<Rightarrow> string" where
  "hex_sha256 bs = hex_string bs"

text \<open>The digest of a canonical serialization, separated by its domain.\<close>

definition canonical_digest_of :: "(bytes \<Rightarrow> bytes) \<Rightarrow> string \<Rightarrow> bytes \<Rightarrow> string" where
  "canonical_digest_of sha domain serialized = hex_sha256 (sha (str_bytes domain @ [0] @ serialized))"

definition derive_principal_authority_digest :: "(bytes \<Rightarrow> bytes) \<Rightarrow> u64 \<Rightarrow> bytes \<Rightarrow> string" where
  "derive_principal_authority_digest sha generation credential =
     hex_sha256 (sha (str_bytes ''sentinel.workflow.principal-authority.v1'' @ [0]
       @ map (\<lambda>i. ucast (drop_bit (8 * i) generation)) (rev [0..<8]) @ credential))"

definition validate_sha256 :: "string \<Rightarrow> bool" where
  "validate_sha256 v \<longleftrightarrow> length v = 64 \<and> list_all (\<lambda>c. is_ascii_hexdigit c \<and> \<not> is_ascii_uppercase c) v"

definition constant_time_eq :: "string \<Rightarrow> string \<Rightarrow> bool" where
  "constant_time_eq l r \<longleftrightarrow> length l = length r
     \<and> foldl (\<lambda>difference (a, b). or difference (xor a b)) (0 :: u8) (zip (str_bytes l) (str_bytes r)) = 0"

section \<open>Identifiers\<close>

definition validate_identifier :: "string \<Rightarrow> unit wf_result" where
  "validate_identifier v = ensure
     (\<not> (v = [] \<or> length v > 128
        \<or> \<not> list_all (\<lambda>c. is_ascii_alphanumeric c \<or> c \<in> set ''._:-'') v))
     (wf_invalid ''workflow identifier is invalid'')"

definition is_separator :: "char \<Rightarrow> bool" where
  "is_separator c \<longleftrightarrow> c \<in> set ''-_''"

fun adjacent_separators :: "bool \<Rightarrow> string \<Rightarrow> bool" where
  "adjacent_separators previous [] \<longleftrightarrow> False"
| "adjacent_separators previous (c # s) \<longleftrightarrow> is_separator c \<and> previous \<or> adjacent_separators (is_separator c) s"

definition validate_domain_id :: "string \<Rightarrow> unit wf_result" where
  "validate_domain_id v =
     (if v = [] \<or> length v > 128
         \<or> \<not> list_all (\<lambda>c. is_ascii_lowercase c \<or> is_ascii_digit c \<or> c \<in> set ''-_'') v
         \<or> \<not> is_ascii_alphanumeric (hd v) \<or> \<not> is_ascii_alphanumeric (last v)
      then Err (wf_invalid ''domain identity is not canonical'')
      else if adjacent_separators False v then Err (wf_invalid ''domain identity is not canonical'')
      else Ok ())"

definition validate_digest :: "string \<Rightarrow> unit wf_result" where
  "validate_digest v = ensure (validate_sha256 v) (workflow_error_new InvalidDigest False ''workflow digest is invalid'')"

section \<open>Paths\<close>

datatype path_component = RootDir | CurDir | ParentDir | Normal string

definition is_absolute :: "string \<Rightarrow> bool" where
  "is_absolute s \<longleftrightarrow> s \<noteq> [] \<and> hd s = CHR ''/''"

definition segment_component :: "string \<Rightarrow> path_component list" where
  "segment_component seg =
     (if seg = [] \<or> seg = ''.'' then [] else if seg = ''..'' then [ParentDir] else [Normal seg])"

definition components :: "string \<Rightarrow> path_component list" where
  "components s =
     (let segs = split_on (CHR ''/'') s in
      (if is_absolute s then [RootDir] else if hd segs = ''.'' then [CurDir] else [])
      @ concat (map segment_component segs))"

fun component_str :: "path_component \<Rightarrow> string" where
  "component_str RootDir = ''/''"
| "component_str CurDir = ''.''"
| "component_str ParentDir = ''..''"
| "component_str (Normal s) = s"

fun is_normal :: "path_component \<Rightarrow> bool" where
  "is_normal (Normal s) \<longleftrightarrow> True"
| "is_normal _ \<longleftrightarrow> False"

definition canonical_path_is_within :: "string \<Rightarrow> string \<Rightarrow> bool" where
  "canonical_path_is_within path root \<longleftrightarrow>
     take (length (components root)) (components path) = components root"

definition canonical_paths_overlap :: "string \<Rightarrow> string \<Rightarrow> bool" where
  "canonical_paths_overlap l r \<longleftrightarrow> canonical_path_is_within l r \<or> canonical_path_is_within r l"

definition validate_relative_path :: "string \<Rightarrow> unit wf_result" where
  "validate_relative_path v = ensure
     (\<not> (v = [] \<or> CHR 0x5C \<in> set v \<or> CHR 0x00 \<in> set v \<or> is_absolute v
        \<or> list_ex (\<lambda>c. \<not> is_normal c) (components v)
        \<or> join_with ''/'' (map component_str (components v)) \<noteq> v))
     (wf_invalid ''workspace-relative path is invalid'')"

definition validate_program :: "string \<Rightarrow> unit wf_result" where
  "validate_program v = ensure
     (\<not> (v = [] \<or> CHR ''/'' \<in> set v
        \<or> \<not> list_all (\<lambda>c. is_ascii_alphanumeric c \<or> c \<in> set ''._-'') v))
     (wf_invalid ''command program is invalid'')"

definition valid_command_argument :: "string \<Rightarrow> bool" where
  "valid_command_argument v \<longleftrightarrow>
     v \<noteq> [] \<and> length v \<le> 4096 \<and> CHR 0x00 \<notin> set v \<and> CHR 0x5C \<notin> set v \<and> \<not> has_control v
     \<and> \<not> (v \<noteq> [] \<and> hd v = CHR 0x7E) \<and> \<not> is_absolute v
     \<and> \<not> list_ex (\<lambda>c. c = ParentDir \<or> c = CurDir \<or> c = RootDir) (components v)"

definition validate_media_type :: "string \<Rightarrow> unit wf_result" where
  "validate_media_type v = ensure
     (\<not> (v = [] \<or> length v > 128 \<or> CHR ''/'' \<notin> set v
        \<or> \<not> list_all (\<lambda>c. is_ascii_alphanumeric c \<or> c \<in> set ''/._+-'') v))
     (wf_invalid ''media type is invalid'')"

section \<open>Digest comparison\<close>

lemma str_bytes_inj: "str_bytes l = str_bytes r \<longleftrightarrow> l = r"
proof -
  have "inj (\<lambda>c. of_nat (of_char c) :: u8)"
  proof
    fix c d :: char
    assume "(of_nat (of_char c) :: u8) = of_nat (of_char d)"
    then have "(of_char c :: nat) mod 256 = of_char d mod 256"
      by (auto simp: unat_of_nat dest!: arg_cong [where f = unat])
    then show "c = d" by simp
  qed
  then show ?thesis by (simp add: str_bytes_def inj_map_eq_map)
qed

lemma differences_zero:
  "length l = length r \<Longrightarrow> foldl (\<lambda>d (a, b). or d (xor a b)) (acc :: u8) (zip l r) = 0 \<longleftrightarrow> acc = 0 \<and> l = r"
proof (induction l r arbitrary: acc rule: list_induct2)
  case (Cons x xs y ys)
  have "xor x y = 0 \<longleftrightarrow> x = y" by (auto simp: bit_eq_iff bit_simps)
  then have "or acc (xor x y) = 0 \<longleftrightarrow> acc = 0 \<and> x = y" by (simp add: or_eq_0_iff)
  with Cons.IH show ?case by auto
qed simp

text \<open>The comparison that does not leak where two digests differ is equality.\<close>

lemma constant_time_eq_iff [simp]: "constant_time_eq l r \<longleftrightarrow> l = r"
proof (cases "length l = length r")
  case True
  then have "length (str_bytes l) = length (str_bytes r)" by (simp add: str_bytes_def)
  from differences_zero [OF this, of 0] True show ?thesis by (simp add: constant_time_eq_def str_bytes_inj)
qed (auto simp: constant_time_eq_def)

lemma hex_digit_lower: "n < 16 \<Longrightarrow> is_ascii_hexdigit (hex_digit n) \<and> \<not> is_ascii_uppercase (hex_digit n)"
  by (auto simp: hex_digit_def is_ascii_hexdigit_def is_ascii_uppercase_def is_ascii_digit_def byte_in_def)

lemma hex_string_valid: "list_all (\<lambda>c. is_ascii_hexdigit c \<and> \<not> is_ascii_uppercase c) (hex_string bs)"
  by (induction bs) (simp_all add: hex_string_def hex_byte_def hex_digit_lower u8_div_mod)

lemma canonical_digest_valid:
  assumes "\<And>x. length (sha x) = 32"
  shows "validate_sha256 (canonical_digest_of sha domain v)"
  by (simp add: validate_sha256_def canonical_digest_of_def hex_sha256_def hex_string_valid assms)

section \<open>Canonical paths\<close>

definition plain_segment :: "string \<Rightarrow> bool" where
  "plain_segment seg \<longleftrightarrow> seg \<noteq> [] \<and> seg \<noteq> ''.'' \<and> seg \<noteq> ''..''
     \<and> CHR ''/'' \<notin> set seg \<and> CHR 0x5C \<notin> set seg \<and> CHR 0x00 \<notin> set seg"

definition canonical_path :: "string list \<Rightarrow> string \<Rightarrow> bool" where
  "canonical_path segs v \<longleftrightarrow> segs \<noteq> [] \<and> list_all plain_segment segs \<and> v = join_with ''/'' segs"

lemma split_on_join:
  "segs \<noteq> [] \<Longrightarrow> \<forall>s \<in> set segs. d \<notin> set s \<Longrightarrow> split_on d (join_with [d] segs) = segs"
  by (induction "[d]" segs rule: join_with.induct) (auto simp: split_on_append_sep split_on_no_sep)

lemma split_on_parts: "s \<in> set (split_on d v) \<Longrightarrow> d \<notin> set s \<and> set s \<subseteq> set v"
  by (induction v arbitrary: s) (fastforce split: list.splits if_splits)+

lemma plain_components: "list_all plain_segment segs \<Longrightarrow> concat (map segment_component segs) = map Normal segs"
  by (induction segs) (auto simp: plain_segment_def segment_component_def)

lemma join_with_hd: "segs \<noteq> [] \<Longrightarrow> hd segs \<noteq> [] \<Longrightarrow> join_with sep segs \<noteq> [] \<and> hd (join_with sep segs) = hd (hd segs)"
  by (induction sep segs rule: join_with.induct) auto

lemma canonical_path_components:
  assumes "canonical_path segs v"
  shows "components v = map Normal segs" and "split_on (CHR ''/'') v = segs" and "\<not> is_absolute v"
proof -
  have p: "segs \<noteq> []" "list_all plain_segment segs" and v: "v = join_with ''/'' segs"
    using assms by (simp_all add: canonical_path_def)
  have "\<forall>s \<in> set segs. CHR ''/'' \<notin> set s" using p(2) by (auto simp: list_all_iff plain_segment_def)
  with split_on_join [OF p(1)] show sp: "split_on (CHR ''/'') v = segs" by (simp add: v)
  have hd: "plain_segment (hd segs)" using p by (cases segs) auto
  then show abs: "\<not> is_absolute v" using join_with_hd [OF p(1), of "''/''"]
    by (cases "hd segs") (auto simp: is_absolute_def v plain_segment_def)
  show "components v = map Normal segs"
    using hd abs by (simp add: components_def sp Let_def plain_components [OF p(2)] plain_segment_def)
qed

lemma join_with_set: "set v \<subseteq> set (join_with sep segs)" if "v \<in> set segs"
  using that by (induction sep segs rule: join_with.induct) auto

lemma join_with_chars: "c \<in> set (join_with sep segs) \<Longrightarrow> c \<in> set sep \<or> (\<exists>s \<in> set segs. c \<in> set s)"
  by (induction sep segs rule: join_with.induct) auto

lemma normal_components:
  assumes "list_all is_normal (concat (map segment_component segs))"
  shows "map component_str (concat (map segment_component segs)) = filter (\<lambda>s. s \<noteq> [] \<and> s \<noteq> ''.'') segs"
    and "''..'' \<notin> set segs"
  using assms by (induction segs) (auto simp: segment_component_def split: if_splits)

lemma filter_join_id:
  assumes "join_with [d] (filter P segs) = join_with [d] segs" and "segs \<noteq> []" and "\<forall>s \<in> set segs. d \<notin> set s"
    and "join_with [d] segs \<noteq> []"
  shows "filter P segs = segs"
proof -
  have "filter P segs \<noteq> []" using assms(1,4) by (cases "filter P segs") auto
  then have "split_on d (join_with [d] (filter P segs)) = filter P segs" using assms(3) by (intro split_on_join) auto
  then show ?thesis using assms split_on_join [OF assms(2,3)] by simp
qed

text \<open>
  C20. The path check accepts exactly the canonical relative paths: one or more segments joined by
  a slash, none of them empty, a single or a double dot, and none holding a slash, a backslash or
  a zero byte.
\<close>

theorem relative_path_exact: "validate_relative_path v = Ok () \<longleftrightarrow> (\<exists>segs. canonical_path segs v)"
proof
  assume ok: "validate_relative_path v = Ok ()"
  let ?segs = "split_on (CHR ''/'') v"
  have v: "v \<noteq> []" "\<not> is_absolute v" "CHR 0x5C \<notin> set v" "CHR 0x00 \<notin> set v"
    and nm: "list_all is_normal (components v)" and jn: "join_with ''/'' (map component_str (components v)) = v"
    using ok by (auto simp: validate_relative_path_def list_all_iff list_ex_iff)
  have c: "components v = concat (map segment_component ?segs)"
    using nm v(2) by (auto simp: components_def Let_def split: if_splits)
  have sl: "\<forall>s \<in> set ?segs. CHR ''/'' \<notin> set s" using split_on_parts by blast
  have j: "join_with ''/'' ?segs = v" by (rule join_split)
  have "join_with ''/'' (filter (\<lambda>s. s \<noteq> [] \<and> s \<noteq> ''.'') ?segs) = join_with ''/'' ?segs"
    using jn nm by (simp add: c normal_components(1) j)
  then have "filter (\<lambda>s. s \<noteq> [] \<and> s \<noteq> ''.'') ?segs = ?segs"
    by (rule filter_join_id) (use sl v(1) j in simp_all)
  then have "\<forall>s \<in> set ?segs. s \<noteq> [] \<and> s \<noteq> ''.''" by (simp add: filter_id_conv)
  moreover have "''..'' \<notin> set ?segs" using normal_components(2) nm c by metis
  moreover have "\<forall>s \<in> set ?segs. set s \<subseteq> set v" using split_on_parts by blast
  ultimately have "list_all plain_segment ?segs"
    using sl v by (auto simp: list_all_iff plain_segment_def)
  then show "\<exists>segs. canonical_path segs v" using j by (auto simp: canonical_path_def intro!: exI [of _ ?segs])
next
  assume "\<exists>segs. canonical_path segs v"
  then obtain segs where segs: "canonical_path segs v" by blast
  then have "\<forall>s \<in> set segs. CHR 0x5C \<notin> set s \<and> CHR 0x00 \<notin> set s" and v: "v = join_with ''/'' segs"
    and ne: "segs \<noteq> []" "hd segs \<noteq> []"
    by (auto simp: canonical_path_def list_all_iff plain_segment_def)
  then have "CHR 0x5C \<notin> set v" "CHR 0x00 \<notin> set v" using join_with_chars [of _ "''/''" segs] by auto
  moreover have "map (component_str \<circ> Normal) segs = segs" by (induction segs) auto
  ultimately show "validate_relative_path v = Ok ()"
    using canonical_path_components [OF segs] join_with_hd [OF ne, of "''/''"] v
    by (auto simp: validate_relative_path_def list_ex_iff)
qed

text \<open>Two paths that do not overlap have no path below both.\<close>

lemma no_overlap_disjoint:
  assumes "\<not> canonical_paths_overlap a b" and "canonical_path_is_within p a"
  shows "\<not> canonical_path_is_within p b"
proof
  assume b: "canonical_path_is_within p b"
  have a: "take (length (components a)) (components p) = components a"
    using assms(2) by (simp add: canonical_path_is_within_def)
  have b: "take (length (components b)) (components p) = components b"
    using b by (simp add: canonical_path_is_within_def)
  consider "length (components a) \<le> length (components b)" | "length (components b) \<le> length (components a)" by linarith
  then have "canonical_path_is_within b a \<or> canonical_path_is_within a b"
    unfolding canonical_path_is_within_def by cases (metis a b take_take min.absorb1)+
  with assms(1) show False by (auto simp: canonical_paths_overlap_def)
qed

lemma canonical_paths_overlap_sym: "canonical_paths_overlap a b \<longleftrightarrow> canonical_paths_overlap b a"
  by (auto simp: canonical_paths_overlap_def)

end
