(* ===== verification/Workflow_Data.thy ===== *)
theory Workflow_Data
  imports Workflow_Text
begin

text \<open>
  Execution plans and the evidence about them: the data of
  \<open>crates/sentinel-workflow/src/model.rs\<close> and \<open>store/revisions.rs\<close>.  A
  \<open>BTreeSet\<close> is a set; the serde serialization of a value is an argument.
\<close>

section \<open>Data\<close>

definition WORKFLOW_SCHEMA_VERSION :: u16 where "WORKFLOW_SCHEMA_VERSION = 1"
definition EXECUTION_PLAN_SCHEMA_VERSION :: u16 where "EXECUTION_PLAN_SCHEMA_VERSION = 1"
definition WORK_ITEM_GATE_PROFILE :: string where "WORK_ITEM_GATE_PROFILE = ''web-work-item-qa-v1''"
definition MAX_PLAN_STEPS :: nat where "MAX_PLAN_STEPS = 32"
definition MAX_PLAN_BYTES :: nat where "MAX_PLAN_BYTES = 256 * 1024"
definition MAX_STEP_INPUTS :: nat where "MAX_STEP_INPUTS = 64"
definition MAX_STEP_OUTPUTS :: nat where "MAX_STEP_OUTPUTS = 32"
definition MAX_STEP_ARTIFACTS :: nat where "MAX_STEP_ARTIFACTS = 16"

type_synonym tenant_id = string
type_synonym project_id = string
type_synonym work_item_id = string

record principal_authority =
  pa_schema_version :: u16
  pa_principal_id :: string
  pa_principal_generation :: u64
  pa_authority_digest :: string

record runtime_authority =
  ra_schema_version :: u16
  ra_tenant_id :: tenant_id
  ra_project_id :: project_id
  ra_work_item_id :: work_item_id
  ra_agent_id :: agent_id
  ra_assignment_version :: u64
  ra_assignment_digest :: string
  ra_organization_generation :: u64
  ra_organization_digest :: string
  ra_principal :: principal_authority
  ra_profile_id :: string
  ra_profile_generation :: u64
  ra_profile_digest :: string
  ra_runtime_key :: string
  ra_runtime_generation :: u64
  ra_runtime_digest :: string
  ra_policy_generation :: u64
  ra_policy_digest :: string
  ra_active :: bool
  ra_capabilities :: "string set"

record resource_bounds =
  rb_wall_time_ms :: u64
  rb_cpu_time_ms :: u64
  rb_memory_bytes :: u64
  rb_process_count :: u32
  rb_file_bytes :: u64
  rb_stdout_bytes :: u64
  rb_stderr_bytes :: u64

record artifact_input =
  ai_artifact_id :: string
  ai_digest :: string
  ai_media_type :: string
  ai_mount_path :: string

record patch_replacement =
  pr_old :: string
  pr_new :: string
  pr_expected_occurrences :: u32

datatype execution_tool =
    ListDirectory (ld_path: string) (ld_after: "string option") (ld_max_entries: u16)
  | InspectFile (if_path: string) (if_max_bytes: u64)
  | WriteFile (wf_path: string) (wf_content: string) (wf_expected_sha256: "string option")
  | ApplyPatch (ap_path: string) (ap_expected_sha256: string) (ap_replacements: "patch_replacement list")
  | RunCommand (rc_program: string) (rc_args: "string list")
  | RunTests (rt_suite_id: string) (rt_args: "string list")
  | PackageArtifact (pk_artifact_kind: string) (pk_media_type: string) (pk_paths: "string list")

record command_rule =
  cr_program :: string
  cr_required_arg_prefix :: "string list"
  cr_max_args :: u16

record output_expectation =
  ox_name :: string
  ox_kind :: string
  ox_required :: bool
  ox_digest_algorithm :: string

record sealed_output =
  so_name :: string
  so_kind :: string
  so_digest_algorithm :: string
  so_digest :: string

record artifact_expectation =
  ax_artifact_kind :: string
  ax_media_type :: string
  ax_required_paths :: "string list"

record sealed_artifact =
  sa_artifact_kind :: string
  sa_media_type :: string
  sa_paths :: "string list"
  sa_digest :: string

record gate_expectation =
  gx_profile_id :: string
  gx_profile_generation :: u64
  gx_profile_digest :: string
  gx_required_checks :: "string set"

record execution_step =
  es_step_id :: uuid
  es_invocation_id :: uuid
  es_ordinal :: u16
  es_workspace_id :: string
  es_capabilities :: "string set"
  es_inputs :: "artifact_input list"
  es_command_policy :: "command_rule list"
  es_tool :: execution_tool
  es_outputs :: "output_expectation list"
  es_artifacts :: "artifact_expectation list"
  es_gate_expectation :: gate_expectation
  es_resource_bounds :: resource_bounds
  es_deadline :: u64

record execution_plan =
  ep_schema_version :: u16
  ep_plan_id :: uuid
  ep_tenant_id :: tenant_id
  ep_project_id :: project_id
  ep_work_item_id :: work_item_id
  ep_agent_id :: agent_id
  ep_workspace_id :: string
  ep_assignment_version :: u64
  ep_assignment_digest :: string
  ep_organization_generation :: u64
  ep_organization_digest :: string
  ep_principal :: principal_authority
  ep_profile_id :: string
  ep_profile_generation :: u64
  ep_profile_digest :: string
  ep_runtime_key :: string
  ep_runtime_generation :: u64
  ep_runtime_digest :: string
  ep_policy_generation :: u64
  ep_policy_digest :: string
  ep_created_at :: u64
  ep_deadline :: u64
  ep_steps :: "execution_step list"
  ep_request_digest :: string

datatype work_item_state = Assigned | Claimed | InProgress | InReview | Done | Blocked | Cancelled

record execution_evidence =
  ee_schema_version :: u16
  ee_receipt_id :: string
  ee_invocation_id :: uuid
  ee_plan_digest :: string
  ee_step_digest :: string
  ee_output_bundle_digest :: string
  ee_outputs :: "sealed_output list"
  ee_artifacts :: "sealed_artifact list"
  ee_completed_at :: u64

record gate_evidence =
  ge_schema_version :: u16
  ge_receipt_id :: string
  ge_profile_id :: string
  ge_profile_generation :: u64
  ge_profile_digest :: string
  ge_subject_digest :: string
  ge_required_checks_digest :: string
  ge_passed :: bool
  ge_completed_at :: u64

record work_item_execution =
  wi_schema_version :: u16
  wi_tenant_id :: tenant_id
  wi_project_id :: project_id
  wi_work_item_id :: work_item_id
  wi_agent_id :: agent_id
  wi_state :: work_item_state
  wi_version :: u64
  wi_plan :: execution_plan
  wi_next_step_ordinal :: u16
  wi_terminal_evidence :: "execution_evidence option"
  wi_gate_evidence :: "gate_evidence option"
  wi_blocker_code :: "string option"
  wi_updated_at :: u64

datatype reconcile_state =
  NotFound | Reserved | Executing | Succeeded | Failed | RunCancelled | TimedOut | UnknownOutcome

record pending_execution =
  px_schema_version :: u16
  px_plan_id :: uuid
  px_plan_digest :: string
  px_step :: execution_step
  px_authority_digest :: string
  px_state :: reconcile_state
  px_attempts :: u16
  px_created_at :: u64
  px_updated_at :: u64

record pending_completion =
  pc_schema_version :: u16
  pc_request_id :: string
  pc_plan_id :: uuid
  pc_plan_digest :: string
  pc_step_id :: uuid
  pc_invocation_id :: uuid
  pc_step_digest :: string
  pc_authority_digest :: string
  pc_request_digest :: string
  pc_created_at :: u64

record pending_gate =
  pg_schema_version :: u16
  pg_request_id :: string
  pg_plan_id :: uuid
  pg_plan_digest :: string
  pg_execution_receipt_id :: string
  pg_subject_digest :: string
  pg_required_checks_digest :: string
  pg_expectation :: gate_expectation
  pg_authority_digest :: string
  pg_request_digest :: string
  pg_created_at :: u64

record execution_revision =
  er_previous_plan_id :: uuid
  er_previous_plan_digest :: string
  er_previous_version :: u64
  er_previous_state_digest :: string
  er_feedback_digest :: string

record archived_execution =
  ar_previous :: work_item_execution
  ar_revision :: execution_revision
  ar_next_plan_id :: uuid
  ar_next_plan_digest :: string
  ar_archived_at :: u64

text \<open>The values the core serializes to compute a digest, and the codec that serializes them.\<close>

datatype canonical =
    CanonAuthority runtime_authority
  | CanonPlan execution_plan
  | CanonStep execution_step
  | CanonSubject tenant_id project_id work_item_id agent_id u64 string execution_evidence
  | CanonBundle "sealed_output list" "sealed_artifact list"
  | CanonChecks "string set"
  | CanonCompletionId uuid uuid uuid string
  | CanonGateId uuid string string
  | CanonCompletion pending_completion
  | CanonGate pending_gate
  | CanonRevision execution_plan execution_revision
  | CanonArchive archived_execution
  | CanonWorkItem work_item_execution
  | CanonScope tenant_id project_id work_item_id

record wf_codec =
  wc_sha :: "bytes \<Rightarrow> bytes"
  wc_json :: "canonical \<Rightarrow> bytes"

end
