(* ===== verification/Workflow_Plan.thy ===== *)
theory Workflow_Plan
  imports Workflow_Data
begin

text \<open>
  The admission checks on plans, steps, tools and runtime authorities of
  \<open>crates/sentinel-workflow/src/model.rs\<close>, and what an admitted step may touch.
\<close>

section \<open>Digests of values\<close>

definition canonical_sha256 :: "wf_codec \<Rightarrow> string \<Rightarrow> canonical \<Rightarrow> string" where
  "canonical_sha256 C domain v = canonical_digest_of (wc_sha C) domain (wc_json C v)"

section \<open>Runtime authority\<close>

definition principal_derive :: "wf_codec \<Rightarrow> string \<Rightarrow> u64 \<Rightarrow> bytes \<Rightarrow> principal_authority wf_result" where
  "principal_derive C ident generation credential =
     try_bind (validate_identifier ident) (\<lambda>_.
     if generation = 0 then Err (wf_invalid ''principal generation must be positive'')
     else Ok \<lparr>pa_schema_version = WORKFLOW_SCHEMA_VERSION, pa_principal_id = ident,
       pa_principal_generation = generation,
       pa_authority_digest = derive_principal_authority_digest (wc_sha C) generation credential\<rparr>)"

definition principal_validate :: "principal_authority \<Rightarrow> unit wf_result" where
  "principal_validate p =
     (if pa_schema_version p \<noteq> WORKFLOW_SCHEMA_VERSION \<or> pa_principal_generation p = 0
      then Err (wf_invalid ''principal authority version or generation is invalid'')
      else try_bind (validate_identifier (pa_principal_id p)) (\<lambda>_. validate_digest (pa_authority_digest p)))"

definition authority_digest :: "wf_codec \<Rightarrow> runtime_authority \<Rightarrow> string" where
  "authority_digest C a = canonical_sha256 C ''sentinel.workflow.runtime-authority.v1'' (CanonAuthority a)"

text \<open>A loop over a \<open>BTreeSet\<close> of identifiers fails with the one error of the check.\<close>

definition validate_identifiers :: "string set \<Rightarrow> unit wf_result" where
  "validate_identifiers ids = ensure (\<forall>i \<in> ids. validate_identifier i = Ok ())
     (wf_invalid ''workflow identifier is invalid'')"

definition authority_validate :: "runtime_authority \<Rightarrow> unit wf_result" where
  "authority_validate a =
     (if ra_schema_version a \<noteq> WORKFLOW_SCHEMA_VERSION \<or> agent_number (ra_agent_id a) = 0
         \<or> ra_assignment_version a = 0 \<or> ra_organization_generation a = 0 \<or> ra_profile_generation a = 0
         \<or> ra_runtime_generation a = 0 \<or> ra_policy_generation a = 0 \<or> \<not> ra_active a \<or> ra_capabilities a = {}
      then Err (wf_authority ''runtime authority is incomplete or inactive'')
      else
        try_bind (validate_domain_id (ra_tenant_id a)) (\<lambda>_.
        try_bind (validate_domain_id (ra_project_id a)) (\<lambda>_.
        try_bind (validate_domain_id (ra_work_item_id a)) (\<lambda>_.
        try_bind (principal_validate (ra_principal a)) (\<lambda>_.
        try_bind (validate_identifier (ra_profile_id a)) (\<lambda>_.
        try_bind (validate_identifier (ra_runtime_key a)) (\<lambda>_.
        try_bind (try_each validate_digest [ra_assignment_digest a, ra_organization_digest a,
          ra_profile_digest a, ra_runtime_digest a, ra_policy_digest a]) (\<lambda>_.
        validate_identifiers (ra_capabilities a)))))))))"

section \<open>Steps and tools\<close>

definition bounds_validate :: "resource_bounds \<Rightarrow> unit wf_result" where
  "bounds_validate b = ensure
     (\<not> (rb_wall_time_ms b = 0 \<or> rb_cpu_time_ms b = 0 \<or> rb_memory_bytes b = 0 \<or> rb_process_count b = 0
        \<or> rb_file_bytes b = 0 \<or> rb_stdout_bytes b = 0 \<or> rb_stderr_bytes b = 0
        \<or> rb_cpu_time_ms b > rb_wall_time_ms b))
     (wf_invalid ''execution resource bounds are invalid'')"

fun required_capability :: "execution_tool \<Rightarrow> string" where
  "required_capability (ListDirectory _ _ _) = ''file.inspect''"
| "required_capability (InspectFile _ _) = ''file.inspect''"
| "required_capability (WriteFile _ _ _) = ''file.write''"
| "required_capability (ApplyPatch _ _ _) = ''patch.apply''"
| "required_capability (RunCommand _ _) = ''command.run_allowlisted''"
| "required_capability (RunTests _ _) = ''test.run_profile''"
| "required_capability (PackageArtifact _ _ _) = ''artifact.commit''"

definition rule_validates :: "command_rule \<Rightarrow> string \<Rightarrow> string list \<Rightarrow> bool" where
  "rule_validates rule program args \<longleftrightarrow>
     cr_program rule = program \<and> length args \<le> unat (cr_max_args rule)
     \<and> take (length (cr_required_arg_prefix rule)) args = cr_required_arg_prefix rule
     \<and> list_all valid_command_argument args"

definition gate_expectation_validate :: "gate_expectation \<Rightarrow> unit wf_result" where
  "gate_expectation_validate g =
     (if gx_profile_id g \<noteq> WORK_ITEM_GATE_PROFILE \<or> gx_profile_generation g = 0 \<or> gx_required_checks g = {}
      then Err (wf_invalid ''work-item gate expectation is invalid'')
      else try_bind (validate_digest (gx_profile_digest g)) (\<lambda>_. validate_identifiers (gx_required_checks g)))"

fun mutating_file_destination :: "execution_tool \<Rightarrow> string option" where
  "mutating_file_destination (WriteFile path _ _) = Some path"
| "mutating_file_destination (ApplyPatch path _ _) = Some path"
| "mutating_file_destination _ = None"

fun validate_inputs :: "(string \<rightharpoonup> string) \<Rightarrow> string list \<Rightarrow> artifact_input list \<Rightarrow> string list wf_result" where
  "validate_inputs ids mounts [] = Ok mounts"
| "validate_inputs ids mounts (x # xs) =
     try_bind (validate_identifier (ai_artifact_id x)) (\<lambda>_.
     try_bind (validate_digest (ai_digest x)) (\<lambda>_.
     try_bind (validate_media_type (ai_media_type x)) (\<lambda>_.
     try_bind (validate_relative_path (ai_mount_path x)) (\<lambda>_.
     if (case ids (ai_artifact_id x) of Some digest \<Rightarrow> digest \<noteq> ai_digest x | None \<Rightarrow> False)
        \<or> list_ex (\<lambda>mount. canonical_paths_overlap mount (ai_mount_path x)) mounts
     then Err (wf_invalid ''artifact input identity or mount path is duplicated'')
     else validate_inputs (ids(ai_artifact_id x \<mapsto> ai_digest x)) (mounts @ [ai_mount_path x]) xs))))"

fun validate_outputs :: "string set \<Rightarrow> output_expectation list \<Rightarrow> unit wf_result" where
  "validate_outputs names [] = Ok ()"
| "validate_outputs names (x # xs) =
     try_bind (validate_identifier (ox_name x)) (\<lambda>_.
     try_bind (validate_identifier (ox_kind x)) (\<lambda>_.
     if \<not> ox_required x \<or> ox_digest_algorithm x \<noteq> ''sha256'' \<or> ox_name x \<in> names
     then Err (wf_invalid ''output digest algorithm is unsupported'')
     else validate_outputs (insert (ox_name x) names) xs))"

fun validate_artifact_paths :: "string list \<Rightarrow> string list \<Rightarrow> string list \<Rightarrow> string list wf_result" where
  "validate_artifact_paths mounts taken [] = Ok taken"
| "validate_artifact_paths mounts taken (p # ps) =
     try_bind (validate_relative_path p) (\<lambda>_.
     if list_ex (\<lambda>existing. canonical_paths_overlap existing p) taken
        \<or> list_ex (\<lambda>mount. canonical_paths_overlap mount p) mounts
     then Err (wf_invalid ''artifact output path is assigned more than once'')
     else validate_artifact_paths mounts (taken @ [p]) ps)"

fun validate_artifacts :: "string list \<Rightarrow> string set \<Rightarrow> string list \<Rightarrow> artifact_expectation list \<Rightarrow> unit wf_result" where
  "validate_artifacts mounts kinds taken [] = Ok ()"
| "validate_artifacts mounts kinds taken (x # xs) =
     try_bind (validate_identifier (ax_artifact_kind x)) (\<lambda>_.
     try_bind (validate_media_type (ax_media_type x)) (\<lambda>_.
     if ax_required_paths x = [] \<or> ax_artifact_kind x \<in> kinds \<or> \<not> distinct (ax_required_paths x)
     then Err (wf_invalid ''artifact expectation has no paths'')
     else try_bind (validate_artifact_paths mounts taken (ax_required_paths x)) (\<lambda>taken'.
       validate_artifacts mounts (insert (ax_artifact_kind x) kinds) taken' xs)))"

fun is_run_command :: "execution_tool \<Rightarrow> bool" where
  "is_run_command (RunCommand _ _) \<longleftrightarrow> True"
| "is_run_command _ \<longleftrightarrow> False"

fun validate_tool_body :: "execution_tool \<Rightarrow> command_rule list \<Rightarrow> artifact_expectation list \<Rightarrow> unit wf_result" where
  "validate_tool_body (ListDirectory path after max_entries) policy artifacts =
     try_bind (if path \<noteq> ''.'' then validate_relative_path path else Ok ()) (\<lambda>_.
     if (case after of Some name \<Rightarrow> name = [] \<or> CHR ''/'' \<in> set name \<or> \<not> is_ok (validate_relative_path name) | None \<Rightarrow> False)
     then Err (wf_invalid ''directory cursor is invalid'')
     else if max_entries = 0 \<or> max_entries > 128 then Err (wf_invalid ''directory entry limit is invalid'')
     else Ok ())"
| "validate_tool_body (InspectFile path max_bytes) policy artifacts =
     try_bind (validate_relative_path path) (\<lambda>_.
     ensure (max_bytes \<noteq> 0) (wf_invalid ''inspect byte limit must be positive''))"
| "validate_tool_body (WriteFile path content expected) policy artifacts =
     try_bind (validate_relative_path path) (\<lambda>_.
     if length content > MAX_PLAN_BYTES then Err (wf_invalid ''write content exceeds plan bound'')
     else case expected of Some digest \<Rightarrow> validate_digest digest | None \<Rightarrow> Ok ())"
| "validate_tool_body (ApplyPatch path expected replacements) policy artifacts =
     try_bind (validate_relative_path path) (\<lambda>_.
     try_bind (validate_digest expected) (\<lambda>_.
     ensure (\<not> (replacements = [] \<or> length replacements > 128
         \<or> list_ex (\<lambda>r. pr_old r = [] \<or> pr_expected_occurrences r = 0) replacements))
       (wf_invalid ''patch replacement set is invalid'')))"
| "validate_tool_body (RunCommand program args) policy artifacts =
     try_bind (validate_program program) (\<lambda>_.
     if list_ex (\<lambda>a. \<not> valid_command_argument a) args \<or> length policy \<noteq> 1
     then Err (wf_invalid ''command is not admitted by the exact plan policy'')
     else let rule = hd policy in
       try_bind (validate_program (cr_program rule)) (\<lambda>_.
       ensure (\<not> (cr_max_args rule = 0 \<or> unat (cr_max_args rule) < length (cr_required_arg_prefix rule)
           \<or> list_ex (\<lambda>a. \<not> valid_command_argument a) (cr_required_arg_prefix rule)
           \<or> cr_program rule \<noteq> program \<or> cr_required_arg_prefix rule \<noteq> args
           \<or> unat (cr_max_args rule) \<noteq> length args \<or> \<not> rule_validates rule program args))
         (wf_invalid ''command policy is not the exact bound command'')))"
| "validate_tool_body (RunTests suite args) policy artifacts =
     try_bind (validate_identifier suite) (\<lambda>_.
     ensure (\<not> list_ex (\<lambda>a. \<not> valid_command_argument a) args) (wf_invalid ''test argument escapes the workspace''))"
| "validate_tool_body (PackageArtifact kind media paths) policy artifacts =
     try_bind (validate_identifier kind) (\<lambda>_.
     try_bind (validate_media_type media) (\<lambda>_.
     if paths = [] \<or> list_ex (\<lambda>p. \<not> is_ok (validate_relative_path p)) paths
     then Err (wf_invalid ''artifact package path is invalid'')
     else ensure (list_ex (\<lambda>x. ax_artifact_kind x = kind \<and> ax_media_type x = media \<and> ax_required_paths x = paths) artifacts)
       (wf_invalid ''artifact package does not match its exact expectation'')))"

definition validate_tool :: "execution_tool \<Rightarrow> command_rule list \<Rightarrow> artifact_expectation list \<Rightarrow> unit wf_result" where
  "validate_tool tool policy artifacts =
     (if \<not> is_run_command tool \<and> policy \<noteq> []
      then Err (wf_invalid ''non-command tool carries dormant command authority'')
      else validate_tool_body tool policy artifacts)"

definition validate_step :: "execution_step \<Rightarrow> unit wf_result" where
  "validate_step st =
     (if es_capabilities st = {} \<or> length (es_inputs st) > MAX_STEP_INPUTS \<or> es_outputs st = []
         \<or> length (es_outputs st) > MAX_STEP_OUTPUTS \<or> length (es_artifacts st) > MAX_STEP_ARTIFACTS
         \<or> required_capability (es_tool st) \<notin> es_capabilities st
      then Err (wf_invalid ''execution step bounds or capability are invalid'')
      else
        try_bind (bounds_validate (es_resource_bounds st)) (\<lambda>_.
        try_bind (gate_expectation_validate (es_gate_expectation st)) (\<lambda>_.
        try_bind (validate_inputs Map.empty [] (es_inputs st)) (\<lambda>mounts.
        try_bind (validate_outputs {} (es_outputs st)) (\<lambda>_.
        try_bind (validate_artifacts mounts {} [] (es_artifacts st)) (\<lambda>_.
        try_bind (case mutating_file_destination (es_tool st) of
            Some destination \<Rightarrow> ensure (\<not> list_ex (\<lambda>mount. canonical_paths_overlap destination mount) mounts)
              (wf_invalid ''mutating file destination overlaps a read-only input'')
          | None \<Rightarrow> Ok ()) (\<lambda>_.
        validate_tool (es_tool st) (es_command_policy st) (es_artifacts st))))))))"

section \<open>Plans\<close>

definition validate_workspace_binding :: "string \<Rightarrow> project_id \<Rightarrow> work_item_id \<Rightarrow> unit wf_result" where
  "validate_workspace_binding workspace project work_item =
     ensure (workspace = project @ '':'' @ work_item) (wf_invalid ''workspace is not bound to the project and work item'')"

definition plan_digest :: "wf_codec \<Rightarrow> execution_plan \<Rightarrow> string" where
  "plan_digest C p = canonical_sha256 C ''sentinel.workflow.execution-plan.v1'' (CanonPlan (p\<lparr>ep_request_digest := []\<rparr>))"

definition bind_digest :: "wf_codec \<Rightarrow> execution_plan \<Rightarrow> execution_plan" where
  "bind_digest C p = p\<lparr>ep_request_digest := plan_digest C p\<rparr>"

fun validate_steps :: "execution_plan \<Rightarrow> gate_expectation \<Rightarrow> uuid set \<Rightarrow> uuid set \<Rightarrow> nat \<Rightarrow> execution_step list \<Rightarrow> unit wf_result" where
  "validate_steps p gate step_ids invocation_ids index [] = Ok ()"
| "validate_steps p gate step_ids invocation_ids index (st # sts) =
     (if unat (es_ordinal st) \<noteq> index \<or> es_step_id st = 0 \<or> es_invocation_id st = 0
         \<or> es_step_id st \<in> step_ids \<or> es_invocation_id st \<in> invocation_ids
         \<or> es_workspace_id st \<noteq> ep_workspace_id p \<or> es_deadline st > ep_deadline p
         \<or> es_deadline st \<le> ep_created_at p \<or> es_gate_expectation st \<noteq> gate
      then Err (wf_invalid ''execution step identity or ordering is invalid'')
      else try_bind (validate_step st) (\<lambda>_.
        validate_steps p gate (insert (es_step_id st) step_ids) (insert (es_invocation_id st) invocation_ids) (Suc index) sts))"

definition validate_canonical :: "wf_codec \<Rightarrow> execution_plan \<Rightarrow> unit wf_result" where
  "validate_canonical C p =
     (if ep_schema_version p \<noteq> EXECUTION_PLAN_SCHEMA_VERSION \<or> ep_plan_id p = 0 \<or> agent_number (ep_agent_id p) = 0
         \<or> ep_assignment_version p = 0 \<or> ep_organization_generation p = 0 \<or> ep_profile_generation p = 0
         \<or> ep_runtime_generation p = 0 \<or> ep_policy_generation p = 0 \<or> ep_deadline p \<le> ep_created_at p
         \<or> ep_steps p = [] \<or> length (ep_steps p) > MAX_PLAN_STEPS
      then Err (wf_invalid ''execution plan header or bounds are invalid'')
      else
        try_bind (validate_domain_id (ep_tenant_id p)) (\<lambda>_.
        try_bind (validate_domain_id (ep_project_id p)) (\<lambda>_.
        try_bind (validate_domain_id (ep_work_item_id p)) (\<lambda>_.
        try_bind (principal_validate (ep_principal p)) (\<lambda>_.
        try_bind (validate_identifier (ep_profile_id p)) (\<lambda>_.
        try_bind (validate_identifier (ep_runtime_key p)) (\<lambda>_.
        try_bind (validate_workspace_binding (ep_workspace_id p) (ep_project_id p) (ep_work_item_id p)) (\<lambda>_.
        try_bind (try_each validate_digest [ep_assignment_digest p, ep_organization_digest p,
          ep_profile_digest p, ep_runtime_digest p, ep_policy_digest p, ep_request_digest p]) (\<lambda>_.
        if length (wc_json C (CanonPlan p)) > MAX_PLAN_BYTES
        then Err (wf_invalid ''execution plan exceeds the bounded size'')
        else
          try_bind (validate_steps p (es_gate_expectation (hd (ep_steps p))) {} {} 0 (ep_steps p)) (\<lambda>_.
          ensure (constant_time_eq (plan_digest C p) (ep_request_digest p))
            (workflow_error_new InvalidDigest False ''execution plan digest does not match canonical content'')))))))))))"

definition validate_at :: "wf_codec \<Rightarrow> execution_plan \<Rightarrow> u64 \<Rightarrow> unit wf_result" where
  "validate_at C p now =
     try_bind (validate_canonical C p) (\<lambda>_.
     ensure (\<not> (ep_created_at p > now \<or> ep_deadline p \<le> now \<or> list_ex (\<lambda>st. es_deadline st \<le> now) (ep_steps p)))
       (wf_invalid ''execution plan is not currently admissible''))"

definition authority_matches :: "execution_plan \<Rightarrow> runtime_authority \<Rightarrow> bool" where
  "authority_matches p a \<longleftrightarrow>
     ep_tenant_id p = ra_tenant_id a \<and> ep_project_id p = ra_project_id a \<and> ep_work_item_id p = ra_work_item_id a
     \<and> ep_agent_id p = ra_agent_id a \<and> ep_assignment_version p = ra_assignment_version a
     \<and> ep_assignment_digest p = ra_assignment_digest a \<and> ep_organization_generation p = ra_organization_generation a
     \<and> ep_organization_digest p = ra_organization_digest a \<and> ep_principal p = ra_principal a
     \<and> ep_profile_id p = ra_profile_id a \<and> ep_profile_generation p = ra_profile_generation a
     \<and> ep_profile_digest p = ra_profile_digest a \<and> ep_runtime_key p = ra_runtime_key a
     \<and> ep_runtime_generation p = ra_runtime_generation a \<and> ep_runtime_digest p = ra_runtime_digest a
     \<and> ep_policy_generation p = ra_policy_generation a \<and> ep_policy_digest p = ra_policy_digest a \<and> ra_active a
     \<and> list_all (\<lambda>st. es_capabilities st \<subseteq> ra_capabilities a) (ep_steps p)"

section \<open>Evidence\<close>

fun reconcile_is_terminal :: "reconcile_state \<Rightarrow> bool" where
  "reconcile_is_terminal Succeeded \<longleftrightarrow> True"
| "reconcile_is_terminal Failed \<longleftrightarrow> True"
| "reconcile_is_terminal RunCancelled \<longleftrightarrow> True"
| "reconcile_is_terminal TimedOut \<longleftrightarrow> True"
| "reconcile_is_terminal UnknownOutcome \<longleftrightarrow> True"
| "reconcile_is_terminal _ \<longleftrightarrow> False"

definition execution_evidence_new ::
  "string \<Rightarrow> uuid \<Rightarrow> string \<Rightarrow> string \<Rightarrow> string \<Rightarrow> sealed_output list \<Rightarrow> sealed_artifact list \<Rightarrow> u64 \<Rightarrow> execution_evidence" where
  "execution_evidence_new receipt invocation pd sd bundle outputs artifacts completed =
     \<lparr>ee_schema_version = WORKFLOW_SCHEMA_VERSION, ee_receipt_id = receipt, ee_invocation_id = invocation,
      ee_plan_digest = pd, ee_step_digest = sd, ee_output_bundle_digest = bundle, ee_outputs = outputs,
      ee_artifacts = artifacts, ee_completed_at = completed\<rparr>"

definition gate_evidence_new :: "string \<Rightarrow> u64 \<Rightarrow> string \<Rightarrow> string \<Rightarrow> string \<Rightarrow> u64 \<Rightarrow> gate_evidence" where
  "gate_evidence_new receipt generation digest subject checks completed =
     \<lparr>ge_schema_version = WORKFLOW_SCHEMA_VERSION, ge_receipt_id = receipt, ge_profile_id = WORK_ITEM_GATE_PROFILE,
      ge_profile_generation = generation, ge_profile_digest = digest, ge_subject_digest = subject,
      ge_required_checks_digest = checks, ge_passed = True, ge_completed_at = completed\<rparr>"

definition step_digest :: "wf_codec \<Rightarrow> execution_step \<Rightarrow> string" where
  "step_digest C st = canonical_sha256 C ''sentinel.workflow.execution-step.v1'' (CanonStep st)"

definition execution_subject_digest :: "wf_codec \<Rightarrow> execution_plan \<Rightarrow> execution_evidence \<Rightarrow> string" where
  "execution_subject_digest C p e = canonical_sha256 C ''sentinel.workflow.work-item-gate-subject.v1''
     (CanonSubject (ep_tenant_id p) (ep_project_id p) (ep_work_item_id p) (ep_agent_id p)
       (ep_assignment_version p) (ep_request_digest p) e)"

definition sealed_output_bundle_digest :: "wf_codec \<Rightarrow> sealed_output list \<Rightarrow> sealed_artifact list \<Rightarrow> string" where
  "sealed_output_bundle_digest C outputs artifacts =
     canonical_sha256 C ''sentinel.workflow.sealed-output-bundle.v1'' (CanonBundle outputs artifacts)"

section \<open>What an admitted step may touch\<close>

lemma validate_inputs_OkD:
  assumes "validate_inputs ids mounts xs = Ok mounts'"
  shows "mounts' = mounts @ map ai_mount_path xs"
    and "\<forall>x \<in> set xs. validate_relative_path (ai_mount_path x) = Ok ()"
    and "sorted_wrt (\<lambda>a b. \<not> canonical_paths_overlap a b) mounts \<Longrightarrow> sorted_wrt (\<lambda>a b. \<not> canonical_paths_overlap a b) mounts'"
proof -
  have "mounts' = mounts @ map ai_mount_path xs \<and> (\<forall>x \<in> set xs. validate_relative_path (ai_mount_path x) = Ok ())
    \<and> (sorted_wrt (\<lambda>a b. \<not> canonical_paths_overlap a b) mounts \<longrightarrow> sorted_wrt (\<lambda>a b. \<not> canonical_paths_overlap a b) mounts')"
    using assms
  proof (induction xs arbitrary: ids mounts)
    case (Cons x xs)
    then have v: "validate_relative_path (ai_mount_path x) = Ok ()"
      and n: "\<not> list_ex (\<lambda>mount. canonical_paths_overlap mount (ai_mount_path x)) mounts"
      and r: "validate_inputs (ids(ai_artifact_id x \<mapsto> ai_digest x)) (mounts @ [ai_mount_path x]) xs = Ok mounts'"
      by (auto split: if_splits)
    from Cons.IH [OF r] v n show ?case by (auto simp: sorted_wrt_append list_ex_iff)
  qed simp
  then show "mounts' = mounts @ map ai_mount_path xs" "\<forall>x \<in> set xs. validate_relative_path (ai_mount_path x) = Ok ()"
    "sorted_wrt (\<lambda>a b. \<not> canonical_paths_overlap a b) mounts \<Longrightarrow> sorted_wrt (\<lambda>a b. \<not> canonical_paths_overlap a b) mounts'"
    by blast+
qed

lemma validate_artifact_paths_OkD:
  assumes "validate_artifact_paths mounts taken ps = Ok taken'"
  shows "taken' = taken @ ps \<and> (\<forall>p \<in> set ps. validate_relative_path p = Ok () \<and> (\<forall>m \<in> set mounts. \<not> canonical_paths_overlap m p))
    \<and> (sorted_wrt (\<lambda>a b. \<not> canonical_paths_overlap a b) taken \<longrightarrow> sorted_wrt (\<lambda>a b. \<not> canonical_paths_overlap a b) taken')"
  using assms
proof (induction ps arbitrary: taken)
  case (Cons p ps)
  then have v: "validate_relative_path p = Ok ()" and r: "validate_artifact_paths mounts (taken @ [p]) ps = Ok taken'"
    and n: "\<not> list_ex (\<lambda>existing. canonical_paths_overlap existing p) taken" "\<not> list_ex (\<lambda>mount. canonical_paths_overlap mount p) mounts"
    by (auto split: if_splits)
  from Cons.IH [OF r] v n show ?case by (auto simp: sorted_wrt_append list_ex_iff)
qed simp

lemma validate_artifacts_OkD:
  assumes "validate_artifacts mounts kinds taken xs = Ok ()" and "sorted_wrt (\<lambda>a b. \<not> canonical_paths_overlap a b) taken"
  shows "(\<forall>p \<in> set (concat (map ax_required_paths xs)). validate_relative_path p = Ok () \<and> (\<forall>m \<in> set mounts. \<not> canonical_paths_overlap m p))
    \<and> sorted_wrt (\<lambda>a b. \<not> canonical_paths_overlap a b) (taken @ concat (map ax_required_paths xs))"
  using assms
proof (induction xs arbitrary: kinds taken)
  case (Cons x xs)
  then obtain taken' where t: "validate_artifact_paths mounts taken (ax_required_paths x) = Ok taken'"
    and r: "validate_artifacts mounts (insert (ax_artifact_kind x) kinds) taken' xs = Ok ()"
    by (auto split: if_splits)
  from validate_artifact_paths_OkD [OF t] Cons.prems(2)
  have "taken' = taken @ ax_required_paths x" "sorted_wrt (\<lambda>a b. \<not> canonical_paths_overlap a b) taken'"
    "\<forall>p \<in> set (ax_required_paths x). validate_relative_path p = Ok () \<and> (\<forall>m \<in> set mounts. \<not> canonical_paths_overlap m p)"
    by blast+
  with Cons.IH [OF r] show ?case by auto
qed simp

text \<open>The paths a step writes: the destination of a file tool and the artifact outputs.\<close>

definition written_paths :: "execution_step \<Rightarrow> string list" where
  "written_paths st = (case mutating_file_destination (es_tool st) of Some d \<Rightarrow> [d] | None \<Rightarrow> [])
     @ concat (map ax_required_paths (es_artifacts st))"

lemma destination_relative:
  "validate_tool tool policy artifacts = Ok () \<Longrightarrow> mutating_file_destination tool = Some d \<Longrightarrow> validate_relative_path d = Ok ()"
  by (cases tool) (auto simp: validate_tool_def split: if_splits)

text \<open>
  C21. An admitted step stays inside its workspace and cannot change what it only reads: every
  path it writes is a canonical relative path, no path below a written one is below a mounted
  input, the mounts do not overlap one another, and a command runs only the program and exactly
  the arguments its policy names.
\<close>

theorem admitted_step_confined:
  assumes "validate_step st = Ok ()"
  shows "(\<forall>w \<in> set (written_paths st). validate_relative_path w = Ok ()
      \<and> (\<forall>x \<in> set (es_inputs st). \<forall>p. canonical_path_is_within p w \<longrightarrow> \<not> canonical_path_is_within p (ai_mount_path x)))
    \<and> sorted_wrt (\<lambda>a b. \<not> canonical_paths_overlap a b) (map ai_mount_path (es_inputs st))
    \<and> required_capability (es_tool st) \<in> es_capabilities st
    \<and> (\<forall>program args. es_tool st = RunCommand program args \<longrightarrow>
         (\<exists>rule. es_command_policy st = [rule] \<and> cr_program rule = program \<and> cr_required_arg_prefix rule = args))"
proof -
  from assms obtain mounts where i: "validate_inputs Map.empty [] (es_inputs st) = Ok mounts"
    and a: "validate_artifacts mounts {} [] (es_artifacts st) = Ok ()"
    and d: "\<And>d. mutating_file_destination (es_tool st) = Some d \<Longrightarrow> \<forall>m \<in> set mounts. \<not> canonical_paths_overlap d m"
    and t: "validate_tool (es_tool st) (es_command_policy st) (es_artifacts st) = Ok ()"
    and c: "required_capability (es_tool st) \<in> es_capabilities st"
    by (auto simp: validate_step_def list_ex_iff split: if_splits option.splits)
  have m: "mounts = map ai_mount_path (es_inputs st)" using validate_inputs_OkD(1) [OF i] by simp
  have w: "validate_relative_path w = Ok () \<and> (\<forall>m \<in> set mounts. \<not> canonical_paths_overlap w m)"
    if "w \<in> set (written_paths st)" for w
  proof -
    consider "mutating_file_destination (es_tool st) = Some w" | "w \<in> set (concat (map ax_required_paths (es_artifacts st)))"
      using \<open>w \<in> set (written_paths st)\<close> by (auto simp: written_paths_def split: option.splits)
    then show ?thesis
    proof cases
      case 1
      from destination_relative [OF t 1] d [OF 1] show ?thesis by simp
    next
      case 2
      with validate_artifacts_OkD [OF a] show ?thesis by (auto simp: canonical_paths_overlap_sym [of w])
    qed
  qed
  have "\<not> canonical_path_is_within p (ai_mount_path x)"
    if "w \<in> set (written_paths st)" "x \<in> set (es_inputs st)" "canonical_path_is_within p w" for w x p
    using no_overlap_disjoint [OF _ that(3)] w [OF that(1)] that(2) by (simp add: m)
  moreover have "sorted_wrt (\<lambda>a b. \<not> canonical_paths_overlap a b) mounts" using validate_inputs_OkD(3) [OF i] by simp
  moreover have "\<exists>rule. es_command_policy st = [rule] \<and> cr_program rule = program \<and> cr_required_arg_prefix rule = args"
    if "es_tool st = RunCommand program args" for program args
    using t that by (cases "es_command_policy st") (auto simp: validate_tool_def Let_def split: if_splits)
  ultimately show ?thesis using w c by (simp add: m)
qed

text \<open>A step that rewrites one file next to a mounted input.\<close>

definition ex_digest :: string where
  "ex_digest = replicate 64 (CHR ''a'')"

definition ex_gate :: gate_expectation where
  "ex_gate = \<lparr>gx_profile_id = WORK_ITEM_GATE_PROFILE, gx_profile_generation = 1, gx_profile_digest = ex_digest,
     gx_required_checks = {''check''}\<rparr>"

definition ex_step :: "u16 \<Rightarrow> execution_step" where
  "ex_step n = \<lparr>es_step_id = 1 + ucast n, es_invocation_id = 101 + ucast n, es_ordinal = n, es_workspace_id = ''project:work'',
     es_capabilities = {''file.write''},
     es_inputs = [\<lparr>ai_artifact_id = ''source'', ai_digest = ex_digest, ai_media_type = ''text/plain'', ai_mount_path = ''lib''\<rparr>],
     es_command_policy = [], es_tool = WriteFile ''out/a'' ''changed'' None,
     es_outputs = [\<lparr>ox_name = ''tree'', ox_kind = ''source_tree'', ox_required = True, ox_digest_algorithm = ''sha256''\<rparr>],
     es_artifacts = [], es_gate_expectation = ex_gate,
     es_resource_bounds = \<lparr>rb_wall_time_ms = 1, rb_cpu_time_ms = 1, rb_memory_bytes = 1, rb_process_count = 1,
       rb_file_bytes = 1, rb_stdout_bytes = 1, rb_stderr_bytes = 1\<rparr>, es_deadline = 1000\<rparr>"

lemma ex_digest_valid: "validate_sha256 ex_digest"
proof -
  have "is_ascii_hexdigit (CHR ''a'') \<and> \<not> is_ascii_uppercase (CHR ''a'')" by code_simp
  then show ?thesis by (simp add: validate_sha256_def ex_digest_def list_all_iff)
qed

lemma ex_texts:
  "validate_identifier ''source'' = Ok ()" "validate_identifier ''tree'' = Ok ()" "validate_identifier ''source_tree'' = Ok ()"
  "validate_identifier ''check'' = Ok ()" "validate_media_type ''text/plain'' = Ok ()" "validate_relative_path ''lib'' = Ok ()"
  "validate_relative_path ''out/a'' = Ok ()" "\<not> canonical_paths_overlap ''out/a'' ''lib''"
  by code_simp+

lemma ex_step_valid: "validate_step (ex_step n) = Ok ()"
  by (simp add: validate_step_def ex_step_def ex_texts ex_gate_def bounds_validate_def gate_expectation_validate_def
      validate_digest_def ex_digest_valid validate_identifiers_def validate_tool_def
      MAX_STEP_INPUTS_def MAX_STEP_OUTPUTS_def MAX_STEP_ARTIFACTS_def MAX_PLAN_BYTES_def)

lemma ex_within: "canonical_path_is_within ''out/a'' ''out/a''"
  by (simp add: canonical_path_is_within_def)

theorem admitted_step_confined_witness:
  "validate_step (ex_step 0) = Ok () \<and> validate_relative_path ''out/a'' = Ok () \<and> \<not> canonical_path_is_within ''out/a'' ''lib''"
  by (rule conjI [OF ex_step_valid])
    (use admitted_step_confined [OF ex_step_valid, of 0] ex_within in \<open>simp add: written_paths_def ex_step_def\<close>)

section \<open>Admitted plans\<close>

lemma validate_steps_OkD:
  assumes "validate_steps p gate sids iids index sts = Ok ()"
  shows "(\<forall>j < length sts. unat (es_ordinal (sts ! j)) = index + j \<and> validate_step (sts ! j) = Ok ()
       \<and> es_deadline (sts ! j) \<le> ep_deadline p \<and> ep_created_at p < es_deadline (sts ! j)
       \<and> es_gate_expectation (sts ! j) = gate)
    \<and> distinct (map es_step_id sts) \<and> distinct (map es_invocation_id sts)
    \<and> set (map es_step_id sts) \<inter> sids = {} \<and> set (map es_invocation_id sts) \<inter> iids = {}"
  using assms
proof (induction sts arbitrary: sids iids index)
  case (Cons st sts)
  then have h: "unat (es_ordinal st) = index" "validate_step st = Ok ()" "es_deadline st \<le> ep_deadline p" "ep_created_at p < es_deadline st"
      "es_gate_expectation st = gate" "es_step_id st \<notin> sids" "es_invocation_id st \<notin> iids"
    and r: "validate_steps p gate (insert (es_step_id st) sids) (insert (es_invocation_id st) iids) (Suc index) sts = Ok ()"
    by (auto split: if_splits)
  note ih = Cons.IH [OF r]
  have "\<forall>j < length (st # sts). unat (es_ordinal ((st # sts) ! j)) = index + j \<and> validate_step ((st # sts) ! j) = Ok ()
       \<and> es_deadline ((st # sts) ! j) \<le> ep_deadline p \<and> ep_created_at p < es_deadline ((st # sts) ! j)
       \<and> es_gate_expectation ((st # sts) ! j) = gate"
    using ih h by (simp add: less_Suc_eq_0_disj nth_Cons' all_simps split: nat.splits) auto
  then show ?case using ih h by auto
qed simp

lemma validate_canonical_OkD:
  assumes "validate_canonical C p = Ok ()"
  shows "ep_steps p \<noteq> []" and "length (ep_steps p) \<le> 32" and "ep_plan_id p \<noteq> 0" and "validate_sha256 (ep_request_digest p)"
    and "j < length (ep_steps p) \<Longrightarrow> unat (es_ordinal (ep_steps p ! j)) = j"
    and "j < length (ep_steps p) \<Longrightarrow> es_deadline (ep_steps p ! j) \<le> ep_deadline p"
    and "j < length (ep_steps p) \<Longrightarrow> ep_created_at p < es_deadline (ep_steps p ! j)"
    and "j < length (ep_steps p) \<Longrightarrow> es_gate_expectation (ep_steps p ! j) = es_gate_expectation (hd (ep_steps p))"
    and "distinct (map es_step_id (ep_steps p))" and "distinct (map es_invocation_id (ep_steps p))"
    and "ep_created_at p < ep_deadline p" and "ep_schema_version p = EXECUTION_PLAN_SCHEMA_VERSION"
    and "j < length (ep_steps p) \<Longrightarrow> validate_step (ep_steps p ! j) = Ok ()"
proof -
  have "validate_steps p (es_gate_expectation (hd (ep_steps p))) {} {} 0 (ep_steps p) = Ok ()"
    using assms by (simp add: validate_canonical_def split: if_splits)
  note st = validate_steps_OkD [OF this]
  show "ep_steps p \<noteq> []" "length (ep_steps p) \<le> 32" "ep_plan_id p \<noteq> 0" "ep_created_at p < ep_deadline p"
    "ep_schema_version p = EXECUTION_PLAN_SCHEMA_VERSION"
    using assms by (auto simp: validate_canonical_def MAX_PLAN_STEPS_def split: if_splits)
  show "validate_sha256 (ep_request_digest p)"
    using assms by (simp add: validate_canonical_def validate_digest_def split: if_splits)
  show "distinct (map es_step_id (ep_steps p))" "distinct (map es_invocation_id (ep_steps p))" using st by simp_all
  show "j < length (ep_steps p) \<Longrightarrow> unat (es_ordinal (ep_steps p ! j)) = j"
    "j < length (ep_steps p) \<Longrightarrow> es_deadline (ep_steps p ! j) \<le> ep_deadline p"
    "j < length (ep_steps p) \<Longrightarrow> ep_created_at p < es_deadline (ep_steps p ! j)"
    "j < length (ep_steps p) \<Longrightarrow> es_gate_expectation (ep_steps p ! j) = es_gate_expectation (hd (ep_steps p))"
    "j < length (ep_steps p) \<Longrightarrow> validate_step (ep_steps p ! j) = Ok ()"
    using st by simp_all
qed

end
