(* ===== verification/Workflow_Store.thy ===== *)
theory Workflow_Store
  imports Workflow_Plan Ordered_Map
begin

text \<open>
  The durable workflow store: \<open>crates/sentinel-workflow/src/store.rs\<close> and
  \<open>store/revisions.rs\<close>.  A table is a map from its primary key to the other columns; a
  serialized column holds the decoded value or bytes that do not decode.  A UUID column holds the
  UUID that is printed there.  Every operation is one immediate transaction: an error, or a fault
  of the database at any statement or at the commit, leaves the store as it was.
\<close>

section \<open>Tables\<close>

datatype 'a payload = Json 'a | Undecodable

fun decode_payload :: "'a payload \<Rightarrow> 'a wf_result" where
  "decode_payload (Json v) = Ok v"
| "decode_payload Undecodable = Err corrupt_store"

type_synonym item_key = "string \<times> string \<times> string"

record item_row =
  ir_version :: int
  ir_payload :: "work_item_execution payload"

datatype operation_response =
  RespWorkItem work_item_execution | RespArchive archived_execution | RespTime u64 | RespOther

record operation_row =
  or_request_digest :: string
  or_response :: operation_response
  or_created_at :: int

record execution_row =
  xr_tenant_id :: string
  xr_project_id :: string
  xr_work_item_id :: string
  xr_plan_digest :: string
  xr_step_ordinal :: int
  xr_state :: string
  xr_request :: "pending_execution payload"
  xr_attempts :: int
  xr_updated_at :: int

record completion_row =
  kr_invocation_id :: uuid
  kr_tenant_id :: string
  kr_project_id :: string
  kr_work_item_id :: string
  kr_state :: string
  kr_request :: "pending_completion payload"
  kr_evidence :: "execution_evidence payload option"
  kr_attempts :: int
  kr_updated_at :: int

record gate_row =
  gr_plan_id :: uuid
  gr_tenant_id :: string
  gr_project_id :: string
  gr_work_item_id :: string
  gr_state :: string
  gr_request :: "pending_gate payload"
  gr_evidence :: "gate_evidence payload option"
  gr_attempts :: int
  gr_updated_at :: int

record audit_event =
  ae_key :: item_key
  ae_event_type :: string
  ae_before_state :: "string option"
  ae_after_state :: string
  ae_authority_digest :: string
  ae_payload_digest :: string
  ae_created_at :: int

record workflow_store =
  ws_items :: "(item_key, item_row) omap"
  ws_operations :: "(string \<times> uuid, operation_row) omap"
  ws_execution :: "(uuid, execution_row) omap"
  ws_completion :: "(string, completion_row) omap"
  ws_gate :: "(string, gate_row) omap"
  ws_audit :: "audit_event list"

definition empty_store :: workflow_store where
  "empty_store = \<lparr>ws_items = [], ws_operations = [], ws_execution = [], ws_completion = [], ws_gate = [], ws_audit = []\<rparr>"

definition MAX_NOT_FOUND_RECONCILES :: u16 where "MAX_NOT_FOUND_RECONCILES = 3"
definition MAX_EXECUTION_REVISIONS :: nat where "MAX_EXECUTION_REVISIONS = 4"

section \<open>Columns and errors\<close>

definition sql_u64 :: "u64 \<Rightarrow> int wf_result" where
  "sql_u64 v = (if uint v < 2 ^ 63 then Ok (uint v) else Err wf_persistence)"

definition stored_u64 :: "int \<Rightarrow> u64 wf_result" where
  "stored_u64 i = (if 0 \<le> i \<and> i < 2 ^ 64 then Ok (word_of_int i) else Err corrupt_store)"

definition stored_u16 :: "int \<Rightarrow> u16 wf_result" where
  "stored_u16 i = (if 0 \<le> i \<and> i < 2 ^ 16 then Ok (word_of_int i) else Err corrupt_store)"

definition store_authority_conflict :: workflow_error where
  "store_authority_conflict = workflow_error_new AuthorityConflict False
     ''workflow authority changed or does not match the durable request''"

definition idempotency_conflict :: workflow_error where
  "idempotency_conflict = workflow_error_new IdempotencyConflict False
     ''stable operation identity was rebound to different canonical content''"

definition invalid_revision :: workflow_error where
  "invalid_revision = workflow_error_new InvalidInput False
     ''execution revision requires a completed source and bounded fresh authority''"

definition validate_monotonic_time :: "u64 \<Rightarrow> u64 \<Rightarrow> u64 \<Rightarrow> unit wf_result" where
  "validate_monotonic_time now request_updated work_item_updated = ensure
     (\<not> (now < request_updated \<or> now < work_item_updated))
     (workflow_error_new InvalidTransition False ''workflow clock regressed behind durable state'')"

fun state_name :: "work_item_state \<Rightarrow> string" where
  "state_name Assigned = ''assigned''"
| "state_name Claimed = ''claimed''"
| "state_name InProgress = ''in_progress''"
| "state_name InReview = ''in_review''"
| "state_name Done = ''done''"
| "state_name Blocked = ''blocked''"
| "state_name Cancelled = ''cancelled''"

fun execution_database_state :: "reconcile_state \<Rightarrow> string" where
  "execution_database_state NotFound = ''not_found''"
| "execution_database_state Reserved = ''reserved''"
| "execution_database_state Executing = ''executing''"
| "execution_database_state Succeeded = ''awaiting_evidence''"
| "execution_database_state Failed = ''failed''"
| "execution_database_state RunCancelled = ''cancelled''"
| "execution_database_state TimedOut = ''timed_out''"
| "execution_database_state UnknownOutcome = ''unknown_outcome''"

definition completion_request_identity :: "wf_codec \<Rightarrow> uuid \<Rightarrow> uuid \<Rightarrow> uuid \<Rightarrow> string \<Rightarrow> string" where
  "completion_request_identity C plan st invocation digest =
     canonical_sha256 C ''sentinel.workflow.completion-request-identity.v1'' (CanonCompletionId plan st invocation digest)"

definition gate_request_identity :: "wf_codec \<Rightarrow> uuid \<Rightarrow> string \<Rightarrow> string \<Rightarrow> string" where
  "gate_request_identity C plan digest receipt =
     canonical_sha256 C ''sentinel.workflow.gate-request-identity.v1'' (CanonGateId plan digest receipt)"

definition required_checks_digest :: "wf_codec \<Rightarrow> gate_expectation \<Rightarrow> string" where
  "required_checks_digest C g =
     canonical_sha256 C ''sentinel.workflow.work-item-gate-checks.v1'' (CanonChecks (gx_required_checks g))"

definition operation_namespace :: "execution_plan \<Rightarrow> string" where
  "operation_namespace p = ''v1:'' @ ep_tenant_id p @ '':'' @ pa_principal_id (ep_principal p) @ '':''
     @ decimal (unat (pa_principal_generation (ep_principal p)))"

definition subject_namespace :: "wf_codec \<Rightarrow> tenant_id \<Rightarrow> project_id \<Rightarrow> work_item_id \<Rightarrow> string" where
  "subject_namespace C tenant project work =
     canonical_sha256 C ''sentinel.workflow.execution-subject.v1'' (CanonScope tenant project work)"

definition history_namespace :: "wf_codec \<Rightarrow> tenant_id \<Rightarrow> project_id \<Rightarrow> work_item_id \<Rightarrow> string" where
  "history_namespace C tenant project work = ''execution-history:'' @ subject_namespace C tenant project work"

definition state_digest :: "wf_codec \<Rightarrow> work_item_execution \<Rightarrow> string" where
  "state_digest C w = canonical_sha256 C ''sentinel.workflow.revision-source.v1'' (CanonWorkItem w)"

section \<open>Evidence checks\<close>

definition validate_execution_evidence ::
  "pending_completion \<Rightarrow> execution_evidence \<Rightarrow> u64 \<Rightarrow> u64 \<Rightarrow> u64 \<Rightarrow> unit wf_result" where
  "validate_execution_evidence request e now step_deadline plan_deadline = ensure
     (\<not> (ee_schema_version e \<noteq> WORKFLOW_SCHEMA_VERSION \<or> ee_invocation_id e \<noteq> pc_invocation_id request
        \<or> ee_plan_digest e \<noteq> pc_plan_digest request \<or> ee_step_digest e \<noteq> pc_step_digest request
        \<or> ee_receipt_id e = [] \<or> ee_completed_at e < pc_created_at request \<or> ee_completed_at e > now
        \<or> ee_completed_at e > step_deadline \<or> ee_completed_at e > plan_deadline))
     store_authority_conflict"

definition sealed_output_matches :: "output_expectation \<times> sealed_output \<Rightarrow> unit wf_result" where
  "sealed_output_matches = (\<lambda>(expected, observed).
     if so_name observed \<noteq> ox_name expected \<or> so_kind observed \<noteq> ox_kind expected
        \<or> so_digest_algorithm observed \<noteq> ox_digest_algorithm expected
     then Err store_authority_conflict else validate_digest (so_digest observed))"

definition sealed_artifact_matches :: "artifact_expectation \<times> sealed_artifact \<Rightarrow> unit wf_result" where
  "sealed_artifact_matches = (\<lambda>(expected, observed).
     if sa_artifact_kind observed \<noteq> ax_artifact_kind expected \<or> sa_media_type observed \<noteq> ax_media_type expected
        \<or> sa_paths observed \<noteq> ax_required_paths expected
     then Err store_authority_conflict else validate_digest (sa_digest observed))"

definition validate_sealed_descriptors :: "wf_codec \<Rightarrow> execution_step \<Rightarrow> execution_evidence \<Rightarrow> unit wf_result" where
  "validate_sealed_descriptors C st e =
     (if length (ee_outputs e) \<noteq> length (es_outputs st) \<or> length (ee_artifacts e) \<noteq> length (es_artifacts st)
      then Err store_authority_conflict
      else
        try_bind (try_each sealed_output_matches (zip (es_outputs st) (ee_outputs e))) (\<lambda>_.
        try_bind (try_each sealed_artifact_matches (zip (es_artifacts st) (ee_artifacts e))) (\<lambda>_.
        ensure (constant_time_eq (sealed_output_bundle_digest C (ee_outputs e) (ee_artifacts e)) (ee_output_bundle_digest e))
          store_authority_conflict)))"

definition validate_gate_evidence :: "pending_gate \<Rightarrow> gate_evidence \<Rightarrow> u64 \<Rightarrow> u64 \<Rightarrow> unit wf_result" where
  "validate_gate_evidence request e now plan_deadline = ensure
     (\<not> (ge_schema_version e \<noteq> WORKFLOW_SCHEMA_VERSION \<or> ge_profile_id e \<noteq> gx_profile_id (pg_expectation request)
        \<or> ge_profile_generation e \<noteq> gx_profile_generation (pg_expectation request)
        \<or> ge_profile_digest e \<noteq> gx_profile_digest (pg_expectation request)
        \<or> ge_subject_digest e \<noteq> pg_subject_digest request \<or> ge_required_checks_digest e \<noteq> pg_required_checks_digest request
        \<or> ge_receipt_id e = [] \<or> \<not> ge_passed e \<or> ge_completed_at e < pg_created_at request
        \<or> ge_completed_at e > now \<or> ge_completed_at e > plan_deadline))
     store_authority_conflict"

section \<open>Reading work items\<close>

definition final_step :: "work_item_execution \<Rightarrow> execution_step" where
  "final_step w = ep_steps (wi_plan w) ! (length (ep_steps (wi_plan w)) - 1)"

definition terminal_evidence_check :: "wf_codec \<Rightarrow> work_item_execution \<Rightarrow> execution_evidence \<Rightarrow> unit wf_result" where
  "terminal_evidence_check C w e =
     (if ee_schema_version e \<noteq> WORKFLOW_SCHEMA_VERSION \<or> ee_invocation_id e \<noteq> es_invocation_id (final_step w)
         \<or> ee_plan_digest e \<noteq> ep_request_digest (wi_plan w) \<or> ee_step_digest e \<noteq> step_digest C (final_step w)
         \<or> ee_receipt_id e = [] \<or> ee_completed_at e < ep_created_at (wi_plan w)
         \<or> ee_completed_at e > es_deadline (final_step w) \<or> ee_completed_at e > ep_deadline (wi_plan w)
      then Err corrupt_store
      else map_err (\<lambda>_. corrupt_store) (validate_sealed_descriptors C (final_step w) e))"

definition gate_evidence_check :: "wf_codec \<Rightarrow> work_item_execution \<Rightarrow> execution_evidence \<Rightarrow> gate_evidence \<Rightarrow> unit wf_result" where
  "gate_evidence_check C w e g =
     (let expectation = es_gate_expectation (final_step w) in
      ensure
        (\<not> (ge_schema_version g \<noteq> WORKFLOW_SCHEMA_VERSION \<or> ge_receipt_id g = [] \<or> ge_profile_id g \<noteq> gx_profile_id expectation
           \<or> ge_profile_generation g \<noteq> gx_profile_generation expectation \<or> ge_profile_digest g \<noteq> gx_profile_digest expectation
           \<or> ge_subject_digest g \<noteq> execution_subject_digest C (wi_plan w) e
           \<or> ge_required_checks_digest g \<noteq> required_checks_digest C expectation \<or> \<not> ge_passed g
           \<or> ge_completed_at g < ee_completed_at e \<or> ge_completed_at g > ep_deadline (wi_plan w)))
        corrupt_store)"

fun stored_state_check :: "wf_codec \<Rightarrow> work_item_execution \<Rightarrow> work_item_state \<Rightarrow> unit wf_result" where
  "stored_state_check C w Claimed = ensure
     (\<not> (wi_next_step_ordinal w \<noteq> 0 \<or> wi_terminal_evidence w \<noteq> None \<or> wi_gate_evidence w \<noteq> None \<or> wi_blocker_code w \<noteq> None))
     corrupt_store"
| "stored_state_check C w InProgress = ensure
     (\<not> (wi_terminal_evidence w \<noteq> None \<or> wi_gate_evidence w \<noteq> None \<or> wi_blocker_code w \<noteq> None)) corrupt_store"
| "stored_state_check C w InReview =
     (if unat (wi_next_step_ordinal w) \<noteq> length (ep_steps (wi_plan w)) - 1 \<or> wi_blocker_code w \<noteq> None
      then Err corrupt_store
      else try_bind (ok_or (wi_terminal_evidence w) corrupt_store) (\<lambda>e.
        try_bind (terminal_evidence_check C w e) (\<lambda>_.
        ensure (wi_gate_evidence w = None) corrupt_store)))"
| "stored_state_check C w Done =
     (if unat (wi_next_step_ordinal w) \<noteq> length (ep_steps (wi_plan w)) - 1 \<or> wi_blocker_code w \<noteq> None
      then Err corrupt_store
      else try_bind (ok_or (wi_terminal_evidence w) corrupt_store) (\<lambda>e.
        try_bind (terminal_evidence_check C w e) (\<lambda>_.
        try_bind (ok_or (wi_gate_evidence w) corrupt_store) (\<lambda>g.
        gate_evidence_check C w e g))))"
| "stored_state_check C w Blocked =
     (if wi_blocker_code w = Some ''gate_timed_out''
      then
        (if unat (wi_next_step_ordinal w) \<noteq> length (ep_steps (wi_plan w)) - 1 \<or> wi_gate_evidence w \<noteq> None
         then Err corrupt_store
         else try_bind (ok_or (wi_terminal_evidence w) corrupt_store) (terminal_evidence_check C w))
      else ensure
        (\<not> (wi_terminal_evidence w \<noteq> None \<or> wi_gate_evidence w \<noteq> None
           \<or> wi_blocker_code w \<notin> {Some ''execution_failed'', Some ''execution_timed_out'', Some ''execution_unknown_outcome''}))
        corrupt_store)"
| "stored_state_check C w Cancelled = ensure
     (\<not> (wi_terminal_evidence w \<noteq> None \<or> wi_gate_evidence w \<noteq> None \<or> wi_blocker_code w \<noteq> Some ''execution_cancelled''))
     corrupt_store"
| "stored_state_check C w Assigned = Err corrupt_store"

definition validate_stored_work_item ::
  "wf_codec \<Rightarrow> work_item_execution \<Rightarrow> tenant_id \<Rightarrow> project_id \<Rightarrow> work_item_id \<Rightarrow> u64 \<Rightarrow> unit wf_result" where
  "validate_stored_work_item C w tenant project work row_version =
     try_bind (map_err (\<lambda>_. corrupt_store) (validate_at C (wi_plan w) (ep_created_at (wi_plan w)))) (\<lambda>_.
     if wi_schema_version w \<noteq> WORKFLOW_SCHEMA_VERSION \<or> ep_schema_version (wi_plan w) \<noteq> EXECUTION_PLAN_SCHEMA_VERSION
        \<or> wi_tenant_id w \<noteq> tenant \<or> wi_project_id w \<noteq> project \<or> wi_work_item_id w \<noteq> work
        \<or> wi_tenant_id w \<noteq> ep_tenant_id (wi_plan w) \<or> wi_project_id w \<noteq> ep_project_id (wi_plan w)
        \<or> wi_work_item_id w \<noteq> ep_work_item_id (wi_plan w) \<or> wi_agent_id w \<noteq> ep_agent_id (wi_plan w)
        \<or> wi_version w = 0 \<or> wi_version w \<noteq> row_version \<or> wi_updated_at w < ep_created_at (wi_plan w)
        \<or> unat (wi_next_step_ordinal w) \<ge> length (ep_steps (wi_plan w))
     then Err corrupt_store
     else stored_state_check C w (wi_state w))"

definition read_work_item ::
  "wf_codec \<Rightarrow> workflow_store \<Rightarrow> tenant_id \<Rightarrow> project_id \<Rightarrow> work_item_id \<Rightarrow> work_item_execution option wf_result" where
  "read_work_item C s tenant project work =
     (case om_get (ws_items s) (tenant, project, work) of
        None \<Rightarrow> Ok None
      | Some row \<Rightarrow>
          try_bind (decode_payload (ir_payload row)) (\<lambda>w.
          try_bind (stored_u64 (ir_version row)) (\<lambda>version.
          try_bind (validate_stored_work_item C w tenant project work version) (\<lambda>_.
          Ok (Some w)))))"

definition read_operation :: "workflow_store \<Rightarrow> string \<Rightarrow> uuid \<Rightarrow> operation_row option" where
  "read_operation s namespace operation = om_get (ws_operations s) (namespace, operation)"

fun decode_work_item :: "operation_response \<Rightarrow> work_item_execution wf_result" where
  "decode_work_item (RespWorkItem w) = Ok w"
| "decode_work_item _ = Err corrupt_store"

fun decode_archive :: "operation_response \<Rightarrow> archived_execution wf_result" where
  "decode_archive (RespArchive a) = Ok a"
| "decode_archive _ = Err corrupt_store"

fun decode_time :: "operation_response \<Rightarrow> u64 wf_result" where
  "decode_time (RespTime t) = Ok t"
| "decode_time _ = Err corrupt_store"

section \<open>Plan versions\<close>

definition validate_revision :: "execution_revision \<Rightarrow> unit wf_result" where
  "validate_revision r = ensure
     (\<not> (er_previous_plan_id r = 0 \<or> er_previous_version r = 0 \<or> \<not> validate_sha256 (er_previous_plan_digest r)
        \<or> \<not> validate_sha256 (er_previous_state_digest r) \<or> \<not> validate_sha256 (er_feedback_digest r)))
     invalid_revision"

definition from_completed_work :: "wf_codec \<Rightarrow> work_item_execution \<Rightarrow> string \<Rightarrow> execution_revision wf_result" where
  "from_completed_work C previous feedback =
     (if \<not> validate_sha256 feedback then Err invalid_revision
      else Ok \<lparr>er_previous_plan_id = ep_plan_id (wi_plan previous), er_previous_plan_digest = ep_request_digest (wi_plan previous),
        er_previous_version = wi_version previous, er_previous_state_digest = state_digest C previous,
        er_feedback_digest = feedback\<rparr>)"

definition archive_digest :: "wf_codec \<Rightarrow> archived_execution \<Rightarrow> string" where
  "archive_digest C a = canonical_sha256 C ''sentinel.workflow.execution-history.v1'' (CanonArchive a)"

definition read_archive :: "wf_codec \<Rightarrow> workflow_store \<Rightarrow> string \<Rightarrow> uuid \<Rightarrow> archived_execution option wf_result" where
  "read_archive C s namespace plan =
     (case read_operation s namespace plan of
        None \<Rightarrow> Ok None
      | Some row \<Rightarrow>
          try_bind (decode_archive (or_response row)) (\<lambda>archive.
          let previous = ar_previous archive in
          try_bind (validate_stored_work_item C previous (wi_tenant_id previous) (wi_project_id previous)
            (wi_work_item_id previous) (wi_version previous)) (\<lambda>_.
          try_bind (map_err (\<lambda>_. corrupt_store) (validate_revision (ar_revision archive))) (\<lambda>_.
          try_bind (stored_u64 (or_created_at row)) (\<lambda>created_at.
          try_bind (from_completed_work C previous (er_feedback_digest (ar_revision archive))) (\<lambda>expected.
          if or_request_digest row \<noteq> archive_digest C archive \<or> ep_plan_id (wi_plan previous) \<noteq> plan
             \<or> ar_next_plan_id archive = 0 \<or> ar_next_plan_id archive = plan
             \<or> \<not> validate_sha256 (ar_next_plan_digest archive) \<or> ar_archived_at archive \<noteq> created_at
             \<or> ar_archived_at archive < wi_updated_at previous \<or> ar_revision archive \<noteq> expected
             \<or> namespace \<noteq> history_namespace C (wi_tenant_id previous) (wi_project_id previous) (wi_work_item_id previous)
          then Err corrupt_store
          else Ok (Some archive)))))))"

definition read_plan_version ::
  "wf_codec \<Rightarrow> workflow_store \<Rightarrow> tenant_id \<Rightarrow> project_id \<Rightarrow> work_item_id \<Rightarrow> uuid \<Rightarrow> work_item_execution option wf_result" where
  "read_plan_version C s tenant project work plan =
     try_bind (read_work_item C s tenant project work) (\<lambda>current.
     if (case current of Some w \<Rightarrow> ep_plan_id (wi_plan w) = plan | None \<Rightarrow> False) then Ok current
     else try_bind (read_archive C s (history_namespace C tenant project work) plan) (\<lambda>archive.
       Ok (map_option ar_previous archive)))"

definition read_work_item_by_invocation :: "wf_codec \<Rightarrow> workflow_store \<Rightarrow> uuid \<Rightarrow> work_item_execution option wf_result" where
  "read_work_item_by_invocation C s invocation =
     (case om_get (ws_execution s) invocation of
        None \<Rightarrow> Ok None
      | Some row \<Rightarrow>
          try_bind (decode_payload (xr_request row)) (\<lambda>request.
          if es_invocation_id (px_step request) \<noteq> invocation then Err corrupt_store
          else try_bind (read_plan_version C s (xr_tenant_id row) (xr_project_id row) (xr_work_item_id row) (px_plan_id request))
            (\<lambda>w. try_bind (ok_or w corrupt_store) (\<lambda>w. Ok (Some w)))))"

definition gate_row_of_plan :: "workflow_store \<Rightarrow> uuid \<Rightarrow> gate_row option" where
  "gate_row_of_plan s plan = List.find (\<lambda>row. gr_plan_id row = plan) (om_values (ws_gate s))"

definition completion_row_of_invocation :: "workflow_store \<Rightarrow> uuid \<Rightarrow> completion_row option" where
  "completion_row_of_invocation s invocation = List.find (\<lambda>row. kr_invocation_id row = invocation) (om_values (ws_completion s))"

definition read_work_item_by_plan :: "wf_codec \<Rightarrow> workflow_store \<Rightarrow> uuid \<Rightarrow> work_item_execution option wf_result" where
  "read_work_item_by_plan C s plan =
     (case gate_row_of_plan s plan of
        None \<Rightarrow> Ok None
      | Some row \<Rightarrow>
          try_bind (read_plan_version C s (gr_tenant_id row) (gr_project_id row) (gr_work_item_id row) plan)
            (\<lambda>w. try_bind (ok_or w corrupt_store) (\<lambda>w. Ok (Some w))))"

end
