(* ===== verification/Workflow_Operations.thy ===== *)
theory Workflow_Operations
  imports Workflow_Store
begin

text \<open>
  The operations of the durable workflow store (\<open>store.rs\<close>, \<open>store/revisions.rs\<close>,
  \<open>store/readiness.rs\<close> of \<open>crates/sentinel-workflow/src\<close>): request validation,
  admission of plans and revisions, and the recording of observations and evidence.
\<close>

section \<open>Transactions\<close>

text \<open>A transaction runs its body on the store; an error or a database fault rolls it back.\<close>

definition wf_transact ::
  "workflow_error option \<Rightarrow> (workflow_store \<Rightarrow> (workflow_store \<times> 'a) wf_result) \<Rightarrow> workflow_store \<Rightarrow> 'a wf_result \<times> workflow_store" where
  "wf_transact fault body s =
     (case fault of
        Some e \<Rightarrow> (Err e, s)
      | None \<Rightarrow> (case body s of Inl e \<Rightarrow> (Err e, s) | Inr (s', x) \<Rightarrow> (Ok x, s')))"

section \<open>Writes\<close>

definition write_current_work_item :: "work_item_execution \<Rightarrow> workflow_store \<Rightarrow> workflow_store wf_result" where
  "write_current_work_item w s =
     try_bind (sql_u64 (wi_version w)) (\<lambda>version.
     Ok (s\<lparr>ws_items := om_insert (wi_tenant_id w, wi_project_id w, wi_work_item_id w)
       \<lparr>ir_version = version, ir_payload = Json w\<rparr> (ws_items s)\<rparr>))"

definition put_work_item :: "wf_codec \<Rightarrow> work_item_execution \<Rightarrow> workflow_store \<Rightarrow> workflow_store wf_result" where
  "put_work_item C w s =
     try_bind (read_work_item C s (wi_tenant_id w) (wi_project_id w) (wi_work_item_id w)) (\<lambda>current.
     if (case current of Some v \<Rightarrow> ep_plan_id (wi_plan v) \<noteq> ep_plan_id (wi_plan w) | None \<Rightarrow> False)
     then Err store_authority_conflict
     else write_current_work_item w s)"

definition append_audit ::
  "work_item_execution \<Rightarrow> string \<Rightarrow> work_item_state option \<Rightarrow> work_item_state \<Rightarrow> string \<Rightarrow> string \<Rightarrow> u64
   \<Rightarrow> workflow_store \<Rightarrow> workflow_store wf_result" where
  "append_audit w event_type before after authority payload now s =
     try_bind (sql_u64 now) (\<lambda>at.
     Ok (s\<lparr>ws_audit := ws_audit s @ [\<lparr>ae_key = (wi_tenant_id w, wi_project_id w, wi_work_item_id w),
       ae_event_type = event_type, ae_before_state = map_option state_name before, ae_after_state = state_name after,
       ae_authority_digest = authority, ae_payload_digest = payload, ae_created_at = at\<rparr>]\<rparr>))"

definition insert_operation ::
  "string \<Rightarrow> uuid \<Rightarrow> string \<Rightarrow> operation_response \<Rightarrow> u64 \<Rightarrow> workflow_store \<Rightarrow> workflow_store wf_result" where
  "insert_operation namespace operation digest response now s =
     try_bind (sql_u64 now) (\<lambda>at.
     if om_get (ws_operations s) (namespace, operation) \<noteq> None then Err corrupt_store
     else Ok (s\<lparr>ws_operations := om_insert (namespace, operation)
       \<lparr>or_request_digest = digest, or_response = response, or_created_at = at\<rparr> (ws_operations s)\<rparr>))"

definition insert_execution :: "execution_plan \<Rightarrow> pending_execution \<Rightarrow> workflow_store \<Rightarrow> workflow_store wf_result" where
  "insert_execution p request s =
     try_bind (sql_u64 (px_updated_at request)) (\<lambda>at.
     if om_get (ws_execution s) (es_invocation_id (px_step request)) \<noteq> None then Err corrupt_store
     else Ok (s\<lparr>ws_execution := om_insert (es_invocation_id (px_step request))
       \<lparr>xr_tenant_id = ep_tenant_id p, xr_project_id = ep_project_id p, xr_work_item_id = ep_work_item_id p,
        xr_plan_digest = ep_request_digest p, xr_step_ordinal = uint (es_ordinal (px_step request)),
        xr_state = ''not_found'', xr_request = Json request, xr_attempts = 0, xr_updated_at = at\<rparr> (ws_execution s)\<rparr>))"

definition completion_digest :: "wf_codec \<Rightarrow> pending_completion \<Rightarrow> string" where
  "completion_digest C r = canonical_sha256 C ''sentinel.workflow.completion-request.v1'' (CanonCompletion (r\<lparr>pc_request_digest := []\<rparr>))"

definition build_completion_request ::
  "wf_codec \<Rightarrow> work_item_execution \<Rightarrow> pending_execution \<Rightarrow> runtime_authority \<Rightarrow> u64 \<Rightarrow> pending_completion" where
  "build_completion_request C w execution authority now =
     (let request = \<lparr>pc_schema_version = WORKFLOW_SCHEMA_VERSION,
        pc_request_id = completion_request_identity C (ep_plan_id (wi_plan w)) (es_step_id (px_step execution))
          (es_invocation_id (px_step execution)) (ep_request_digest (wi_plan w)),
        pc_plan_id = ep_plan_id (wi_plan w), pc_plan_digest = ep_request_digest (wi_plan w),
        pc_step_id = es_step_id (px_step execution), pc_invocation_id = es_invocation_id (px_step execution),
        pc_step_digest = step_digest C (px_step execution), pc_authority_digest = authority_digest C authority,
        pc_request_digest = [], pc_created_at = now\<rparr>
      in request\<lparr>pc_request_digest := completion_digest C request\<rparr>)"

definition insert_completion_request ::
  "wf_codec \<Rightarrow> work_item_execution \<Rightarrow> pending_execution \<Rightarrow> runtime_authority \<Rightarrow> u64 \<Rightarrow> workflow_store \<Rightarrow> workflow_store wf_result" where
  "insert_completion_request C w execution authority now s =
     (let request = build_completion_request C w execution authority now in
      case completion_row_of_invocation s (pc_invocation_id request) of
        Some row \<Rightarrow>
          try_bind (decode_payload (kr_request row)) (\<lambda>existing.
          if existing = request then Ok s else Err corrupt_store)
      | None \<Rightarrow>
          try_bind (sql_u64 now) (\<lambda>at.
          if om_get (ws_completion s) (pc_request_id request) \<noteq> None then Err corrupt_store
          else Ok (s\<lparr>ws_completion := om_insert (pc_request_id request)
            \<lparr>kr_invocation_id = pc_invocation_id request, kr_tenant_id = wi_tenant_id w, kr_project_id = wi_project_id w,
             kr_work_item_id = wi_work_item_id w, kr_state = ''pending'', kr_request = Json request, kr_evidence = None,
             kr_attempts = 0, kr_updated_at = at\<rparr> (ws_completion s)\<rparr>)))"

definition gate_digest :: "wf_codec \<Rightarrow> pending_gate \<Rightarrow> string" where
  "gate_digest C r = canonical_sha256 C ''sentinel.workflow.gate-request.v1'' (CanonGate (r\<lparr>pg_request_digest := []\<rparr>))"

definition build_gate_request ::
  "wf_codec \<Rightarrow> work_item_execution \<Rightarrow> runtime_authority \<Rightarrow> execution_evidence \<Rightarrow> u64 \<Rightarrow> pending_gate wf_result" where
  "build_gate_request C w authority e now =
     (if ep_steps (wi_plan w) = [] then Err (wf_invalid ''plan has no gate'')
      else
        let expectation = es_gate_expectation (last (ep_steps (wi_plan w)));
            request = \<lparr>pg_schema_version = WORKFLOW_SCHEMA_VERSION,
              pg_request_id = gate_request_identity C (ep_plan_id (wi_plan w)) (ep_request_digest (wi_plan w)) (ee_receipt_id e),
              pg_plan_id = ep_plan_id (wi_plan w), pg_plan_digest = ep_request_digest (wi_plan w),
              pg_execution_receipt_id = ee_receipt_id e, pg_subject_digest = execution_subject_digest C (wi_plan w) e,
              pg_required_checks_digest = required_checks_digest C expectation, pg_expectation = expectation,
              pg_authority_digest = authority_digest C authority, pg_request_digest = [], pg_created_at = now\<rparr>
        in Ok (request\<lparr>pg_request_digest := gate_digest C request\<rparr>))"

definition insert_gate_request ::
  "work_item_execution \<Rightarrow> pending_gate \<Rightarrow> u64 \<Rightarrow> workflow_store \<Rightarrow> workflow_store wf_result" where
  "insert_gate_request w request now s =
     (case gate_row_of_plan s (pg_plan_id request) of
        Some row \<Rightarrow>
          try_bind (decode_payload (gr_request row)) (\<lambda>existing.
          if existing = request then Ok s else Err corrupt_store)
      | None \<Rightarrow>
          try_bind (sql_u64 now) (\<lambda>at.
          if om_get (ws_gate s) (pg_request_id request) \<noteq> None then Err corrupt_store
          else Ok (s\<lparr>ws_gate := om_insert (pg_request_id request)
            \<lparr>gr_plan_id = pg_plan_id request, gr_tenant_id = wi_tenant_id w, gr_project_id = wi_project_id w,
             gr_work_item_id = wi_work_item_id w, gr_state = ''pending'', gr_request = Json request, gr_evidence = None,
             gr_attempts = 0, gr_updated_at = at\<rparr> (ws_gate s)\<rparr>)))"

section \<open>Request validation\<close>

definition request_state_fits :: "work_item_execution \<Rightarrow> reconcile_state \<Rightarrow> bool" where
  "request_state_fits w st \<longleftrightarrow>
     st = NotFound \<and> wi_state w \<in> {Claimed, InProgress}
     \<or> st \<in> {Reserved, Executing} \<and> wi_state w = InProgress"

definition validate_execution_request ::
  "workflow_store \<Rightarrow> work_item_execution \<Rightarrow> pending_execution \<Rightarrow> unit wf_result" where
  "validate_execution_request s w request =
     try_bind (ok_or (om_get (ws_execution s) (es_invocation_id (px_step request))) corrupt_store) (\<lambda>row.
     try_bind (decode_payload (xr_request row)) (\<lambda>stored.
     if px_schema_version stored \<noteq> WORKFLOW_SCHEMA_VERSION then Err corrupt_store
     else if stored \<noteq> request then Err idempotency_conflict
     else
       try_bind (stored_u16 (xr_step_ordinal row)) (\<lambda>ordinal.
       try_bind (stored_u16 (xr_attempts row)) (\<lambda>attempts.
       try_bind (stored_u64 (xr_updated_at row)) (\<lambda>updated_at.
       if xr_tenant_id row \<noteq> wi_tenant_id w \<or> xr_project_id row \<noteq> wi_project_id w \<or> xr_work_item_id row \<noteq> wi_work_item_id w
          \<or> xr_plan_digest row \<noteq> px_plan_digest request \<or> ordinal \<noteq> es_ordinal (px_step request)
          \<or> xr_state row \<noteq> execution_database_state (px_state request) \<or> attempts \<noteq> px_attempts request
          \<or> updated_at \<noteq> px_updated_at request \<or> px_plan_id request \<noteq> ep_plan_id (wi_plan w)
          \<or> px_plan_digest request \<noteq> ep_request_digest (wi_plan w)
          \<or> unat (es_ordinal (px_step request)) \<ge> length (ep_steps (wi_plan w))
          \<or> ep_steps (wi_plan w) ! unat (es_ordinal (px_step request)) \<noteq> px_step request
          \<or> wi_next_step_ordinal w \<noteq> es_ordinal (px_step request) \<or> px_created_at request > px_updated_at request
       then Err corrupt_store
       else if \<not> request_state_fits w (px_state request) then Err corrupt_store
       else ensure (\<not> (wi_terminal_evidence w \<noteq> None \<or> wi_gate_evidence w \<noteq> None \<or> wi_blocker_code w \<noteq> None)) corrupt_store)))))"

definition validate_completion_source ::
  "workflow_store \<Rightarrow> work_item_execution \<Rightarrow> pending_completion \<Rightarrow> execution_step \<Rightarrow> unit wf_result" where
  "validate_completion_source s w request st =
     try_bind (ok_or (om_get (ws_execution s) (pc_invocation_id request)) corrupt_store) (\<lambda>row.
     try_bind (decode_payload (xr_request row)) (\<lambda>execution.
     try_bind (stored_u16 (xr_step_ordinal row)) (\<lambda>ordinal.
     try_bind (stored_u16 (xr_attempts row)) (\<lambda>attempts.
     try_bind (stored_u64 (xr_updated_at row)) (\<lambda>updated_at.
     ensure
       (\<not> (xr_tenant_id row \<noteq> wi_tenant_id w \<or> xr_project_id row \<noteq> wi_project_id w \<or> xr_work_item_id row \<noteq> wi_work_item_id w
          \<or> xr_plan_digest row \<noteq> pc_plan_digest request \<or> ordinal \<noteq> es_ordinal st
          \<or> xr_state row \<noteq> ''awaiting_evidence'' \<or> attempts \<noteq> px_attempts execution \<or> updated_at \<noteq> px_updated_at execution
          \<or> px_state execution \<noteq> Succeeded \<or> px_step execution \<noteq> st \<or> px_plan_id execution \<noteq> pc_plan_id request
          \<or> px_plan_digest execution \<noteq> pc_plan_digest request
          \<or> px_authority_digest execution \<noteq> pc_authority_digest request))
       corrupt_store)))))"

definition completion_outcome ::
  "wf_codec \<Rightarrow> work_item_execution \<Rightarrow> pending_completion \<Rightarrow> execution_step \<Rightarrow> completion_row \<Rightarrow> bool wf_result" where
  "completion_outcome C w request st row =
     (if kr_state row = ''pending'' \<and> kr_evidence row = None then
        try_bind (stored_u64 (kr_updated_at row)) (\<lambda>updated_at.
        if wi_state w \<notin> {Claimed, InProgress} \<or> wi_next_step_ordinal w \<noteq> es_ordinal st \<or> wi_terminal_evidence w \<noteq> None
           \<or> wi_gate_evidence w \<noteq> None \<or> wi_blocker_code w \<noteq> None \<or> updated_at \<noteq> pc_created_at request
        then Err corrupt_store else Ok False)
      else if kr_state row = ''completed'' then
        (case kr_evidence row of
           None \<Rightarrow> Err corrupt_store
         | Some bytes \<Rightarrow>
             try_bind (decode_payload bytes) (\<lambda>e.
             try_bind (map_err (\<lambda>_. corrupt_store) (validate_execution_evidence request e (ee_completed_at e)
               (es_deadline st) (ep_deadline (wi_plan w)))) (\<lambda>_.
             try_bind (map_err (\<lambda>_. corrupt_store) (validate_sealed_descriptors C st e)) (\<lambda>_.
             if unat (es_ordinal st) + 1 = length (ep_steps (wi_plan w))
             then (if wi_terminal_evidence w \<noteq> Some e \<or> wi_state w \<notin> {InReview, Done} then Err corrupt_store else Ok True)
             else if unat (wi_next_step_ordinal w) \<le> unat (es_ordinal st) then Err corrupt_store
             else Ok True))))
      else Err corrupt_store)"

definition validate_completion_request ::
  "wf_codec \<Rightarrow> workflow_store \<Rightarrow> work_item_execution \<Rightarrow> pending_completion \<Rightarrow> bool wf_result" where
  "validate_completion_request C s w request =
     try_bind (ok_or (om_get (ws_completion s) (pc_request_id request)) corrupt_store) (\<lambda>row.
     try_bind (decode_payload (kr_request row)) (\<lambda>stored.
     if pc_schema_version stored \<noteq> WORKFLOW_SCHEMA_VERSION then Err corrupt_store
     else if stored \<noteq> request then Err idempotency_conflict
     else
       try_bind (stored_u64 (kr_updated_at row)) (\<lambda>updated_at.
       if kr_invocation_id row \<noteq> pc_invocation_id request \<or> kr_tenant_id row \<noteq> wi_tenant_id w
          \<or> kr_project_id row \<noteq> wi_project_id w \<or> kr_work_item_id row \<noteq> wi_work_item_id w \<or> kr_attempts row \<noteq> 0
          \<or> updated_at < pc_created_at request \<or> pc_plan_id request \<noteq> ep_plan_id (wi_plan w)
          \<or> pc_plan_digest request \<noteq> ep_request_digest (wi_plan w)
          \<or> \<not> constant_time_eq (completion_digest C request) (pc_request_digest request)
       then Err corrupt_store
       else
         try_bind (ok_or (List.find (\<lambda>st. es_step_id st = pc_step_id request) (ep_steps (wi_plan w))) corrupt_store) (\<lambda>st.
         if es_invocation_id st \<noteq> pc_invocation_id request \<or> pc_step_digest request \<noteq> step_digest C st
            \<or> pc_request_id request \<noteq> completion_request_identity C (pc_plan_id request) (pc_step_id request)
                (pc_invocation_id request) (pc_plan_digest request)
         then Err corrupt_store
         else try_bind (validate_completion_source s w request st) (\<lambda>_.
           completion_outcome C w request st row)))))"

definition gate_outcome :: "work_item_execution \<Rightarrow> pending_gate \<Rightarrow> gate_row \<Rightarrow> bool wf_result" where
  "gate_outcome w request row =
     (if gr_state row = ''pending'' \<and> gr_evidence row = None then
        try_bind (stored_u64 (gr_updated_at row)) (\<lambda>updated_at.
        if wi_state w \<noteq> InReview \<or> unat (wi_next_step_ordinal w) + 1 \<noteq> length (ep_steps (wi_plan w))
           \<or> wi_gate_evidence w \<noteq> None \<or> wi_blocker_code w \<noteq> None \<or> updated_at \<noteq> pg_created_at request
        then Err corrupt_store else Ok False)
      else if gr_state row = ''completed'' \<and> gr_evidence row \<noteq> None then
        (case gr_evidence row of
           None \<Rightarrow> Err corrupt_store
         | Some bytes \<Rightarrow>
             try_bind (decode_payload bytes) (\<lambda>e.
             if ge_schema_version e \<noteq> WORKFLOW_SCHEMA_VERSION \<or> ge_profile_id e \<noteq> gx_profile_id (pg_expectation request)
                \<or> ge_profile_generation e \<noteq> gx_profile_generation (pg_expectation request)
                \<or> ge_profile_digest e \<noteq> gx_profile_digest (pg_expectation request)
                \<or> ge_subject_digest e \<noteq> pg_subject_digest request
                \<or> ge_required_checks_digest e \<noteq> pg_required_checks_digest request \<or> \<not> ge_passed e \<or> ge_receipt_id e = []
                \<or> ge_completed_at e < pg_created_at request \<or> ge_completed_at e > ep_deadline (wi_plan w)
                \<or> wi_state w \<noteq> Done \<or> wi_gate_evidence w \<noteq> Some e
             then Err corrupt_store else Ok True))
      else if gr_state row = ''timed_out'' \<and> gr_evidence row = None then
        try_bind (stored_u64 (gr_updated_at row)) (\<lambda>updated_at.
        if updated_at < ep_deadline (wi_plan w) \<or> wi_updated_at w \<noteq> updated_at \<or> wi_state w \<noteq> Blocked
           \<or> wi_blocker_code w \<noteq> Some ''gate_timed_out'' \<or> wi_gate_evidence w \<noteq> None
        then Err corrupt_store else Ok True)
      else Err corrupt_store)"

definition validate_gate_request ::
  "wf_codec \<Rightarrow> workflow_store \<Rightarrow> work_item_execution \<Rightarrow> pending_gate \<Rightarrow> bool wf_result" where
  "validate_gate_request C s w request =
     try_bind (ok_or (om_get (ws_gate s) (pg_request_id request)) corrupt_store) (\<lambda>row.
     try_bind (decode_payload (gr_request row)) (\<lambda>stored.
     if pg_schema_version stored \<noteq> WORKFLOW_SCHEMA_VERSION then Err corrupt_store
     else if stored \<noteq> request then Err idempotency_conflict
     else
       try_bind (stored_u64 (gr_updated_at row)) (\<lambda>updated_at.
       if gr_plan_id row \<noteq> pg_plan_id request \<or> gr_tenant_id row \<noteq> wi_tenant_id w
          \<or> gr_project_id row \<noteq> wi_project_id w \<or> gr_work_item_id row \<noteq> wi_work_item_id w \<or> gr_attempts row \<noteq> 0
          \<or> updated_at < pg_created_at request \<or> pg_plan_id request \<noteq> ep_plan_id (wi_plan w)
          \<or> pg_plan_digest request \<noteq> ep_request_digest (wi_plan w)
          \<or> \<not> constant_time_eq (gate_digest C request) (pg_request_digest request)
       then Err corrupt_store
       else
         try_bind (ok_or (wi_terminal_evidence w) corrupt_store) (\<lambda>terminal.
         if ep_steps (wi_plan w) = [] then Err corrupt_store
         else
           let expectation = es_gate_expectation (last (ep_steps (wi_plan w))) in
           if pg_execution_receipt_id request \<noteq> ee_receipt_id terminal \<or> pg_expectation request \<noteq> expectation
              \<or> pg_subject_digest request \<noteq> execution_subject_digest C (wi_plan w) terminal
              \<or> pg_required_checks_digest request \<noteq> required_checks_digest C expectation
              \<or> pg_request_id request \<noteq> gate_request_identity C (pg_plan_id request) (pg_plan_digest request)
                  (pg_execution_receipt_id request)
           then Err corrupt_store
           else gate_outcome w request row))))"

section \<open>Admission\<close>

definition validate_operation_response :: "wf_codec \<Rightarrow> work_item_execution \<Rightarrow> execution_plan \<Rightarrow> u64 \<Rightarrow> unit wf_result" where
  "validate_operation_response C response p created_at =
     try_bind (validate_stored_work_item C response (ep_tenant_id p) (ep_project_id p) (ep_work_item_id p) (wi_version response)) (\<lambda>_.
     ensure
       (\<not> (wi_plan response \<noteq> p \<or> wi_state response \<noteq> Claimed \<or> wi_version response \<noteq> 1 \<or> wi_next_step_ordinal response \<noteq> 0
          \<or> wi_terminal_evidence response \<noteq> None \<or> wi_gate_evidence response \<noteq> None \<or> wi_blocker_code response \<noteq> None
          \<or> wi_updated_at response \<noteq> created_at))
       corrupt_store)"

definition first_pending :: "wf_codec \<Rightarrow> execution_plan \<Rightarrow> execution_step \<Rightarrow> string \<Rightarrow> u64 \<Rightarrow> pending_execution" where
  "first_pending C p st authority now =
     \<lparr>px_schema_version = WORKFLOW_SCHEMA_VERSION, px_plan_id = ep_plan_id p, px_plan_digest = ep_request_digest p,
      px_step = st, px_authority_digest = authority, px_state = NotFound, px_attempts = 0,
      px_created_at = now, px_updated_at = now\<rparr>"

definition claimed_work_item :: "execution_plan \<Rightarrow> u64 \<Rightarrow> u64 \<Rightarrow> work_item_execution" where
  "claimed_work_item p version now =
     \<lparr>wi_schema_version = WORKFLOW_SCHEMA_VERSION, wi_tenant_id = ep_tenant_id p, wi_project_id = ep_project_id p,
      wi_work_item_id = ep_work_item_id p, wi_agent_id = ep_agent_id p, wi_state = Claimed, wi_version = version,
      wi_plan = p, wi_next_step_ordinal = 0, wi_terminal_evidence = None, wi_gate_evidence = None,
      wi_blocker_code = None, wi_updated_at = now\<rparr>"

definition admit_replay ::
  "wf_codec \<Rightarrow> execution_plan \<Rightarrow> operation_row \<Rightarrow> workflow_store \<Rightarrow> (workflow_store \<times> bool \<times> work_item_execution) wf_result" where
  "admit_replay C p row s =
     (if \<not> constant_time_eq (or_request_digest row) (ep_request_digest p) then Err idempotency_conflict
      else
        try_bind (decode_work_item (or_response row)) (\<lambda>response.
        try_bind (stored_u64 (or_created_at row)) (\<lambda>created_at.
        try_bind (validate_operation_response C response p created_at) (\<lambda>_.
        try_bind (read_plan_version C s (ep_tenant_id p) (ep_project_id p) (ep_work_item_id p) (ep_plan_id p)) (\<lambda>found.
        try_bind (ok_or found corrupt_store) (\<lambda>current.
        if wi_plan current \<noteq> p then Err corrupt_store else Ok (s, True, response)))))))"

definition record_admission ::
  "wf_codec \<Rightarrow> execution_plan \<Rightarrow> runtime_authority \<Rightarrow> u64 \<Rightarrow> workflow_store
   \<Rightarrow> (workflow_store \<times> bool \<times> work_item_execution) wf_result" where
  "record_admission C p authority now s =
     (let pending = first_pending C p (hd (ep_steps p)) (authority_digest C authority) now;
          w = claimed_work_item p 1 now in
      try_bind (put_work_item C w s) (\<lambda>s.
      try_bind (insert_execution p pending s) (\<lambda>s.
      try_bind (append_audit w ''execution_plan_admitted'' None Claimed (authority_digest C authority) (ep_request_digest p) now s) (\<lambda>s.
      try_bind (insert_operation (operation_namespace p) (ep_plan_id p) (ep_request_digest p) (RespWorkItem w) now s) (\<lambda>s.
      Ok (s, False, w))))))"

definition admit_plan_tx ::
  "wf_codec \<Rightarrow> execution_plan \<Rightarrow> runtime_authority \<Rightarrow> u64 \<Rightarrow> workflow_store
   \<Rightarrow> (workflow_store \<times> bool \<times> work_item_execution) wf_result" where
  "admit_plan_tx C p authority now s =
     (case read_operation s (operation_namespace p) (ep_plan_id p) of
        Some row \<Rightarrow> admit_replay C p row s
      | None \<Rightarrow>
          try_bind (read_work_item C s (ep_tenant_id p) (ep_project_id p) (ep_work_item_id p)) (\<lambda>existing.
          case existing of
            Some w \<Rightarrow>
              if wi_plan w = p then Err corrupt_store
              else Err (workflow_error_new VersionConflict False ''work item already has a different execution plan'')
          | None \<Rightarrow>
              try_bind (validate_at C p now) (\<lambda>_.
              if ep_steps p = [] then Err (workflow_error_new InvalidInput False ''plan has no step'')
              else record_admission C p authority now s)))"

definition admit_plan ::
  "wf_codec \<Rightarrow> workflow_error option \<Rightarrow> execution_plan \<Rightarrow> runtime_authority \<Rightarrow> u64 \<Rightarrow> workflow_store
   \<Rightarrow> (bool \<times> work_item_execution) wf_result \<times> workflow_store" where
  "admit_plan C fault p authority now s =
     (case try_bind (validate_canonical C p) (\<lambda>_.
           try_bind (authority_validate authority) (\<lambda>_.
           ensure (authority_matches p authority) store_authority_conflict)) of
        Inl e \<Rightarrow> (Err e, s)
      | Inr _ \<Rightarrow> wf_transact fault (admit_plan_tx C p authority now) s)"

section \<open>Execution\<close>

fun observation_effect :: "reconcile_state \<Rightarrow> work_item_state \<Rightarrow> work_item_state \<times> string option" where
  "observation_effect NotFound st = (st, None)"
| "observation_effect Reserved st = (InProgress, None)"
| "observation_effect Executing st = (InProgress, None)"
| "observation_effect Succeeded st = (st, None)"
| "observation_effect Failed st = (Blocked, Some ''execution_failed'')"
| "observation_effect RunCancelled st = (Cancelled, Some ''execution_cancelled'')"
| "observation_effect TimedOut st = (Blocked, Some ''execution_timed_out'')"
| "observation_effect UnknownOutcome st = (Blocked, Some ''execution_unknown_outcome'')"

definition bounded_observation :: "pending_execution \<Rightarrow> reconcile_state \<Rightarrow> reconcile_state" where
  "bounded_observation request state =
     (if state = NotFound \<and> saturating_add (px_attempts request) 1 \<ge> MAX_NOT_FOUND_RECONCILES then UnknownOutcome else state)"

definition update_execution ::
  "pending_execution \<Rightarrow> pending_execution \<Rightarrow> u64 \<Rightarrow> workflow_store \<Rightarrow> workflow_store wf_result" where
  "update_execution request persisted now s =
     try_bind (sql_u64 now) (\<lambda>at.
     case om_get (ws_execution s) (es_invocation_id (px_step request)) of
       Some row \<Rightarrow>
         if xr_state row = execution_database_state (px_state request)
         then Ok (s\<lparr>ws_execution := om_insert (es_invocation_id (px_step request))
           (row\<lparr>xr_state := execution_database_state (px_state persisted), xr_request := Json persisted,
              xr_attempts := uint (px_attempts persisted), xr_updated_at := at\<rparr>) (ws_execution s)\<rparr>)
         else Err corrupt_store
     | None \<Rightarrow> Err corrupt_store)"

definition observed_request :: "pending_execution \<Rightarrow> reconcile_state \<Rightarrow> u64 \<Rightarrow> pending_execution" where
  "observed_request request state now =
     request\<lparr>px_state := state, px_attempts := saturating_add (px_attempts request) 1, px_updated_at := now\<rparr>"

definition observed_work_item :: "work_item_execution \<Rightarrow> reconcile_state \<Rightarrow> u64 \<Rightarrow> work_item_execution" where
  "observed_work_item w state now =
     (let effect = observation_effect state (wi_state w) in
      w\<lparr>wi_state := fst effect, wi_blocker_code := snd effect, wi_version := saturating_add (wi_version w) 1, wi_updated_at := now\<rparr>)"

definition record_observed ::
  "wf_codec \<Rightarrow> work_item_execution \<Rightarrow> pending_execution \<Rightarrow> reconcile_state \<Rightarrow> runtime_authority \<Rightarrow> u64 \<Rightarrow> workflow_store
   \<Rightarrow> (workflow_store \<times> work_item_execution) wf_result" where
  "record_observed C w request state authority now s =
     (let w' = observed_work_item w state now in
      try_bind (update_execution request (observed_request request state now) now s) (\<lambda>s.
      try_bind (if state = Succeeded then insert_completion_request C w' request authority now s else Ok s) (\<lambda>s.
      try_bind (put_work_item C w' s) (\<lambda>s.
      try_bind (append_audit w' ''execution_reconciled'' (Some (wi_state w)) (wi_state w') (authority_digest C authority)
        (step_digest C (px_step request)) now s) (\<lambda>s.
      Ok (s, w'))))))"

definition record_execution_tx ::
  "wf_codec \<Rightarrow> pending_execution \<Rightarrow> reconcile_state \<Rightarrow> runtime_authority \<Rightarrow> u64 \<Rightarrow> workflow_store
   \<Rightarrow> (workflow_store \<times> work_item_execution) wf_result" where
  "record_execution_tx C request observed authority now s =
     try_bind (read_work_item_by_invocation C s (es_invocation_id (px_step request))) (\<lambda>found.
     try_bind (ok_or found corrupt_store) (\<lambda>w.
     try_bind (validate_execution_request s w request) (\<lambda>_.
     try_bind (validate_monotonic_time now (px_updated_at request) (wi_updated_at w)) (\<lambda>_.
     if \<not> authority_matches (wi_plan w) authority \<or> px_authority_digest request \<noteq> authority_digest C authority
     then Err store_authority_conflict
     else record_observed C w request (bounded_observation request observed) authority now s))))"

definition record_execution_observation ::
  "wf_codec \<Rightarrow> workflow_error option \<Rightarrow> pending_execution \<Rightarrow> reconcile_state \<Rightarrow> runtime_authority \<Rightarrow> u64 \<Rightarrow> workflow_store
   \<Rightarrow> work_item_execution wf_result \<times> workflow_store" where
  "record_execution_observation C fault request observed authority now s =
     (case authority_validate authority of
        Inl e \<Rightarrow> (Err e, s)
      | Inr _ \<Rightarrow> wf_transact fault (record_execution_tx C request observed authority now) s)"

definition execution_work_item :: "wf_codec \<Rightarrow> workflow_store \<Rightarrow> pending_execution \<Rightarrow> work_item_execution wf_result" where
  "execution_work_item C s request =
     try_bind (read_work_item_by_invocation C s (es_invocation_id (px_step request))) (\<lambda>found.
     try_bind (ok_or found corrupt_store) (\<lambda>w.
     try_bind (validate_execution_request s w request) (\<lambda>_. Ok w)))"

section \<open>Completion evidence\<close>

definition completion_work_item ::
  "wf_codec \<Rightarrow> workflow_store \<Rightarrow> pending_completion \<Rightarrow> (work_item_execution \<times> bool) wf_result" where
  "completion_work_item C s request =
     try_bind (read_work_item_by_invocation C s (pc_invocation_id request)) (\<lambda>found.
     try_bind (ok_or found corrupt_store) (\<lambda>w.
     try_bind (validate_completion_request C s w request) (\<lambda>completed. Ok (w, completed))))"

definition complete_row :: "pending_completion \<Rightarrow> execution_evidence \<Rightarrow> u64 \<Rightarrow> workflow_store \<Rightarrow> workflow_store wf_result" where
  "complete_row request e now s =
     try_bind (sql_u64 now) (\<lambda>at.
     case om_get (ws_completion s) (pc_request_id request) of
       Some row \<Rightarrow>
         if kr_state row = ''pending''
         then Ok (s\<lparr>ws_completion := om_insert (pc_request_id request)
           (row\<lparr>kr_state := ''completed'', kr_evidence := Some (Json e), kr_updated_at := at\<rparr>) (ws_completion s)\<rparr>)
         else Err corrupt_store
     | None \<Rightarrow> Err corrupt_store)"

definition advance_work_item ::
  "wf_codec \<Rightarrow> work_item_execution \<Rightarrow> execution_evidence \<Rightarrow> runtime_authority \<Rightarrow> u64 \<Rightarrow> workflow_store
   \<Rightarrow> (workflow_store \<times> work_item_execution) wf_result" where
  "advance_work_item C w e authority now s =
     (let ordinal = unat (wi_next_step_ordinal w) in
      if ordinal + 1 < length (ep_steps (wi_plan w)) then
        let pending = first_pending C (wi_plan w) (ep_steps (wi_plan w) ! (ordinal + 1)) (authority_digest C authority) now in
        try_bind (insert_execution (wi_plan w) pending s) (\<lambda>s.
        Ok (s, w\<lparr>wi_next_step_ordinal := saturating_add (wi_next_step_ordinal w) 1, wi_state := InProgress\<rparr>))
      else
        let w' = w\<lparr>wi_terminal_evidence := Some e, wi_state := InReview\<rparr> in
        try_bind (build_gate_request C w' authority e now) (\<lambda>gate.
        try_bind (insert_gate_request w' gate now s) (\<lambda>s. Ok (s, w'))))"

definition record_completed ::
  "wf_codec \<Rightarrow> work_item_execution \<Rightarrow> pending_completion \<Rightarrow> execution_evidence \<Rightarrow> runtime_authority \<Rightarrow> u64 \<Rightarrow> workflow_store
   \<Rightarrow> (workflow_store \<times> work_item_execution) wf_result" where
  "record_completed C w request e authority now s =
     try_bind (complete_row request e now s) (\<lambda>s.
     try_bind (advance_work_item C w e authority now s) (\<lambda>(s, w1).
     let w' = w1\<lparr>wi_version := saturating_add (wi_version w1) 1, wi_updated_at := now\<rparr> in
     try_bind (put_work_item C w' s) (\<lambda>s.
     try_bind (append_audit w' ''terminal_execution_evidence_recorded'' (Some (wi_state w)) (wi_state w')
       (authority_digest C authority) (ee_output_bundle_digest e) now s) (\<lambda>s.
     Ok (s, w')))))"

definition record_terminal_tx ::
  "wf_codec \<Rightarrow> pending_completion \<Rightarrow> execution_evidence \<Rightarrow> runtime_authority \<Rightarrow> u64 \<Rightarrow> workflow_store
   \<Rightarrow> (workflow_store \<times> work_item_execution) wf_result" where
  "record_terminal_tx C request e authority now s =
     try_bind (read_work_item_by_invocation C s (pc_invocation_id request)) (\<lambda>found.
     try_bind (ok_or found corrupt_store) (\<lambda>w.
     try_bind (validate_completion_request C s w request) (\<lambda>_.
     try_bind (validate_monotonic_time now (pc_created_at request) (wi_updated_at w)) (\<lambda>_.
     if \<not> authority_matches (wi_plan w) authority \<or> pc_authority_digest request \<noteq> authority_digest C authority
     then Err store_authority_conflict
     else
       try_bind (ok_or (List.find (\<lambda>st. es_step_id st = pc_step_id request) (ep_steps (wi_plan w))) corrupt_store) (\<lambda>st.
       try_bind (validate_execution_evidence request e now (es_deadline st) (ep_deadline (wi_plan w))) (\<lambda>_.
       try_bind (ok_or (om_get (ws_completion s) (pc_request_id request)) corrupt_store) (\<lambda>row.
       if kr_state row = ''completed'' then
         try_bind (ok_or (kr_evidence row) corrupt_store) (\<lambda>bytes.
         try_bind (decode_payload bytes) (\<lambda>existing.
         if existing \<noteq> e then Err idempotency_conflict else Ok (s, w)))
       else if kr_state row \<noteq> ''pending'' \<or> kr_evidence row \<noteq> None then Err corrupt_store
       else record_completed C w request e authority now s)))))))"

definition record_terminal_evidence ::
  "wf_codec \<Rightarrow> workflow_error option \<Rightarrow> pending_completion \<Rightarrow> execution_evidence \<Rightarrow> runtime_authority \<Rightarrow> u64 \<Rightarrow> workflow_store
   \<Rightarrow> work_item_execution wf_result \<times> workflow_store" where
  "record_terminal_evidence C fault request e authority now s =
     (case authority_validate authority of
        Inl err \<Rightarrow> (Err err, s)
      | Inr _ \<Rightarrow> wf_transact fault (record_terminal_tx C request e authority now) s)"

section \<open>Gate evidence\<close>

definition gate_work_item :: "wf_codec \<Rightarrow> workflow_store \<Rightarrow> pending_gate \<Rightarrow> (work_item_execution \<times> bool) wf_result" where
  "gate_work_item C s request =
     try_bind (read_work_item_by_plan C s (pg_plan_id request)) (\<lambda>found.
     try_bind (ok_or found corrupt_store) (\<lambda>w.
     try_bind (validate_gate_request C s w request) (\<lambda>completed. Ok (w, completed))))"

definition close_gate_row :: "pending_gate \<Rightarrow> string \<Rightarrow> gate_evidence payload option \<Rightarrow> u64 \<Rightarrow> workflow_store \<Rightarrow> workflow_store wf_result" where
  "close_gate_row request state e now s =
     try_bind (sql_u64 now) (\<lambda>at.
     case om_get (ws_gate s) (pg_request_id request) of
       Some row \<Rightarrow>
         if gr_state row = ''pending''
         then Ok (s\<lparr>ws_gate := om_insert (pg_request_id request)
           (row\<lparr>gr_state := state, gr_evidence := (case e of Some b \<Rightarrow> Some b | None \<Rightarrow> gr_evidence row), gr_updated_at := at\<rparr>) (ws_gate s)\<rparr>)
         else Err corrupt_store
     | None \<Rightarrow> Err corrupt_store)"

definition record_gate_expired ::
  "wf_codec \<Rightarrow> work_item_execution \<Rightarrow> pending_gate \<Rightarrow> runtime_authority \<Rightarrow> u64 \<Rightarrow> workflow_store
   \<Rightarrow> (workflow_store \<times> work_item_execution) wf_result" where
  "record_gate_expired C w request authority now s =
     (let w' = w\<lparr>wi_state := Blocked, wi_blocker_code := Some ''gate_timed_out'',
        wi_version := saturating_add (wi_version w) 1, wi_updated_at := now\<rparr> in
      try_bind (close_gate_row request ''timed_out'' None now s) (\<lambda>s.
      try_bind (put_work_item C w' s) (\<lambda>s.
      try_bind (append_audit w' ''gate_timed_out'' (Some (wi_state w)) Blocked (authority_digest C authority)
        (pg_request_digest request) now s) (\<lambda>s.
      Ok (s, w')))))"

definition record_gate_timeout_tx ::
  "wf_codec \<Rightarrow> pending_gate \<Rightarrow> runtime_authority \<Rightarrow> u64 \<Rightarrow> workflow_store \<Rightarrow> (workflow_store \<times> work_item_execution) wf_result" where
  "record_gate_timeout_tx C request authority now s =
     try_bind (read_work_item_by_plan C s (pg_plan_id request)) (\<lambda>found.
     try_bind (ok_or found corrupt_store) (\<lambda>w.
     try_bind (validate_gate_request C s w request) (\<lambda>completed.
     if completed then Ok (s, w)
     else
       try_bind (validate_monotonic_time now (pg_created_at request) (wi_updated_at w)) (\<lambda>_.
       if now < ep_deadline (wi_plan w) \<or> \<not> authority_matches (wi_plan w) authority
          \<or> pg_authority_digest request \<noteq> authority_digest C authority
       then Err store_authority_conflict
       else record_gate_expired C w request authority now s))))"

definition record_gate_timeout ::
  "wf_codec \<Rightarrow> workflow_error option \<Rightarrow> pending_gate \<Rightarrow> runtime_authority \<Rightarrow> u64 \<Rightarrow> workflow_store
   \<Rightarrow> work_item_execution wf_result \<times> workflow_store" where
  "record_gate_timeout C fault request authority now s =
     (case authority_validate authority of
        Inl e \<Rightarrow> (Err e, s)
      | Inr _ \<Rightarrow> wf_transact fault (record_gate_timeout_tx C request authority now) s)"

definition record_gate_passed ::
  "wf_codec \<Rightarrow> work_item_execution \<Rightarrow> pending_gate \<Rightarrow> gate_evidence \<Rightarrow> runtime_authority \<Rightarrow> u64 \<Rightarrow> workflow_store
   \<Rightarrow> (workflow_store \<times> work_item_execution) wf_result" where
  "record_gate_passed C w request e authority now s =
     try_bind (close_gate_row request ''completed'' (Some (Json e)) now s) (\<lambda>s.
     if wi_state w \<noteq> InReview \<or> wi_terminal_evidence w = None \<or> \<not> ge_passed e
     then Err (workflow_error_new InvalidTransition False
       ''work item cannot become done without terminal execution and independent gate evidence'')
     else
       let w' = w\<lparr>wi_gate_evidence := Some e, wi_state := Done,
             wi_version := saturating_add (wi_version w) 1, wi_updated_at := now\<rparr> in
       try_bind (put_work_item C w' s) (\<lambda>s.
       try_bind (append_audit w' ''independent_work_item_gate_recorded'' (Some (wi_state w)) Done (authority_digest C authority)
         (ge_subject_digest e) now s) (\<lambda>s.
       Ok (s, w'))))"

definition record_gate_tx ::
  "wf_codec \<Rightarrow> pending_gate \<Rightarrow> gate_evidence \<Rightarrow> runtime_authority \<Rightarrow> u64 \<Rightarrow> workflow_store
   \<Rightarrow> (workflow_store \<times> work_item_execution) wf_result" where
  "record_gate_tx C request e authority now s =
     try_bind (read_work_item_by_plan C s (pg_plan_id request)) (\<lambda>found.
     try_bind (ok_or found corrupt_store) (\<lambda>w.
     try_bind (validate_gate_request C s w request) (\<lambda>_.
     try_bind (validate_monotonic_time now (pg_created_at request) (wi_updated_at w)) (\<lambda>_.
     if \<not> authority_matches (wi_plan w) authority \<or> pg_authority_digest request \<noteq> authority_digest C authority
     then Err store_authority_conflict
     else
       try_bind (validate_gate_evidence request e now (ep_deadline (wi_plan w))) (\<lambda>_.
       try_bind (ok_or (om_get (ws_gate s) (pg_request_id request)) corrupt_store) (\<lambda>row.
       if gr_state row = ''completed'' then
         try_bind (ok_or (gr_evidence row) corrupt_store) (\<lambda>bytes.
         try_bind (decode_payload bytes) (\<lambda>existing.
         if existing \<noteq> e then Err idempotency_conflict else Ok (s, w)))
       else if gr_state row \<noteq> ''pending'' \<or> gr_evidence row \<noteq> None then Err corrupt_store
       else record_gate_passed C w request e authority now s))))))"

definition record_gate_evidence ::
  "wf_codec \<Rightarrow> workflow_error option \<Rightarrow> pending_gate \<Rightarrow> gate_evidence \<Rightarrow> runtime_authority \<Rightarrow> u64 \<Rightarrow> workflow_store
   \<Rightarrow> work_item_execution wf_result \<times> workflow_store" where
  "record_gate_evidence C fault request e authority now s =
     (case authority_validate authority of
        Inl err \<Rightarrow> (Err err, s)
      | Inr _ \<Rightarrow> wf_transact fault (record_gate_tx C request e authority now) s)"

section \<open>Revisions\<close>

definition completed_step_check ::
  "wf_codec \<Rightarrow> workflow_store \<Rightarrow> work_item_execution \<Rightarrow> nat \<Rightarrow> nat \<times> execution_step \<Rightarrow> unit wf_result" where
  "completed_step_check C s w executed = (\<lambda>(ordinal, st).
     try_bind (ok_or (om_get (ws_execution s) (es_invocation_id st)) corrupt_store) (\<lambda>row.
     try_bind (decode_payload (xr_request row)) (\<lambda>request.
     let failed = (wi_state w = Blocked \<and> ordinal + 1 = executed);
         expected = (if failed then Failed else Succeeded) in
     try_bind (stored_u16 (xr_step_ordinal row)) (\<lambda>row_ordinal.
     try_bind (stored_u16 (xr_attempts row)) (\<lambda>attempts.
     try_bind (stored_u64 (xr_updated_at row)) (\<lambda>updated_at.
     if px_schema_version request \<noteq> WORKFLOW_SCHEMA_VERSION \<or> px_created_at request > px_updated_at request
        \<or> \<not> validate_sha256 (px_authority_digest request) \<or> px_plan_id request \<noteq> ep_plan_id (wi_plan w)
        \<or> px_plan_digest request \<noteq> ep_request_digest (wi_plan w) \<or> px_step request \<noteq> st \<or> px_state request \<noteq> expected
        \<or> xr_state row \<noteq> execution_database_state expected \<or> xr_tenant_id row \<noteq> wi_tenant_id w
        \<or> xr_project_id row \<noteq> wi_project_id w \<or> xr_work_item_id row \<noteq> wi_work_item_id w
        \<or> xr_plan_digest row \<noteq> ep_request_digest (wi_plan w) \<or> row_ordinal \<noteq> es_ordinal st
        \<or> attempts \<noteq> px_attempts request \<or> updated_at \<noteq> px_updated_at request
     then Err corrupt_store
     else if failed then Ok ()
     else
       try_bind (ok_or (om_get (ws_completion s) (completion_request_identity C (ep_plan_id (wi_plan w)) (es_step_id st)
         (es_invocation_id st) (ep_request_digest (wi_plan w)))) corrupt_store) (\<lambda>krow.
       try_bind (decode_payload (kr_request krow)) (\<lambda>completion.
       try_bind (validate_completion_request C s w completion) (\<lambda>completed.
       ensure completed corrupt_store)))))))))"

definition open_rows :: "workflow_store \<Rightarrow> work_item_execution \<Rightarrow> bool" where
  "open_rows s w \<longleftrightarrow>
     list_ex (\<lambda>row. kr_tenant_id row = wi_tenant_id w \<and> kr_project_id row = wi_project_id w
        \<and> kr_work_item_id row = wi_work_item_id w \<and> kr_state row \<noteq> ''completed'') (om_values (ws_completion s))
     \<or> list_ex (\<lambda>row. gr_tenant_id row = wi_tenant_id w \<and> gr_project_id row = wi_project_id w
        \<and> gr_work_item_id row = wi_work_item_id w \<and> gr_state row \<noteq> ''completed'') (om_values (ws_gate s))"

definition require_completed_source :: "wf_codec \<Rightarrow> workflow_store \<Rightarrow> work_item_execution \<Rightarrow> unit wf_result" where
  "require_completed_source C s w =
     (if wi_state w \<noteq> Done \<and> \<not> (wi_state w = Blocked \<and> wi_blocker_code w = Some ''execution_failed'')
      then Err invalid_revision
      else
        let executed = unat (wi_next_step_ordinal w) + 1 in
        try_bind (try_each (completed_step_check C s w executed) (enumerate 0 (take executed (ep_steps (wi_plan w))))) (\<lambda>_.
        try_bind (if wi_state w = Done then
            try_bind (ok_or (wi_terminal_evidence w) corrupt_store) (\<lambda>terminal.
            try_bind (ok_or (om_get (ws_gate s) (gate_request_identity C (ep_plan_id (wi_plan w)) (ep_request_digest (wi_plan w))
              (ee_receipt_id terminal))) corrupt_store) (\<lambda>row.
            try_bind (decode_payload (gr_request row)) (\<lambda>gate.
            try_bind (validate_gate_request C s w gate) (\<lambda>completed.
            ensure completed corrupt_store))))
          else Ok ()) (\<lambda>_.
        ensure (\<not> open_rows s w) invalid_revision)))"

definition admission_namespace :: "wf_codec \<Rightarrow> execution_plan \<Rightarrow> string" where
  "admission_namespace C p = ''revision-admission:'' @ subject_namespace C (ep_tenant_id p) (ep_project_id p) (ep_work_item_id p)"

definition revision_digest :: "wf_codec \<Rightarrow> execution_plan \<Rightarrow> execution_revision \<Rightarrow> string" where
  "revision_digest C p r = canonical_sha256 C ''sentinel.workflow.revision-admission.v1'' (CanonRevision p r)"

definition revision_replay ::
  "wf_codec \<Rightarrow> execution_plan \<Rightarrow> execution_revision \<Rightarrow> operation_row \<Rightarrow> workflow_store
   \<Rightarrow> (workflow_store \<times> bool \<times> work_item_execution) wf_result" where
  "revision_replay C p r row s =
     (if \<not> constant_time_eq (revision_digest C p r) (or_request_digest row) then Err idempotency_conflict
      else
        try_bind (decode_work_item (or_response row)) (\<lambda>admitted.
        try_bind (validate_stored_work_item C admitted (ep_tenant_id p) (ep_project_id p) (ep_work_item_id p) (wi_version admitted)) (\<lambda>_.
        try_bind (read_archive C s (history_namespace C (ep_tenant_id p) (ep_project_id p) (ep_work_item_id p))
          (er_previous_plan_id r)) (\<lambda>archived.
        try_bind (ok_or archived corrupt_store) (\<lambda>archive.
        try_bind (read_plan_version C s (ep_tenant_id p) (ep_project_id p) (ep_work_item_id p) (ep_plan_id p)) (\<lambda>found.
        try_bind (ok_or found corrupt_store) (\<lambda>current.
        try_bind (stored_u64 (or_created_at row)) (\<lambda>created_at.
        if wi_plan admitted \<noteq> p \<or> wi_state admitted \<noteq> Claimed
           \<or> Some (wi_version admitted) \<noteq> checked_add (er_previous_version r) 1 \<or> wi_updated_at admitted \<noteq> created_at
           \<or> ar_revision archive \<noteq> r \<or> ar_next_plan_id archive \<noteq> ep_plan_id p
           \<or> ar_next_plan_digest archive \<noteq> ep_request_digest p \<or> ar_archived_at archive \<noteq> wi_updated_at admitted
           \<or> wi_plan current \<noteq> p
        then Err corrupt_store else Ok (s, True, admitted)))))))))"

definition revision_count :: "workflow_store \<Rightarrow> string \<Rightarrow> nat" where
  "revision_count s namespace = length (filter (\<lambda>(key, _). fst key = namespace) (ws_operations s))"

definition record_revision ::
  "wf_codec \<Rightarrow> execution_plan \<Rightarrow> execution_revision \<Rightarrow> work_item_execution \<Rightarrow> runtime_authority \<Rightarrow> u64 \<Rightarrow> workflow_store
   \<Rightarrow> (workflow_store \<times> bool \<times> work_item_execution) wf_result" where
  "record_revision C p r previous authority now s =
     (let archive = \<lparr>ar_previous = previous, ar_revision = r, ar_next_plan_id = ep_plan_id p,
            ar_next_plan_digest = ep_request_digest p, ar_archived_at = now\<rparr>;
          pending = first_pending C p (ep_steps p ! 0) (authority_digest C authority) now in
      try_bind (insert_operation (history_namespace C (ep_tenant_id p) (ep_project_id p) (ep_work_item_id p))
        (ep_plan_id (wi_plan previous)) (archive_digest C archive) (RespArchive archive) now s) (\<lambda>s.
      try_bind (ok_or (checked_add (wi_version previous) 1) invalid_revision) (\<lambda>version.
      let admitted = claimed_work_item p version now in
      try_bind (write_current_work_item admitted s) (\<lambda>s.
      try_bind (insert_execution p pending s) (\<lambda>s.
      try_bind (append_audit admitted ''execution_revision_admitted'' (Some (wi_state previous)) Claimed
        (authority_digest C authority) (revision_digest C p r) now s) (\<lambda>s.
      try_bind (insert_operation (admission_namespace C p) (ep_plan_id p) (revision_digest C p r) (RespWorkItem admitted) now s) (\<lambda>s.
      Ok (s, False, admitted))))))))"

definition admit_revision_tx ::
  "wf_codec \<Rightarrow> execution_plan \<Rightarrow> execution_revision \<Rightarrow> runtime_authority \<Rightarrow> u64 \<Rightarrow> workflow_store
   \<Rightarrow> (workflow_store \<times> bool \<times> work_item_execution) wf_result" where
  "admit_revision_tx C p r authority now s =
     (case read_operation s (admission_namespace C p) (ep_plan_id p) of
        Some row \<Rightarrow> revision_replay C p r row s
      | None \<Rightarrow>
          let history = history_namespace C (ep_tenant_id p) (ep_project_id p) (ep_work_item_id p) in
          try_bind (validate_at C p now) (\<lambda>_.
          try_bind (read_work_item C s (ep_tenant_id p) (ep_project_id p) (ep_work_item_id p)) (\<lambda>found.
          try_bind (ok_or found invalid_revision) (\<lambda>previous.
          if ep_plan_id (wi_plan previous) \<noteq> er_previous_plan_id r \<or> ep_request_digest (wi_plan previous) \<noteq> er_previous_plan_digest r
             \<or> wi_version previous \<noteq> er_previous_version r \<or> state_digest C previous \<noteq> er_previous_state_digest r
             \<or> ep_plan_id (wi_plan previous) = ep_plan_id p \<or> \<not> authority_matches (wi_plan previous) authority
             \<or> now < wi_updated_at previous \<or> ep_created_at p < wi_updated_at previous
          then Err store_authority_conflict
          else
            try_bind (require_completed_source C s previous) (\<lambda>_.
            try_bind (read_plan_version C s (ep_tenant_id p) (ep_project_id p) (ep_work_item_id p) (ep_plan_id p)) (\<lambda>known.
            if known \<noteq> None then Err idempotency_conflict
            else if revision_count s history \<ge> MAX_EXECUTION_REVISIONS then Err invalid_revision
            else if list_ex (\<lambda>st. om_get (ws_execution s) (es_invocation_id st) \<noteq> None
                \<or> list_ex (\<lambda>old. es_step_id old = es_step_id st \<or> es_invocation_id old = es_invocation_id st) (ep_steps (wi_plan previous)))
              (ep_steps p)
            then Err idempotency_conflict
            else record_revision C p r previous authority now s))))))"

definition admit_revision_plan ::
  "wf_codec \<Rightarrow> workflow_error option \<Rightarrow> execution_plan \<Rightarrow> execution_revision \<Rightarrow> runtime_authority \<Rightarrow> u64 \<Rightarrow> workflow_store
   \<Rightarrow> (bool \<times> work_item_execution) wf_result \<times> workflow_store" where
  "admit_revision_plan C fault p r authority now s =
     (case try_bind (validate_canonical C p) (\<lambda>_.
           try_bind (authority_validate authority) (\<lambda>_.
           try_bind (ensure (\<not> (\<not> authority_matches p authority \<or> \<not> ra_active authority)) store_authority_conflict) (\<lambda>_.
           validate_revision r))) of
        Inl e \<Rightarrow> (Err e, s)
      | Inr _ \<Rightarrow> wf_transact fault (admit_revision_tx C p r authority now) s)"

section \<open>Timestamps and pending work\<close>

definition reserve_operation_timestamp ::
  "workflow_error option \<Rightarrow> string \<Rightarrow> uuid \<Rightarrow> string \<Rightarrow> u64 \<Rightarrow> workflow_store \<Rightarrow> (bool \<times> u64) wf_result \<times> workflow_store" where
  "reserve_operation_timestamp fault namespace operation digest now s =
     (if namespace = [] \<or> length namespace > 256
         \<or> \<not> list_all (\<lambda>c. is_ascii_alphanumeric c \<or> c \<in> set ''-_:.'') namespace
         \<or> operation = 0 \<or> \<not> validate_sha256 digest
      then (Err (workflow_error_new InvalidInput False ''operation timestamp reservation is invalid''), s)
      else wf_transact fault (\<lambda>s.
        case read_operation s namespace operation of
          Some row \<Rightarrow>
            if \<not> constant_time_eq (or_request_digest row) digest then Err idempotency_conflict
            else
              try_bind (stored_u64 (or_created_at row)) (\<lambda>stored_at.
              try_bind (decode_time (or_response row)) (\<lambda>response_at.
              if response_at \<noteq> stored_at \<or> stored_at > now then Err corrupt_store else Ok (s, True, stored_at)))
        | None \<Rightarrow>
            try_bind (insert_operation namespace operation digest (RespTime now) now s) (\<lambda>s. Ok (s, False, now))) s)"

definition page_limit :: "nat \<Rightarrow> nat" where
  "page_limit limit = max 1 (min 100 limit)"

definition validate_state_domain :: "('r \<Rightarrow> string) \<Rightarrow> string list \<Rightarrow> ('k, 'r) omap \<Rightarrow> unit wf_result" where
  "validate_state_domain state domain rows = ensure (list_all (\<lambda>row. state row \<in> set domain) (om_values rows)) corrupt_store"

definition read_pending ::
  "('r \<Rightarrow> bool) \<Rightarrow> ('r \<Rightarrow> int) \<Rightarrow> ('r \<Rightarrow> 'a payload) \<Rightarrow> ('a \<Rightarrow> u16) \<Rightarrow> nat \<Rightarrow> ('k::linorder, 'r) omap \<Rightarrow> 'a list wf_result" where
  "read_pending open updated request schema limit rows =
     try_collect (\<lambda>(_, row).
       try_bind (decode_payload (request row)) (\<lambda>v.
       if schema v \<noteq> WORKFLOW_SCHEMA_VERSION then Err corrupt_store else Ok v))
       (take (page_limit limit) (sort_key (\<lambda>(key, row). (updated row, key)) (filter (open \<circ> snd) rows)))"

definition pending_executions :: "nat \<Rightarrow> workflow_store \<Rightarrow> pending_execution list wf_result" where
  "pending_executions limit s =
     try_bind (validate_state_domain xr_state [''not_found'', ''reserved'', ''executing'', ''awaiting_evidence'', ''failed'',
       ''cancelled'', ''timed_out'', ''unknown_outcome''] (ws_execution s)) (\<lambda>_.
     read_pending (\<lambda>row. xr_state row \<in> {''not_found'', ''reserved'', ''executing''}) xr_updated_at xr_request px_schema_version limit (ws_execution s))"

definition pending_completion_evidence :: "nat \<Rightarrow> workflow_store \<Rightarrow> pending_completion list wf_result" where
  "pending_completion_evidence limit s =
     try_bind (validate_state_domain kr_state [''pending'', ''completed''] (ws_completion s)) (\<lambda>_.
     read_pending (\<lambda>row. kr_state row = ''pending'') kr_updated_at kr_request pc_schema_version limit (ws_completion s))"

definition pending_gate_evidence :: "nat \<Rightarrow> workflow_store \<Rightarrow> pending_gate list wf_result" where
  "pending_gate_evidence limit s =
     try_bind (validate_state_domain gr_state [''pending'', ''completed'', ''timed_out''] (ws_gate s)) (\<lambda>_.
     read_pending (\<lambda>row. gr_state row = ''pending'') gr_updated_at gr_request pg_schema_version limit (ws_gate s))"

end
