(* ===== verification/Workflow_Engine.thy ===== *)
theory Workflow_Engine
  imports Workflow_Operations
begin

text \<open>
  The workflow core over its ports: \<open>engine.rs\<close> and \<open>port.rs\<close> of
  \<open>crates/sentinel-workflow/src\<close>.  A port is what it answers during one call: its readiness,
  the organization's authority before and after the outside call, and the reply of the port itself.
\<close>

section \<open>Ports\<close>

datatype dependency_readiness = Ready | Unavailable

datatype port_error = PortUnavailable | PortAuthorityConflict | PortRejected | PortTimedOut | PortUnknownOutcome

record organization_port =
  op_readiness :: dependency_readiness
  op_before :: "(port_error, runtime_authority) result"
  op_after :: "(port_error, runtime_authority) result"

record execution_port =
  xp_readiness :: dependency_readiness
  xp_reconcile :: "(port_error, reconcile_state) result"

record completion_port =
  cp_readiness :: dependency_readiness
  cp_evidence :: "(port_error, execution_evidence) result"

record gate_port =
  gp_readiness :: dependency_readiness
  gp_evidence :: "(port_error, gate_evidence) result"

definition require_ready :: "dependency_readiness \<Rightarrow> workflow_error_code \<Rightarrow> unit wf_result" where
  "require_ready readiness code = ensure (readiness = Ready)
     (workflow_error_new code True ''required workflow dependency is unavailable'')"

definition authority_conflict :: workflow_error where
  "authority_conflict = workflow_error_new AuthorityConflict False ''workflow authority receipt is invalid or stale''"

fun map_port_error :: "workflow_error_code \<Rightarrow> port_error \<Rightarrow> workflow_error" where
  "map_port_error unavailable PortUnavailable = workflow_error_new unavailable True ''required workflow dependency is unavailable''"
| "map_port_error unavailable PortAuthorityConflict = authority_conflict"
| "map_port_error unavailable PortRejected = authority_conflict"
| "map_port_error unavailable PortTimedOut = workflow_error_new unavailable True ''workflow dependency timed out''"
| "map_port_error unavailable PortUnknownOutcome = workflow_error_new WfUnknownOutcome False ''workflow dependency outcome is unknown''"

definition ensure_same_authority :: "wf_codec \<Rightarrow> runtime_authority \<Rightarrow> runtime_authority \<Rightarrow> unit wf_result" where
  "ensure_same_authority C before after = ensure (before = after \<and> authority_digest C before = authority_digest C after) authority_conflict"

definition validate_pre_io_authority ::
  "wf_codec \<Rightarrow> work_item_execution \<Rightarrow> runtime_authority \<Rightarrow> string \<Rightarrow> u64 \<Rightarrow> u64 \<Rightarrow> unit wf_result" where
  "validate_pre_io_authority C w authority request_authority durable_updated now =
     try_bind (authority_validate authority) (\<lambda>_.
     if now < durable_updated \<or> now < wi_updated_at w
     then Err (workflow_error_new InvalidTransition False ''workflow clock regressed behind durable state'')
     else ensure (\<not> (\<not> authority_matches (wi_plan w) authority
         \<or> \<not> constant_time_eq request_authority (authority_digest C authority))) authority_conflict)"

text \<open>A computation that may fail before it reaches the store.\<close>

definition then_store :: "'a wf_result \<Rightarrow> ('a \<Rightarrow> workflow_store \<Rightarrow> 'b wf_result \<times> workflow_store) \<Rightarrow> workflow_store \<Rightarrow> 'b wf_result \<times> workflow_store" where
  "then_store r f s = (case r of Inl e \<Rightarrow> (Err e, s) | Inr x \<Rightarrow> f x s)"

section \<open>Admission\<close>

definition core_admit_plan ::
  "wf_codec \<Rightarrow> workflow_error option \<Rightarrow> organization_port \<Rightarrow> execution_plan \<Rightarrow> u64 \<Rightarrow> workflow_store
   \<Rightarrow> (bool \<times> work_item_execution) wf_result \<times> workflow_store" where
  "core_admit_plan C fault org p now =
     then_store (try_bind (validate_canonical C p) (\<lambda>_.
       try_bind (require_ready (op_readiness org) OrganizationUnavailable) (\<lambda>_.
       map_err (map_port_error OrganizationUnavailable) (op_before org))))
     (\<lambda>authority. admit_plan C fault p authority now)"

definition core_admit_revision_plan ::
  "wf_codec \<Rightarrow> workflow_error option \<Rightarrow> organization_port \<Rightarrow> execution_plan \<Rightarrow> execution_revision \<Rightarrow> u64 \<Rightarrow> workflow_store
   \<Rightarrow> (bool \<times> work_item_execution) wf_result \<times> workflow_store" where
  "core_admit_revision_plan C fault org p r now =
     then_store (try_bind (validate_canonical C p) (\<lambda>_.
       try_bind (require_ready (op_readiness org) OrganizationUnavailable) (\<lambda>_.
       map_err (map_port_error OrganizationUnavailable) (op_before org))))
     (\<lambda>authority. admit_revision_plan C fault p r authority now)"

section \<open>Reconciliation\<close>

text \<open>The authority read again after the outside call must be the one read before it.\<close>

definition authority_after ::
  "wf_codec \<Rightarrow> organization_port \<Rightarrow> work_item_execution \<Rightarrow> runtime_authority \<Rightarrow> string \<Rightarrow> u64 \<Rightarrow> u64 \<Rightarrow> runtime_authority wf_result" where
  "authority_after C org w before request_authority durable_updated now =
     try_bind (map_err (map_port_error OrganizationUnavailable) (op_after org)) (\<lambda>authority.
     try_bind (ensure_same_authority C before authority) (\<lambda>_.
     try_bind (validate_pre_io_authority C w authority request_authority durable_updated now) (\<lambda>_.
     Ok authority)))"

definition observe_execution ::
  "wf_codec \<Rightarrow> organization_port \<Rightarrow> execution_port \<Rightarrow> pending_execution \<Rightarrow> u64 \<Rightarrow> workflow_store
   \<Rightarrow> (reconcile_state \<times> runtime_authority) wf_result" where
  "observe_execution C org xp request now s =
     try_bind (require_ready (op_readiness org) OrganizationUnavailable) (\<lambda>_.
     try_bind (require_ready (xp_readiness xp) ExecutionUnavailable) (\<lambda>_.
     try_bind (execution_work_item C s request) (\<lambda>w.
     try_bind (map_err (map_port_error OrganizationUnavailable) (op_before org)) (\<lambda>before.
     try_bind (validate_pre_io_authority C w before (px_authority_digest request) (px_updated_at request) now) (\<lambda>_.
     if now \<ge> es_deadline (px_step request) \<or> now \<ge> ep_deadline (wi_plan w) then Ok (TimedOut, before)
     else
       case xp_reconcile xp of
         Inr state \<Rightarrow>
           try_bind (authority_after C org w before (px_authority_digest request) (px_updated_at request) now) (\<lambda>authority.
           Ok (state, authority))
       | Inl PortUnknownOutcome \<Rightarrow>
           try_bind (authority_after C org w before (px_authority_digest request) (px_updated_at request) now) (\<lambda>authority.
           Ok (UnknownOutcome, authority))
       | Inl e \<Rightarrow> Err (map_port_error ExecutionUnavailable e))))))"

definition reconcile_execution ::
  "wf_codec \<Rightarrow> workflow_error option \<Rightarrow> organization_port \<Rightarrow> execution_port \<Rightarrow> pending_execution \<Rightarrow> u64 \<Rightarrow> workflow_store
   \<Rightarrow> work_item_execution wf_result \<times> workflow_store" where
  "reconcile_execution C fault org xp request now s =
     then_store (observe_execution C org xp request now s)
       (\<lambda>(state, authority). record_execution_observation C fault request state authority now) s"

definition receipt_check ::
  "wf_codec \<Rightarrow> work_item_execution \<Rightarrow> pending_completion \<Rightarrow> execution_evidence \<Rightarrow> u64 \<Rightarrow> execution_evidence wf_result" where
  "receipt_check C w request receipt now =
     (if ee_schema_version receipt \<noteq> WORKFLOW_SCHEMA_VERSION \<or> ee_invocation_id receipt \<noteq> pc_invocation_id request
         \<or> ee_plan_digest receipt \<noteq> pc_plan_digest request \<or> ee_step_digest receipt \<noteq> pc_step_digest request
         \<or> ee_completed_at receipt < pc_created_at request \<or> ee_completed_at receipt > now
      then Err authority_conflict
      else
        try_bind (validate_identifier (ee_receipt_id receipt)) (\<lambda>_.
        try_bind (validate_digest (ee_output_bundle_digest receipt)) (\<lambda>_.
        try_bind (ok_or (List.find (\<lambda>st. es_step_id st = pc_step_id request) (ep_steps (wi_plan w))) authority_conflict) (\<lambda>st.
        if ee_completed_at receipt > es_deadline st \<or> ee_completed_at receipt > ep_deadline (wi_plan w)
           \<or> length (ee_outputs receipt) \<noteq> length (es_outputs st) \<or> length (ee_artifacts receipt) \<noteq> length (es_artifacts st)
        then Err authority_conflict
        else
          try_bind (try_each (\<lambda>(expected, observed).
              if so_name observed \<noteq> ox_name expected \<or> so_kind observed \<noteq> ox_kind expected
                 \<or> so_digest_algorithm observed \<noteq> ox_digest_algorithm expected
              then Err authority_conflict else validate_digest (so_digest observed)) (zip (es_outputs st) (ee_outputs receipt))) (\<lambda>_.
          try_bind (try_each (\<lambda>(expected, observed).
              if sa_artifact_kind observed \<noteq> ax_artifact_kind expected \<or> sa_media_type observed \<noteq> ax_media_type expected
                 \<or> sa_paths observed \<noteq> ax_required_paths expected
              then Err authority_conflict else validate_digest (sa_digest observed)) (zip (es_artifacts st) (ee_artifacts receipt))) (\<lambda>_.
          if \<not> constant_time_eq (sealed_output_bundle_digest C (ee_outputs receipt) (ee_artifacts receipt)) (ee_output_bundle_digest receipt)
          then Err authority_conflict
          else Ok (execution_evidence_new (ee_receipt_id receipt) (ee_invocation_id receipt) (ee_plan_digest receipt)
            (ee_step_digest receipt) (ee_output_bundle_digest receipt) (ee_outputs receipt) (ee_artifacts receipt)
            (ee_completed_at receipt))))))))"

definition observe_completion ::
  "wf_codec \<Rightarrow> organization_port \<Rightarrow> completion_port \<Rightarrow> work_item_execution \<Rightarrow> pending_completion \<Rightarrow> u64
   \<Rightarrow> (execution_evidence \<times> runtime_authority) wf_result" where
  "observe_completion C org cp w request now =
     try_bind (map_err (map_port_error OrganizationUnavailable) (op_before org)) (\<lambda>before.
     try_bind (validate_pre_io_authority C w before (pc_authority_digest request) (pc_created_at request) now) (\<lambda>_.
     try_bind (map_err (map_port_error CompletionUnavailable) (cp_evidence cp)) (\<lambda>receipt.
     try_bind (authority_after C org w before (pc_authority_digest request) (pc_created_at request) now) (\<lambda>authority.
     try_bind (receipt_check C w request receipt now) (\<lambda>e.
     Ok (e, authority))))))"

definition reconcile_completion_evidence ::
  "wf_codec \<Rightarrow> workflow_error option \<Rightarrow> organization_port \<Rightarrow> completion_port \<Rightarrow> pending_completion \<Rightarrow> u64 \<Rightarrow> workflow_store
   \<Rightarrow> work_item_execution wf_result \<times> workflow_store" where
  "reconcile_completion_evidence C fault org cp request now s =
     then_store
       (try_bind (require_ready (op_readiness org) OrganizationUnavailable) (\<lambda>_.
        try_bind (require_ready (cp_readiness cp) CompletionUnavailable) (\<lambda>_.
        completion_work_item C s request)))
       (\<lambda>(w, completed) s.
          if completed then (Ok w, s)
          else then_store (observe_completion C org cp w request now)
            (\<lambda>(e, authority). record_terminal_evidence C fault request e authority now) s) s"

definition gate_receipt_check :: "pending_gate \<Rightarrow> gate_evidence \<Rightarrow> u64 \<Rightarrow> unit wf_result" where
  "gate_receipt_check request receipt now = ensure
     (\<not> (ge_schema_version receipt \<noteq> WORKFLOW_SCHEMA_VERSION \<or> ge_profile_id receipt \<noteq> gx_profile_id (pg_expectation request)
        \<or> ge_profile_generation receipt \<noteq> gx_profile_generation (pg_expectation request)
        \<or> ge_profile_digest receipt \<noteq> gx_profile_digest (pg_expectation request)
        \<or> ge_subject_digest receipt \<noteq> pg_subject_digest request
        \<or> ge_required_checks_digest receipt \<noteq> pg_required_checks_digest request \<or> \<not> ge_passed receipt
        \<or> ge_completed_at receipt < pg_created_at request \<or> ge_completed_at receipt > now))
     authority_conflict"

text \<open>What the gate leads to: a timeout to record, or the evidence to record.\<close>

definition observe_gate ::
  "wf_codec \<Rightarrow> organization_port \<Rightarrow> gate_port \<Rightarrow> work_item_execution \<Rightarrow> pending_gate \<Rightarrow> u64
   \<Rightarrow> (gate_evidence option \<times> runtime_authority) wf_result" where
  "observe_gate C org gp w request now =
     try_bind (map_err (map_port_error OrganizationUnavailable) (op_before org)) (\<lambda>before.
     try_bind (validate_pre_io_authority C w before (pg_authority_digest request) (pg_created_at request) now) (\<lambda>_.
     case gp_evidence gp of
       Inl e \<Rightarrow>
         if e = PortTimedOut \<and> now \<ge> ep_deadline (wi_plan w)
         then try_bind (authority_after C org w before (pg_authority_digest request) (pg_created_at request) now) (\<lambda>authority.
           Ok (None, authority))
         else Err (map_port_error GateUnavailable e)
     | Inr receipt \<Rightarrow>
         try_bind (authority_after C org w before (pg_authority_digest request) (pg_created_at request) now) (\<lambda>authority.
         try_bind (gate_receipt_check request receipt now) (\<lambda>_.
         if ge_completed_at receipt > ep_deadline (wi_plan w) then Ok (None, authority)
         else
           try_bind (validate_identifier (ge_receipt_id receipt)) (\<lambda>_.
           Ok (Some (gate_evidence_new (ge_receipt_id receipt) (ge_profile_generation receipt) (ge_profile_digest receipt)
             (ge_subject_digest receipt) (ge_required_checks_digest receipt) (ge_completed_at receipt)), authority))))))"

definition reconcile_gate_evidence ::
  "wf_codec \<Rightarrow> workflow_error option \<Rightarrow> organization_port \<Rightarrow> gate_port \<Rightarrow> pending_gate \<Rightarrow> u64 \<Rightarrow> workflow_store
   \<Rightarrow> work_item_execution wf_result \<times> workflow_store" where
  "reconcile_gate_evidence C fault org gp request now s =
     then_store
       (try_bind (require_ready (op_readiness org) OrganizationUnavailable) (\<lambda>_.
        try_bind (require_ready (gp_readiness gp) GateUnavailable) (\<lambda>_.
        gate_work_item C s request)))
       (\<lambda>(w, completed) s.
          if completed then (Ok w, s)
          else then_store (observe_gate C org gp w request now)
            (\<lambda>(evidence, authority).
               case evidence of
                 None \<Rightarrow> record_gate_timeout C fault request authority now
               | Some e \<Rightarrow> record_gate_evidence C fault request e authority now) s) s"

end
