(* ===== verification/Workflow_Invariant.thy ===== *)
theory Workflow_Invariant
  imports Workflow_Engine
begin

text \<open>
  The invariant of the workflow store.  A version is the execution of one plan of a work item: the
  current one, or an archived one that a revision replaced.  Every version is coherent with the
  outbox rows of its steps, and every outbox row belongs to a version.
\<close>

section \<open>Columns read back\<close>

lemma stored_u64_uint [simp]: "stored_u64 (uint t) = Ok t"
  using uint_lt2p [of t] by (simp add: stored_u64_def)

lemma stored_u16_uint [simp]: "stored_u16 (uint t) = Ok t"
  using uint_lt2p [of t] by (simp add: stored_u16_def)

lemma stored_u16_0 [simp]: "stored_u16 0 = Ok 0"
  by (simp add: stored_u16_def)

lemma sql_u64_Ok [simp]: "sql_u64 v = Ok i \<longleftrightarrow> i = uint v \<and> uint v < 2 ^ 63"
  by (auto simp: sql_u64_def)

lemma saturating_add_one_nz: "saturating_add (v :: 'a::len word) 1 \<noteq> 0"
proof
  assume "saturating_add v 1 = 0"
  then have "unat (saturating_add v 1) = 0" by simp
  moreover have "(1::nat) < 2 ^ LENGTH('a)" by (rule one_less_power) simp_all
  ultimately show False by (simp add: unat_saturating_add min_def split: if_splits)
qed

lemma decode_Ok [simp]:
  "decode_payload b = Ok v \<longleftrightarrow> b = Json v" "decode_work_item r = Ok w \<longleftrightarrow> r = RespWorkItem w"
  "decode_archive r = Ok a \<longleftrightarrow> r = RespArchive a" "decode_time r = Ok t \<longleftrightarrow> r = RespTime t"
  by (cases b; simp) (cases r; simp)+

lemma database_state_inj [simp]: "execution_database_state a = execution_database_state b \<longleftrightarrow> a = b"
  by (cases a; cases b) simp_all

section \<open>Versions\<close>

definition wkey :: "work_item_execution \<Rightarrow> item_key" where
  "wkey w = (wi_tenant_id w, wi_project_id w, wi_work_item_id w)"

lemma wkey_sel [simp]: "fst (wkey w) = wi_tenant_id w" "fst (snd (wkey w)) = wi_project_id w" "snd (snd (wkey w)) = wi_work_item_id w"
  by (simp_all add: wkey_def)

definition wid :: "work_item_execution \<Rightarrow> item_key \<times> uuid" where
  "wid w = (wkey w, ep_plan_id (wi_plan w))"

abbreviation wsteps :: "work_item_execution \<Rightarrow> execution_step list" where
  "wsteps w \<equiv> ep_steps (wi_plan w)"

abbreviation wnext :: "work_item_execution \<Rightarrow> nat" where
  "wnext w \<equiv> unat (wi_next_step_ordinal w)"

definition current_at :: "workflow_store \<Rightarrow> item_key \<Rightarrow> work_item_execution \<Rightarrow> bool" where
  "current_at s k w \<longleftrightarrow> (\<exists>row. om_get (ws_items s) k = Some row \<and> ir_payload row = Json w)"

definition archive_at :: "workflow_store \<Rightarrow> string \<Rightarrow> uuid \<Rightarrow> archived_execution \<Rightarrow> bool" where
  "archive_at s ns pid a \<longleftrightarrow> (\<exists>row. om_get (ws_operations s) (ns, pid) = Some row \<and> or_response row = RespArchive a)"

definition versions :: "workflow_store \<Rightarrow> work_item_execution set" where
  "versions s = {w. current_at s (wkey w) w} \<union> {w. \<exists>ns pid a. archive_at s ns pid a \<and> ar_previous a = w}"

lemma versionsE:
  assumes "w \<in> versions s"
  obtains (current) "current_at s (wkey w) w" | (archived) ns pid a where "archive_at s ns pid a" "ar_previous a = w"
  using assms unfolding versions_def by blast

section \<open>Rows of a version\<close>

definition xrow :: "item_key \<Rightarrow> pending_execution \<Rightarrow> execution_row" where
  "xrow k q = \<lparr>xr_tenant_id = fst k, xr_project_id = fst (snd k), xr_work_item_id = snd (snd k), xr_plan_digest = px_plan_digest q,
     xr_step_ordinal = uint (es_ordinal (px_step q)), xr_state = execution_database_state (px_state q), xr_request = Json q,
     xr_attempts = uint (px_attempts q), xr_updated_at = uint (px_updated_at q)\<rparr>"

definition krow :: "item_key \<Rightarrow> pending_completion \<Rightarrow> execution_evidence option \<Rightarrow> u64 \<Rightarrow> completion_row" where
  "krow k c ev t = \<lparr>kr_invocation_id = pc_invocation_id c, kr_tenant_id = fst k, kr_project_id = fst (snd k), kr_work_item_id = snd (snd k),
     kr_state = (if ev = None then ''pending'' else ''completed''), kr_request = Json c, kr_evidence = map_option Json ev,
     kr_attempts = 0, kr_updated_at = uint t\<rparr>"

definition grow :: "item_key \<Rightarrow> pending_gate \<Rightarrow> string \<Rightarrow> gate_evidence option \<Rightarrow> u64 \<Rightarrow> gate_row" where
  "grow k g st ev t = \<lparr>gr_plan_id = pg_plan_id g, gr_tenant_id = fst k, gr_project_id = fst (snd k), gr_work_item_id = snd (snd k),
     gr_state = st, gr_request = Json g, gr_evidence = map_option Json ev, gr_attempts = 0, gr_updated_at = uint t\<rparr>"

text \<open>The execution request of step \<open>j\<close>.\<close>

definition exec_in :: "workflow_store \<Rightarrow> work_item_execution \<Rightarrow> nat \<Rightarrow> pending_execution \<Rightarrow> bool" where
  "exec_in s w j q \<longleftrightarrow> om_get (ws_execution s) (es_invocation_id (wsteps w ! j)) = Some (xrow (wkey w) q)
     \<and> px_plan_id q = ep_plan_id (wi_plan w) \<and> px_plan_digest q = ep_request_digest (wi_plan w) \<and> px_step q = wsteps w ! j
     \<and> px_schema_version q = WORKFLOW_SCHEMA_VERSION \<and> px_created_at q \<le> px_updated_at q"

text \<open>The completion request of step \<open>j\<close>, with the evidence recorded for it.\<close>

definition completion_of :: "wf_codec \<Rightarrow> work_item_execution \<Rightarrow> nat \<Rightarrow> pending_execution \<Rightarrow> pending_completion \<Rightarrow> bool" where
  "completion_of C w j q c \<longleftrightarrow> pc_schema_version c = WORKFLOW_SCHEMA_VERSION
     \<and> pc_request_id c = completion_request_identity C (pc_plan_id c) (pc_step_id c) (pc_invocation_id c) (pc_plan_digest c)
     \<and> pc_plan_id c = ep_plan_id (wi_plan w) \<and> pc_plan_digest c = ep_request_digest (wi_plan w)
     \<and> pc_step_id c = es_step_id (wsteps w ! j) \<and> pc_invocation_id c = es_invocation_id (wsteps w ! j)
     \<and> pc_step_digest c = step_digest C (wsteps w ! j) \<and> pc_authority_digest c = px_authority_digest q
     \<and> pc_request_digest c = completion_digest C c \<and> ep_created_at (wi_plan w) \<le> pc_created_at c"

definition compl_in ::
  "wf_codec \<Rightarrow> workflow_store \<Rightarrow> work_item_execution \<Rightarrow> nat \<Rightarrow> pending_execution \<Rightarrow> pending_completion
   \<Rightarrow> execution_evidence option \<Rightarrow> u64 \<Rightarrow> bool" where
  "compl_in C s w j q c ev t \<longleftrightarrow> om_get (ws_completion s) (pc_request_id c) = Some (krow (wkey w) c ev t)
     \<and> completion_of C w j q c \<and> pc_created_at c \<le> t"

text \<open>Step \<open>j\<close> is done with evidence \<open>e\<close>: its execution succeeded and the evidence for it is valid.\<close>

definition done_with :: "wf_codec \<Rightarrow> workflow_store \<Rightarrow> work_item_execution \<Rightarrow> nat \<Rightarrow> execution_evidence \<Rightarrow> bool" where
  "done_with C s w j e \<longleftrightarrow> (\<exists>q c t. exec_in s w j q \<and> px_state q = Succeeded \<and> compl_in C s w j q c (Some e) t
     \<and> validate_execution_evidence c e (ee_completed_at e) (es_deadline (wsteps w ! j)) (ep_deadline (wi_plan w)) = Ok ()
     \<and> validate_sealed_descriptors C (wsteps w ! j) e = Ok ())"

definition running :: "wf_codec \<Rightarrow> workflow_store \<Rightarrow> work_item_execution \<Rightarrow> bool" where
  "running C s w \<longleftrightarrow> (\<exists>q. exec_in s w (wnext w) q \<and> (request_state_fits w (px_state q)
     \<or> px_state q = Succeeded \<and> (\<exists>c. compl_in C s w (wnext w) q c None (pc_created_at c))))"

definition halted :: "workflow_store \<Rightarrow> work_item_execution \<Rightarrow> bool" where
  "halted s w \<longleftrightarrow> (\<exists>q. exec_in s w (wnext w) q \<and> px_state q \<in> {Failed, RunCancelled, TimedOut, UnknownOutcome}
     \<and> observation_effect (px_state q) InProgress = (wi_state w, wi_blocker_code w))"

definition gate_of :: "wf_codec \<Rightarrow> work_item_execution \<Rightarrow> execution_evidence \<Rightarrow> pending_gate \<Rightarrow> bool" where
  "gate_of C w e g \<longleftrightarrow> pg_schema_version g = WORKFLOW_SCHEMA_VERSION
     \<and> pg_request_id g = gate_request_identity C (pg_plan_id g) (pg_plan_digest g) (pg_execution_receipt_id g)
     \<and> pg_plan_id g = ep_plan_id (wi_plan w) \<and> pg_plan_digest g = ep_request_digest (wi_plan w)
     \<and> pg_execution_receipt_id g = ee_receipt_id e \<and> pg_subject_digest g = execution_subject_digest C (wi_plan w) e
     \<and> pg_expectation g = es_gate_expectation (last (wsteps w))
     \<and> pg_required_checks_digest g = required_checks_digest C (pg_expectation g)
     \<and> pg_request_digest g = gate_digest C g \<and> ee_completed_at e \<le> pg_created_at g"

definition gate_in ::
  "wf_codec \<Rightarrow> workflow_store \<Rightarrow> work_item_execution \<Rightarrow> execution_evidence \<Rightarrow> pending_gate \<Rightarrow> string \<Rightarrow> gate_evidence option \<Rightarrow> u64 \<Rightarrow> bool" where
  "gate_in C s w e g st ev t \<longleftrightarrow> om_get (ws_gate s) (pg_request_id g) = Some (grow (wkey w) g st ev t)
     \<and> gate_of C w e g \<and> pg_created_at g \<le> t"

definition gate_passed :: "work_item_execution \<Rightarrow> pending_gate \<Rightarrow> gate_evidence \<Rightarrow> bool" where
  "gate_passed w g ge \<longleftrightarrow> validate_gate_evidence g ge (ge_completed_at ge) (ep_deadline (wi_plan w)) = Ok ()"

fun state_coherent :: "wf_codec \<Rightarrow> workflow_store \<Rightarrow> work_item_execution \<Rightarrow> work_item_state \<Rightarrow> bool" where
  "state_coherent C s w Assigned \<longleftrightarrow> False"
| "state_coherent C s w Claimed \<longleftrightarrow> running C s w"
| "state_coherent C s w InProgress \<longleftrightarrow> running C s w"
| "state_coherent C s w InReview \<longleftrightarrow> (\<exists>e g. wi_terminal_evidence w = Some e \<and> done_with C s w (wnext w) e
     \<and> gate_in C s w e g ''pending'' None (pg_created_at g))"
| "state_coherent C s w Done \<longleftrightarrow> (\<exists>e g ge t. wi_terminal_evidence w = Some e \<and> done_with C s w (wnext w) e
     \<and> wi_gate_evidence w = Some ge \<and> gate_in C s w e g ''completed'' (Some ge) t \<and> gate_passed w g ge)"
| "state_coherent C s w Blocked \<longleftrightarrow>
     (if wi_blocker_code w = Some ''gate_timed_out'' then
        (\<exists>e g. wi_terminal_evidence w = Some e \<and> done_with C s w (wnext w) e
          \<and> gate_in C s w e g ''timed_out'' None (wi_updated_at w) \<and> ep_deadline (wi_plan w) \<le> wi_updated_at w)
      else halted s w)"
| "state_coherent C s w Cancelled \<longleftrightarrow> halted s w"

definition coherent :: "wf_codec \<Rightarrow> workflow_store \<Rightarrow> work_item_execution \<Rightarrow> bool" where
  "coherent C s w \<longleftrightarrow> (\<forall>j < wnext w. \<exists>e. done_with C s w j e) \<and> state_coherent C s w (wi_state w)"

section \<open>The invariant\<close>

definition tables_wf :: "workflow_store \<Rightarrow> bool" where
  "tables_wf s \<longleftrightarrow> om_wf (ws_items s) \<and> om_wf (ws_operations s) \<and> om_wf (ws_execution s) \<and> om_wf (ws_completion s) \<and> om_wf (ws_gate s)"

definition stored_ok :: "wf_codec \<Rightarrow> work_item_execution \<Rightarrow> bool" where
  "stored_ok C w \<longleftrightarrow> validate_stored_work_item C w (wi_tenant_id w) (wi_project_id w) (wi_work_item_id w) (wi_version w) = Ok ()"

definition items_ok :: "wf_codec \<Rightarrow> workflow_store \<Rightarrow> bool" where
  "items_ok C s \<longleftrightarrow> (\<forall>k row. om_get (ws_items s) k = Some row \<longrightarrow>
     (\<exists>w. row = \<lparr>ir_version = uint (wi_version w), ir_payload = Json w\<rparr> \<and> k = wkey w \<and> stored_ok C w))"

definition archive_ok :: "wf_codec \<Rightarrow> workflow_store \<Rightarrow> string \<Rightarrow> uuid \<Rightarrow> archived_execution \<Rightarrow> bool" where
  "archive_ok C s ns pid a \<longleftrightarrow> read_archive C s ns pid = Ok (Some a)
     \<and> (\<exists>w. current_at s (wkey (ar_previous a)) w \<and> ep_plan_id (wi_plan w) \<noteq> pid)"

definition is_history :: "string \<Rightarrow> bool" where
  "is_history ns \<longleftrightarrow> take 18 ns = ''execution-history:''"

definition archives_ok :: "wf_codec \<Rightarrow> workflow_store \<Rightarrow> bool" where
  "archives_ok C s \<longleftrightarrow> (\<forall>ns pid a. archive_at s ns pid a \<longrightarrow> archive_ok C s ns pid a)
     \<and> (\<forall>ns pid row. om_get (ws_operations s) (ns, pid) = Some row \<longrightarrow> is_history ns \<longrightarrow> (\<exists>a. or_response row = RespArchive a))"

text \<open>The version an execution request belongs to.\<close>

definition belongs :: "work_item_execution \<Rightarrow> pending_execution \<Rightarrow> bool" where
  "belongs w q \<longleftrightarrow> px_plan_id q = ep_plan_id (wi_plan w) \<and> unat (es_ordinal (px_step q)) \<le> wnext w
     \<and> px_step q = wsteps w ! unat (es_ordinal (px_step q))"

definition execs_ok :: "workflow_store \<Rightarrow> bool" where
  "execs_ok s \<longleftrightarrow> (\<forall>i row. om_get (ws_execution s) i = Some row \<longrightarrow>
     (\<exists>w \<in> versions s. \<exists>q. row = xrow (wkey w) q \<and> es_invocation_id (px_step q) = i \<and> belongs w q))"

text \<open>The completion request of a succeeded execution request: its key is determined by it.\<close>

definition completes :: "wf_codec \<Rightarrow> pending_execution \<Rightarrow> pending_completion \<Rightarrow> bool" where
  "completes C q c \<longleftrightarrow> px_state q = Succeeded \<and> px_plan_id q = pc_plan_id c
     \<and> pc_request_id c = completion_request_identity C (px_plan_id q) (es_step_id (px_step q)) (pc_invocation_id c) (px_plan_digest q)"

definition completions_ok :: "wf_codec \<Rightarrow> workflow_store \<Rightarrow> bool" where
  "completions_ok C s \<longleftrightarrow> (\<forall>r row. om_get (ws_completion s) r = Some row \<longrightarrow>
     (\<exists>k c ev t q. row = krow k c ev t \<and> pc_request_id c = r \<and> om_get (ws_execution s) (pc_invocation_id c) = Some (xrow k q)
        \<and> completes C q c))"

definition gates_ok :: "workflow_store \<Rightarrow> bool" where
  "gates_ok s \<longleftrightarrow> (\<forall>r row. om_get (ws_gate s) r = Some row \<longrightarrow>
     (\<exists>w \<in> versions s. \<exists>g st ev t. row = grow (wkey w) g st ev t \<and> pg_request_id g = r \<and> pg_plan_id g = ep_plan_id (wi_plan w)
        \<and> pg_plan_digest g = ep_request_digest (wi_plan w) \<and> wi_terminal_evidence w \<noteq> None))
     \<and> (\<forall>r r' row row'. om_get (ws_gate s) r = Some row \<longrightarrow> om_get (ws_gate s) r' = Some row' \<longrightarrow>
          gr_plan_id row = gr_plan_id row' \<longrightarrow> r = r')"

definition wf_inv :: "wf_codec \<Rightarrow> workflow_store \<Rightarrow> bool" where
  "wf_inv C s \<longleftrightarrow> tables_wf s \<and> items_ok C s \<and> archives_ok C s \<and> execs_ok s \<and> completions_ok C s \<and> gates_ok s
     \<and> (\<forall>w \<in> versions s. coherent C s w)"

lemma wf_invD:
  assumes "wf_inv C s"
  shows "tables_wf s" and "items_ok C s" and "archives_ok C s" and "execs_ok s" and "completions_ok C s" and "gates_ok s"
    and "w \<in> versions s \<Longrightarrow> coherent C s w"
  using assms by (simp_all add: wf_inv_def)

section \<open>Versions read back\<close>

lemma current_at_row:
  assumes "items_ok C s" and "current_at s k w"
  shows "om_get (ws_items s) k = Some \<lparr>ir_version = uint (wi_version w), ir_payload = Json w\<rparr>" and "k = wkey w" and "stored_ok C w"
proof -
  from assms(2) obtain row where row: "om_get (ws_items s) k = Some row" "ir_payload row = Json w" by (auto simp: current_at_def)
  with assms(1) obtain v where "row = \<lparr>ir_version = uint (wi_version v), ir_payload = Json v\<rparr>" "k = wkey v" "stored_ok C v"
    unfolding items_ok_def by blast
  with row show "om_get (ws_items s) k = Some \<lparr>ir_version = uint (wi_version w), ir_payload = Json w\<rparr>" "k = wkey w" "stored_ok C w" by auto
qed

lemma current_at_unique: "current_at s k w \<Longrightarrow> current_at s k w' \<Longrightarrow> w = w'"
  by (auto simp: current_at_def)

lemma read_work_item_current:
  assumes "items_ok C s"
  shows "read_work_item C s t p w = Ok (Some v) \<longleftrightarrow> current_at s (t, p, w) v"
    and "read_work_item C s t p w = Ok None \<longleftrightarrow> om_get (ws_items s) (t, p, w) = None"
    and "is_ok (read_work_item C s t p w)"
proof -
  have "(read_work_item C s t p w = Ok (Some v) \<longleftrightarrow> current_at s (t, p, w) v)
    \<and> (read_work_item C s t p w = Ok None \<longleftrightarrow> om_get (ws_items s) (t, p, w) = None) \<and> is_ok (read_work_item C s t p w)"
  proof (cases "om_get (ws_items s) (t, p, w)")
    case None
    then show ?thesis by (simp add: read_work_item_def current_at_def)
  next
    case (Some row)
    with assms obtain v' where v: "row = \<lparr>ir_version = uint (wi_version v'), ir_payload = Json v'\<rparr>" "(t, p, w) = wkey v'" "stored_ok C v'"
      unfolding items_ok_def by blast
    then have "read_work_item C s t p w = Ok (Some v')"
      using Some by (simp add: read_work_item_def stored_ok_def wkey_def)
    with Some v show ?thesis by (auto simp: current_at_def)
  qed
  then show "read_work_item C s t p w = Ok (Some v) \<longleftrightarrow> current_at s (t, p, w) v"
    "read_work_item C s t p w = Ok None \<longleftrightarrow> om_get (ws_items s) (t, p, w) = None" "is_ok (read_work_item C s t p w)" by blast+
qed

lemma read_archive_at:
  assumes "read_archive C s ns pid = Ok (Some a)"
  shows "archive_at s ns pid a" and "ns = history_namespace C (wi_tenant_id (ar_previous a)) (wi_project_id (ar_previous a)) (wi_work_item_id (ar_previous a))"
    and "ep_plan_id (wi_plan (ar_previous a)) = pid" and "stored_ok C (ar_previous a)"
proof -
  from assms obtain row where "om_get (ws_operations s) (ns, pid) = Some row"
    by (auto simp: read_archive_def read_operation_def split: option.splits)
  with assms show "archive_at s ns pid a" "ep_plan_id (wi_plan (ar_previous a)) = pid" "stored_ok C (ar_previous a)"
    "ns = history_namespace C (wi_tenant_id (ar_previous a)) (wi_project_id (ar_previous a)) (wi_work_item_id (ar_previous a))"
    by (auto simp: read_archive_def read_operation_def archive_at_def stored_ok_def Let_def split: if_splits)
qed

lemma archive_at_unique: "archive_at s ns pid a \<Longrightarrow> archive_at s ns pid a' \<Longrightarrow> a = a'"
  by (auto simp: archive_at_def)

lemma archive_okD:
  assumes "archives_ok C s" and "archive_at s ns pid a"
  shows "read_archive C s ns pid = Ok (Some a)"
    and "ns = history_namespace C (wi_tenant_id (ar_previous a)) (wi_project_id (ar_previous a)) (wi_work_item_id (ar_previous a))"
    and "ep_plan_id (wi_plan (ar_previous a)) = pid" and "stored_ok C (ar_previous a)"
    and "\<exists>w. current_at s (wkey (ar_previous a)) w \<and> ep_plan_id (wi_plan w) \<noteq> pid"
proof -
  have ok: "archive_ok C s ns pid a" using assms by (auto simp: archives_ok_def)
  then show r: "read_archive C s ns pid = Ok (Some a)" by (simp add: archive_ok_def)
  show "ns = history_namespace C (wi_tenant_id (ar_previous a)) (wi_project_id (ar_previous a)) (wi_work_item_id (ar_previous a))"
    "ep_plan_id (wi_plan (ar_previous a)) = pid" "stored_ok C (ar_previous a)" using read_archive_at [OF r] by simp_all
  show "\<exists>w. current_at s (wkey (ar_previous a)) w \<and> ep_plan_id (wi_plan w) \<noteq> pid" using ok by (simp add: archive_ok_def)
qed

lemma versions_stored: "items_ok C s \<Longrightarrow> archives_ok C s \<Longrightarrow> w \<in> versions s \<Longrightarrow> stored_ok C w"
  using current_at_row(3) archive_okD(4) by (fastforce simp: versions_def)

text \<open>A plan identifies one version of a work item, and reading it returns that version.\<close>

lemma read_plan_version_version:
  assumes "items_ok C s" and "archives_ok C s" and "w \<in> versions s"
  shows "read_plan_version C s (wi_tenant_id w) (wi_project_id w) (wi_work_item_id w) (ep_plan_id (wi_plan w)) = Ok (Some w)"
proof -
  consider "current_at s (wkey w) w" | ns pid a where "archive_at s ns pid a" "ar_previous a = w"
    using assms(3) by (auto simp: versions_def)
  then show ?thesis
  proof cases
    case 1
    then have "read_work_item C s (wi_tenant_id w) (wi_project_id w) (wi_work_item_id w) = Ok (Some w)"
      using read_work_item_current(1) [OF assms(1)] unfolding wkey_def by blast
    then show ?thesis by (simp add: read_plan_version_def)
  next
    case 2
    note a = archive_okD [OF assms(2) 2(1), unfolded 2(2)]
    from a(5) obtain v where v: "current_at s (wkey w) v" "ep_plan_id (wi_plan v) \<noteq> pid" by blast
    then have "read_work_item C s (wi_tenant_id w) (wi_project_id w) (wi_work_item_id w) = Ok (Some v)"
      using read_work_item_current(1) [OF assms(1)] unfolding wkey_def by blast
    with a v 2(2) show ?thesis by (simp add: read_plan_version_def)
  qed
qed

lemma version_unique:
  assumes "items_ok C s" and "archives_ok C s" and "w \<in> versions s" and "v \<in> versions s" and "wid w = wid v"
  shows "w = v"
proof -
  have "wi_tenant_id w = wi_tenant_id v" "wi_project_id w = wi_project_id v" "wi_work_item_id w = wi_work_item_id v"
    "ep_plan_id (wi_plan w) = ep_plan_id (wi_plan v)" using assms(5) by (simp_all add: wid_def wkey_def)
  note r = read_plan_version_version [OF assms(1,2,3), unfolded this]
  from trans [OF sym [OF r] read_plan_version_version [OF assms(1,2,4)]] show ?thesis by (simp only: sum.inject option.inject)
qed

section \<open>What a stored work item satisfies\<close>

definition frame_ok :: "wf_codec \<Rightarrow> work_item_execution \<Rightarrow> bool" where
  "frame_ok C w \<longleftrightarrow> validate_at C (wi_plan w) (ep_created_at (wi_plan w)) = Ok () \<and> wi_schema_version w = WORKFLOW_SCHEMA_VERSION
     \<and> wi_tenant_id w = ep_tenant_id (wi_plan w) \<and> wi_project_id w = ep_project_id (wi_plan w)
     \<and> wi_work_item_id w = ep_work_item_id (wi_plan w) \<and> wi_agent_id w = ep_agent_id (wi_plan w) \<and> wi_version w \<noteq> 0
     \<and> ep_created_at (wi_plan w) \<le> wi_updated_at w \<and> wnext w < length (wsteps w)"

lemma frame_plan:
  assumes "frame_ok C w"
  shows "validate_canonical C (wi_plan w) = Ok ()" and "wsteps w \<noteq> []"
    and "j < length (wsteps w) \<Longrightarrow> unat (es_ordinal (wsteps w ! j)) = j" and "distinct (map es_step_id (wsteps w))"
    and "distinct (map es_invocation_id (wsteps w))" and "length (wsteps w) \<le> 32"
proof -
  show v: "validate_canonical C (wi_plan w) = Ok ()" using assms by (simp add: frame_ok_def validate_at_def)
  show "wsteps w \<noteq> []" "j < length (wsteps w) \<Longrightarrow> unat (es_ordinal (wsteps w ! j)) = j" "distinct (map es_step_id (wsteps w))"
    "distinct (map es_invocation_id (wsteps w))" "length (wsteps w) \<le> 32"
    using validate_canonical_OkD [OF v] by simp_all
qed

lemma stored_ok_iff: "stored_ok C w \<longleftrightarrow> frame_ok C w \<and> stored_state_check C w (wi_state w) = Ok ()"
proof -
  have "ep_schema_version (wi_plan w) = EXECUTION_PLAN_SCHEMA_VERSION" if "validate_at C (wi_plan w) (ep_created_at (wi_plan w)) = Ok ()"
    using that validate_canonical_OkD(12) by (auto simp: validate_at_def)
  then show ?thesis
    by (auto simp: stored_ok_def validate_stored_work_item_def frame_ok_def split: if_splits)
qed

lemma step_found:
  assumes "frame_ok C w" and "List.find (\<lambda>st. es_step_id st = i) (wsteps w) = Some st"
  shows "unat (es_ordinal st) < length (wsteps w)" and "wsteps w ! unat (es_ordinal st) = st"
proof -
  from find_SomeD [OF assms(2)] obtain j where "j < length (wsteps w)" "wsteps w ! j = st" by (auto simp: in_set_conv_nth)
  with frame_plan(3) [OF assms(1)] show "unat (es_ordinal st) < length (wsteps w)" "wsteps w ! unat (es_ordinal st) = st" by auto
qed

lemma step_find:
  assumes "frame_ok C w" and "j < length (wsteps w)"
  shows "List.find (\<lambda>st. es_step_id st = es_step_id (wsteps w ! j)) (wsteps w) = Some (wsteps w ! j)"
  using find_distinct_key [OF frame_plan(4) [OF assms(1)]] assms(2) by simp

section \<open>Rows read back\<close>

lemma xrow_sel [simp]:
  "(xr_tenant_id (xrow k q), xr_project_id (xrow k q), xr_work_item_id (xrow k q)) = k" "xr_tenant_id (xrow k q) = fst k"
  "xr_project_id (xrow k q) = fst (snd k)" "xr_work_item_id (xrow k q) = snd (snd k)" "xr_plan_digest (xrow k q) = px_plan_digest q"
  "xr_step_ordinal (xrow k q) = uint (es_ordinal (px_step q))" "xr_state (xrow k q) = execution_database_state (px_state q)"
  "xr_request (xrow k q) = Json q" "xr_attempts (xrow k q) = uint (px_attempts q)" "xr_updated_at (xrow k q) = uint (px_updated_at q)"
  by (simp_all add: xrow_def)

lemma krow_sel [simp]:
  "kr_invocation_id (krow k c ev t) = pc_invocation_id c" "kr_tenant_id (krow k c ev t) = fst k" "kr_project_id (krow k c ev t) = fst (snd k)"
  "kr_work_item_id (krow k c ev t) = snd (snd k)" "kr_state (krow k c ev t) = (if ev = None then ''pending'' else ''completed'')"
  "kr_request (krow k c ev t) = Json c" "kr_evidence (krow k c ev t) = map_option Json ev" "kr_attempts (krow k c ev t) = 0"
  "kr_updated_at (krow k c ev t) = uint t"
  by (simp_all add: krow_def)

lemma grow_sel [simp]:
  "gr_plan_id (grow k g st ev t) = pg_plan_id g" "gr_tenant_id (grow k g st ev t) = fst k" "gr_project_id (grow k g st ev t) = fst (snd k)"
  "gr_work_item_id (grow k g st ev t) = snd (snd k)" "gr_state (grow k g st ev t) = st" "gr_request (grow k g st ev t) = Json g"
  "gr_evidence (grow k g st ev t) = map_option Json ev" "gr_attempts (grow k g st ev t) = 0" "gr_updated_at (grow k g st ev t) = uint t"
  by (simp_all add: grow_def)

lemma Json_option: "map_option Json a = map_option Json b \<longleftrightarrow> a = b"
  by (cases a; cases b) simp_all

lemma xrow_inject [simp]: "xrow k q = xrow k' q' \<longleftrightarrow> k = k' \<and> q = q'"
proof
  assume eq: "xrow k q = xrow k' q'"
  have "Json q = Json q'" using arg_cong [OF eq, of xr_request] by simp
  moreover have "k = k'" using arg_cong [OF eq, of "\<lambda>r. (xr_tenant_id r, xr_project_id r, xr_work_item_id r)"] by (simp add: prod_eq_iff)
  ultimately show "k = k' \<and> q = q'" by simp
qed simp

lemma krow_inject [simp]: "krow k c ev t = krow k' c' ev' t' \<longleftrightarrow> k = k' \<and> c = c' \<and> ev = ev' \<and> t = t'"
proof
  assume eq: "krow k c ev t = krow k' c' ev' t'"
  have "Json c = Json c'" "map_option Json ev = map_option Json ev'" "uint t = uint t'"
    using arg_cong [OF eq, of kr_request] arg_cong [OF eq, of kr_evidence] arg_cong [OF eq, of kr_updated_at] by simp_all
  moreover have "k = k'" using arg_cong [OF eq, of "\<lambda>r. (kr_tenant_id r, kr_project_id r, kr_work_item_id r)"] by (simp add: prod_eq_iff)
  ultimately show "k = k' \<and> c = c' \<and> ev = ev' \<and> t = t'" by (simp add: Json_option word_uint_eq_iff)
qed simp

lemma grow_inject [simp]: "grow k g st ev t = grow k' g' st' ev' t' \<longleftrightarrow> k = k' \<and> g = g' \<and> st = st' \<and> ev = ev' \<and> t = t'"
proof
  assume eq: "grow k g st ev t = grow k' g' st' ev' t'"
  have "Json g = Json g'" "map_option Json ev = map_option Json ev'" "uint t = uint t'" "st = st'"
    using arg_cong [OF eq, of gr_request] arg_cong [OF eq, of gr_evidence] arg_cong [OF eq, of gr_updated_at] arg_cong [OF eq, of gr_state] by simp_all
  moreover have "k = k'" using arg_cong [OF eq, of "\<lambda>r. (gr_tenant_id r, gr_project_id r, gr_work_item_id r)"] by (simp add: prod_eq_iff)
  ultimately show "k = k' \<and> g = g' \<and> st = st' \<and> ev = ev' \<and> t = t'" by (simp add: Json_option word_uint_eq_iff)
qed simp

text \<open>The execution row of an invocation leads to the version it belongs to.\<close>

lemma exec_row_version:
  assumes "wf_inv C s" and "om_get (ws_execution s) i = Some row"
  obtains w q where "w \<in> versions s" "row = xrow (wkey w) q" "es_invocation_id (px_step q) = i" "belongs w q"
    "read_work_item_by_invocation C s i = Ok (Some w)"
proof -
  from wf_invD(4) [OF assms(1)] assms(2) obtain w q where w: "w \<in> versions s" "row = xrow (wkey w) q"
    "es_invocation_id (px_step q) = i" "belongs w q" unfolding execs_ok_def by blast
  have "read_plan_version C s (wi_tenant_id w) (wi_project_id w) (wi_work_item_id w) (px_plan_id q) = Ok (Some w)"
    using read_plan_version_version [OF wf_invD(2,3) [OF assms(1)] w(1)] w(4) by (simp add: belongs_def)
  then have "read_work_item_by_invocation C s i = Ok (Some w)"
    using assms(2) w(2,3) by (simp add: read_work_item_by_invocation_def)
  with w show ?thesis by (rule that)
qed

lemma by_invocation:
  assumes "wf_inv C s" and "read_work_item_by_invocation C s i = Ok (Some w)"
  obtains q where "w \<in> versions s" "om_get (ws_execution s) i = Some (xrow (wkey w) q)" "es_invocation_id (px_step q) = i" "belongs w q"
proof -
  from assms(2) obtain row where row: "om_get (ws_execution s) i = Some row"
    by (auto simp: read_work_item_by_invocation_def split: option.splits)
  from exec_row_version [OF assms(1) row] obtain v q where "v \<in> versions s" "row = xrow (wkey v) q" "es_invocation_id (px_step q) = i"
    "belongs v q" "read_work_item_by_invocation C s i = Ok (Some v)" .
  with assms(2) row show ?thesis by (intro that [of q]) simp_all
qed

lemma gate_row_of_plan:
  assumes "om_wf (ws_gate s)" and "gates_ok s"
  shows "gate_row_of_plan s pid = Some row \<longleftrightarrow> (\<exists>r. om_get (ws_gate s) r = Some row \<and> gr_plan_id row = pid)"
    and "gate_row_of_plan s pid = None \<longleftrightarrow> (\<forall>r row. om_get (ws_gate s) r = Some row \<longrightarrow> gr_plan_id row \<noteq> pid)"
proof -
  have v: "row \<in> set (om_values (ws_gate s)) \<longleftrightarrow> (\<exists>r. om_get (ws_gate s) r = Some row)" for row by (rule om_values_set [OF assms(1)])
  show "gate_row_of_plan s pid = None \<longleftrightarrow> (\<forall>r row. om_get (ws_gate s) r = Some row \<longrightarrow> gr_plan_id row \<noteq> pid)"
    unfolding gate_row_of_plan_def find_None_iff using v by blast
  show "gate_row_of_plan s pid = Some row \<longleftrightarrow> (\<exists>r. om_get (ws_gate s) r = Some row \<and> gr_plan_id row = pid)"
  proof
    assume "gate_row_of_plan s pid = Some row"
    from find_SomeD [OF this [unfolded gate_row_of_plan_def]] v show "\<exists>r. om_get (ws_gate s) r = Some row \<and> gr_plan_id row = pid" by simp
  next
    assume "\<exists>r. om_get (ws_gate s) r = Some row \<and> gr_plan_id row = pid"
    then obtain r where r: "om_get (ws_gate s) r = Some row" "gr_plan_id row = pid" by blast
    then have "gate_row_of_plan s pid \<noteq> None"
      unfolding gate_row_of_plan_def find_None_iff using v by blast
    then obtain row' where row': "gate_row_of_plan s pid = Some row'" by blast
    from find_SomeD [OF this [unfolded gate_row_of_plan_def]] v obtain r' where r': "om_get (ws_gate s) r' = Some row'" "gr_plan_id row' = pid" by auto
    have "om_get (ws_gate s) a = Some x \<Longrightarrow> om_get (ws_gate s) b = Some y \<Longrightarrow> gr_plan_id x = gr_plan_id y \<Longrightarrow> a = b" for a b x y
      using assms(2) unfolding gates_ok_def by simp
    from this [OF r(1) r'(1)] r r' have "r = r'" by simp
    with r r' row' show "gate_row_of_plan s pid = Some row" by simp
  qed
qed

lemma gate_row_version:
  assumes "wf_inv C s" and "om_get (ws_gate s) r = Some row"
  obtains w g st ev t where "w \<in> versions s" "row = grow (wkey w) g st ev t" "pg_request_id g = r" "pg_plan_id g = ep_plan_id (wi_plan w)"
    "pg_plan_digest g = ep_request_digest (wi_plan w)" "wi_terminal_evidence w \<noteq> None" "read_work_item_by_plan C s (pg_plan_id g) = Ok (Some w)"
proof -
  from wf_invD(6) [OF assms(1)] assms(2) obtain w g st ev t where w: "w \<in> versions s" "row = grow (wkey w) g st ev t"
    "pg_request_id g = r" "pg_plan_id g = ep_plan_id (wi_plan w)" "pg_plan_digest g = ep_request_digest (wi_plan w)" "wi_terminal_evidence w \<noteq> None"
    unfolding gates_ok_def by blast
  have "om_wf (ws_gate s)" using wf_invD(1) [OF assms(1)] by (simp add: tables_wf_def)
  then have "gate_row_of_plan s (pg_plan_id g) = Some row"
    using gate_row_of_plan(1) [OF _ wf_invD(6) [OF assms(1)]] assms(2) w(2) by auto
  moreover have "read_plan_version C s (wi_tenant_id w) (wi_project_id w) (wi_work_item_id w) (pg_plan_id g) = Ok (Some w)"
    using read_plan_version_version [OF wf_invD(2,3) [OF assms(1)] w(1)] w(4) by simp
  ultimately have "read_work_item_by_plan C s (pg_plan_id g) = Ok (Some w)"
    using w(2) by (simp add: read_work_item_by_plan_def)
  with w show ?thesis by (rule that)
qed

section \<open>Frames\<close>

text \<open>A change of the rows of one version only, and a change that keeps what is done.\<close>

definition touches :: "item_key \<times> uuid \<Rightarrow> workflow_store \<Rightarrow> workflow_store \<Rightarrow> bool" where
  "touches d s s' \<longleftrightarrow>
     (\<forall>i k q. om_get (ws_execution s) i = Some (xrow k q) \<longrightarrow> (k, px_plan_id q) \<noteq> d \<longrightarrow> om_get (ws_execution s') i = Some (xrow k q))
     \<and> (\<forall>r k c ev t. om_get (ws_completion s) r = Some (krow k c ev t) \<longrightarrow> (k, pc_plan_id c) \<noteq> d \<longrightarrow> om_get (ws_completion s') r = Some (krow k c ev t))
     \<and> (\<forall>r k g st ev t. om_get (ws_gate s) r = Some (grow k g st ev t) \<longrightarrow> (k, pg_plan_id g) \<noteq> d \<longrightarrow> om_get (ws_gate s') r = Some (grow k g st ev t))"

definition keeps_done :: "workflow_store \<Rightarrow> workflow_store \<Rightarrow> bool" where
  "keeps_done s s' \<longleftrightarrow>
     (\<forall>i k q. om_get (ws_execution s) i = Some (xrow k q) \<longrightarrow> px_state q = Succeeded \<longrightarrow> om_get (ws_execution s') i = Some (xrow k q))
     \<and> (\<forall>r k c e t. om_get (ws_completion s) r = Some (krow k c (Some e) t) \<longrightarrow> om_get (ws_completion s') r = Some (krow k c (Some e) t))"

lemma touchesD:
  assumes "touches d s s'"
  shows "om_get (ws_execution s) i = Some (xrow k q) \<Longrightarrow> (k, px_plan_id q) \<noteq> d \<Longrightarrow> om_get (ws_execution s') i = Some (xrow k q)"
    and "om_get (ws_completion s) r = Some (krow k c ev t) \<Longrightarrow> (k, pc_plan_id c) \<noteq> d \<Longrightarrow> om_get (ws_completion s') r = Some (krow k c ev t)"
    and "om_get (ws_gate s) r = Some (grow k g st gv t) \<Longrightarrow> (k, pg_plan_id g) \<noteq> d \<Longrightarrow> om_get (ws_gate s') r = Some (grow k g st gv t)"
  using assms unfolding touches_def by blast+

lemma exec_in_touch:
  assumes "touches d s s'" and "wid w \<noteq> d" and "exec_in s w j q"
  shows "exec_in s' w j q"
proof -
  have "(wkey w, px_plan_id q) \<noteq> d" using assms(2,3) by (simp add: exec_in_def wid_def)
  with touchesD(1) [OF assms(1)] assms(3) show ?thesis by (simp add: exec_in_def)
qed

lemma compl_in_touch:
  assumes "touches d s s'" and "wid w \<noteq> d" and "compl_in C s w j q c ev t"
  shows "compl_in C s' w j q c ev t"
proof -
  have "(wkey w, pc_plan_id c) \<noteq> d" using assms(2,3) by (simp add: compl_in_def wid_def completion_of_def)
  with touchesD(2) [OF assms(1)] assms(3) show ?thesis by (simp add: compl_in_def)
qed

lemma gate_in_touch:
  assumes "touches d s s'" and "wid w \<noteq> d" and "gate_in C s w e g st ev t"
  shows "gate_in C s' w e g st ev t"
proof -
  have "(wkey w, pg_plan_id g) \<noteq> d" using assms(2,3) by (simp add: gate_in_def wid_def gate_of_def)
  with touchesD(3) [OF assms(1)] assms(3) show ?thesis by (simp add: gate_in_def)
qed

lemma done_with_touch: "touches d s s' \<Longrightarrow> wid w \<noteq> d \<Longrightarrow> done_with C s w j e \<Longrightarrow> done_with C s' w j e"
  unfolding done_with_def by (blast intro: exec_in_touch compl_in_touch)

lemma coherent_touch:
  assumes "touches d s s'" and "wid w \<noteq> d" and "coherent C s w"
  shows "coherent C s' w"
proof -
  note t = exec_in_touch [OF assms(1,2)] compl_in_touch [OF assms(1,2)] gate_in_touch [OF assms(1,2)] done_with_touch [OF assms(1,2)]
  have r: "running C s w \<Longrightarrow> running C s' w" and h: "halted s w \<Longrightarrow> halted s' w"
    unfolding running_def halted_def using t by blast+
  have "state_coherent C s w st \<Longrightarrow> state_coherent C s' w st" for st
    using t r h by (cases st) (auto split: if_splits, blast+)
  with assms(3) t show ?thesis unfolding coherent_def by blast
qed

lemma done_with_keep: "keeps_done s s' \<Longrightarrow> done_with C s w j e \<Longrightarrow> done_with C s' w j e"
  unfolding keeps_done_def done_with_def exec_in_def compl_in_def by blast

text \<open>The state of a version does not enter what is done.\<close>

lemma done_with_plan: "wkey w' = wkey w \<Longrightarrow> wi_plan w' = wi_plan w \<Longrightarrow> done_with C s w' j e \<longleftrightarrow> done_with C s w j e"
  by (simp add: done_with_def exec_in_def compl_in_def completion_of_def)

lemma exec_in_plan: "wkey w' = wkey w \<Longrightarrow> wi_plan w' = wi_plan w \<Longrightarrow> exec_in s w' j q \<longleftrightarrow> exec_in s w j q"
  by (simp add: exec_in_def)

definition advances :: "work_item_execution \<Rightarrow> work_item_execution \<Rightarrow> bool" where
  "advances v v' \<longleftrightarrow> wkey v' = wkey v \<and> wi_plan v' = wi_plan v \<and> wnext v \<le> wnext v' \<and> (wi_terminal_evidence v \<noteq> None \<longrightarrow> wi_terminal_evidence v' \<noteq> None)"

lemma advances_refl [simp]: "advances v v"
  by (simp add: advances_def)

lemma belongs_advances: "advances v v' \<Longrightarrow> belongs v q \<Longrightarrow> belongs v' q"
  by (auto simp: advances_def belongs_def)

text \<open>
  One step of the store: one version \<open>w'\<close> is new or replaces its predecessor, the rows of the
  others are untouched, and every new row belongs to \<open>w'\<close>.
\<close>

lemma inv_step:
  assumes inv: "wf_inv C s" and t: "tables_wf s'" and i: "items_ok C s'" and a: "archives_ok C s'"
    and v: "w' \<in> versions s'" "\<And>v. v \<in> versions s' \<Longrightarrow> v = w' \<or> v \<in> versions s \<and> wid v \<noteq> wid w'"
    and advances: "\<And>v. v \<in> versions s \<Longrightarrow> \<exists>v' \<in> versions s'. advances v v'"
    and touch: "touches (wid w') s s'" and co: "coherent C s' w'"
    and ex: "\<And>i row. om_get (ws_execution s') i = Some row \<Longrightarrow> om_get (ws_execution s) i = Some row
      \<or> (\<exists>q. row = xrow (wkey w') q \<and> es_invocation_id (px_step q) = i \<and> belongs w' q)"
    and k: "completions_ok C s'"
    and g: "\<And>r row. om_get (ws_gate s') r = Some row \<Longrightarrow> om_get (ws_gate s) r = Some row
      \<or> (\<exists>g st ev t. row = grow (wkey w') g st ev t \<and> pg_request_id g = r \<and> pg_plan_id g = ep_plan_id (wi_plan w')
         \<and> pg_plan_digest g = ep_request_digest (wi_plan w') \<and> wi_terminal_evidence w' \<noteq> None)"
    and gu: "\<And>r r' row row'. om_get (ws_gate s') r = Some row \<Longrightarrow> om_get (ws_gate s') r' = Some row' \<Longrightarrow> gr_plan_id row = gr_plan_id row' \<Longrightarrow> r = r'"
  shows "wf_inv C s'"
proof -
  have "\<exists>w \<in> versions s'. \<exists>q. row = xrow (wkey w) q \<and> es_invocation_id (px_step q) = i \<and> belongs w q"
    if "om_get (ws_execution s') i = Some row" for i row
    using ex [OF that]
  proof
    assume "om_get (ws_execution s) i = Some row"
    with wf_invD(4) [OF inv] obtain w q where w: "w \<in> versions s" "row = xrow (wkey w) q" "es_invocation_id (px_step q) = i" "belongs w q"
      unfolding execs_ok_def by blast
    from advances [OF w(1)] obtain w1 where w1: "w1 \<in> versions s'" "advances w w1" by blast
    then have "row = xrow (wkey w1) q" using w(2) by (simp add: advances_def)
    with w w1 belongs_advances show ?thesis by blast
  qed (use v(1) in blast)
  then have "execs_ok s'" unfolding execs_ok_def by blast
  moreover have "\<exists>w \<in> versions s'. \<exists>g st ev t. row = grow (wkey w) g st ev t \<and> pg_request_id g = r \<and> pg_plan_id g = ep_plan_id (wi_plan w)
      \<and> pg_plan_digest g = ep_request_digest (wi_plan w) \<and> wi_terminal_evidence w \<noteq> None"
    if "om_get (ws_gate s') r = Some row" for r row
    using g [OF that]
  proof
    assume "om_get (ws_gate s) r = Some row"
    with wf_invD(6) [OF inv] obtain w g st ev t where w: "w \<in> versions s" "row = grow (wkey w) g st ev t" "pg_request_id g = r"
      "pg_plan_id g = ep_plan_id (wi_plan w)" "pg_plan_digest g = ep_request_digest (wi_plan w)" "wi_terminal_evidence w \<noteq> None"
      unfolding gates_ok_def by blast
    from advances [OF w(1)] obtain w1 where w1: "w1 \<in> versions s'" "advances w w1" by blast
    with w(2-6) show ?thesis by (intro bexI [OF _ w1(1)] exI [of _ g] exI [of _ st] exI [of _ ev] exI [of _ t]) (auto simp: advances_def)
  qed (use v(1) in blast)
  then have "gates_ok s'" unfolding gates_ok_def using gu by blast
  moreover have "coherent C s' v" if "v \<in> versions s'" for v
    using v(2) [OF that] co coherent_touch [OF touch] wf_invD(7) [OF inv] by blast
  ultimately show ?thesis using t i a k unfolding wf_inv_def by blast
qed

end
