(* ===== verification/Workflow_Steps.thy ===== *)
theory Workflow_Steps
  imports Workflow_Invariant
begin

text \<open>
  Every operation of the workflow store keeps its invariant: the recording of an execution
  observation, of completion evidence, of a gate verdict, and the admission of a plan or a revision.
\<close>

section \<open>Replacing the current version\<close>

lemma version_current:
  assumes "items_ok C s" and "archives_ok C s" and "w \<in> versions s" and "current_at s (wkey w) v" and "ep_plan_id (wi_plan v) = ep_plan_id (wi_plan w)"
  shows "v = w"
proof -
  have k: "wkey v = wkey w" using current_at_row(2) [OF assms(1,4)] by simp
  then have "v \<in> versions s" using assms(4) by (simp add: versions_def)
  moreover have "wid v = wid w" using k assms(5) by (simp add: wid_def)
  ultimately show ?thesis using version_unique [OF assms(1,2)] assms(3) by blast
qed

lemma version_has_current:
  assumes "items_ok C s" and "archives_ok C s" and "w \<in> versions s"
  shows "\<exists>v. current_at s (wkey w) v"
  using assms(3)
proof (cases rule: versionsE)
  case (archived ns pid a)
  from archive_okD(5) [OF assms(2) archived(1)] archived(2) show ?thesis by blast
qed blast

lemma put_work_item_OkD:
  assumes "items_ok C s" and "archives_ok C s" and "w \<in> versions s" and "wkey w' = wkey w" and "wi_plan w' = wi_plan w"
    and put: "put_work_item C w' s = Ok s'"
  shows "current_at s (wkey w) w" and "s' = s\<lparr>ws_items := om_insert (wkey w') \<lparr>ir_version = uint (wi_version w'), ir_payload = Json w'\<rparr> (ws_items s)\<rparr>"
proof -
  obtain v where v: "current_at s (wkey w) v" using version_has_current [OF assms(1-3)] by blast
  then have r: "read_work_item C s (wi_tenant_id w') (wi_project_id w') (wi_work_item_id w') = Ok (Some v)"
    using read_work_item_current(1) [OF assms(1)] assms(4) by (simp add: wkey_def)
  then have "ep_plan_id (wi_plan v) = ep_plan_id (wi_plan w)"
    using put assms(5) by (auto simp: put_work_item_def split: if_splits)
  with version_current [OF assms(1-3) v] v show "current_at s (wkey w) w" by simp
  show "s' = s\<lparr>ws_items := om_insert (wkey w') \<lparr>ir_version = uint (wi_version w'), ir_payload = Json w'\<rparr> (ws_items s)\<rparr>"
    using put r by (auto simp: put_work_item_def write_current_work_item_def wkey_def split: if_splits)
qed

text \<open>The store after a version \<open>w\<close> became \<open>w'\<close>; the outbox rows are any.\<close>

definition replaces :: "wf_codec \<Rightarrow> workflow_store \<Rightarrow> work_item_execution \<Rightarrow> work_item_execution \<Rightarrow> workflow_store \<Rightarrow> bool" where
  "replaces C s w w' s' \<longleftrightarrow> current_at s (wkey w) w \<and> wkey w' = wkey w \<and> wi_plan w' = wi_plan w \<and> ws_operations s' = ws_operations s
     \<and> ws_items s' = om_insert (wkey w') \<lparr>ir_version = uint (wi_version w'), ir_payload = Json w'\<rparr> (ws_items s) \<and> stored_ok C w'"

lemma read_archive_cong: "ws_operations s' = ws_operations s \<Longrightarrow> read_archive C s' = read_archive C s"
  by (intro ext) (simp add: read_archive_def read_operation_def)

lemma archive_at_cong: "ws_operations s' = ws_operations s \<Longrightarrow> archive_at s' = archive_at s"
  by (intro ext) (simp add: archive_at_def)

lemma replaces_versions:
  assumes "om_wf (ws_items s)" and "items_ok C s" and "archives_ok C s" and r: "replaces C s w w' s'"
  shows "items_ok C s'" and "archives_ok C s'" and "w' \<in> versions s'"
    and "v \<in> versions s' \<Longrightarrow> v = w' \<or> v \<in> versions s \<and> wid v \<noteq> wid w'"
    and "v \<in> versions s \<Longrightarrow> v = w \<or> v \<in> versions s'"
proof -
  have c: "current_at s (wkey w) w" and k: "wkey w' = wkey w" "wi_plan w' = wi_plan w" and o: "ws_operations s' = ws_operations s"
    and it: "ws_items s' = om_insert (wkey w') \<lparr>ir_version = uint (wi_version w'), ir_payload = Json w'\<rparr> (ws_items s)"
    and ok: "stored_ok C w'" using r by (simp_all add: replaces_def)
  have get: "om_get (ws_items s') k = (if k = wkey w' then Some \<lparr>ir_version = uint (wi_version w'), ir_payload = Json w'\<rparr> else om_get (ws_items s) k)" for k
    using assms(1) by (simp add: it)
  show "items_ok C s'" using assms(2) ok unfolding items_ok_def get by auto
  have cur: "current_at s' k v \<longleftrightarrow> (if k = wkey w then v = w' else current_at s k v)" for k v
    unfolding current_at_def get k by auto
  have w: "w \<in> versions s" using c by (simp add: versions_def)
  have arch: "\<exists>v. current_at s' (wkey (ar_previous a)) v \<and> ep_plan_id (wi_plan v) \<noteq> pid" if "archive_at s ns pid a" for ns pid a
  proof -
    from archive_okD(5) [OF assms(3) that] obtain v where v: "current_at s (wkey (ar_previous a)) v" "ep_plan_id (wi_plan v) \<noteq> pid" by blast
    show ?thesis
    proof (cases "wkey (ar_previous a) = wkey w")
      case True
      then have "v = w" using v(1) c current_at_unique by (simp only:)
      with True v(2) show ?thesis by (intro exI [of _ w']) (simp add: cur k)
    qed (use v in \<open>auto simp: cur\<close>)
  qed
  show "archives_ok C s'"
    using assms(3) arch unfolding archives_ok_def archive_ok_def archive_at_cong [OF o] read_archive_cong [OF o] o by blast
  show "w' \<in> versions s'" by (simp add: versions_def cur k)
  show "v = w' \<or> v \<in> versions s \<and> wid v \<noteq> wid w'" if "v \<in> versions s'"
    using that
  proof (cases rule: versionsE)
    case current
    then show ?thesis by (cases "wkey v = wkey w") (auto simp: cur versions_def wid_def k)
  next
    case (archived ns pid a)
    then have at: "archive_at s ns pid a" by (simp add: archive_at_cong [OF o])
    from archive_okD(3,5) [OF assms(3) at] archived(2) obtain u where u: "current_at s (wkey v) u" "ep_plan_id (wi_plan u) \<noteq> ep_plan_id (wi_plan v)" by auto
    have "wid v \<noteq> wid w"
    proof
      assume "wid v = wid w"
      then have e: "wkey v = wkey w" "ep_plan_id (wi_plan v) = ep_plan_id (wi_plan w)" by (simp_all add: wid_def)
      from current_at_unique [OF u(1) [unfolded e(1)] c] u(2) e(2) show False by simp
    qed
    with at archived(2) show ?thesis by (auto simp: versions_def wid_def k)
  qed
  show "v = w \<or> v \<in> versions s'" if v: "v \<in> versions s"
    using v
  proof (cases rule: versionsE)
    case current
    then show ?thesis
    proof (cases "wkey v = wkey w")
      case True
      then have "v = w" using current c current_at_unique by (simp only:)
      then show ?thesis ..
    qed (use current in \<open>simp add: versions_def cur\<close>)
  next
    case (archived ns pid a)
    then show ?thesis by (auto simp: versions_def archive_at_cong [OF o])
  qed
qed

text \<open>The invariant after one version moved on.\<close>

lemma inv_replace:
  assumes inv: "wf_inv C s" and r: "replaces C s w w' s'" and l: "advances w w'"
    and t: "om_wf (ws_execution s')" "om_wf (ws_completion s')" "om_wf (ws_gate s')"
    and "touches (wid w') s s'" and "coherent C s' w'"
    and "\<And>i row. om_get (ws_execution s') i = Some row \<Longrightarrow> om_get (ws_execution s) i = Some row
      \<or> (\<exists>q. row = xrow (wkey w') q \<and> es_invocation_id (px_step q) = i \<and> belongs w' q)"
    and "completions_ok C s'"
    and "\<And>r row. om_get (ws_gate s') r = Some row \<Longrightarrow> om_get (ws_gate s) r = Some row
      \<or> (\<exists>g st ev t. row = grow (wkey w') g st ev t \<and> pg_request_id g = r \<and> pg_plan_id g = ep_plan_id (wi_plan w')
         \<and> pg_plan_digest g = ep_request_digest (wi_plan w') \<and> wi_terminal_evidence w' \<noteq> None)"
    and "\<And>r r' row row'. om_get (ws_gate s') r = Some row \<Longrightarrow> om_get (ws_gate s') r' = Some row' \<Longrightarrow> gr_plan_id row = gr_plan_id row' \<Longrightarrow> r = r'"
  shows "wf_inv C s'"
proof -
  have wf: "om_wf (ws_items s)" "om_wf (ws_operations s)" using wf_invD(1) [OF inv] by (simp_all add: tables_wf_def)
  note v = replaces_versions [OF wf(1) wf_invD(2,3) [OF inv] r]
  have tw: "tables_wf s'" using t wf r by (simp add: tables_wf_def replaces_def)
  have lt: "\<exists>v' \<in> versions s'. advances u v'" if "u \<in> versions s" for u
    using v(5) [OF that] v(3) l advances_refl by blast
  show ?thesis by (rule inv_step [OF inv tw v(1,2,3,4) lt assms(7-12)]) assumption+
qed

text \<open>What every recording does: it keeps the invariant, what is done, and the plans in the store.\<close>

definition keeps_plans :: "workflow_store \<Rightarrow> workflow_store \<Rightarrow> bool" where
  "keeps_plans s s' \<longleftrightarrow> (\<forall>v \<in> versions s. \<exists>v' \<in> versions s'. wkey v' = wkey v \<and> wi_plan v' = wi_plan v)
     \<and> (\<forall>k row. om_get (ws_operations s) k = Some row \<longrightarrow> om_get (ws_operations s') k = Some row)"

definition safe_step :: "wf_codec \<Rightarrow> workflow_store \<Rightarrow> workflow_store \<Rightarrow> bool" where
  "safe_step C s s' \<longleftrightarrow> wf_inv C s' \<and> keeps_done s s' \<and> keeps_plans s s' \<and> wi_plan ` versions s' \<subseteq> wi_plan ` versions s"

lemma safe_step_refl: "wf_inv C s \<Longrightarrow> safe_step C s s"
  by (auto simp: safe_step_def keeps_done_def keeps_plans_def)

lemma safe_stepI:
  assumes inv: "wf_inv C s" and r: "replaces C s w w' s'" and "wf_inv C s'" and "keeps_done s s'"
  shows "safe_step C s s'"
proof -
  have wf: "om_wf (ws_items s)" using wf_invD(1) [OF inv] by (simp add: tables_wf_def)
  note v = replaces_versions [OF wf wf_invD(2,3) [OF inv] r]
  have w: "w \<in> versions s" "wi_plan w' = wi_plan w" "wkey w' = wkey w" "ws_operations s' = ws_operations s" using r by (simp_all add: replaces_def versions_def)
  have "wi_plan v \<in> wi_plan ` versions s" if "v \<in> versions s'" for v
    using v(4) [OF that] w by auto
  moreover have "\<exists>v' \<in> versions s'. wkey v' = wkey u \<and> wi_plan v' = wi_plan u" if "u \<in> versions s" for u
    using v(5) [OF that] v(3) w(2,3) by auto
  ultimately show ?thesis using assms(3,4) w(4) by (auto simp: safe_step_def keeps_plans_def)
qed

section \<open>Recording an execution observation\<close>

lemma version_frame: "wf_inv C s \<Longrightarrow> w \<in> versions s \<Longrightarrow> frame_ok C w \<and> stored_state_check C w (wi_state w) = Ok ()"
  using versions_stored wf_invD(2,3) stored_ok_iff by blast

text \<open>The request a client holds is the stored one of the step the work item is at.\<close>

lemma execution_request_iff:
  assumes inv: "wf_inv C s" and w: "w \<in> versions s"
  shows "validate_execution_request s w request = Ok () \<longleftrightarrow>
    exec_in s w (wnext w) request \<and> request_state_fits w (px_state request)
    \<and> wi_terminal_evidence w = None \<and> wi_gate_evidence w = None \<and> wi_blocker_code w = None"
proof
  have fr: "frame_ok C w" using version_frame [OF inv w] by simp
  assume ok: "validate_execution_request s w request = Ok ()"
  then obtain row where row: "om_get (ws_execution s) (es_invocation_id (px_step request)) = Some row"
    by (auto simp: validate_execution_request_def)
  then obtain v q where v: "v \<in> versions s" "row = xrow (wkey v) q" "es_invocation_id (px_step q) = es_invocation_id (px_step request)"
    using exec_row_version [OF inv row] by blast
  have q: "q = request" "wkey v = wkey w" and h: "px_schema_version request = WORKFLOW_SCHEMA_VERSION" "px_plan_id request = ep_plan_id (wi_plan w)"
      "px_plan_digest request = ep_request_digest (wi_plan w)" "wsteps w ! unat (es_ordinal (px_step request)) = px_step request"
      "wi_next_step_ordinal w = es_ordinal (px_step request)" "px_created_at request \<le> px_updated_at request"
    and fits: "request_state_fits w (px_state request) \<and> wi_terminal_evidence w = None \<and> wi_gate_evidence w = None \<and> wi_blocker_code w = None"
    using ok row v(2) by (auto simp: validate_execution_request_def wkey_def split: if_splits)
  then have "exec_in s w (wnext w) request" using row v(2) by (simp add: exec_in_def)
  with fits show "exec_in s w (wnext w) request \<and> request_state_fits w (px_state request)
    \<and> wi_terminal_evidence w = None \<and> wi_gate_evidence w = None \<and> wi_blocker_code w = None" by simp
next
  have fr: "frame_ok C w" using version_frame [OF inv w] by simp
  assume h: "exec_in s w (wnext w) request \<and> request_state_fits w (px_state request)
    \<and> wi_terminal_evidence w = None \<and> wi_gate_evidence w = None \<and> wi_blocker_code w = None"
  have n: "wnext w < length (wsteps w)" using fr by (simp add: frame_ok_def)
  then have "unat (es_ordinal (px_step request)) = wnext w" using h frame_plan(3) [OF fr n] by (simp add: exec_in_def)
  moreover from this have "es_ordinal (px_step request) = wi_next_step_ordinal w" by (simp add: word_unat_eq_iff)
  ultimately show "validate_execution_request s w request = Ok ()"
    using h n by (simp add: validate_execution_request_def exec_in_def not_less)
qed

lemma update_execution_OkD:
  assumes "update_execution request q now s = Ok s'" and "om_get (ws_execution s) (es_invocation_id (px_step request)) = Some (xrow k request)"
    and "px_step q = px_step request" and "px_plan_digest q = px_plan_digest request" and "px_updated_at q = now"
  shows "s' = s\<lparr>ws_execution := om_insert (es_invocation_id (px_step request)) (xrow k q) (ws_execution s)\<rparr>"
  using assms by (auto simp: update_execution_def xrow_def)

lemma insert_completion_OkD:
  assumes "insert_completion_request C w request authority now s = Ok s'"
    and "completion_row_of_invocation s (es_invocation_id (px_step request)) = None"
  shows "om_get (ws_completion s) (pc_request_id (build_completion_request C w request authority now)) = None"
    and "s' = s\<lparr>ws_completion := om_insert (pc_request_id (build_completion_request C w request authority now))
      (krow (wkey w) (build_completion_request C w request authority now) None now) (ws_completion s)\<rparr>"
proof -
  have "pc_invocation_id (build_completion_request C w request authority now) = es_invocation_id (px_step request)"
    by (simp add: build_completion_request_def Let_def)
  with assms show "om_get (ws_completion s) (pc_request_id (build_completion_request C w request authority now)) = None"
    "s' = s\<lparr>ws_completion := om_insert (pc_request_id (build_completion_request C w request authority now))
      (krow (wkey w) (build_completion_request C w request authority now) None now) (ws_completion s)\<rparr>"
    by (auto simp: insert_completion_request_def Let_def krow_def wkey_def split: if_splits)
qed

lemma build_completion_of:
  assumes "px_step q = wsteps w ! j" and "px_authority_digest q = authority_digest C authority" and "ep_created_at (wi_plan w) \<le> now"
  shows "completion_of C w j q (build_completion_request C w q authority now)"
    and "pc_created_at (build_completion_request C w q authority now) = now"
  using assms by (simp_all add: completion_of_def build_completion_request_def Let_def completion_digest_def)

lemma no_completion_row:
  assumes "wf_inv C s" and "om_get (ws_execution s) i = Some (xrow k q)" and "px_state q \<noteq> Succeeded"
  shows "completion_row_of_invocation s i = None"
proof (rule ccontr)
  assume "completion_row_of_invocation s i \<noteq> None"
  then obtain row where "completion_row_of_invocation s i = Some row" by blast
  from find_SomeD [OF this [unfolded completion_row_of_invocation_def]]
  have row: "row \<in> set (om_values (ws_completion s))" "kr_invocation_id row = i" by simp_all
  have "om_wf (ws_completion s)" using wf_invD(1) [OF assms(1)] by (simp add: tables_wf_def)
  from om_values_set [OF this, THEN iffD1, OF row(1)] obtain r where "om_get (ws_completion s) r = Some row" by blast
  from wf_invD(5) [OF assms(1), unfolded completions_ok_def, rule_format, OF this] obtain k' c ev t q' where "row = krow k' c ev t" "om_get (ws_execution s) (pc_invocation_id c) = Some (xrow k' q')"
    "px_state q' = Succeeded" unfolding completes_def by blast
  with row(2) assms(2,3) show False by simp
qed

text \<open>The observed work item is again a valid one.\<close>

lemma observed_stored_ok:
  fixes st :: reconcile_state
  assumes fr: "frame_ok C w" "stored_state_check C w (wi_state w) = Ok ()" and fits: "request_state_fits w st0"
    and none: "wi_terminal_evidence w = None" "wi_gate_evidence w = None" "wi_blocker_code w = None" and now: "wi_updated_at w \<le> now"
  defines "w' \<equiv> w\<lparr>wi_state := fst (observation_effect st (wi_state w)), wi_blocker_code := snd (observation_effect st (wi_state w)),
    wi_version := saturating_add (wi_version w) 1, wi_updated_at := now\<rparr>"
  shows "stored_ok C w'"
proof -
  have "frame_ok C w'" using fr(1) now by (auto simp: frame_ok_def w'_def saturating_add_one_nz)
  moreover have "wi_state w = Claimed \<or> wi_state w = InProgress" using fits by (auto simp: request_state_fits_def)
  then have "stored_state_check C w' (wi_state w') = Ok ()"
    using fr(2) none by (cases st) (auto simp: w'_def)
  ultimately show ?thesis by (simp add: stored_ok_iff)
qed

text \<open>The rows after an observation: the request with its new state and, when the step succeeded, its completion request.\<close>

definition observed_rows ::
  "wf_codec \<Rightarrow> work_item_execution \<Rightarrow> pending_execution \<Rightarrow> runtime_authority \<Rightarrow> u64 \<Rightarrow> pending_execution \<Rightarrow> workflow_store \<Rightarrow> workflow_store \<Rightarrow> bool" where
  "observed_rows C w request authority now q s s' \<longleftrightarrow>
     ws_execution s' = om_insert (es_invocation_id (px_step request)) (xrow (wkey w) q) (ws_execution s) \<and> ws_gate s' = ws_gate s
     \<and> (if px_state q = Succeeded
        then (let c = build_completion_request C w request authority now in om_get (ws_completion s) (pc_request_id c) = None
          \<and> ws_completion s' = om_insert (pc_request_id c) (krow (wkey w) c None now) (ws_completion s))
        else ws_completion s' = ws_completion s)"

lemma observed_coherent:
  assumes inv: "wf_inv C s" and w: "w \<in> versions s" and x: "exec_in s w (wnext w) request" "request_state_fits w (px_state request)"
    and rows: "observed_rows C w request authority now q s s'" and auth: "px_authority_digest request = authority_digest C authority"
    and q: "q = request\<lparr>px_state := st, px_attempts := n, px_updated_at := now\<rparr>" and now: "px_updated_at request \<le> now" "wi_updated_at w \<le> now"
    and w': "wkey w' = wkey w" "wi_plan w' = wi_plan w" "wi_next_step_ordinal w' = wi_next_step_ordinal w"
      "(wi_state w', wi_blocker_code w') = observation_effect st (wi_state w)" "wi_terminal_evidence w' = None"
  shows "keeps_done s s'" and "coherent C s' w'"
proof -
  have wf: "om_wf (ws_execution s)" "om_wf (ws_completion s)" using wf_invD(1) [OF inv] by (simp_all add: tables_wf_def)
  let ?i = "es_invocation_id (px_step request)"
  have xi: "es_invocation_id (wsteps w ! wnext w) = ?i" "om_get (ws_execution s) ?i = Some (xrow (wkey w) request)" "px_step request = wsteps w ! wnext w"
    using x(1) by (simp_all add: exec_in_def)
  have ns: "px_state request \<noteq> Succeeded" using x(2) by (auto simp: request_state_fits_def)
  have e: "om_get (ws_execution s') i = (if i = ?i then Some (xrow (wkey w) q) else om_get (ws_execution s) i)" for i
    using rows wf(1) by (simp add: observed_rows_def)
  have cs: "om_get (ws_completion s) r = Some row \<Longrightarrow> om_get (ws_completion s') r = Some row" for r row
    using rows wf(2) by (auto simp: observed_rows_def Let_def split: if_splits)
  have "om_get (ws_execution s') i = Some (xrow k q')" if "om_get (ws_execution s) i = Some (xrow k q')" "px_state q' = Succeeded" for i k q'
    using that xi(2) ns by (cases "i = ?i") (simp_all add: e)
  then show kd: "keeps_done s s'" unfolding keeps_done_def using cs by blast
  have "om_get (ws_execution s') (es_invocation_id (wsteps w ! wnext w)) = Some (xrow (wkey w) q)" unfolding xi(1) by (simp add: e)
  moreover have "px_created_at request \<le> now" using x(1) now(1) by (auto simp: exec_in_def)
  ultimately have xq: "exec_in s' w (wnext w) q" using x(1) by (simp add: exec_in_def q)
  have old: "\<forall>j < wnext w'. \<exists>e. done_with C s' w' j e"
    using wf_invD(7) [OF inv w] done_with_keep [OF kd] unfolding coherent_def done_with_plan [OF w'(1,2)] w'(3) by blast
  have wst: "wi_state w = Claimed \<or> wi_state w = InProgress" using x(2) by (auto simp: request_state_fits_def)
  have xq': "exec_in s' w' (wnext w') q" using xq by (simp add: exec_in_plan [OF w'(1,2)] w'(3))
  have "state_coherent C s' w' (wi_state w')"
  proof (cases "st \<in> {NotFound, Reserved, Executing}")
    case True
    then have "request_state_fits w' (px_state q)" and "wi_state w' = Claimed \<or> wi_state w' = InProgress"
      using x(2) w'(4) wst by (auto simp: request_state_fits_def q)
    then show ?thesis using xq' by (auto simp: running_def)
  next
    case False
    show ?thesis
    proof (cases "st = Succeeded")
      case True
      let ?c = "build_completion_request C w request authority now"
      have "ep_created_at (wi_plan w) \<le> now" using version_frame [OF inv w] now(2) by (auto simp: frame_ok_def)
      from build_completion_of [OF xi(3) auth this] have c: "completion_of C w (wnext w) request ?c" "pc_created_at ?c = now" by simp_all
      have "om_get (ws_completion s') (pc_request_id ?c) = Some (krow (wkey w) ?c None now)"
        using rows True wf(2) by (simp add: observed_rows_def q Let_def)
      then have "compl_in C s' w' (wnext w') q ?c None (pc_created_at ?c)"
        using c w' by (simp add: compl_in_def completion_of_def q)
      moreover have "wi_state w' = wi_state w" using w'(4) True by simp
      moreover have "running C s' w'"
        unfolding running_def by (intro exI [of _ q] conjI disjI2 exI [of _ ?c] xq' calculation(1)) (simp add: q True)
      ultimately show ?thesis using wst by auto
    next
      case s: False
      with False have st: "st \<in> {Failed, RunCancelled, TimedOut, UnknownOutcome}" by (cases st) auto
      then have "observation_effect st InProgress = (wi_state w', wi_blocker_code w')" using w'(4) by auto
      then have h: "halted s' w'" using st xq' by (auto simp: halted_def q)
      show ?thesis using st w'(4) h by auto
    qed
  qed
  with old show "coherent C s' w'" by (simp add: coherent_def)
qed

lemma items_cong:
  assumes "ws_items s' = ws_items s" and "ws_operations s' = ws_operations s"
  shows "items_ok C s' = items_ok C s" and "current_at s' = current_at s" and "versions s' = versions s" and "archives_ok C s' = archives_ok C s"
proof -
  show "items_ok C s' = items_ok C s" by (simp add: items_ok_def assms)
  show c: "current_at s' = current_at s" by (intro ext) (simp add: current_at_def assms)
  show "versions s' = versions s" by (simp add: versions_def c archive_at_cong [OF assms(2)])
  show "archives_ok C s' = archives_ok C s"
    by (simp add: archives_ok_def archive_ok_def c archive_at_cong [OF assms(2)] read_archive_cong [OF assms(2)] assms)
qed

lemma append_audit_OkD:
  "append_audit w ev b a d p now s = Ok s' \<Longrightarrow> \<exists>l. s' = s\<lparr>ws_audit := l\<rparr>"
  by (auto simp: append_audit_def)

text \<open>The end of every recording: the work item is written and the audit event appended.\<close>

lemma recorded:
  assumes inv: "wf_inv C s" and s1: "ws_items s1 = ws_items s" "ws_operations s1 = ws_operations s"
    and w: "w \<in> versions s" "wkey w' = wkey w" "wi_plan w' = wi_plan w" "stored_ok C w'"
    and put: "put_work_item C w' s1 = Ok s2" and au: "append_audit w'' ev b a d p now s2 = Ok s'"
  shows "replaces C s w w' s'" and "ws_execution s' = ws_execution s1" and "ws_completion s' = ws_completion s1" and "ws_gate s' = ws_gate s1"
proof -
  note c = items_cong [OF s1]
  have "items_ok C s1" "archives_ok C s1" "w \<in> versions s1" using wf_invD(2,3) [OF inv] w(1) by (simp_all add: c)
  note p = put_work_item_OkD [OF this w(2,3) put]
  from append_audit_OkD [OF au] obtain l where l: "s' = s2\<lparr>ws_audit := l\<rparr>" by blast
  show "replaces C s w w' s'" using p(1) w(2-4) s1 by (simp add: replaces_def c l p(2))
  show "ws_execution s' = ws_execution s1" "ws_completion s' = ws_completion s1" "ws_gate s' = ws_gate s1" by (simp_all add: l p(2))
qed

lemma gates_unique: "gates_ok s \<Longrightarrow> om_get (ws_gate s) r = Some row \<Longrightarrow> om_get (ws_gate s) r' = Some row' \<Longrightarrow> gr_plan_id row = gr_plan_id row' \<Longrightarrow> r = r'"
  unfolding gates_ok_def by simp

lemma completions_okD:
  assumes "completions_ok C s" and "om_get (ws_completion s) r = Some row"
  obtains k c ev t q where "row = krow k c ev t" "pc_request_id c = r" "om_get (ws_execution s) (pc_invocation_id c) = Some (xrow k q)"
    "completes C q c"
  using assms(1) [unfolded completions_ok_def, rule_format, OF assms(2)] by blast

lemma observed_inv:
  assumes inv: "wf_inv C s" and w: "w \<in> versions s" and x: "exec_in s w (wnext w) request" "request_state_fits w (px_state request)"
    and rows: "observed_rows C w request authority now q s s'" and auth: "px_authority_digest request = authority_digest C authority"
    and q: "q = request\<lparr>px_state := st, px_attempts := n, px_updated_at := now\<rparr>" and now: "px_updated_at request \<le> now" "wi_updated_at w \<le> now"
    and w': "wkey w' = wkey w" "wi_plan w' = wi_plan w" "wi_next_step_ordinal w' = wi_next_step_ordinal w"
      "(wi_state w', wi_blocker_code w') = observation_effect st (wi_state w)" "wi_terminal_evidence w' = None" "wi_terminal_evidence w = None"
    and r: "replaces C s w w' s'"
  shows "wf_inv C s'"
proof (rule inv_replace [OF inv r])
  have wf: "om_wf (ws_execution s)" "om_wf (ws_completion s)" "om_wf (ws_gate s)" using wf_invD(1) [OF inv] by (simp_all add: tables_wf_def)
  let ?i = "es_invocation_id (px_step request)" and ?c = "build_completion_request C w request authority now"
  have xi: "om_get (ws_execution s) ?i = Some (xrow (wkey w) request)" "px_step request = wsteps w ! wnext w" "px_plan_id request = ep_plan_id (wi_plan w)"
    using x(1) by (simp_all add: exec_in_def)
  have e: "om_get (ws_execution s') i = (if i = ?i then Some (xrow (wkey w) q) else om_get (ws_execution s) i)" for i
    using rows wf(1) by (simp add: observed_rows_def)
  have k: "om_get (ws_completion s') r = (if px_state q = Succeeded \<and> r = pc_request_id ?c then Some (krow (wkey w) ?c None now) else om_get (ws_completion s) r)" for r
    using rows wf(2) by (auto simp: observed_rows_def Let_def split: if_splits)
  have kn: "om_get (ws_completion s) (pc_request_id ?c) = None" if "px_state q = Succeeded"
    using rows that by (simp add: observed_rows_def Let_def)
  have g: "ws_gate s' = ws_gate s" using rows by (simp add: observed_rows_def)
  show "advances w w'" using w' by (simp add: advances_def)
  show "om_wf (ws_execution s')" "om_wf (ws_completion s')" "om_wf (ws_gate s')"
    using rows wf by (auto simp: observed_rows_def Let_def split: if_splits)
  show "coherent C s' w'" by (rule observed_coherent(2) [OF inv w x rows auth q now w'(1-5)])
  have "om_get (ws_execution s') i = Some (xrow k q')" if "om_get (ws_execution s) i = Some (xrow k q')" "(k, px_plan_id q') \<noteq> wid w'" for i k q'
    using that xi w'(1,2) by (cases "i = ?i") (simp_all add: e wid_def)
  moreover have "om_get (ws_completion s') r = Some row" if "om_get (ws_completion s) r = Some row" for r row
    using that kn by (auto simp: k)
  ultimately show "touches (wid w') s s'" unfolding touches_def g by blast
  show "om_get (ws_execution s) i = Some row \<or> (\<exists>q. row = xrow (wkey w') q \<and> es_invocation_id (px_step q) = i \<and> belongs w' q)"
    if "om_get (ws_execution s') i = Some row" for i row
  proof (cases "i = ?i")
    case True
    have fr: "frame_ok C w" using version_frame [OF inv w] by simp
    then have "wnext w < length (wsteps w)" by (simp add: frame_ok_def)
    then have "unat (es_ordinal (px_step request)) = wnext w" using frame_plan(3) [OF fr] by (simp add: xi(2))
    then have "belongs w' q" using xi w'(1-3) by (simp add: belongs_def q)
    then show ?thesis using that True w'(1) by (auto simp: e q)
  qed (use that in \<open>simp add: e\<close>)
  have ns: "px_state request \<noteq> Succeeded" using x(2) by (auto simp: request_state_fits_def)
  have "\<exists>k c ev t q. row = krow k c ev t \<and> pc_request_id c = r \<and> om_get (ws_execution s') (pc_invocation_id c) = Some (xrow k q)
      \<and> completes C q c" if "om_get (ws_completion s') r = Some row" for r row
  proof (cases "px_state q = Succeeded \<and> r = pc_request_id ?c")
    case True
    have "pc_invocation_id ?c = ?i" "pc_plan_id ?c = ep_plan_id (wi_plan w)" by (simp_all add: build_completion_request_def Let_def)
    moreover have "row = krow (wkey w) ?c None now" using that True by (simp add: k)
    moreover have "px_plan_id q = ep_plan_id (wi_plan w)" using xi(3) by (simp add: q)
    moreover have "completes C q ?c" using True x(1) by (simp add: completes_def build_completion_request_def Let_def q exec_in_def)
    ultimately show ?thesis using True by (intro exI [of _ "wkey w"] exI [of _ ?c] exI [of _ None] exI [of _ now] exI [of _ q]) (simp add: e)
  next
    case False
    then have "om_get (ws_completion s) r = Some row" using that by (auto simp: k split: if_splits)
    from completions_okD [OF wf_invD(5) [OF inv] this] obtain k c ev t p where c: "row = krow k c ev t" "pc_request_id c = r"
      "om_get (ws_execution s) (pc_invocation_id c) = Some (xrow k p)" "completes C p c" .
    then have "pc_invocation_id c \<noteq> ?i" using xi(1) ns by (auto simp: completes_def)
    then show ?thesis using c by (intro exI [of _ k] exI [of _ c] exI [of _ ev] exI [of _ t] exI [of _ p]) (simp add: e)
  qed
  then show "completions_ok C s'" unfolding completions_ok_def by blast
  show "om_get (ws_gate s) r = Some row \<or> (\<exists>g st ev t. row = grow (wkey w') g st ev t \<and> pg_request_id g = r \<and> pg_plan_id g = ep_plan_id (wi_plan w')
         \<and> pg_plan_digest g = ep_request_digest (wi_plan w') \<and> wi_terminal_evidence w' \<noteq> None)" if "om_get (ws_gate s') r = Some row" for r row
    using that by (simp add: g)
  show "r = r'" if "om_get (ws_gate s') r = Some row" "om_get (ws_gate s') r' = Some row'" "gr_plan_id row = gr_plan_id row'" for r r' row row'
    by (rule gates_unique [OF wf_invD(6) [OF inv], of r row r' row']) (use that in \<open>simp_all add: g\<close>)
qed

lemma record_execution_inv:
  assumes inv: "wf_inv C s" and tx: "record_execution_tx C request observed authority now s = Ok (s', w')"
  shows "safe_step C s s'"
proof -
  from tx obtain w where rd: "read_work_item_by_invocation C s (es_invocation_id (px_step request)) = Ok (Some w)"
    and v: "validate_execution_request s w request = Ok ()" and now: "\<not> now < px_updated_at request" "\<not> now < wi_updated_at w"
    and auth: "px_authority_digest request = authority_digest C authority"
    and tx: "record_observed C w request (bounded_observation request observed) authority now s = Ok (s', w')"
    by (auto simp: record_execution_tx_def validate_monotonic_time_def split: if_splits)
  define st where "st = bounded_observation request observed"
  define q where "q = observed_request request st now"
  obtain s1 s2 s3 where w'_eq: "w' = observed_work_item w st now" and s1: "update_execution request q now s = Ok s1"
    and s2: "(if st = Succeeded then insert_completion_request C w' request authority now s1 else Ok s1) = Ok s2"
    and s3: "put_work_item C w' s2 = Ok s3" and s4: "append_audit w' ''execution_reconciled'' (Some (wi_state w)) (wi_state w') (authority_digest C authority)
         (step_digest C (px_step request)) now s3 = Ok s'"
    using tx unfolding record_observed_def Let_def st_def [symmetric] q_def [symmetric] by (auto simp only: try_bind_eq_Ok sum.inject prod.inject)
  note w'_def = w'_eq [unfolded observed_work_item_def Let_def]
  note q_def = q_def [unfolded observed_request_def]
  from by_invocation [OF inv rd] have w: "w \<in> versions s" by blast
  from execution_request_iff [OF inv w] v have x: "exec_in s w (wnext w) request" "request_state_fits w (px_state request)"
    and none: "wi_terminal_evidence w = None" "wi_gate_evidence w = None" "wi_blocker_code w = None" by simp_all
  have row: "om_get (ws_execution s) (es_invocation_id (px_step request)) = Some (xrow (wkey w) request)" using x(1) by (simp add: exec_in_def)
  have ns: "px_state request \<noteq> Succeeded" using x(2) by (auto simp: request_state_fits_def)
  have u: "s1 = s\<lparr>ws_execution := om_insert (es_invocation_id (px_step request)) (xrow (wkey w) q) (ws_execution s)\<rparr>"
    by (rule update_execution_OkD [OF s1 row]) (simp_all add: q_def)
  have "completion_row_of_invocation s1 (es_invocation_id (px_step request)) = None"
    using no_completion_row [OF inv row ns] by (simp add: u completion_row_of_invocation_def)
  then have ins: "st = Succeeded \<Longrightarrow> om_get (ws_completion s1) (pc_request_id (build_completion_request C w' request authority now)) = None
      \<and> s2 = s1\<lparr>ws_completion := om_insert (pc_request_id (build_completion_request C w' request authority now))
          (krow (wkey w') (build_completion_request C w' request authority now) None now) (ws_completion s1)\<rparr>"
    using s2 insert_completion_OkD [of C w' request authority now s1 s2] by simp
  have s2': "st \<noteq> Succeeded \<Longrightarrow> s2 = s1" using s2 by simp
  have b: "build_completion_request C w' request authority now = build_completion_request C w request authority now" "wkey w' = wkey w"
    by (simp_all add: build_completion_request_def w'_def wkey_def)
  have s12: "ws_items s2 = ws_items s" "ws_operations s2 = ws_operations s" "ws_execution s2 = ws_execution s1" "ws_gate s2 = ws_gate s"
    using ins s2' by (cases "st = Succeeded"; simp add: u)+
  have fr: "frame_ok C w" "stored_state_check C w (wi_state w) = Ok ()" using version_frame [OF inv w] by simp_all
  have ok: "stored_ok C w'" unfolding w'_def by (rule observed_stored_ok [OF fr x(2) none]) (use now(2) in simp)
  note rec = recorded [OF inv s12(1,2) w b(2) _ ok s3 s4]
  have pl: "wi_plan w' = wi_plan w" by (simp add: w'_def)
  have rows: "observed_rows C w request authority now q s s'"
    using ins s2' unfolding observed_rows_def rec(2-4) [OF pl] s12 by (cases "st = Succeeded") (simp_all add: u q_def b Let_def)
  have le: "px_updated_at request \<le> now" "wi_updated_at w \<le> now" using now by simp_all
  have e: "wi_next_step_ordinal w' = wi_next_step_ordinal w" "(wi_state w', wi_blocker_code w') = observation_effect st (wi_state w)" "wi_terminal_evidence w' = None"
    using none by (simp_all add: w'_def)
  from observed_inv [OF inv w x rows auth q_def le b(2) pl e none(1) rec(1) [OF pl]] observed_coherent(1) [OF inv w x rows auth q_def le b(2) pl e]
  show ?thesis by (rule safe_stepI [OF inv rec(1) [OF pl]])
qed

end
