(* ===== verification/Workflow_Evidence.thy ===== *)
theory Workflow_Evidence
  imports Workflow_Steps
begin

text \<open>
  The recording of completion evidence and of the gate verdict keeps the invariant of the workflow
  store: the step is done with its evidence, and the work item moves to the next step, into
  review, to done, or is blocked when the gate timed out.
\<close>

section \<open>The pending completion request of a work item\<close>

lemma completion_request_OkD:
  assumes "validate_completion_request C s w request = Ok b"
  obtains row st where "om_get (ws_completion s) (pc_request_id request) = Some row" "kr_request row = Json request"
    "List.find (\<lambda>st. es_step_id st = pc_step_id request) (wsteps w) = Some st" "es_invocation_id st = pc_invocation_id request"
    "pc_plan_id request = ep_plan_id (wi_plan w)" "pc_plan_digest request = ep_request_digest (wi_plan w)"
    "pc_request_id request = completion_request_identity C (pc_plan_id request) (pc_step_id request) (pc_invocation_id request) (pc_plan_digest request)"
    "validate_completion_source s w request st = Ok ()" "completion_outcome C w request st row = Ok b"
  using assms by (auto simp: validate_completion_request_def split: if_splits)

lemma completion_source_OkD:
  assumes "validate_completion_source s w request st = Ok ()"
  obtains row q where "om_get (ws_execution s) (pc_invocation_id request) = Some row" "xr_request row = Json q" "px_state q = Succeeded" "px_step q = st"
  using assms by (auto simp: validate_completion_source_def)

lemma pending_completion:
  assumes inv: "wf_inv C s" and w: "w \<in> versions s" and v: "validate_completion_request C s w request = Ok b"
    and row: "om_get (ws_completion s) (pc_request_id request) = Some row" "kr_state row = ''pending''" "kr_evidence row = None"
  obtains q where "exec_in s w (wnext w) q" "px_state q = Succeeded" "compl_in C s w (wnext w) q request None (pc_created_at request)"
    "wi_state w = Claimed \<or> wi_state w = InProgress" "wi_terminal_evidence w = None" "wi_gate_evidence w = None" "wi_blocker_code w = None"
    "List.find (\<lambda>st. es_step_id st = pc_step_id request) (wsteps w) = Some (wsteps w ! wnext w)"
proof -
  from completion_request_OkD [OF v] row(1) obtain st where d: "kr_request row = Json request"
    "List.find (\<lambda>st. es_step_id st = pc_step_id request) (wsteps w) = Some st" "es_invocation_id st = pc_invocation_id request"
    "pc_plan_id request = ep_plan_id (wi_plan w)" "pc_plan_digest request = ep_request_digest (wi_plan w)"
    "pc_request_id request = completion_request_identity C (pc_plan_id request) (pc_step_id request) (pc_invocation_id request) (pc_plan_digest request)"
    "validate_completion_source s w request st = Ok ()" "completion_outcome C w request st row = Ok b" by (metis option.inject)
  have o: "wi_state w = Claimed \<or> wi_state w = InProgress" "wi_next_step_ordinal w = es_ordinal st" "wi_terminal_evidence w = None" "wi_gate_evidence w = None" "wi_blocker_code w = None"
    using d(8) row(2,3) by (auto simp: completion_outcome_def split: if_splits)
  have fr: "frame_ok C w" using version_frame [OF inv w] by simp
  have st: "wsteps w ! wnext w = st" using step_found [OF fr d(2)] o(2) by simp
  have sid: "es_step_id st = pc_step_id request" using find_SomeD [OF d(2)] by simp
  have "running C s w" using wf_invD(7) [OF inv w] o(1) by (auto simp: coherent_def)
  then obtain q where q: "exec_in s w (wnext w) q" "request_state_fits w (px_state q) \<or> px_state q = Succeeded \<and> (\<exists>c. compl_in C s w (wnext w) q c None (pc_created_at c))"
    unfolding running_def by blast
  from completion_source_OkD [OF d(7)] obtain xrow' q' where "om_get (ws_execution s) (pc_invocation_id request) = Some xrow'" "xr_request xrow' = Json q'" "px_state q' = Succeeded" .
  with q(1) st d(3) have qs: "px_state q = Succeeded" by (simp add: exec_in_def)
  with q(2) obtain c where c: "compl_in C s w (wnext w) q c None (pc_created_at c)" by (auto simp: request_state_fits_def)
  then have "pc_request_id c = pc_request_id request"
    using st sid d(3-6) by (simp add: compl_in_def completion_of_def)
  with c row(1) d(1) have "c = request" by (simp add: compl_in_def)
  with that [OF q(1) qs] c o d(2) st show ?thesis by simp
qed

lemma evidence_at_completion:
  assumes "validate_execution_evidence c e now d1 d2 = Ok ()"
  shows "validate_execution_evidence c e (ee_completed_at e) d1 d2 = Ok ()" and "pc_created_at c \<le> now" and "ee_completed_at e \<le> now"
  using assms by (auto simp: validate_execution_evidence_def)

lemma complete_row_OkD:
  assumes "complete_row request e now s = Ok s'" and "om_get (ws_completion s) (pc_request_id request) = Some (krow k request None t)"
  shows "s' = s\<lparr>ws_completion := om_insert (pc_request_id request) (krow k request (Some e) now) (ws_completion s)\<rparr>"
  using assms by (auto simp: complete_row_def krow_def)

section \<open>A step done with its evidence\<close>

text \<open>The rows after the evidence was written: nothing else is lost.\<close>

definition completed_rows ::
  "item_key \<Rightarrow> pending_completion \<Rightarrow> execution_evidence \<Rightarrow> u64 \<Rightarrow> workflow_store \<Rightarrow> workflow_store \<Rightarrow> bool" where
  "completed_rows k c e now s s' \<longleftrightarrow> ws_completion s' = om_insert (pc_request_id c) (krow k c (Some e) now) (ws_completion s)
     \<and> (\<forall>i row. om_get (ws_execution s) i = Some row \<longrightarrow> om_get (ws_execution s') i = Some row)
     \<and> (\<forall>r row. om_get (ws_gate s) r = Some row \<longrightarrow> om_get (ws_gate s') r = Some row)"

lemma completed_keeps:
  assumes inv: "wf_inv C s" and rows: "completed_rows k c e now s s'" and old: "om_get (ws_completion s) (pc_request_id c) = Some (krow k c None t)"
  shows "keeps_done s s'" and "touches (k, pc_plan_id c) s s'" and "completions_ok C s'"
    and "om_get (ws_completion s') (pc_request_id c) = Some (krow k c (Some e) now)"
proof -
  have wf: "om_wf (ws_completion s)" using wf_invD(1) [OF inv] by (simp add: tables_wf_def)
  have x: "om_get (ws_execution s) i = Some row \<Longrightarrow> om_get (ws_execution s') i = Some row" for i row
    using rows by (simp add: completed_rows_def)
  have g: "om_get (ws_gate s) i = Some row \<Longrightarrow> om_get (ws_gate s') i = Some row" for i row
    using rows by (simp add: completed_rows_def)
  have n: "om_get (ws_completion s') r = (if r = pc_request_id c then Some (krow k c (Some e) now) else om_get (ws_completion s) r)" for r
    using rows wf by (simp add: completed_rows_def)
  then show "om_get (ws_completion s') (pc_request_id c) = Some (krow k c (Some e) now)" by simp
  have "om_get (ws_completion s') r = Some (krow k' c' (Some e') t')" if "om_get (ws_completion s) r = Some (krow k' c' (Some e') t')" for r k' c' e' t'
    using that old by (cases "r = pc_request_id c") (simp_all add: n)
  then show "keeps_done s s'" unfolding keeps_done_def using x by blast
  have "om_get (ws_completion s') r = Some (krow k' c' ev t')" if "om_get (ws_completion s) r = Some (krow k' c' ev t')" "(k', pc_plan_id c') \<noteq> (k, pc_plan_id c)" for r k' c' ev t'
    using that old by (cases "r = pc_request_id c") (simp_all add: n)
  then show "touches (k, pc_plan_id c) s s'" unfolding touches_def using x g by blast
  have "\<exists>k c ev t q. row = krow k c ev t \<and> pc_request_id c = r \<and> om_get (ws_execution s') (pc_invocation_id c) = Some (xrow k q)
      \<and> completes C q c" if r: "om_get (ws_completion s') r = Some row" for r row
  proof -
    obtain row0 where r0: "om_get (ws_completion s) r = Some row0" using r old by (cases "r = pc_request_id c") (simp_all add: n)
    from completions_okD [OF wf_invD(5) [OF inv] r0] obtain k' c' ev t' p where c: "row0 = krow k' c' ev t'" "pc_request_id c' = r"
      "om_get (ws_execution s) (pc_invocation_id c') = Some (xrow k' p)" "completes C p c'" .
    have "\<exists>ev t. row = krow k' c' ev t" using r r0 old c(1) by (cases "r = pc_request_id c") (auto simp: n)
    with c x [OF c(3)] show ?thesis by blast
  qed
  then show "completions_ok C s'" unfolding completions_ok_def by blast
qed

lemma completed_done:
  assumes x: "exec_in s w j q" "px_state q = Succeeded" and c: "compl_in C s w j q c None t" and rows: "completed_rows (wkey w) c e now s s'"
    and get: "om_get (ws_completion s') (pc_request_id c) = Some (krow (wkey w) c (Some e) now)"
    and ev: "validate_execution_evidence c e now (es_deadline (wsteps w ! j)) (ep_deadline (wi_plan w)) = Ok ()"
    and sealed: "validate_sealed_descriptors C (wsteps w ! j) e = Ok ()"
  shows "done_with C s' w j e"
proof -
  note v = evidence_at_completion [OF ev]
  have "exec_in s' w j q" using x(1) rows by (simp add: exec_in_def completed_rows_def)
  moreover have "compl_in C s' w j q c (Some e) now" using c get v(2) by (simp add: compl_in_def)
  ultimately show ?thesis unfolding done_with_def using x(2) v(1) sealed by blast
qed

lemma completed_inv:
  assumes inv: "wf_inv C s" and w: "w \<in> versions s" and x: "exec_in s w (wnext w) q" "px_state q = Succeeded"
    and c: "compl_in C s w (wnext w) q c None t" and rows: "completed_rows (wkey w) c e now s s'"
    and ev: "validate_execution_evidence c e now (es_deadline (wsteps w ! wnext w)) (ep_deadline (wi_plan w)) = Ok ()"
    and sealed: "validate_sealed_descriptors C (wsteps w ! wnext w) e = Ok ()"
    and r: "replaces C s w w' s'" and l: "advances w w'" and nx: "wnext w' \<le> Suc (wnext w)"
    and wf: "om_wf (ws_execution s')" "om_wf (ws_gate s')"
    and st: "done_with C s' w' (wnext w) e \<Longrightarrow> state_coherent C s' w' (wi_state w')"
    and ex: "\<And>i row. om_get (ws_execution s') i = Some row \<Longrightarrow> om_get (ws_execution s) i = Some row
      \<or> (\<exists>q. row = xrow (wkey w') q \<and> es_invocation_id (px_step q) = i \<and> belongs w' q)"
    and g: "\<And>r row. om_get (ws_gate s') r = Some row \<Longrightarrow> om_get (ws_gate s) r = Some row
      \<or> (\<exists>g st ev t. row = grow (wkey w') g st ev t \<and> pg_request_id g = r \<and> pg_plan_id g = ep_plan_id (wi_plan w')
         \<and> pg_plan_digest g = ep_request_digest (wi_plan w') \<and> wi_terminal_evidence w' \<noteq> None)"
    and gu: "\<And>r r' row row'. om_get (ws_gate s') r = Some row \<Longrightarrow> om_get (ws_gate s') r' = Some row' \<Longrightarrow> gr_plan_id row = gr_plan_id row' \<Longrightarrow> r = r'"
  shows "safe_step C s s'"
proof -
  have old: "om_get (ws_completion s) (pc_request_id c) = Some (krow (wkey w) c None t)" using c by (simp add: compl_in_def)
  note k = completed_keeps [OF inv rows old]
  have w': "wkey w' = wkey w" "wi_plan w' = wi_plan w" using l by (simp_all add: advances_def)
  have "done_with C s' w (wnext w) e" by (rule completed_done [OF x c rows k(4) ev sealed])
  then have d: "done_with C s' w' (wnext w) e" by (simp add: done_with_plan [OF w'])
  have "\<exists>e. done_with C s' w' j e" if "j < wnext w'" for j
  proof (cases "j = wnext w")
    case False
    then have "j < wnext w" using that nx by simp
    then show ?thesis using wf_invD(7) [OF inv w, unfolded coherent_def] done_with_keep [OF k(1)] unfolding done_with_plan [OF w'] by blast
  qed (use d in blast)
  then have co: "coherent C s' w'" using st [OF d] by (simp add: coherent_def)
  have "om_wf (ws_completion s)" using wf_invD(1) [OF inv] by (simp add: tables_wf_def)
  then have wk: "om_wf (ws_completion s')" using rows by (simp add: completed_rows_def)
  have "wid w' = (wkey w, pc_plan_id c)" using c w' by (simp add: wid_def compl_in_def completion_of_def)
  then have "touches (wid w') s s'" using k(2) by simp
  from inv_replace [OF inv r l wf(1) wk wf(2) this co ex k(3) g gu] k(1) show ?thesis by (rule safe_stepI [OF inv r])
qed

section \<open>Recording completion evidence\<close>

lemma insert_execution_OkD:
  assumes "insert_execution p request s = Ok s'" and "px_state request = NotFound" and "px_attempts request = 0" and "px_plan_digest request = ep_request_digest p"
  shows "om_get (ws_execution s) (es_invocation_id (px_step request)) = None"
    and "s' = s\<lparr>ws_execution := om_insert (es_invocation_id (px_step request)) (xrow (ep_tenant_id p, ep_project_id p, ep_work_item_id p) request) (ws_execution s)\<rparr>"
  using assms by (auto simp: insert_execution_def xrow_def split: if_splits)

lemma insert_gate_OkD:
  assumes "insert_gate_request w request now s = Ok s'" and "gate_row_of_plan s (pg_plan_id request) = None"
  shows "om_get (ws_gate s) (pg_request_id request) = None"
    and "s' = s\<lparr>ws_gate := om_insert (pg_request_id request) (grow (wkey w) request ''pending'' None now) (ws_gate s)\<rparr>"
  using assms by (auto simp: insert_gate_request_def grow_def wkey_def split: if_splits)

lemma frame_key: "frame_ok C w \<Longrightarrow> (ep_tenant_id (wi_plan w), ep_project_id (wi_plan w), ep_work_item_id (wi_plan w)) = wkey w"
  by (simp add: frame_ok_def wkey_def)

text \<open>The next step is requested.\<close>

lemma next_step_inv:
  assumes inv: "wf_inv C s" and w: "w \<in> versions s" and x: "exec_in s w (wnext w) q" "px_state q = Succeeded"
    and c: "compl_in C s w (wnext w) q c None t" 
    and ev: "validate_execution_evidence c e now (es_deadline (wsteps w ! wnext w)) (ep_deadline (wi_plan w)) = Ok ()"
    and sealed: "validate_sealed_descriptors C (wsteps w ! wnext w) e = Ok ()"
    and none: "wi_terminal_evidence w = None" "wi_gate_evidence w = None" "wi_blocker_code w = None" and now: "wi_updated_at w \<le> now"
    and n: "wnext w + 1 < length (wsteps w)" and q': "q' = first_pending C (wi_plan w) (wsteps w ! (wnext w + 1)) a now"
    and w': "w' = w\<lparr>wi_next_step_ordinal := saturating_add (wi_next_step_ordinal w) 1, wi_state := InProgress,
      wi_version := saturating_add (wi_version w) 1, wi_updated_at := now\<rparr>"
    and r: "stored_ok C w' \<Longrightarrow> replaces C s w w' s'" and free: "om_get (ws_execution s) (es_invocation_id (px_step q')) = None"
    and rows: "ws_completion s' = om_insert (pc_request_id c) (krow (wkey w) c (Some e) now) (ws_completion s)"
      "ws_execution s' = om_insert (es_invocation_id (px_step q')) (xrow (wkey w) q') (ws_execution s)" "ws_gate s' = ws_gate s"
  shows "safe_step C s s'"
proof (rule completed_inv [OF inv w x c _ ev sealed])
  have wf: "om_wf (ws_execution s)" "om_wf (ws_gate s)" using wf_invD(1) [OF inv] by (simp_all add: tables_wf_def)
  have fr: "frame_ok C w" using version_frame [OF inv w] by simp
  have nn: "wnext w' = Suc (wnext w)" using n frame_plan(6) [OF fr] by (simp add: w' unat_saturating_add)
  have e: "om_get (ws_execution s') i = (if i = es_invocation_id (px_step q') then Some (xrow (wkey w) q') else om_get (ws_execution s) i)" for i
    using wf(1) by (simp add: rows(2))
  show "completed_rows (wkey w) c e now s s'" using free by (auto simp: completed_rows_def rows(1,3) e)
  have k: "wkey w' = wkey w" "wi_plan w' = wi_plan w" by (simp_all add: w' wkey_def)
  show "advances w w'" using nn none by (simp add: advances_def k)
  show "wnext w' \<le> Suc (wnext w)" using nn by simp
  have "frame_ok C w'" using fr now nn n by (auto simp: frame_ok_def w' saturating_add_one_nz)
  then have "stored_ok C w'" using none by (simp add: stored_ok_iff w')
  then show "replaces C s w w' s'" by (rule r)
  show "om_wf (ws_execution s')" "om_wf (ws_gate s')" using wf by (simp_all add: rows)
  have sq: "px_step q' = wsteps w ! Suc (wnext w)" by (simp add: q' first_pending_def)
  then have "exec_in s' w' (wnext w') q'" unfolding exec_in_def nn k e by (simp add: q' first_pending_def)
  then have "running C s' w'" unfolding running_def by (intro exI [of _ q']) (simp add: q' first_pending_def request_state_fits_def w')
  then show "state_coherent C s' w' (wi_state w')" by (simp add: w')
  have "unat (es_ordinal (px_step q')) = Suc (wnext w)" using frame_plan(3) [OF fr, of "Suc (wnext w)"] n sq by simp
  then have b: "belongs w' q'" using sq by (simp add: belongs_def nn k q' first_pending_def)
  show "om_get (ws_execution s) i = Some row \<or> (\<exists>q. row = xrow (wkey w') q \<and> es_invocation_id (px_step q) = i \<and> belongs w' q)"
    if "om_get (ws_execution s') i = Some row" for i row
    using that b by (cases "i = es_invocation_id (px_step q')") (auto simp: e k)
qed (use gates_unique [OF wf_invD(6) [OF inv]] rows(3) in auto)

text \<open>The last step is done: the gate is requested.\<close>

lemma review_stored_ok:
  assumes fr: "frame_ok C w" and c: "completion_of C w (wnext w) q c"
    and ev: "validate_execution_evidence c e now (es_deadline (wsteps w ! wnext w)) (ep_deadline (wi_plan w)) = Ok ()"
    and sealed: "validate_sealed_descriptors C (wsteps w ! wnext w) e = Ok ()"
    and none: "wi_gate_evidence w = None" "wi_blocker_code w = None" and now: "wi_updated_at w \<le> now" and n: "\<not> wnext w + 1 < length (wsteps w)"
  shows "stored_ok C (w\<lparr>wi_terminal_evidence := Some e, wi_state := InReview, wi_version := saturating_add (wi_version w) 1, wi_updated_at := now\<rparr>)"
    (is "stored_ok C ?w")
proof -
  have "frame_ok C ?w" using fr now by (auto simp: frame_ok_def saturating_add_one_nz)
  moreover have "length (wsteps w) - 1 = wnext w" using fr n by (auto simp: frame_ok_def)
  moreover from this have "terminal_evidence_check C ?w e = Ok ()"
    using ev sealed c by (auto simp: terminal_evidence_check_def final_step_def validate_execution_evidence_def completion_of_def)
  ultimately show ?thesis using none by (simp add: stored_ok_iff)
qed

lemma build_gate_OkD:
  assumes "build_gate_request C w authority e now = Ok g" and "ee_completed_at e \<le> now"
  shows "gate_of C w e g" and "pg_created_at g = now" and "pg_plan_id g = ep_plan_id (wi_plan w)" and "pg_plan_digest g = ep_request_digest (wi_plan w)"
  using assms by (auto simp: build_gate_request_def gate_of_def gate_digest_def Let_def split: if_splits)

lemma no_gate_row:
  assumes inv: "wf_inv C s" and w: "w \<in> versions s" "wi_terminal_evidence w = None"
    and binds: "\<And>v. v \<in> versions s \<Longrightarrow> ep_request_digest (wi_plan v) = ep_request_digest (wi_plan w) \<Longrightarrow> wkey v = wkey w"
    and "pg_plan_id g = ep_plan_id (wi_plan w)" "pg_plan_digest g = ep_request_digest (wi_plan w)" and ins: "insert_gate_request w' g now s = Ok s'"
  shows "gate_row_of_plan s (pg_plan_id g) = None"
proof (rule ccontr)
  have gw: "om_wf (ws_gate s)" using wf_invD(1) [OF inv] by (simp add: tables_wf_def)
  assume "gate_row_of_plan s (pg_plan_id g) \<noteq> None"
  then obtain row where row: "gate_row_of_plan s (pg_plan_id g) = Some row" by blast
  with ins have same: "gr_request row = Json g" by (auto simp: insert_gate_request_def split: if_splits)
  from row gate_row_of_plan(1) [OF gw wf_invD(6) [OF inv]] obtain r where "om_get (ws_gate s) r = Some row" by blast
  from gate_row_version [OF inv this] obtain v g' st ev t where v: "v \<in> versions s" "row = grow (wkey v) g' st ev t" "pg_plan_id g' = ep_plan_id (wi_plan v)"
    "pg_plan_digest g' = ep_request_digest (wi_plan v)" "wi_terminal_evidence v \<noteq> None" .
  then have g: "g' = g" using same by simp
  have "wid v = wid w" using binds [OF v(1)] v(3,4) assms(5,6) by (simp add: wid_def g)
  with version_unique [OF wf_invD(2,3) [OF inv] v(1) w(1)] v(5) w(2) show False by simp
qed

lemma review_inv:
  assumes inv: "wf_inv C s" and w: "w \<in> versions s" and x: "exec_in s w (wnext w) q" "px_state q = Succeeded"
    and c: "compl_in C s w (wnext w) q c None t"
    and ev: "validate_execution_evidence c e now (es_deadline (wsteps w ! wnext w)) (ep_deadline (wi_plan w)) = Ok ()"
    and sealed: "validate_sealed_descriptors C (wsteps w ! wnext w) e = Ok ()"
    and w': "wi_terminal_evidence w' = Some e" "wi_state w' = InReview" "wi_next_step_ordinal w' = wi_next_step_ordinal w" "wkey w' = wkey w" "wi_plan w' = wi_plan w"
    and r: "replaces C s w w' s'" and g: "gate_of C w e g" "pg_created_at g = now" and free: "om_get (ws_gate s) (pg_request_id g) = None"
    and free_plan: "gate_row_of_plan s (pg_plan_id g) = None"
    and rows: "ws_completion s' = om_insert (pc_request_id c) (krow (wkey w) c (Some e) now) (ws_completion s)"
      "ws_gate s' = om_insert (pg_request_id g) (grow (wkey w) g ''pending'' None now) (ws_gate s)" "ws_execution s' = ws_execution s"
  shows "safe_step C s s'"
proof (rule completed_inv [OF inv w x c _ ev sealed r])
  have wf: "om_wf (ws_execution s)" "om_wf (ws_gate s)" using wf_invD(1) [OF inv] by (simp_all add: tables_wf_def)
  have gs: "om_get (ws_gate s') i = (if i = pg_request_id g then Some (grow (wkey w) g ''pending'' None now) else om_get (ws_gate s) i)" for i
    using wf(2) by (simp add: rows(2))
  show "completed_rows (wkey w) c e now s s'" using free by (auto simp: completed_rows_def rows(1,3) gs)
  show "advances w w'" using w' by (simp add: advances_def)
  show "wnext w' \<le> Suc (wnext w)" using w'(3) by simp
  show "om_wf (ws_execution s')" "om_wf (ws_gate s')" using wf by (simp_all add: rows)
  have g': "gate_of C w' e g" using g(1) w'(5) by (simp add: gate_of_def)
  then have "gate_in C s' w' e g ''pending'' None (pg_created_at g)" using g(2) by (simp add: gate_in_def gs w'(4))
  then show "state_coherent C s' w' (wi_state w')" if "done_with C s' w' (wnext w) e" using w'(1-3) that by auto
  show "om_get (ws_gate s) r = Some row \<or> (\<exists>g st ev t. row = grow (wkey w') g st ev t \<and> pg_request_id g = r \<and> pg_plan_id g = ep_plan_id (wi_plan w')
         \<and> pg_plan_digest g = ep_request_digest (wi_plan w') \<and> wi_terminal_evidence w' \<noteq> None)" if "om_get (ws_gate s') r = Some row" for r row
  proof (cases "r = pg_request_id g")
    case True
    then have "row = grow (wkey w') g ''pending'' None now" using that by (simp add: gs w'(4))
    with True g' w'(1) show ?thesis by (auto simp: gate_of_def)
  qed (use that in \<open>simp add: gs\<close>)
  have fp: "om_get (ws_gate s) r = Some row \<Longrightarrow> gr_plan_id row \<noteq> pg_plan_id g" for r row
    using free_plan gate_row_of_plan(2) [OF wf(2) wf_invD(6) [OF inv]] by blast
  show "r = r'" if "om_get (ws_gate s') r = Some row" "om_get (ws_gate s') r' = Some row'" "gr_plan_id row = gr_plan_id row'" for r r' row row'
    using that gates_unique [OF wf_invD(6) [OF inv], of r row r' row'] fp [of r row] fp [of r' row'] by (auto simp: gs split: if_splits)
qed (simp_all add: rows(3))

lemma advance_next:
  assumes "advance_work_item C w e authority now s = Ok (s', w')" and "wnext w + 1 < length (wsteps w)"
  shows "insert_execution (wi_plan w) (first_pending C (wi_plan w) (wsteps w ! (wnext w + 1)) (authority_digest C authority) now) s = Ok s'"
    and "w' = w\<lparr>wi_next_step_ordinal := saturating_add (wi_next_step_ordinal w) 1, wi_state := InProgress\<rparr>"
  using assms by (auto simp: advance_work_item_def Let_def)

lemma advance_review:
  assumes "advance_work_item C w e authority now s = Ok (s', w')" and "\<not> wnext w + 1 < length (wsteps w)"
  obtains g where "build_gate_request C w' authority e now = Ok g" "insert_gate_request w' g now s = Ok s'"
    "w' = w\<lparr>wi_terminal_evidence := Some e, wi_state := InReview\<rparr>"
  using assms by (auto simp: advance_work_item_def Let_def)

lemma record_completed_inv:
  assumes inv: "wf_inv C s" and w: "w \<in> versions s" and x: "exec_in s w (wnext w) q" "px_state q = Succeeded"
    and c: "compl_in C s w (wnext w) q c None t"
    and ev: "validate_execution_evidence c e now (es_deadline (wsteps w ! wnext w)) (ep_deadline (wi_plan w)) = Ok ()"
    and sealed: "validate_sealed_descriptors C (wsteps w ! wnext w) e = Ok ()"
    and none: "wi_terminal_evidence w = None" "wi_gate_evidence w = None" "wi_blocker_code w = None" and now: "wi_updated_at w \<le> now"
    and binds: "\<And>v. v \<in> versions s \<Longrightarrow> ep_request_digest (wi_plan v) = ep_request_digest (wi_plan w) \<Longrightarrow> wkey v = wkey w"
    and tx: "record_completed C w c e authority now s = Ok (s', w')"
  shows "safe_step C s s'"
proof -
  obtain s1 s2 w1 s3 where s1: "complete_row c e now s = Ok s1" and adv: "advance_work_item C w e authority now s1 = Ok (s2, w1)"
    and w': "w' = w1\<lparr>wi_version := saturating_add (wi_version w1) 1, wi_updated_at := now\<rparr>" and put: "put_work_item C w' s2 = Ok s3"
    and au: "append_audit w' ''terminal_execution_evidence_recorded'' (Some (wi_state w)) (wi_state w') (authority_digest C authority)
       (ee_output_bundle_digest e) now s3 = Ok s'"
    using tx unfolding record_completed_def Let_def by (auto simp only: try_bind_eq_Ok sum.inject prod.inject prod.case split_paired_Ex)
  have k: "om_get (ws_completion s) (pc_request_id c) = Some (krow (wkey w) c None t)" using c by (simp add: compl_in_def)
  note s1 = complete_row_OkD [OF s1 k]
  have fr: "frame_ok C w" using version_frame [OF inv w] by simp
  show ?thesis
  proof (cases "wnext w + 1 < length (wsteps w)")
    case True
    note a = advance_next [OF adv True]
    let ?q = "first_pending C (wi_plan w) (wsteps w ! (wnext w + 1)) (authority_digest C authority) now"
    have q: "px_state ?q = NotFound" "px_attempts ?q = 0" "px_plan_digest ?q = ep_request_digest (wi_plan w)" by (simp_all add: first_pending_def)
    note i = insert_execution_OkD [OF a(1) q, unfolded frame_key [OF fr] s1]
    have w'': "w' = w\<lparr>wi_next_step_ordinal := saturating_add (wi_next_step_ordinal w) 1, wi_state := InProgress,
      wi_version := saturating_add (wi_version w) 1, wi_updated_at := now\<rparr>" by (simp add: w' a(2))
    have s2: "ws_items s2 = ws_items s" "ws_operations s2 = ws_operations s" "wkey w' = wkey w" "wi_plan w' = wi_plan w"
      by (simp_all add: i(2) w'' wkey_def)
    show ?thesis
    proof (rule next_step_inv [OF inv w x c ev sealed none now True refl w''])
      show ok: "replaces C s w w' s'" if "stored_ok C w'" by (rule recorded(1) [OF inv s2(1,2) w s2(3,4) that put au])
      have "ws_execution s' = ws_execution s2 \<and> ws_completion s' = ws_completion s2 \<and> ws_gate s' = ws_gate s2"
        using put au by (auto simp: put_work_item_def write_current_work_item_def append_audit_def split: if_splits)
      then show "ws_completion s' = om_insert (pc_request_id c) (krow (wkey w) c (Some e) now) (ws_completion s)"
        "ws_execution s' = om_insert (es_invocation_id (px_step ?q)) (xrow (wkey w) ?q) (ws_execution s)" "ws_gate s' = ws_gate s"
        by (simp_all add: i(2))
    qed (use i(1) in simp)
  next
    case False
    from advance_review [OF adv False] obtain g where a: "build_gate_request C w1 authority e now = Ok g" "insert_gate_request w1 g now s1 = Ok s2"
      "w1 = w\<lparr>wi_terminal_evidence := Some e, wi_state := InReview\<rparr>" .
    note g = build_gate_OkD [OF a(1) evidence_at_completion(3) [OF ev]]
    have g': "gate_of C w e g" "pg_plan_id g = ep_plan_id (wi_plan w)" "pg_plan_digest g = ep_request_digest (wi_plan w)"
      using g by (simp_all add: gate_of_def a(3))
    have s1g: "ws_gate s1 = ws_gate s" "gate_row_of_plan s1 = gate_row_of_plan s" by (simp_all add: s1 gate_row_of_plan_def fun_eq_iff)
    have ins: "insert_gate_request w1 g now s = Ok (s2\<lparr>ws_completion := ws_completion s\<rparr>)"
      using a(2) s1 by (auto simp: insert_gate_request_def gate_row_of_plan_def split: option.splits if_splits)
    note fp = no_gate_row [OF inv w none(1) binds g'(2,3) ins]
    note i = insert_gate_OkD [OF a(2), unfolded s1g, OF fp]
    have w'': "w' = w\<lparr>wi_terminal_evidence := Some e, wi_state := InReview, wi_version := saturating_add (wi_version w) 1, wi_updated_at := now\<rparr>"
      by (simp add: w' a(3))
    have s2: "ws_items s2 = ws_items s" "ws_operations s2 = ws_operations s" "wkey w' = wkey w" "wi_plan w' = wi_plan w" "wkey w1 = wkey w"
      by (simp_all add: i(2) s1 w'' a(3) wkey_def)
    have c': "completion_of C w (wnext w) q c" using c by (simp add: compl_in_def)
    have ok: "stored_ok C w'" unfolding w'' by (rule review_stored_ok [OF fr c' ev sealed none(2,3) now False])
    note rec = recorded [OF inv s2(1,2) w s2(3,4) ok put au]
    show ?thesis
      by (rule review_inv [OF inv w x c ev sealed _ _ _ s2(3,4) rec(1) g'(1) g(2) i(1) fp])
        (simp_all add: w'' rec(2-4) i(2) s1 s2(5))
  qed
qed

lemma record_terminal_inv:
  assumes inv: "wf_inv C s" and tx: "record_terminal_tx C request e authority now s = Ok (s', w')"
    and sealed: "\<And>k q. om_get (ws_execution s) (pc_invocation_id request) = Some (xrow k q) \<Longrightarrow> validate_sealed_descriptors C (px_step q) e = Ok ()"
    and binds: "\<And>v w. v \<in> versions s \<Longrightarrow> w \<in> versions s \<Longrightarrow> ep_request_digest (wi_plan v) = ep_request_digest (wi_plan w) \<Longrightarrow> wkey v = wkey w"
  shows "safe_step C s s'"
proof -
  from tx obtain w b st row where rd: "read_work_item_by_invocation C s (pc_invocation_id request) = Ok (Some w)"
    and v: "validate_completion_request C s w request = Ok b" and now: "\<not> now < wi_updated_at w"
    and st: "List.find (\<lambda>st. es_step_id st = pc_step_id request) (wsteps w) = Some st"
    and ev: "validate_execution_evidence request e now (es_deadline st) (ep_deadline (wi_plan w)) = Ok ()"
    and row: "om_get (ws_completion s) (pc_request_id request) = Some row"
    and cases: "s' = s \<or> kr_state row = ''pending'' \<and> kr_evidence row = None \<and> record_completed C w request e authority now s = Ok (s', w')"
    by (auto simp: record_terminal_tx_def validate_monotonic_time_def split: if_splits)
  from by_invocation [OF inv rd] have w: "w \<in> versions s" by blast
  from cases show ?thesis
  proof (elim disjE conjE)
    assume p: "kr_state row = ''pending''" "kr_evidence row = None" and rc: "record_completed C w request e authority now s = Ok (s', w')"
    from pending_completion [OF inv w v row p] st obtain q where q: "exec_in s w (wnext w) q" "px_state q = Succeeded"
      "compl_in C s w (wnext w) q request None (pc_created_at request)" and none: "wi_terminal_evidence w = None" "wi_gate_evidence w = None" "wi_blocker_code w = None"
      and st': "st = wsteps w ! wnext w" by (metis option.inject)
    have "om_get (ws_execution s) (pc_invocation_id request) = Some (xrow (wkey w) q)" "px_step q = wsteps w ! wnext w"
      using q(1,3) by (simp_all add: exec_in_def compl_in_def completion_of_def)
    with sealed have sl: "validate_sealed_descriptors C (wsteps w ! wnext w) e = Ok ()" by metis
    have le: "wi_updated_at w \<le> now" using now by simp
    show ?thesis by (rule record_completed_inv [OF inv w q ev [unfolded st'] sl none le _ rc]) (rule binds [OF _ w])
  qed (use safe_step_refl [OF inv] in simp)
qed

section \<open>The gate\<close>

lemma gate_request_OkD:
  assumes "validate_gate_request C s w request = Ok b"
  obtains row e where "om_get (ws_gate s) (pg_request_id request) = Some row" "gr_request row = Json request"
    "pg_plan_id request = ep_plan_id (wi_plan w)" "pg_plan_digest request = ep_request_digest (wi_plan w)" "wi_terminal_evidence w = Some e"
    "pg_execution_receipt_id request = ee_receipt_id e"
    "pg_request_id request = gate_request_identity C (pg_plan_id request) (pg_plan_digest request) (pg_execution_receipt_id request)"
    "gate_outcome w request row = Ok b"
  using assms by (auto simp: validate_gate_request_def Let_def split: if_splits)

text \<open>The request of a pending gate row is the one of the work item under review.\<close>

lemma pending_gate:
  assumes inv: "wf_inv C s" and w: "w \<in> versions s" and v: "validate_gate_request C s w request = Ok b"
    and row: "om_get (ws_gate s) (pg_request_id request) = Some row" "gr_state row = ''pending''" "gr_evidence row = None"
  obtains e where "wi_state w = InReview" "wi_terminal_evidence w = Some e" "done_with C s w (wnext w) e"
    "gate_in C s w e request ''pending'' None (pg_created_at request)" "wi_gate_evidence w = None" "wi_blocker_code w = None"
proof -
  from gate_request_OkD [OF v] row(1) obtain e where d: "gr_request row = Json request"
    "pg_plan_id request = ep_plan_id (wi_plan w)" "pg_plan_digest request = ep_request_digest (wi_plan w)" "wi_terminal_evidence w = Some e"
    "pg_execution_receipt_id request = ee_receipt_id e"
    "pg_request_id request = gate_request_identity C (pg_plan_id request) (pg_plan_digest request) (pg_execution_receipt_id request)"
    "gate_outcome w request row = Ok b" by (metis option.inject)
  have o: "wi_state w = InReview" "wi_gate_evidence w = None" "wi_blocker_code w = None"
    using d(7) row(2,3) by (auto simp: gate_outcome_def split: if_splits)
  then obtain g where g: "done_with C s w (wnext w) e" "gate_in C s w e g ''pending'' None (pg_created_at g)"
    using wf_invD(7) [OF inv w] d(4) by (auto simp: coherent_def)
  then have "pg_request_id g = pg_request_id request" using d(2,3,5,6) by (simp add: gate_in_def gate_of_def)
  with g(2) row(1) d(1) have "g = request" by (simp add: gate_in_def)
  with that o d(4) g show ?thesis by blast
qed

lemma close_gate_OkD:
  assumes "close_gate_row request st ev now s = Ok s'" and "om_get (ws_gate s) (pg_request_id request) = Some (grow k request ''pending'' None t)"
    and "ev = map_option Json gv"
  shows "s' = s\<lparr>ws_gate := om_insert (pg_request_id request) (grow k request st gv now) (ws_gate s)\<rparr>"
  using assms by (cases gv) (auto simp: close_gate_row_def grow_def)

lemma gate_closed_inv:
  assumes inv: "wf_inv C s" and w: "w \<in> versions s" and e: "wi_terminal_evidence w = Some e" and d: "done_with C s w (wnext w) e"
    and g: "gate_in C s w e g st0 gv0 t" "pg_created_at g \<le> now"
    and w': "wkey w' = wkey w" "wi_plan w' = wi_plan w" "wi_next_step_ordinal w' = wi_next_step_ordinal w" "wi_terminal_evidence w' = Some e"
    and r: "replaces C s w w' s'" and rows: "ws_gate s' = om_insert (pg_request_id g) (grow (wkey w) g st gv now) (ws_gate s)"
      "ws_execution s' = ws_execution s" "ws_completion s' = ws_completion s"
    and st: "done_with C s' w' (wnext w') e \<Longrightarrow> gate_in C s' w' e g st gv now \<Longrightarrow> state_coherent C s' w' (wi_state w')"
  shows "safe_step C s s'"
proof -
  have wf: "om_wf (ws_execution s)" "om_wf (ws_completion s)" "om_wf (ws_gate s)" using wf_invD(1) [OF inv] by (simp_all add: tables_wf_def)
  have gs: "om_get (ws_gate s') i = (if i = pg_request_id g then Some (grow (wkey w) g st gv now) else om_get (ws_gate s) i)" for i
    using wf(3) by (simp add: rows(1))
  have kd: "keeps_done s s'" by (simp add: keeps_done_def rows)
  have old: "om_get (ws_gate s) (pg_request_id g) = Some (grow (wkey w) g st0 gv0 t)" and go: "gate_of C w e g" using g(1) by (simp_all add: gate_in_def)
  have d': "done_with C s' w' (wnext w') e" using done_with_keep [OF kd d] by (simp add: done_with_plan [OF w'(1,2)] w'(3))
  have go': "gate_of C w' e g" using go w'(2) by (simp add: gate_of_def)
  then have "gate_in C s' w' e g st gv now" using g(2) by (simp add: gate_in_def gs w'(1))
  note sc = st [OF d' this]
  have "\<forall>j < wnext w'. \<exists>e. done_with C s' w' j e"
    using wf_invD(7) [OF inv w, unfolded coherent_def] done_with_keep [OF kd] unfolding done_with_plan [OF w'(1,2)] w'(3) by blast
  with sc have co: "coherent C s' w'" by (simp add: coherent_def)
  have wd: "wid w' = (wkey w, pg_plan_id g)" using go w'(1,2) by (simp add: wid_def gate_of_def)
  have "om_get (ws_gate s') r = Some (grow k g' st' ev' t')" if "om_get (ws_gate s) r = Some (grow k g' st' ev' t')" "(k, pg_plan_id g') \<noteq> wid w'" for r k g' st' ev' t'
    using that old by (cases "r = pg_request_id g") (simp_all add: gs wd)
  then have touch: "touches (wid w') s s'" unfolding touches_def rows(2,3) by blast
  have gr: "om_get (ws_gate s) r = Some row \<or> (\<exists>g st ev t. row = grow (wkey w') g st ev t \<and> pg_request_id g = r \<and> pg_plan_id g = ep_plan_id (wi_plan w')
         \<and> pg_plan_digest g = ep_request_digest (wi_plan w') \<and> wi_terminal_evidence w' \<noteq> None)" if "om_get (ws_gate s') r = Some row" for r row
  proof (cases "r = pg_request_id g")
    case True
    then have "row = grow (wkey w') g st gv now" using that by (simp add: gs w'(1))
    with True go' w'(4) show ?thesis by (auto simp: gate_of_def)
  qed (use that in \<open>simp add: gs\<close>)
  have gu: "r = r'" if "om_get (ws_gate s') r = Some row" "om_get (ws_gate s') r' = Some row'" "gr_plan_id row = gr_plan_id row'" for r r' row row'
  proof -
    have "\<exists>row0. om_get (ws_gate s) r = Some row0 \<and> gr_plan_id row0 = gr_plan_id row" if "om_get (ws_gate s') r = Some row" for r row
      using that old by (cases "r = pg_request_id g") (auto simp: gs)
    from this [OF that(1)] this [OF that(2)] gates_unique [OF wf_invD(6) [OF inv]] that(3) show ?thesis by metis
  qed
  have l: "advances w w'" using w' by (simp add: advances_def)
  have k: "completions_ok C s'" using wf_invD(5) [OF inv] by (simp add: completions_ok_def rows)
  have "wf_inv C s'"
  proof (rule inv_replace [OF inv r l _ _ _ touch co _ k gr])
    show "om_wf (ws_execution s')" "om_wf (ws_completion s')" "om_wf (ws_gate s')" using wf by (simp_all add: rows)
    show "r = r'" if "om_get (ws_gate s') r = Some row" "om_get (ws_gate s') r' = Some row'" "gr_plan_id row = gr_plan_id row'" for r r' row row'
      by (rule gu [OF that])
  qed (simp_all add: rows(2))
  from safe_stepI [OF inv r this kd] show ?thesis .
qed

lemma done_stored_ok:
  assumes fr: "frame_ok C w" "stored_state_check C w (wi_state w) = Ok ()" and s: "wi_state w = InReview" "wi_terminal_evidence w = Some e"
    and g: "gate_of C w e g" and v: "validate_gate_evidence g ge now (ep_deadline (wi_plan w)) = Ok ()" and now: "wi_updated_at w \<le> now"
  shows "stored_ok C (w\<lparr>wi_gate_evidence := Some ge, wi_state := Done, wi_version := saturating_add (wi_version w) 1, wi_updated_at := now\<rparr>)"
    (is "stored_ok C ?w")
proof -
  have "frame_ok C ?w" using fr(1) now by (auto simp: frame_ok_def saturating_add_one_nz)
  moreover have "last (wsteps w) = final_step w" using frame_plan(2) [OF fr(1)] by (simp add: final_step_def last_conv_nth)
  then have "gate_evidence_check C w e ge = Ok ()"
    using g v by (auto simp: gate_evidence_check_def gate_of_def validate_gate_evidence_def Let_def)
  then have "gate_evidence_check C ?w e ge = Ok ()" by (simp add: gate_evidence_check_def final_step_def)
  moreover have "terminal_evidence_check C ?w e = terminal_evidence_check C w e" by (simp add: terminal_evidence_check_def final_step_def)
  ultimately show ?thesis using fr(2) s by (simp add: stored_ok_iff split: if_splits)
qed

lemma expired_stored_ok:
  assumes fr: "frame_ok C w" "stored_state_check C w (wi_state w) = Ok ()" and s: "wi_state w = InReview" "wi_terminal_evidence w = Some e"
    and now: "wi_updated_at w \<le> now"
  shows "stored_ok C (w\<lparr>wi_state := Blocked, wi_blocker_code := Some ''gate_timed_out'', wi_version := saturating_add (wi_version w) 1, wi_updated_at := now\<rparr>)"
    (is "stored_ok C ?w")
proof -
  have "frame_ok C ?w" using fr(1) now by (auto simp: frame_ok_def saturating_add_one_nz)
  moreover have "terminal_evidence_check C ?w e = terminal_evidence_check C w e" by (simp add: terminal_evidence_check_def final_step_def)
  ultimately show ?thesis using fr(2) s by (simp add: stored_ok_iff split: if_splits)
qed

end
