(* ===== verification/Workflow_Admission.thy ===== *)
theory Workflow_Admission
  imports Workflow_Evidence
begin

text \<open>
  The gate verdict, the admission of a plan, the admission of a revision and the reservation of a
  timestamp keep the invariant of the workflow store.
\<close>

section \<open>Recording the gate\<close>

lemma record_gate_passed_inv:
  assumes inv: "wf_inv C s" and w: "w \<in> versions s" "wi_state w = InReview" and e: "wi_terminal_evidence w = Some e" "done_with C s w (wnext w) e"
    and g: "gate_in C s w e g ''pending'' None t" and b: "wi_blocker_code w = None"
    and v: "validate_gate_evidence g ge now (ep_deadline (wi_plan w)) = Ok ()" and now: "wi_updated_at w \<le> now" "pg_created_at g \<le> now"
    and tx: "record_gate_passed C w g ge authority now s = Ok (s', w')"
  shows "safe_step C s s'"
proof -
  obtain s1 s2 where s1: "close_gate_row g ''completed'' (Some (Json ge)) now s = Ok s1"
    and w': "w' = w\<lparr>wi_gate_evidence := Some ge, wi_state := Done, wi_version := saturating_add (wi_version w) 1, wi_updated_at := now\<rparr>"
    and put: "put_work_item C w' s1 = Ok s2"
    and au: "append_audit w' ''independent_work_item_gate_recorded'' (Some (wi_state w)) Done (authority_digest C authority) (ge_subject_digest ge) now s2 = Ok s'"
    using tx unfolding record_gate_passed_def Let_def by (auto split: if_splits)
  have old: "om_get (ws_gate s) (pg_request_id g) = Some (grow (wkey w) g ''pending'' None t)" and go: "gate_of C w e g" using g by (simp_all add: gate_in_def)
  have s1: "s1 = s\<lparr>ws_gate := om_insert (pg_request_id g) (grow (wkey w) g ''completed'' (Some ge) now) (ws_gate s)\<rparr>"
    by (rule close_gate_OkD [OF s1 old]) simp
  have fr: "frame_ok C w" "stored_state_check C w (wi_state w) = Ok ()" using version_frame [OF inv w(1)] by simp_all
  have ok: "stored_ok C w'" unfolding w' by (rule done_stored_ok [OF fr w(2) e(1) go v now(1)])
  have k: "wkey w' = wkey w" "wi_plan w' = wi_plan w" by (simp_all add: w' wkey_def)
  have i: "ws_items s1 = ws_items s" "ws_operations s1 = ws_operations s" by (simp_all add: s1)
  note rec = recorded [OF inv i w(1) k ok put au]
  have "gate_passed w' g ge" using v by (simp add: gate_passed_def w' validate_gate_evidence_def)
  then have "state_coherent C s' w' (wi_state w')" if "done_with C s' w' (wnext w') e" "gate_in C s' w' e g ''completed'' (Some ge) now"
    using that e(1) by (auto simp: w')
  then show ?thesis
    by (intro gate_closed_inv [OF inv w(1) e g now(2) k _ _ rec(1)]) (simp_all add: rec(2-4) s1 w' e(1))
qed

lemma record_gate_expired_inv:
  assumes inv: "wf_inv C s" and w: "w \<in> versions s" "wi_state w = InReview" and e: "wi_terminal_evidence w = Some e" "done_with C s w (wnext w) e"
    and g: "gate_in C s w e g ''pending'' None t" and now: "wi_updated_at w \<le> now" "pg_created_at g \<le> now" "ep_deadline (wi_plan w) \<le> now"
    and tx: "record_gate_expired C w g authority now s = Ok (s', w')"
  shows "safe_step C s s'"
proof -
  obtain s1 s2 where s1: "close_gate_row g ''timed_out'' None now s = Ok s1"
    and w': "w' = w\<lparr>wi_state := Blocked, wi_blocker_code := Some ''gate_timed_out'', wi_version := saturating_add (wi_version w) 1, wi_updated_at := now\<rparr>"
    and put: "put_work_item C w' s1 = Ok s2"
    and au: "append_audit w' ''gate_timed_out'' (Some (wi_state w)) Blocked (authority_digest C authority) (pg_request_digest g) now s2 = Ok s'"
    using tx unfolding record_gate_expired_def Let_def by auto
  have old: "om_get (ws_gate s) (pg_request_id g) = Some (grow (wkey w) g ''pending'' None t)" using g by (simp add: gate_in_def)
  have s1: "s1 = s\<lparr>ws_gate := om_insert (pg_request_id g) (grow (wkey w) g ''timed_out'' None now) (ws_gate s)\<rparr>"
    by (rule close_gate_OkD [OF s1 old]) simp
  have fr: "frame_ok C w" "stored_state_check C w (wi_state w) = Ok ()" using version_frame [OF inv w(1)] by simp_all
  have ok: "stored_ok C w'" unfolding w' by (rule expired_stored_ok [OF fr w(2) e(1) now(1)])
  have k: "wkey w' = wkey w" "wi_plan w' = wi_plan w" by (simp_all add: w' wkey_def)
  have i: "ws_items s1 = ws_items s" "ws_operations s1 = ws_operations s" by (simp_all add: s1)
  note rec = recorded [OF inv i w(1) k ok put au]
  have "state_coherent C s' w' (wi_state w')" if "done_with C s' w' (wnext w') e" "gate_in C s' w' e g ''timed_out'' None now"
    using that e(1) now(3) by (auto simp: w')
  then show ?thesis
    by (intro gate_closed_inv [OF inv w(1) e g now(2) k _ _ rec(1)]) (simp_all add: rec(2-4) s1 w' e(1))
qed

lemma by_plan:
  assumes inv: "wf_inv C s" and "read_work_item_by_plan C s pid = Ok (Some w)"
  shows "w \<in> versions s"
proof -
  have gw: "om_wf (ws_gate s)" using wf_invD(1) [OF inv] by (simp add: tables_wf_def)
  from assms(2) obtain row where row: "gate_row_of_plan s pid = Some row" by (auto simp: read_work_item_by_plan_def split: option.splits)
  with gate_row_of_plan(1) [OF gw wf_invD(6) [OF inv]] obtain r where r: "om_get (ws_gate s) r = Some row" "gr_plan_id row = pid" by blast
  from gate_row_version [OF inv r(1)] obtain v g st ev t where v: "v \<in> versions s" "row = grow (wkey v) g st ev t" "read_work_item_by_plan C s (pg_plan_id g) = Ok (Some v)" .
  with r(2) assms(2) show ?thesis by simp
qed

lemma record_gate_inv:
  assumes inv: "wf_inv C s" and tx: "record_gate_tx C request ge authority now s = Ok (s', w')"
  shows "safe_step C s s'"
proof -
  from tx obtain w b row where rd: "read_work_item_by_plan C s (pg_plan_id request) = Ok (Some w)"
    and v: "validate_gate_request C s w request = Ok b" and now: "\<not> now < pg_created_at request" "\<not> now < wi_updated_at w"
    and ev: "validate_gate_evidence request ge now (ep_deadline (wi_plan w)) = Ok ()"
    and row: "om_get (ws_gate s) (pg_request_id request) = Some row"
    and cases: "s' = s \<or> gr_state row = ''pending'' \<and> gr_evidence row = None \<and> record_gate_passed C w request ge authority now s = Ok (s', w')"
    by (auto simp: record_gate_tx_def validate_monotonic_time_def split: if_splits)
  have w: "w \<in> versions s" by (rule by_plan [OF inv rd])
  from cases show ?thesis
  proof (elim disjE conjE)
    assume p: "gr_state row = ''pending''" "gr_evidence row = None" and rc: "record_gate_passed C w request ge authority now s = Ok (s', w')"
    from pending_gate [OF inv w v row p] obtain e where e: "wi_state w = InReview" "wi_terminal_evidence w = Some e" "done_with C s w (wnext w) e"
      "gate_in C s w e request ''pending'' None (pg_created_at request)" "wi_blocker_code w = None" by blast
    have le: "wi_updated_at w \<le> now" "pg_created_at request \<le> now" using now by simp_all
    show ?thesis by (rule record_gate_passed_inv [OF inv w e ev le rc])
  qed (use safe_step_refl [OF inv] in simp)
qed

lemma gate_pending_row:
  assumes "validate_gate_request C s w request = Ok False"
  obtains row where "om_get (ws_gate s) (pg_request_id request) = Some row" "gr_state row = ''pending''" "gr_evidence row = None"
proof -
  from gate_request_OkD [OF assms] obtain row where r: "om_get (ws_gate s) (pg_request_id request) = Some row" "gate_outcome w request row = Ok False" by blast
  then show ?thesis using that by (auto simp: gate_outcome_def split: if_splits option.splits)
qed

lemma record_gate_timeout_inv:
  assumes inv: "wf_inv C s" and tx: "record_gate_timeout_tx C request authority now s = Ok (s', w')"
  shows "safe_step C s s'"
proof -
  from tx obtain w b where rd: "read_work_item_by_plan C s (pg_plan_id request) = Ok (Some w)"
    and v: "validate_gate_request C s w request = Ok b"
    and cases: "s' = s \<or> \<not> b \<and> \<not> now < pg_created_at request \<and> \<not> now < wi_updated_at w \<and> \<not> now < ep_deadline (wi_plan w)
      \<and> record_gate_expired C w request authority now s = Ok (s', w')"
    by (auto simp: record_gate_timeout_tx_def validate_monotonic_time_def split: if_splits)
  have w: "w \<in> versions s" by (rule by_plan [OF inv rd])
  from cases show ?thesis
  proof (elim disjE conjE)
    assume b: "\<not> b" and now: "\<not> now < pg_created_at request" "\<not> now < wi_updated_at w" "\<not> now < ep_deadline (wi_plan w)"
      and rc: "record_gate_expired C w request authority now s = Ok (s', w')"
    from v b have v': "validate_gate_request C s w request = Ok False" by simp
    from gate_pending_row [OF this] obtain row where p: "om_get (ws_gate s) (pg_request_id request) = Some row" "gr_state row = ''pending''" "gr_evidence row = None" .
    from pending_gate [OF inv w v p] obtain e where e: "wi_state w = InReview" "wi_terminal_evidence w = Some e" "done_with C s w (wnext w) e"
      "gate_in C s w e request ''pending'' None (pg_created_at request)" by blast
    have le: "wi_updated_at w \<le> now" "pg_created_at request \<le> now" "ep_deadline (wi_plan w) \<le> now" using now by simp_all
    show ?thesis by (rule record_gate_expired_inv [OF inv w e le rc])
  qed (use safe_step_refl [OF inv] in simp)
qed

section \<open>A fresh version\<close>

lemma claimed_sel [simp]:
  "wi_plan (claimed_work_item p v now) = p" "wi_state (claimed_work_item p v now) = Claimed" "wi_version (claimed_work_item p v now) = v"
  "wi_next_step_ordinal (claimed_work_item p v now) = 0" "wi_terminal_evidence (claimed_work_item p v now) = None"
  "wi_gate_evidence (claimed_work_item p v now) = None" "wi_blocker_code (claimed_work_item p v now) = None"
  "wi_updated_at (claimed_work_item p v now) = now" "wi_tenant_id (claimed_work_item p v now) = ep_tenant_id p"
  "wi_project_id (claimed_work_item p v now) = ep_project_id p" "wi_work_item_id (claimed_work_item p v now) = ep_work_item_id p"
  "wkey (claimed_work_item p v now) = (ep_tenant_id p, ep_project_id p, ep_work_item_id p)"
  by (simp_all add: claimed_work_item_def wkey_def)

lemma pending_sel [simp]:
  "px_step (first_pending C p st a now) = st" "px_state (first_pending C p st a now) = NotFound" "px_attempts (first_pending C p st a now) = 0"
  "px_plan_id (first_pending C p st a now) = ep_plan_id p" "px_plan_digest (first_pending C p st a now) = ep_request_digest p"
  "px_created_at (first_pending C p st a now) = now" "px_updated_at (first_pending C p st a now) = now"
  "px_schema_version (first_pending C p st a now) = WORKFLOW_SCHEMA_VERSION"
  by (simp_all add: first_pending_def)

lemma claimed_stored_ok:
  assumes "validate_at C p now = Ok ()" and "v \<noteq> 0"
  shows "frame_ok C (claimed_work_item p v now)" and "stored_ok C (claimed_work_item p v now)"
proof -
  have v: "validate_canonical C p = Ok ()" "ep_created_at p \<le> now" using assms(1) by (auto simp: validate_at_def)
  note d = validate_canonical_OkD [OF v(1)]
  have "\<not> es_deadline st \<le> ep_created_at p" if "st \<in> set (ep_steps p)" for st
    using d(7) that by (metis in_set_conv_nth not_le)
  then have "validate_at C p (ep_created_at p) = Ok ()" using v d(11) by (auto simp: validate_at_def list_ex_iff)
  then show "frame_ok C (claimed_work_item p v now)"
    using v(2) d(1) assms(2) by (simp add: frame_ok_def) (simp add: claimed_work_item_def)
  then show "stored_ok C (claimed_work_item p v now)" by (simp add: stored_ok_iff)
qed

lemma fresh_version_inv:
  fixes p ver now
  defines "w' \<equiv> claimed_work_item p ver now"
  assumes inv: "wf_inv C s" and fr: "frame_ok C w'" and vs: "versions s' = insert w' (versions s)" and new: "\<And>v. v \<in> versions s \<Longrightarrow> wid v \<noteq> wid w'"
    and ok: "items_ok C s'" "archives_ok C s'" "om_wf (ws_items s')" "om_wf (ws_operations s')"
    and q: "q = first_pending C p (ep_steps p ! 0) a now" and free: "om_get (ws_execution s) (es_invocation_id (px_step q)) = None"
    and rows: "ws_execution s' = om_insert (es_invocation_id (px_step q)) (xrow (wkey w') q) (ws_execution s)"
      "ws_completion s' = ws_completion s" "ws_gate s' = ws_gate s"
  shows "wf_inv C s' \<and> keeps_done s s'"
proof -
  have wf: "om_wf (ws_execution s)" "om_wf (ws_completion s)" "om_wf (ws_gate s)" using wf_invD(1) [OF inv] by (simp_all add: tables_wf_def)
  have e: "om_get (ws_execution s') i = (if i = es_invocation_id (px_step q) then Some (xrow (wkey w') q) else om_get (ws_execution s) i)" for i
    using wf(1) by (simp add: rows(1))
  have ext: "om_get (ws_execution s') i = Some row" if "om_get (ws_execution s) i = Some row" for i row
    using that free by (auto simp: e)
  have kd: "keeps_done s s'" unfolding keeps_done_def rows(2) using ext by blast
  have touch: "touches (wid w') s s'" unfolding touches_def rows(2,3) using ext by blast
  have n: "wi_plan w' = p" "wnext w' = 0" by (simp_all add: w'_def)
  have "exec_in s' w' 0 q" by (simp add: exec_in_def e n q)
  then have "running C s' w'" unfolding running_def n(2) by (intro exI [of _ q]) (simp add: q request_state_fits_def w'_def)
  then have co: "coherent C s' w'" by (simp add: coherent_def w'_def)
  have "unat (es_ordinal (ep_steps p ! 0)) = 0" using frame_plan(2,3) [OF fr] by (simp add: n)
  then have b: "belongs w' q" by (simp add: belongs_def n q)
  have "completions_ok C s'" unfolding completions_ok_def rows(2)
  proof (intro allI impI)
    fix r row assume "om_get (ws_completion s) r = Some row"
    from completions_okD [OF wf_invD(5) [OF inv] this] obtain k c ev t q1 where "row = krow k c ev t" "pc_request_id c = r"
      "om_get (ws_execution s) (pc_invocation_id c) = Some (xrow k q1)" "completes C q1 c" .
    with ext show "\<exists>k c ev t q. row = krow k c ev t \<and> pc_request_id c = r \<and> om_get (ws_execution s') (pc_invocation_id c) = Some (xrow k q)
        \<and> completes C q c" by blast
  qed
  have "wf_inv C s'"
  proof (rule inv_step [OF inv _ ok(1,2) _ _ _ touch co _ \<open>completions_ok C s'\<close>])
    show "tables_wf s'" using ok(3,4) wf by (simp add: tables_wf_def rows)
    show "w' \<in> versions s'" by (simp add: vs)
    show "v = w' \<or> v \<in> versions s \<and> wid v \<noteq> wid w'" if "v \<in> versions s'" for v using that new vs by blast
    show "\<exists>v' \<in> versions s'. advances v v'" if "v \<in> versions s" for v using that vs advances_refl by blast
    show "om_get (ws_execution s) i = Some row \<or> (\<exists>q. row = xrow (wkey w') q \<and> es_invocation_id (px_step q) = i \<and> belongs w' q)"
      if "om_get (ws_execution s') i = Some row" for i row
      using that b by (cases "i = es_invocation_id (px_step q)") (auto simp: e)
    show "r = r'" if "om_get (ws_gate s') r = Some row" "om_get (ws_gate s') r' = Some row'" "gr_plan_id row = gr_plan_id row'" for r r' row row'
      by (rule gates_unique [OF wf_invD(6) [OF inv], of r row r' row']) (use that in \<open>simp_all add: rows(3)\<close>)
  qed (simp add: rows(3))
  with kd show ?thesis by simp
qed

section \<open>Operation rows\<close>

lemma insert_operation_OkD:
  assumes "insert_operation ns op d resp now s = Ok s'"
  shows "om_get (ws_operations s) (ns, op) = None"
    and "s' = s\<lparr>ws_operations := om_insert (ns, op) \<lparr>or_request_digest = d, or_response = resp, or_created_at = uint now\<rparr> (ws_operations s)\<rparr>"
  using assms by (auto simp: insert_operation_def split: if_splits)

text \<open>An operation row that is not an archive changes no version.\<close>

lemma plain_operation:
  assumes wf: "om_wf (ws_operations s)" and ok: "archives_ok C s" and ins: "insert_operation ns op d resp now s = Ok s'"
    and resp: "\<And>a. resp \<noteq> RespArchive a" and nh: "\<not> is_history ns"
  shows "archives_ok C s'" and "archive_at s' = archive_at s" and "versions s' = versions s" and "om_wf (ws_operations s')" and "current_at s' = current_at s"
proof -
  note i = insert_operation_OkD [OF ins]
  have o: "om_get (ws_operations s') k = (if k = (ns, op) then Some \<lparr>or_request_digest = d, or_response = resp, or_created_at = uint now\<rparr> else om_get (ws_operations s) k)" for k
    using wf by (simp add: i(2))
  show a: "archive_at s' = archive_at s" using i(1) resp by (auto simp: archive_at_def o fun_eq_iff)
  show c: "current_at s' = current_at s" by (simp add: i(2) current_at_def fun_eq_iff)
  show "versions s' = versions s" by (simp add: versions_def a c)
  show "om_wf (ws_operations s')" using wf by (simp add: i(2))
  have "read_archive C s' ns' pid = read_archive C s ns' pid" if "archive_at s ns' pid a" for ns' pid a
  proof -
    have "(ns', pid) \<noteq> (ns, op)" using that i(1) by (auto simp: archive_at_def)
    then have "om_get (ws_operations s') (ns', pid) = om_get (ws_operations s) (ns', pid)" by (simp only: o if_False)
    then show ?thesis by (simp only: read_archive_def read_operation_def)
  qed
  moreover have "\<exists>a. or_response row = RespArchive a" if "om_get (ws_operations s') (ns', pid) = Some row" "is_history ns'" for ns' pid row
    using that ok nh by (cases "(ns', pid) = (ns, op)") (auto simp: o archives_ok_def)
  ultimately show "archives_ok C s'" using ok unfolding archives_ok_def archive_ok_def a c by metis
qed

section \<open>Admitting a plan\<close>

lemma namespaces_not_history [simp]: "\<not> is_history (operation_namespace p)" "\<not> is_history (admission_namespace C p)" "is_history (history_namespace C t pr w)"
  by (simp_all add: is_history_def operation_namespace_def admission_namespace_def history_namespace_def)

text \<open>A work item without a current version has no version at all.\<close>

lemma no_current_no_version:
  assumes "items_ok C s" and "archives_ok C s" and "om_get (ws_items s) k = None" and "v \<in> versions s"
  shows "wkey v \<noteq> k"
proof
  assume "wkey v = k"
  moreover obtain u where "current_at s (wkey v) u" using version_has_current [OF assms(1,2,4)] by blast
  ultimately show False using assms(3) by (simp add: current_at_def)
qed

lemma put_fresh:
  assumes ok: "items_ok C s" "archives_ok C s" "om_wf (ws_items s)" and none: "om_get (ws_items s) (wkey w) = None" and st: "stored_ok C w"
    and put: "put_work_item C w s = Ok s'"
  shows "s' = s\<lparr>ws_items := om_insert (wkey w) \<lparr>ir_version = uint (wi_version w), ir_payload = Json w\<rparr> (ws_items s)\<rparr>"
    and "items_ok C s'" and "archives_ok C s'" and "versions s' = insert w (versions s)" and "om_wf (ws_items s')"
proof -
  have "read_work_item C s (wi_tenant_id w) (wi_project_id w) (wi_work_item_id w) = Ok None"
    using read_work_item_current(2) [OF ok(1)] none by (simp add: wkey_def)
  with put show s': "s' = s\<lparr>ws_items := om_insert (wkey w) \<lparr>ir_version = uint (wi_version w), ir_payload = Json w\<rparr> (ws_items s)\<rparr>"
    by (auto simp: put_work_item_def write_current_work_item_def wkey_def)
  then show "om_wf (ws_items s')" using ok(3) by simp
  have get: "om_get (ws_items s') k = (if k = wkey w then Some \<lparr>ir_version = uint (wi_version w), ir_payload = Json w\<rparr> else om_get (ws_items s) k)" for k
    using ok(3) by (simp add: s')
  show "items_ok C s'" using ok(1) st unfolding items_ok_def get by auto
  have cur: "current_at s' k v \<longleftrightarrow> (if k = wkey w then v = w else current_at s k v)" for k v
    unfolding current_at_def get by auto
  have o: "ws_operations s' = ws_operations s" by (simp add: s')
  have nk: "wkey v \<noteq> wkey w" if "v \<in> versions s" for v by (rule no_current_no_version [OF ok(1,2) none that])
  have "\<exists>v. current_at s' (wkey (ar_previous a)) v \<and> ep_plan_id (wi_plan v) \<noteq> pid" if "archive_at s ns pid a" for ns pid a
  proof -
    have "ar_previous a \<in> versions s" using that by (auto simp: versions_def)
    with archive_okD(5) [OF ok(2) that] nk show ?thesis by (simp add: cur)
  qed
  then show "archives_ok C s'"
    using ok(2) unfolding archives_ok_def archive_ok_def archive_at_cong [OF o] read_archive_cong [OF o] o by blast
  have "current_at s (wkey v) v \<Longrightarrow> wkey v \<noteq> wkey w" for v using nk by (simp add: versions_def)
  then show "versions s' = insert w (versions s)"
    unfolding versions_def archive_at_cong [OF o] cur by auto
qed

lemma admit_plan_inv:
  assumes inv: "wf_inv C s" and tx: "admit_plan_tx C p authority now s = Ok (s', b, w')"
  shows "wf_inv C s' \<and> keeps_done s s' \<and> keeps_plans s s' \<and> versions s' \<subseteq> insert w' (versions s) \<and> (versions s' \<subseteq> versions s \<or> wi_plan w' = p)"
proof (cases "read_operation s (operation_namespace p) (ep_plan_id p)")
  case (Some row)
  then have "s' = s" using tx by (auto simp: admit_plan_tx_def admit_replay_def split: if_splits)
  with safe_step_refl [OF inv] show ?thesis by (auto simp: safe_step_def)
next
  case None
  with tx obtain found where found: "read_work_item C s (ep_tenant_id p) (ep_project_id p) (ep_work_item_id p) = Ok found"
    by (auto simp: admit_plan_tx_def)
  with tx None have "found = None" by (cases found) (auto simp: admit_plan_tx_def split: if_splits)
  with tx None found have rd: "read_work_item C s (ep_tenant_id p) (ep_project_id p) (ep_work_item_id p) = Ok None" and at: "validate_at C p now = Ok ()"
    and ne: "ep_steps p \<noteq> []" and rec: "record_admission C p authority now s = Ok (s', b, w')"
    by (auto simp: admit_plan_tx_def split: if_splits)
  let ?q = "first_pending C p (hd (ep_steps p)) (authority_digest C authority) now"
  obtain s1 s2 s3 where w': "w' = claimed_work_item p 1 now" and s1: "put_work_item C w' s = Ok s1" and s2: "insert_execution p ?q s1 = Ok s2"
    and s3: "append_audit w' ''execution_plan_admitted'' None Claimed (authority_digest C authority) (ep_request_digest p) now s2 = Ok s3"
    and s4: "insert_operation (operation_namespace p) (ep_plan_id p) (ep_request_digest p) (RespWorkItem w') now s3 = Ok s'"
    using rec unfolding record_admission_def Let_def by (auto simp only: try_bind_eq_Ok sum.inject prod.inject)
  note st = claimed_stored_ok [OF at, of 1, simplified]
  have k: "wkey w' = (ep_tenant_id p, ep_project_id p, ep_work_item_id p)" by (simp add: w')
  have none: "om_get (ws_items s) (wkey w') = None" using rd read_work_item_current(2) [OF wf_invD(2) [OF inv]] by (simp add: k)
  have wf: "om_wf (ws_items s)" "om_wf (ws_operations s)" using wf_invD(1) [OF inv] by (simp_all add: tables_wf_def)
  note p1 = put_fresh [OF wf_invD(2,3) [OF inv] wf(1) none st(2) [folded w'] s1]
  note i2 = insert_execution_OkD [OF s2 pending_sel(2,3,5), folded k]
  from append_audit_OkD [OF s3] obtain l where l: "s3 = s2\<lparr>ws_audit := l\<rparr>" by blast
  have c3: "ws_items s3 = ws_items s1" "ws_operations s3 = ws_operations s1" by (simp_all add: l i2(2))
  note c = items_cong [OF c3]
  have o3: "om_wf (ws_operations s3)" "archives_ok C s3" using wf(2) p1(3) by (simp_all add: c3(2) p1(1) c(4))
  note po = plain_operation [OF o3 s4]
  have i4: "ws_items s' = ws_items s1" "ws_execution s' = ws_execution s2" "ws_completion s' = ws_completion s" "ws_gate s' = ws_gate s"
    by (simp_all add: insert_operation_OkD(2) [OF s4] l i2(2) p1(1))
  have vs: "versions s' = insert w' (versions s)" using po(3) by (simp add: c(3) p1(4))
  have "items_ok C s'" using p1(2) by (simp add: items_ok_def i4(1))
  have hd: "hd (ep_steps p) = ep_steps p ! 0" using ne by (simp add: hd_conv_nth)
  have "wf_inv C s' \<and> keeps_done s s'"
    unfolding w' 
  proof (rule fresh_version_inv [OF inv st(1) vs [unfolded w'] _ \<open>items_ok C s'\<close> po(1) _ po(4)])
    show "wid v \<noteq> wid (claimed_work_item p 1 now)" if "v \<in> versions s" for v
      using no_current_no_version [OF wf_invD(2,3) [OF inv] none that] by (simp add: wid_def w')
    show "om_wf (ws_items s')" using p1(5) by (simp add: i4)
    show "?q = first_pending C p (ep_steps p ! 0) (authority_digest C authority) now" by (simp add: hd)
    show "om_get (ws_execution s) (es_invocation_id (px_step ?q)) = None" using i2(1) by (simp add: p1(1))
    show "ws_execution s' = om_insert (es_invocation_id (px_step ?q)) (xrow (wkey (claimed_work_item p 1 now)) ?q) (ws_execution s)"
      by (simp add: i4 i2(2) p1(1) k)
  qed (simp_all add: i4)
  moreover have "keeps_plans s s'"
    using vs insert_operation_OkD [OF s4] wf(2) by (auto simp: keeps_plans_def c3(2) p1(1))
  ultimately show ?thesis using vs w' by simp
qed

section \<open>Admitting a revision\<close>

lemma archive_current:
  assumes ok: "items_ok C s" "archives_ok C s" "om_wf (ws_items s)" "om_wf (ws_operations s)" and cur: "current_at s (wkey pv) pv"
    and w': "wkey w' = wkey pv" "ep_plan_id (wi_plan w') \<noteq> ep_plan_id (wi_plan pv)" "stored_ok C w'"
    and ns: "ns = history_namespace C (wi_tenant_id pv) (wi_project_id pv) (wi_work_item_id pv)"
    and free: "om_get (ws_operations s) (ns, ep_plan_id (wi_plan pv)) = None" "om_get (ws_operations s) (ns, ep_plan_id (wi_plan w')) = None"
    and row: "or_response row = RespArchive a" "ar_previous a = pv" and good: "read_archive C s1 ns (ep_plan_id (wi_plan pv)) = Ok (Some a)"
    and s1: "ws_items s1 = om_insert (wkey w') \<lparr>ir_version = uint (wi_version w'), ir_payload = Json w'\<rparr> (ws_items s)"
      "ws_operations s1 = om_insert (ns, ep_plan_id (wi_plan pv)) row (ws_operations s)"
  shows "items_ok C s1" and "archives_ok C s1" and "versions s1 = insert w' (versions s)" and "v \<in> versions s \<Longrightarrow> wid v \<noteq> wid w'"
proof -
  have it: "om_get (ws_items s1) k = (if k = wkey w' then Some \<lparr>ir_version = uint (wi_version w'), ir_payload = Json w'\<rparr> else om_get (ws_items s) k)" for k
    using ok(3) by (simp add: s1(1))
  have op: "om_get (ws_operations s1) k = (if k = (ns, ep_plan_id (wi_plan pv)) then Some row else om_get (ws_operations s) k)" for k
    using ok(4) by (simp add: s1(2))
  have c: "current_at s1 k v \<longleftrightarrow> (if k = wkey pv then v = w' else current_at s k v)" for k v
    unfolding current_at_def it w'(1) by auto
  have at: "archive_at s1 ns' pid b \<longleftrightarrow> archive_at s ns' pid b \<or> (ns' = ns \<and> pid = ep_plan_id (wi_plan pv) \<and> b = a)" for ns' pid b
    using free(1) row(1) by (auto simp: archive_at_def op)
  show "items_ok C s1" using ok(1) w'(3) unfolding items_ok_def it by auto
  have other: "pid \<noteq> ep_plan_id (wi_plan w')" if "archive_at s ns' pid b" "wkey (ar_previous b) = wkey pv" for ns' pid b
  proof -
    have "ns' = ns" using archive_okD(2) [OF ok(2) that(1)] that(2) by (simp add: ns wkey_def)
    then show ?thesis using that(1) free(2) by (auto simp: archive_at_def)
  qed
  have arch: "\<exists>v. current_at s1 (wkey (ar_previous b)) v \<and> ep_plan_id (wi_plan v) \<noteq> pid" if "archive_at s1 ns' pid b" for ns' pid b
  proof (cases "archive_at s ns' pid b")
    case True
    show ?thesis
    proof (cases "wkey (ar_previous b) = wkey pv")
      case k: True
      then show ?thesis using other [OF True k] by (auto simp: c)
    qed (use archive_okD(5) [OF ok(2) True] in \<open>auto simp: c\<close>)
  next
    case False
    with that row(2) w'(2) show ?thesis by (auto simp: at c)
  qed
  have "read_archive C s1 ns' pid = Ok (Some b)" if "archive_at s1 ns' pid b" for ns' pid b
  proof (cases "archive_at s ns' pid b")
    case True
    then have "(ns', pid) \<noteq> (ns, ep_plan_id (wi_plan pv))" using free(1) by (auto simp: archive_at_def)
    then have "om_get (ws_operations s1) (ns', pid) = om_get (ws_operations s) (ns', pid)" by (simp only: op if_False)
    then show ?thesis using archive_okD(1) [OF ok(2) True] by (simp only: read_archive_def read_operation_def)
  next
    case False
    with that good show ?thesis by (simp add: at)
  qed
  moreover have "\<exists>a. or_response r = RespArchive a" if "om_get (ws_operations s1) (ns', pid) = Some r" "is_history ns'" for ns' pid r
    using that ok(2) row(1) by (cases "(ns', pid) = (ns, ep_plan_id (wi_plan pv))") (auto simp: op archives_ok_def)
  ultimately show "archives_ok C s1" unfolding archives_ok_def archive_ok_def using arch by blast
  have pv: "current_at s (wkey v) v \<Longrightarrow> wkey v = wkey pv \<Longrightarrow> v = pv" for v using current_at_unique [OF cur] by metis
  have A: "{v. current_at s1 (wkey v) v} = insert w' ({v. current_at s (wkey v) v} - {pv})"
    using pv w'(1,2) by (auto simp: c)
  have B: "{v. \<exists>ns pid b. archive_at s1 ns pid b \<and> ar_previous b = v} = insert pv {v. \<exists>ns pid b. archive_at s ns pid b \<and> ar_previous b = v}"
    unfolding at using row(2) by blast
  show "versions s1 = insert w' (versions s)" unfolding versions_def A B using cur by auto
  show "wid v \<noteq> wid w'" if v: "v \<in> versions s"
    using v
  proof (cases rule: versionsE)
    case current
    then show ?thesis using pv [of v] w'(1,2) by (auto simp: wid_def)
  next
    case (archived ns' pid b)
    then show ?thesis using other [OF archived(1)] archive_okD(3) [OF ok(2) archived(1)] w'(1) by (auto simp: wid_def)
  qed
qed

lemma checked_add_nz: "checked_add (a :: u64) 1 = Some v \<Longrightarrow> v \<noteq> 0"
  using checked_add_one_less [of a v] by auto

lemma read_archive_None: "read_archive C s ns pid = Ok None \<longleftrightarrow> om_get (ws_operations s) (ns, pid) = None"
proof (cases "om_get (ws_operations s) (ns, pid)")
  case (Some row)
  then show ?thesis by (simp add: read_archive_def read_operation_def Let_def)
qed (simp add: read_archive_def read_operation_def)

lemma if_Err_Ok: "(if b then Err e else x) = Ok y \<longleftrightarrow> \<not> b \<and> x = Ok y"
  by simp

lemma revision_replay_OkD: "revision_replay C p r row s = Ok (s', b, w') \<Longrightarrow> s' = s"
  by (simp only: revision_replay_def if_Err_Ok try_bind_eq_Ok sum.inject prod.inject) blast

lemma admit_revision_tx_OkD:
  assumes "admit_revision_tx C p r authority now s = Ok (s', b, w')" and "read_operation s (admission_namespace C p) (ep_plan_id p) = None"
  obtains pv where "validate_at C p now = Ok ()" "read_work_item C s (ep_tenant_id p) (ep_project_id p) (ep_work_item_id p) = Ok (Some pv)"
    "ep_plan_id (wi_plan pv) = er_previous_plan_id r" "ep_request_digest (wi_plan pv) = er_previous_plan_digest r"
    "wi_version pv = er_previous_version r" "state_digest C pv = er_previous_state_digest r" "ep_plan_id (wi_plan pv) \<noteq> ep_plan_id p"
    "wi_updated_at pv \<le> now" "read_plan_version C s (ep_tenant_id p) (ep_project_id p) (ep_work_item_id p) (ep_plan_id p) = Ok None"
    "require_completed_source C s pv = Ok ()" "revision_count s (history_namespace C (ep_tenant_id p) (ep_project_id p) (ep_work_item_id p)) < MAX_EXECUTION_REVISIONS"
    "record_revision C p r pv authority now s = Ok (s', b, w')"
  using assms(1) unfolding admit_revision_tx_def assms(2) option.case Let_def if_Err_Ok try_bind_eq_Ok ok_or_eq_Ok
  by (elim exE conjE, intro that) (simp_all add: not_less)

lemma record_revision_OkD:
  assumes "record_revision C p r pv authority now s = Ok (s', b, w')"
  obtains version s1 s2 s3 s4 where
    "insert_operation (history_namespace C (ep_tenant_id p) (ep_project_id p) (ep_work_item_id p)) (ep_plan_id (wi_plan pv))
       (archive_digest C \<lparr>ar_previous = pv, ar_revision = r, ar_next_plan_id = ep_plan_id p, ar_next_plan_digest = ep_request_digest p, ar_archived_at = now\<rparr>)
       (RespArchive \<lparr>ar_previous = pv, ar_revision = r, ar_next_plan_id = ep_plan_id p, ar_next_plan_digest = ep_request_digest p, ar_archived_at = now\<rparr>) now s = Ok s1"
    "checked_add (wi_version pv) 1 = Some version" "w' = claimed_work_item p version now" "write_current_work_item w' s1 = Ok s2"
    "insert_execution p (first_pending C p (ep_steps p ! 0) (authority_digest C authority) now) s2 = Ok s3"
    "append_audit w' ''execution_revision_admitted'' (Some (wi_state pv)) Claimed (authority_digest C authority) (revision_digest C p r) now s3 = Ok s4"
    "insert_operation (admission_namespace C p) (ep_plan_id p) (revision_digest C p r) (RespWorkItem w') now s4 = Ok s'"
  using assms unfolding record_revision_def Let_def by (auto simp only: try_bind_eq_Ok ok_or_eq_Ok sum.inject prod.inject)

lemma archive_read_back:
  assumes a: "a = \<lparr>ar_previous = pv, ar_revision = r, ar_next_plan_id = ep_plan_id p, ar_next_plan_digest = ep_request_digest p, ar_archived_at = now\<rparr>"
    and row: "om_get (ws_operations s) (ns, ep_plan_id (wi_plan pv)) = Some \<lparr>or_request_digest = archive_digest C a, or_response = RespArchive a, or_created_at = uint now\<rparr>"
    and pv: "stored_ok C pv" and r: "validate_revision r = Ok ()" and p: "validate_canonical C p = Ok ()"
    and eq: "ep_plan_id (wi_plan pv) = er_previous_plan_id r" "ep_request_digest (wi_plan pv) = er_previous_plan_digest r"
      "wi_version pv = er_previous_version r" "state_digest C pv = er_previous_state_digest r" "ep_plan_id (wi_plan pv) \<noteq> ep_plan_id p"
    and now: "wi_updated_at pv \<le> now" and ns: "ns = history_namespace C (wi_tenant_id pv) (wi_project_id pv) (wi_work_item_id pv)"
  shows "read_archive C s ns (ep_plan_id (wi_plan pv)) = Ok (Some a)"
proof -
  have "validate_sha256 (er_feedback_digest r)" using r by (simp add: validate_revision_def)
  then have "from_completed_work C pv (er_feedback_digest r) = Ok r" using eq by (simp add: from_completed_work_def)
  then show ?thesis
    using row pv r now ns eq(5) validate_canonical_OkD(3,4) [OF p] by (simp add: read_archive_def read_operation_def a stored_ok_def not_less Let_def)
qed

lemma admit_revision_inv:
  assumes inv: "wf_inv C s" and tx: "admit_revision_tx C p r authority now s = Ok (s', b, w')" and r: "validate_revision r = Ok ()"
  shows "wf_inv C s' \<and> keeps_done s s' \<and> keeps_plans s s' \<and> versions s' \<subseteq> insert w' (versions s) \<and> (versions s' \<subseteq> versions s \<or> wi_plan w' = p)"
proof (cases "read_operation s (admission_namespace C p) (ep_plan_id p)")
  case (Some row)
  then have "s' = s" using tx revision_replay_OkD [of C p r row s s' b w'] by (simp add: admit_revision_tx_def)
  with safe_step_refl [OF inv] show ?thesis by (auto simp: safe_step_def)
next
  case None
  from admit_revision_tx_OkD [OF tx None] obtain pv where at: "validate_at C p now = Ok ()"
    and rd: "read_work_item C s (ep_tenant_id p) (ep_project_id p) (ep_work_item_id p) = Ok (Some pv)"
    and eq: "ep_plan_id (wi_plan pv) = er_previous_plan_id r" "ep_request_digest (wi_plan pv) = er_previous_plan_digest r"
      "wi_version pv = er_previous_version r" "state_digest C pv = er_previous_state_digest r" "ep_plan_id (wi_plan pv) \<noteq> ep_plan_id p"
    and now: "wi_updated_at pv \<le> now" and known: "read_plan_version C s (ep_tenant_id p) (ep_project_id p) (ep_work_item_id p) (ep_plan_id p) = Ok None"
    and "require_completed_source C s pv = Ok ()" "revision_count s (history_namespace C (ep_tenant_id p) (ep_project_id p) (ep_work_item_id p)) < MAX_EXECUTION_REVISIONS"
    and rec: "record_revision C p r pv authority now s = Ok (s', b, w')" .
  define a where "a = \<lparr>ar_previous = pv, ar_revision = r, ar_next_plan_id = ep_plan_id p, ar_next_plan_digest = ep_request_digest p, ar_archived_at = now\<rparr>"
  define q where "q = first_pending C p (ep_steps p ! 0) (authority_digest C authority) now"
  define ns where "ns = history_namespace C (ep_tenant_id p) (ep_project_id p) (ep_work_item_id p)"
  from record_revision_OkD [OF rec, folded a_def q_def ns_def] obtain version s1 s2 s3 s4 where
    s1: "insert_operation ns (ep_plan_id (wi_plan pv)) (archive_digest C a) (RespArchive a) now s = Ok s1"
    and ver: "checked_add (wi_version pv) 1 = Some version" and w': "w' = claimed_work_item p version now" and s2: "write_current_work_item w' s1 = Ok s2"
    and s3: "insert_execution p q s2 = Ok s3"
    and s4: "append_audit w' ''execution_revision_admitted'' (Some (wi_state pv)) Claimed (authority_digest C authority) (revision_digest C p r) now s3 = Ok s4"
    and s5: "insert_operation (admission_namespace C p) (ep_plan_id p) (revision_digest C p r) (RespWorkItem w') now s4 = Ok s'" .
  note st = claimed_stored_ok [OF at checked_add_nz [OF ver], folded w']
  have can: "validate_canonical C p = Ok ()" using at by (simp add: validate_at_def)
  have wf: "om_wf (ws_items s)" "om_wf (ws_operations s)" using wf_invD(1) [OF inv] by (simp_all add: tables_wf_def)
  have cur0: "current_at s (ep_tenant_id p, ep_project_id p, ep_work_item_id p) pv" using rd read_work_item_current(1) [OF wf_invD(2) [OF inv]] by simp
  note key = current_at_row(2) [OF wf_invD(2) [OF inv] cur0]
  have cur: "current_at s (wkey pv) pv" using cur0 key by simp
  have ids: "wi_tenant_id pv = ep_tenant_id p" "wi_project_id pv = ep_project_id p" "wi_work_item_id pv = ep_work_item_id p" using key by (simp_all add: wkey_def)
  have ns': "ns = history_namespace C (wi_tenant_id pv) (wi_project_id pv) (wi_work_item_id pv)" by (simp add: ns_def ids)
  have k: "wkey w' = wkey pv" using key by (simp add: w')
  note i1 = insert_operation_OkD [OF s1]
  have i2: "s2 = s1\<lparr>ws_items := om_insert (wkey w') \<lparr>ir_version = uint (wi_version w'), ir_payload = Json w'\<rparr> (ws_items s1)\<rparr>"
    using s2 by (auto simp: write_current_work_item_def wkey_def)
  have q: "px_state q = NotFound" "px_attempts q = 0" "px_plan_digest q = ep_request_digest p" by (simp_all add: q_def)
  note i3 = insert_execution_OkD [OF s3 q]
  from append_audit_OkD [OF s4] obtain l where l: "s4 = s3\<lparr>ws_audit := l\<rparr>" by blast
  have free: "om_get (ws_operations s) (ns, ep_plan_id (wi_plan w')) = None"
    using known unfolding read_plan_version_def rd by (simp add: eq(5) [unfolded eq(1)] eq(1) read_archive_None ns_def w')
  have rows4: "ws_items s4 = om_insert (wkey w') \<lparr>ir_version = uint (wi_version w'), ir_payload = Json w'\<rparr> (ws_items s)"
    "ws_operations s4 = om_insert (ns, ep_plan_id (wi_plan pv)) \<lparr>or_request_digest = archive_digest C a, or_response = RespArchive a, or_created_at = uint now\<rparr> (ws_operations s)"
    by (simp_all add: l i3(2) i2 i1(2))
  have "om_get (ws_operations s4) (ns, ep_plan_id (wi_plan pv)) = Some \<lparr>or_request_digest = archive_digest C a, or_response = RespArchive a, or_created_at = uint now\<rparr>"
    using wf(2) by (simp add: rows4(2))
  note good = archive_read_back [OF a_def this current_at_row(3) [OF wf_invD(2) [OF inv] cur0] r can eq now ns']
  have ne: "ep_plan_id (wi_plan w') \<noteq> ep_plan_id (wi_plan pv)" using eq(5) by (simp add: w')
  have "or_response \<lparr>or_request_digest = archive_digest C a, or_response = RespArchive a, or_created_at = uint now\<rparr> = RespArchive a" "ar_previous a = pv" by (simp_all add: a_def)
  note ar = archive_current [OF wf_invD(2,3) [OF inv] wf cur k ne st(2) ns' i1(1) free this good rows4]
  have o4: "om_wf (ws_operations s4)" using wf(2) by (simp add: rows4(2))
  note po = plain_operation [OF o4 ar(2) s5]
  have i5: "ws_items s' = ws_items s4" "ws_execution s' = ws_execution s3" "ws_completion s' = ws_completion s" "ws_gate s' = ws_gate s"
    by (simp_all add: insert_operation_OkD(2) [OF s5] l i3(2) i2 i1(2))
  have vs: "versions s' = insert w' (versions s)" using po(3) by (simp add: ar(3))
  have "items_ok C s'" using ar(1) by (simp add: items_ok_def i5(1))
  have "wf_inv C s' \<and> keeps_done s s'"
    unfolding w'
  proof (rule fresh_version_inv [OF inv st(1) [unfolded w'] vs [unfolded w'] ar(4) [unfolded w'] \<open>items_ok C s'\<close> po(1) _ po(4) q_def])
    show "om_wf (ws_items s')" using wf(1) by (simp add: i5 rows4(1))
    show "om_get (ws_execution s) (es_invocation_id (px_step q)) = None" using i3(1) by (simp add: i2 i1(2))
    show "ws_execution s' = om_insert (es_invocation_id (px_step q)) (xrow (wkey (claimed_work_item p version now)) q) (ws_execution s)"
      by (simp add: i5 i3(2) i2 i1(2))
  qed (simp_all add: i5)
  moreover have "keeps_plans s s'"
    using vs insert_operation_OkD [OF s5] wf(2) i1(1) by (auto simp: keeps_plans_def rows4(2))
  ultimately show ?thesis using vs w' by simp
qed

section \<open>Reserving a timestamp\<close>

lemma reserve_inv:
  assumes inv: "wf_inv C s" and ins: "insert_operation ns op d (RespTime now) now s = Ok s'" and nh: "\<not> is_history ns"
  shows "safe_step C s s'"
proof -
  have wf: "om_wf (ws_operations s)" using wf_invD(1) [OF inv] by (simp add: tables_wf_def)
  note po = plain_operation [OF wf wf_invD(3) [OF inv] ins _ nh]
  note i = insert_operation_OkD(2) [OF ins]
  have "items_ok C s'" "tables_wf s'" using wf_invD(1,2) [OF inv] wf by (simp_all add: i items_ok_def tables_wf_def)
  moreover have vs: "versions s' = versions s" by (rule po(3)) simp
  moreover have "execs_ok s'" using wf_invD(4) [OF inv] unfolding execs_ok_def vs by (simp add: i)
  moreover have "completions_ok C s'" using wf_invD(5) [OF inv] unfolding completions_ok_def by (simp add: i)
  moreover have "gates_ok s'" using wf_invD(6) [OF inv] unfolding gates_ok_def vs by (simp add: i)
  moreover have "coherent C s' v" if "v \<in> versions s" for v
    using wf_invD(7) [OF inv that] by (rule coherent_touch [of "(wkey undefined, ep_plan_id (wi_plan v) + 1)", rotated 2]) (simp_all add: touches_def i wid_def)
  moreover have "archives_ok C s'" by (rule po(1)) simp
  ultimately have "wf_inv C s'" by (simp add: wf_inv_def)
  moreover have "keeps_done s s'" by (simp add: keeps_done_def i)
  moreover have "keeps_plans s s'" using insert_operation_OkD(1) [OF ins] wf unfolding keeps_plans_def vs by (auto simp: i)
  ultimately show ?thesis by (simp add: safe_step_def vs)
qed

end
