(* ===== verification/Workflow_Safety.thy ===== *)
theory Workflow_Safety
  imports Workflow_Admission
begin

text \<open>
  The workflow core as a transition system.  A reconciler reads the store, calls the outside port
  without a lock, and writes the store in a second transaction: the two halves are separate steps,
  and any other operations may come between them.  A begun call may be written once, twice or
  never.  Ports, clocks and storage faults are arbitrary.
\<close>

section \<open>The two halves of a reconciliation\<close>

datatype wf_call =
  RecordExecution pending_execution reconcile_state runtime_authority u64
| RecordTerminal pending_completion execution_evidence runtime_authority u64
| RecordGate pending_gate gate_evidence runtime_authority u64
| RecordGateTimeout pending_gate runtime_authority u64

definition begin_execution ::
  "wf_codec \<Rightarrow> organization_port \<Rightarrow> execution_port \<Rightarrow> pending_execution \<Rightarrow> u64 \<Rightarrow> workflow_store \<Rightarrow> (work_item_execution + wf_call) wf_result" where
  "begin_execution C org xp request now s =
     try_bind (observe_execution C org xp request now s) (\<lambda>(state, authority).
     Ok (Inr (RecordExecution request state authority now)))"

definition begin_completion ::
  "wf_codec \<Rightarrow> organization_port \<Rightarrow> completion_port \<Rightarrow> pending_completion \<Rightarrow> u64 \<Rightarrow> workflow_store \<Rightarrow> (work_item_execution + wf_call) wf_result" where
  "begin_completion C org cp request now s =
     try_bind (require_ready (op_readiness org) OrganizationUnavailable) (\<lambda>_.
     try_bind (require_ready (cp_readiness cp) CompletionUnavailable) (\<lambda>_.
     try_bind (completion_work_item C s request) (\<lambda>(w, completed).
     if completed then Ok (Inl w)
     else try_bind (observe_completion C org cp w request now) (\<lambda>(e, authority).
       Ok (Inr (RecordTerminal request e authority now))))))"

definition begin_gate ::
  "wf_codec \<Rightarrow> organization_port \<Rightarrow> gate_port \<Rightarrow> pending_gate \<Rightarrow> u64 \<Rightarrow> workflow_store \<Rightarrow> (work_item_execution + wf_call) wf_result" where
  "begin_gate C org gp request now s =
     try_bind (require_ready (op_readiness org) OrganizationUnavailable) (\<lambda>_.
     try_bind (require_ready (gp_readiness gp) GateUnavailable) (\<lambda>_.
     try_bind (gate_work_item C s request) (\<lambda>(w, completed).
     if completed then Ok (Inl w)
     else try_bind (observe_gate C org gp w request now) (\<lambda>(evidence, authority).
       Ok (Inr (case evidence of None \<Rightarrow> RecordGateTimeout request authority now | Some e \<Rightarrow> RecordGate request e authority now))))))"

fun run_call :: "wf_codec \<Rightarrow> workflow_error option \<Rightarrow> wf_call \<Rightarrow> workflow_store \<Rightarrow> work_item_execution wf_result \<times> workflow_store" where
  "run_call C fault (RecordExecution request state authority now) s = record_execution_observation C fault request state authority now s"
| "run_call C fault (RecordTerminal request e authority now) s = record_terminal_evidence C fault request e authority now s"
| "run_call C fault (RecordGate request e authority now) s = record_gate_evidence C fault request e authority now s"
| "run_call C fault (RecordGateTimeout request authority now) s = record_gate_timeout C fault request authority now s"

definition finish :: "wf_codec \<Rightarrow> workflow_error option \<Rightarrow> (work_item_execution + wf_call) wf_result \<Rightarrow> workflow_store \<Rightarrow> work_item_execution wf_result \<times> workflow_store" where
  "finish C fault begun s = (case begun of Inl e \<Rightarrow> (Err e, s) | Inr (Inl w) \<Rightarrow> (Ok w, s) | Inr (Inr call) \<Rightarrow> run_call C fault call s)"

text \<open>With nothing in between, the halves are the reconcilers.\<close>

lemma reconcile_halves:
  "reconcile_execution C fault org xp request now s = finish C fault (begin_execution C org xp request now s) s"
  "reconcile_completion_evidence C fault org cp c now s = finish C fault (begin_completion C org cp c now s) s"
  "reconcile_gate_evidence C fault org gp g now s = finish C fault (begin_gate C org gp g now s) s"
proof -
  show "reconcile_execution C fault org xp request now s = finish C fault (begin_execution C org xp request now s) s"
    by (auto simp: reconcile_execution_def begin_execution_def finish_def then_store_def try_bind_def split: sum.split prod.split)
  show "reconcile_completion_evidence C fault org cp c now s = finish C fault (begin_completion C org cp c now s) s"
    by (auto simp: reconcile_completion_evidence_def begin_completion_def finish_def then_store_def try_bind_def split: sum.split prod.split)
  show "reconcile_gate_evidence C fault org gp g now s = finish C fault (begin_gate C org gp g now s) s"
    by (auto simp: reconcile_gate_evidence_def begin_gate_def finish_def then_store_def try_bind_def split: sum.split prod.split option.split)
qed

section \<open>Steps\<close>

type_synonym wf_system = "workflow_store \<times> wf_call set"

definition delivery_namespace :: "string \<Rightarrow> bool" where
  "delivery_namespace ns \<longleftrightarrow> take 19 ns = ''delivery-intent-v1:''"

inductive wf_step :: "wf_codec \<Rightarrow> execution_plan set \<Rightarrow> wf_system \<Rightarrow> wf_system \<Rightarrow> bool" for C P where
  admit: "p \<in> P \<Longrightarrow> wf_step C P (s, calls) (snd (core_admit_plan C fault org p now s), calls)"
| revise: "p \<in> P \<Longrightarrow> wf_step C P (s, calls) (snd (core_admit_revision_plan C fault org p r now s), calls)"
| execution: "begin_execution C org xp request now s = Ok (Inr call) \<Longrightarrow> wf_step C P (s, calls) (s, insert call calls)"
| completion: "begin_completion C org cp c now s = Ok (Inr call) \<Longrightarrow> wf_step C P (s, calls) (s, insert call calls)"
| gate: "begin_gate C org gp g now s = Ok (Inr call) \<Longrightarrow> wf_step C P (s, calls) (s, insert call calls)"
| recording: "call \<in> calls \<Longrightarrow> wf_step C P (s, calls) (snd (run_call C fault call s), calls)"
| reserve: "delivery_namespace ns \<Longrightarrow> wf_step C P (s, calls) (snd (reserve_operation_timestamp fault ns op d now s), calls)"

definition wf_reachable :: "wf_codec \<Rightarrow> execution_plan set \<Rightarrow> workflow_store \<Rightarrow> wf_call set \<Rightarrow> bool" where
  "wf_reachable C P s calls \<longleftrightarrow> (wf_step C P)\<^sup>*\<^sup>* (empty_store, {}) (s, calls)"

text \<open>No two plans of the company that are for different work items have the same digest.\<close>

definition digests_bind :: "wf_codec \<Rightarrow> execution_plan set \<Rightarrow> bool" where
  "digests_bind C P \<longleftrightarrow> (\<forall>p \<in> P. \<forall>p' \<in> P. plan_digest C p = plan_digest C p' \<longrightarrow>
     (ep_tenant_id p, ep_project_id p, ep_work_item_id p) = (ep_tenant_id p', ep_project_id p', ep_work_item_id p'))"

section \<open>The invariant of the system\<close>

fun call_ok :: "wf_codec \<Rightarrow> workflow_store \<Rightarrow> wf_call \<Rightarrow> bool" where
  "call_ok C s (RecordTerminal request e authority now) \<longleftrightarrow>
     (\<exists>k q. om_get (ws_execution s) (pc_invocation_id request) = Some (xrow k q) \<and> px_state q = Succeeded
        \<and> validate_sealed_descriptors C (px_step q) e = Ok ())"
| "call_ok C s _ \<longleftrightarrow> True"

definition sys_inv :: "wf_codec \<Rightarrow> execution_plan set \<Rightarrow> wf_system \<Rightarrow> bool" where
  "sys_inv C P \<sigma> \<longleftrightarrow> wf_inv C (fst \<sigma>) \<and> wi_plan ` versions (fst \<sigma>) \<subseteq> P \<and> (\<forall>call \<in> snd \<sigma>. call_ok C (fst \<sigma>) call)"

text \<open>What no step takes away.\<close>

definition kept :: "workflow_store \<Rightarrow> workflow_store \<Rightarrow> bool" where
  "kept s s' \<longleftrightarrow> keeps_done s s' \<and> keeps_plans s s'"

lemma kept_refl: "kept s s"
  by (auto simp: kept_def keeps_done_def keeps_plans_def)

lemma kept_trans:
  assumes "kept s1 s2" and "kept s2 s3"
  shows "kept s1 s3"
proof -
  have "keeps_done s1 s3" using assms unfolding kept_def keeps_done_def by blast
  moreover have "\<exists>v' \<in> versions s3. wkey v' = wkey v \<and> wi_plan v' = wi_plan v" if "v \<in> versions s1" for v
    using assms that unfolding kept_def keeps_plans_def by metis
  ultimately show ?thesis using assms by (simp add: kept_def keeps_plans_def)
qed

lemma call_ok_keep: "keeps_done s s' \<Longrightarrow> call_ok C s call \<Longrightarrow> call_ok C s' call"
  by (cases call) (auto simp: keeps_done_def)

lemma empty_inv: "sys_inv C P (empty_store, {})"
  by (auto simp: sys_inv_def wf_inv_def empty_store_def tables_wf_def items_ok_def archives_ok_def archive_at_def
      execs_ok_def completions_ok_def gates_ok_def versions_def current_at_def)

lemma receipt_sealed:
  assumes "receipt_check C w request receipt now = Ok e"
  obtains st where "List.find (\<lambda>st. es_step_id st = pc_step_id request) (wsteps w) = Some st" "validate_sealed_descriptors C st e = Ok ()"
  using assms
  by (auto simp: receipt_check_def validate_sealed_descriptors_def execution_evidence_new_def sealed_output_matches_def sealed_artifact_matches_def
      if_Err_Ok split_beta)

lemma plan_digest_bound: "validate_canonical C p = Ok () \<Longrightarrow> ep_request_digest p = plan_digest C p"
  by (simp add: validate_canonical_def split: if_splits)

lemma begin_completion_ok:
  assumes inv: "wf_inv C s" and b: "begin_completion C org cp request now s = Ok (Inr call)"
  shows "call_ok C s call"
proof -
  from b obtain w e authority where w: "completion_work_item C s request = Ok (w, False)" and o: "observe_completion C org cp w request now = Ok (e, authority)"
    and call: "call = RecordTerminal request e authority now"
    by (auto simp: begin_completion_def split: if_splits)
  from w have v: "validate_completion_request C s w request = Ok False" by (auto simp: completion_work_item_def)
  from o obtain receipt where "receipt_check C w request receipt now = Ok e" by (auto simp: observe_completion_def)
  from receipt_sealed [OF this] obtain st where st: "List.find (\<lambda>st. es_step_id st = pc_step_id request) (wsteps w) = Some st"
    "validate_sealed_descriptors C st e = Ok ()" .
  from completion_request_OkD [OF v] st(1) have "validate_completion_source s w request st = Ok ()" by (metis option.inject)
  from completion_source_OkD [OF this] obtain row q where row: "om_get (ws_execution s) (pc_invocation_id request) = Some row" "xr_request row = Json q"
    "px_state q = Succeeded" "px_step q = st" .
  from exec_row_version [OF inv row(1)] obtain v q' where "row = xrow (wkey v) q'" by blast
  moreover from this row(2) have "q' = q" by simp
  ultimately show ?thesis unfolding call call_ok.simps using row st(2) by blast
qed

lemma safe_sys:
  assumes "sys_inv C P (s, calls)" and "safe_step C s s'"
  shows "sys_inv C P (s', calls) \<and> kept s s'"
proof -
  have "wi_plan ` versions s' \<subseteq> wi_plan ` versions s" "wi_plan ` versions s \<subseteq> P" using assms by (simp_all add: sys_inv_def safe_step_def)
  then have "wi_plan ` versions s' \<subseteq> P" by (rule subset_trans)
  then show ?thesis using assms call_ok_keep [of s s' C] by (auto simp: sys_inv_def safe_step_def kept_def)
qed

lemma wf_transact_snd: "snd (wf_transact fault body s) = s \<or> (\<exists>x. body s = Ok (snd (wf_transact fault body s), x))"
  by (auto simp: wf_transact_def split: option.split sum.split)

lemma run_call_safe:
  assumes inv: "sys_inv C P (s, calls)" and b: "digests_bind C P" and call: "call \<in> calls"
  shows "safe_step C s (snd (run_call C fault call s))"
proof -
  have wf: "wf_inv C s" and ok: "call_ok C s call" and P: "wi_plan ` versions s \<subseteq> P" using inv call by (auto simp: sys_inv_def)
  note refl = safe_step_refl [OF wf]
  show ?thesis
  proof (cases call)
    case (RecordExecution request st a now)
    have "safe_step C s s'" if "record_execution_tx C request st a now s = Ok (s', x)" for s' x by (rule record_execution_inv [OF wf that])
    then show ?thesis using wf_transact_snd [of fault "record_execution_tx C request st a now" s] refl
      by (auto simp: RecordExecution record_execution_observation_def split: sum.split)
  next
    case (RecordTerminal request e a now)
    have binds: "wkey v = wkey w" if "v \<in> versions s" "w \<in> versions s" "ep_request_digest (wi_plan v) = ep_request_digest (wi_plan w)" for v w
    proof -
      have d: "ep_request_digest (wi_plan v) = plan_digest C (wi_plan v)" "frame_ok C v" if "v \<in> versions s" for v
      proof -
        show "frame_ok C v" using version_frame [OF wf that] by simp
        then show "ep_request_digest (wi_plan v) = plan_digest C (wi_plan v)" using plan_digest_bound frame_plan(1) by simp
      qed
      have "wi_plan v \<in> P" "wi_plan w \<in> P" using P that by auto
      with b that(3) show ?thesis unfolding digests_bind_def d(1) [OF that(1)] d(1) [OF that(2)]
        using frame_key [OF d(2) [OF that(1)]] frame_key [OF d(2) [OF that(2)]] by metis
    qed
    from ok RecordTerminal have sealed: "validate_sealed_descriptors C (px_step q) e = Ok ()" if "om_get (ws_execution s) (pc_invocation_id request) = Some (xrow k q)" for k q
      using that by auto
    have "safe_step C s s'" if "record_terminal_tx C request e a now s = Ok (s', x)" for s' x by (rule record_terminal_inv [OF wf that sealed binds])
    then show ?thesis using wf_transact_snd [of fault "record_terminal_tx C request e a now" s] refl
      by (auto simp: RecordTerminal record_terminal_evidence_def split: sum.split)
  next
    case (RecordGate request e a now)
    have "safe_step C s s'" if "record_gate_tx C request e a now s = Ok (s', x)" for s' x by (rule record_gate_inv [OF wf that])
    then show ?thesis using wf_transact_snd [of fault "record_gate_tx C request e a now" s] refl
      by (auto simp: RecordGate record_gate_evidence_def split: sum.split)
  next
    case (RecordGateTimeout request a now)
    have "safe_step C s s'" if "record_gate_timeout_tx C request a now s = Ok (s', x)" for s' x by (rule record_gate_timeout_inv [OF wf that])
    then show ?thesis using wf_transact_snd [of fault "record_gate_timeout_tx C request a now" s] refl
      by (auto simp: RecordGateTimeout record_gate_timeout_def split: sum.split)
  qed
qed

lemma admitted_sys:
  assumes inv: "sys_inv C P (s, calls)" and "wf_inv C s' \<and> keeps_done s s' \<and> keeps_plans s s' \<and> versions s' \<subseteq> insert w (versions s) \<and> (versions s' \<subseteq> versions s \<or> wi_plan w = p)" and "p \<in> P"
  shows "sys_inv C P (s', calls) \<and> kept s s'"
proof -
  have "wi_plan ` versions s' \<subseteq> P" using assms by (fastforce simp: sys_inv_def)
  then show ?thesis using assms(1,2) call_ok_keep [of s s' C] by (auto simp: sys_inv_def kept_def)
qed

lemma core_admit_snd:
  "snd (core_admit_plan C fault org p now s) = s \<or> (\<exists>a b w. admit_plan_tx C p a now s = Ok (snd (core_admit_plan C fault org p now s), b, w))"
  "snd (core_admit_revision_plan C fault org p r now s) = s
     \<or> (\<exists>a b w. admit_revision_tx C p r a now s = Ok (snd (core_admit_revision_plan C fault org p r now s), b, w) \<and> validate_revision r = Ok ())"
proof -
  have "snd (admit_plan C fault p a now s) = s \<or> (\<exists>b w. admit_plan_tx C p a now s = Ok (snd (admit_plan C fault p a now s), b, w))" for a
    using wf_transact_snd [of fault "admit_plan_tx C p a now" s] by (auto simp: admit_plan_def split: sum.split)
  then show "snd (core_admit_plan C fault org p now s) = s \<or> (\<exists>a b w. admit_plan_tx C p a now s = Ok (snd (core_admit_plan C fault org p now s), b, w))"
    unfolding core_admit_plan_def then_store_def by (auto split: sum.split)
  have "snd (admit_revision_plan C fault p r a now s) = s
      \<or> (\<exists>b w. admit_revision_tx C p r a now s = Ok (snd (admit_revision_plan C fault p r a now s), b, w) \<and> validate_revision r = Ok ())" for a
    using wf_transact_snd [of fault "admit_revision_tx C p r a now" s] by (auto simp: admit_revision_plan_def split: sum.split)
  then show "snd (core_admit_revision_plan C fault org p r now s) = s
     \<or> (\<exists>a b w. admit_revision_tx C p r a now s = Ok (snd (core_admit_revision_plan C fault org p r now s), b, w) \<and> validate_revision r = Ok ())"
    unfolding core_admit_revision_plan_def then_store_def by (auto split: sum.split) blast
qed

lemma reserve_safe:
  assumes inv: "wf_inv C s" and ns: "delivery_namespace ns"
  shows "safe_step C s (snd (reserve_operation_timestamp fault ns op d now s))"
proof -
  have "take 18 ns \<noteq> ''execution-history:''" using ns by (cases ns) (auto simp: delivery_namespace_def)
  then have nh: "\<not> is_history ns" by (simp add: is_history_def)
  let ?body = "\<lambda>s. case read_operation s ns op of
          Some row \<Rightarrow>
            if \<not> constant_time_eq (or_request_digest row) d then Err idempotency_conflict
            else
              try_bind (stored_u64 (or_created_at row)) (\<lambda>stored_at.
              try_bind (decode_time (or_response row)) (\<lambda>response_at.
              if response_at \<noteq> stored_at \<or> stored_at > now then Err corrupt_store else Ok (s, True, stored_at)))
        | None \<Rightarrow> try_bind (insert_operation ns op d (RespTime now) now s) (\<lambda>s. Ok (s, False, now))"
  have "safe_step C s s'" if "?body s = Ok (s', x)" for s' x
    using that reserve_inv [OF inv _ nh, of op d now] safe_step_refl [OF inv] by (auto split: option.splits if_splits)
  then show ?thesis using wf_transact_snd [of fault ?body s] safe_step_refl [OF inv]
    by (auto simp: reserve_operation_timestamp_def)
qed

lemma step_inv:
  assumes inv: "sys_inv C P (s, calls)" and b: "digests_bind C P" and st: "wf_step C P (s, calls) (s', calls')"
  shows "sys_inv C P (s', calls') \<and> kept s s'"
proof -
  have wf: "wf_inv C s" using inv by (simp add: sys_inv_def)
  show ?thesis using st
  proof cases
    case (admit p fault org now)
    from core_admit_snd(1) [of C fault org p now s] show ?thesis
    proof (elim disjE exE)
      fix a b w assume "admit_plan_tx C p a now s = Ok (snd (core_admit_plan C fault org p now s), b, w)"
      from admitted_sys [OF inv admit_plan_inv [OF wf this] admit(3)] admit(1,2) show ?thesis by simp
    qed (use admit(1,2) inv kept_refl in simp)
  next
    case (revise p fault org r now)
    from core_admit_snd(2) [of C fault org p r now s] show ?thesis
    proof (elim disjE exE conjE)
      fix a b w assume "admit_revision_tx C p r a now s = Ok (snd (core_admit_revision_plan C fault org p r now s), b, w)" "validate_revision r = Ok ()"
      from admitted_sys [OF inv admit_revision_inv [OF wf this] revise(3)] revise(1,2) show ?thesis by simp
    qed (use revise(1,2) inv kept_refl in simp)
  next
    case (execution org xp request now call)
    then have "call_ok C s call" by (auto simp: begin_execution_def)
    then show ?thesis using execution(1,2) inv kept_refl by (simp add: sys_inv_def)
  next
    case (completion org cp c now call)
    have "call_ok C s call" by (rule begin_completion_ok [OF wf completion(3)])
    then show ?thesis using completion(1,2) inv kept_refl by (simp add: sys_inv_def)
  next
    case (gate org gp g now call)
    then have "call_ok C s call" by (auto simp: begin_gate_def split: if_splits option.splits)
    then show ?thesis using gate(1,2) inv kept_refl by (simp add: sys_inv_def)
  next
    case (recording call fault)
    from safe_sys [OF inv run_call_safe [OF inv b recording(3)]] recording(1,2) show ?thesis by simp
  next
    case (reserve ns fault op d now)
    from safe_sys [OF inv reserve_safe [OF wf reserve(3)]] reserve(1,2) show ?thesis by simp
  qed
qed

text \<open>A system whose single steps keep an invariant and a reflexive, transitive relation: its runs do.\<close>

locale evolving_system =
  fixes step :: "'s \<Rightarrow> 's \<Rightarrow> bool" and inv :: "'s \<Rightarrow> bool" and keeps :: "'s \<Rightarrow> 's \<Rightarrow> bool"
  assumes step_keeps: "inv \<sigma> \<Longrightarrow> step \<sigma> \<tau> \<Longrightarrow> inv \<tau> \<and> keeps \<sigma> \<tau>"
    and keeps_refl: "keeps \<sigma> \<sigma>"
    and keeps_trans: "keeps \<sigma> \<tau> \<Longrightarrow> keeps \<tau> \<upsilon> \<Longrightarrow> keeps \<sigma> \<upsilon>"
begin

lemma run_keeps:
  assumes "step\<^sup>*\<^sup>* \<sigma> \<tau>" and "inv \<sigma>"
  shows "inv \<tau> \<and> keeps \<sigma> \<tau>"
  using assms(1)
proof (induction rule: rtranclp_induct)
  case base
  then show ?case using assms(2) keeps_refl by simp
next
  case (step \<tau> \<upsilon>)
  then show ?case using step_keeps keeps_trans by blast
qed

end

interpretation core: evolving_system "wf_step C P" "\<lambda>\<sigma>. sys_inv C P \<sigma> \<and> digests_bind C P" "\<lambda>\<sigma> \<tau>. kept (fst \<sigma>) (fst \<tau>)" for C P
proof
  fix \<sigma> \<tau> assume "sys_inv C P \<sigma> \<and> digests_bind C P" "wf_step C P \<sigma> \<tau>"
  then show "(sys_inv C P \<tau> \<and> digests_bind C P) \<and> kept (fst \<sigma>) (fst \<tau>)"
    using step_inv [of C P "fst \<sigma>" "snd \<sigma>" "fst \<tau>" "snd \<tau>"] by simp
qed (rule kept_refl, rule kept_trans)

lemma steps_inv:
  assumes "(wf_step C P)\<^sup>*\<^sup>* \<sigma> \<sigma>'" and "sys_inv C P \<sigma>" and "digests_bind C P"
  shows "sys_inv C P \<sigma>' \<and> kept (fst \<sigma>) (fst \<sigma>')"
  using core.run_keeps [OF assms(1)] assms(2,3) by simp

lemma wf_reachable_inv: "wf_reachable C P s calls \<Longrightarrow> digests_bind C P \<Longrightarrow> sys_inv C P (s, calls)"
  unfolding wf_reachable_def using steps_inv empty_inv by blast

end
