(* ===== verification/Workflow_Outbox.thy ===== *)
theory Workflow_Outbox
  imports Workflow_Safety
begin

text \<open>
  The outboxes of the workflow store: every request that is still open belongs to the step its work
  item is at, and the store accepts it.
\<close>

lemma read_version:
  assumes inv: "wf_inv C s" and rd: "read_plan_version C s t p w pid = Ok (Some v)"
  shows "v \<in> versions s"
proof -
  from rd obtain cur where c: "read_work_item C s t p w = Ok cur" by (auto simp: read_plan_version_def)
  show ?thesis
  proof (cases "cur = Some v")
    case True
    with c have at: "current_at s (t, p, w) v" using read_work_item_current(1) [OF wf_invD(2) [OF inv]] by simp
    with current_at_row(2) [OF wf_invD(2) [OF inv] at] show ?thesis by (simp add: versions_def)
  next
    case False
    with rd c obtain a where "read_archive C s (history_namespace C t p w) pid = Ok (Some a)" "ar_previous a = v"
      by (auto simp: read_plan_version_def split: if_splits)
    with read_archive_at(1) show ?thesis unfolding versions_def by blast
  qed
qed

lemma exec_row_at:
  assumes inv: "wf_inv C s" and w: "w \<in> versions s" and row: "om_get (ws_execution s) i = Some (xrow (wkey w) q)" "es_invocation_id (px_step q) = i"
    and b: "belongs w q"
  obtains (earlier) e where "unat (es_ordinal (px_step q)) < wnext w" "exec_in s w (unat (es_ordinal (px_step q))) q" "px_state q = Succeeded" "done_with C s w (unat (es_ordinal (px_step q))) e"
  | (current) "unat (es_ordinal (px_step q)) = wnext w" "exec_in s w (wnext w) q" "state_coherent C s w (wi_state w)"
proof -
  let ?n = "unat (es_ordinal (px_step q))"
  have n: "?n \<le> wnext w" "px_step q = wsteps w ! ?n" using b by (simp_all add: belongs_def)
  have co: "coherent C s w" by (rule wf_invD(7) [OF inv w])
  have i: "es_invocation_id (wsteps w ! ?n) = i" using row(2) by (simp only: n(2) [symmetric])
  have same: "q' = q" if "exec_in s w ?n q'" for q'
    using that row(1) by (simp only: exec_in_def i option.inject xrow_inject)
  show ?thesis
  proof (cases "?n < wnext w")
    case True
    with co obtain e where e: "done_with C s w ?n e" unfolding coherent_def by blast
    then obtain q' where "exec_in s w ?n q'" "px_state q' = Succeeded" unfolding done_with_def by blast
    with same earlier [OF True _ _ e] show ?thesis by blast
  next
    case False
    with n have eq: "?n = wnext w" by simp
    have sc: "state_coherent C s w (wi_state w)" using co by (simp add: coherent_def)
    then have "\<exists>q'. exec_in s w (wnext w) q'"
      by (cases "wi_state w") (auto simp: running_def halted_def done_with_def split: if_splits)
    with same eq have "exec_in s w (wnext w) q" by metis
    with current eq sc show ?thesis by blast
  qed
qed

text \<open>A request that is still open belongs to the step its work item is at.\<close>

lemma open_execution:
  assumes inv: "wf_inv C s" and row: "om_get (ws_execution s) i = Some (xrow k q)" "es_invocation_id (px_step q) = i"
    and open_state: "px_state q \<in> {NotFound, Reserved, Executing}"
  obtains w where "execution_work_item C s q = Ok w" "px_schema_version q = WORKFLOW_SCHEMA_VERSION"
proof -
  from exec_row_version [OF inv row(1)] obtain w q' where w: "w \<in> versions s" "xrow k q = xrow (wkey w) q'" "belongs w q'"
    "read_work_item_by_invocation C s i = Ok (Some w)" by metis
  then have q: "q' = q" "k = wkey w" by simp_all
  have "exec_in s w (wnext w) q \<and> state_coherent C s w (wi_state w)"
    using exec_row_at [OF inv w(1) row(1) [unfolded q(2)] row(2) w(3) [unfolded q(1)]] open_state by (metis insertE singletonD reconcile_state.distinct)
  then have x: "exec_in s w (wnext w) q" and sc: "state_coherent C s w (wi_state w)" by simp_all
  have same: "q' = q" if "exec_in s w (wnext w) q'" for q' using that x by (simp add: exec_in_def)
  have nd: "\<not> done_with C s w (wnext w) e" for e using same open_state unfolding done_with_def by auto
  have nh: "\<not> halted s w" using same open_state unfolding halted_def by auto
  have run: "wi_state w = Claimed \<or> wi_state w = InProgress" using sc nd nh by (cases "wi_state w") (auto split: if_splits)
  then have "running C s w" using sc by auto
  then have fits: "request_state_fits w (px_state q)" using same open_state unfolding running_def by auto
  have "wi_terminal_evidence w = None \<and> wi_gate_evidence w = None \<and> wi_blocker_code w = None"
    using version_frame [OF inv w(1)] run by auto
  with execution_request_iff [OF inv w(1)] x fits have "validate_execution_request s w q = Ok ()" by simp
  then have "execution_work_item C s q = Ok w" using w(4) row(2) by (simp add: execution_work_item_def)
  then show ?thesis using that x by (simp add: exec_in_def)
qed

lemma pending_completion_valid:
  assumes inv: "wf_inv C s" and w: "w \<in> versions s" and x: "exec_in s w (wnext w) q" "px_state q = Succeeded"
    and c: "compl_in C s w (wnext w) q c None (pc_created_at c)" and st: "wi_state w = Claimed \<or> wi_state w = InProgress"
  shows "validate_completion_request C s w c = Ok False"
proof -
  have fr: "frame_ok C w" "stored_state_check C w (wi_state w) = Ok ()" using version_frame [OF inv w] by simp_all
  have n: "wnext w < length (wsteps w)" using fr(1) by (simp add: frame_ok_def)
  have o: "unat (es_ordinal (wsteps w ! wnext w)) = wnext w" by (rule frame_plan(3) [OF fr(1) n])
  then have o': "es_ordinal (wsteps w ! wnext w) = wi_next_step_ordinal w" by (simp add: word_unat_eq_iff)
  have none: "wi_terminal_evidence w = None" "wi_gate_evidence w = None" "wi_blocker_code w = None" using fr(2) st by auto
  have k: "completion_of C w (wnext w) q c" "om_get (ws_completion s) (pc_request_id c) = Some (krow (wkey w) c None (pc_created_at c))"
    using c by (simp_all add: compl_in_def)
  have "validate_completion_source s w c (wsteps w ! wnext w) = Ok ()"
    using x k(1) by (simp add: validate_completion_source_def exec_in_def completion_of_def)
  moreover have "completion_outcome C w c (wsteps w ! wnext w) (krow (wkey w) c None (pc_created_at c)) = Ok False"
    using st none o' by (auto simp: completion_outcome_def)
  moreover have "List.find (\<lambda>st. es_step_id st = pc_step_id c) (wsteps w) = Some (wsteps w ! wnext w)"
    using step_find [OF fr(1) n] k(1) by (simp add: completion_of_def)
  ultimately show ?thesis using k by (simp add: validate_completion_request_def completion_of_def)
qed

lemma open_completion:
  assumes inv: "wf_inv C s" and row: "om_get (ws_completion s) r = Some (krow k c None t)"
  obtains w where "completion_work_item C s c = Ok (w, False)" "pc_schema_version c = WORKFLOW_SCHEMA_VERSION"
proof -
  from completions_okD [OF wf_invD(5) [OF inv] row] obtain q where c: "pc_request_id c = r" "om_get (ws_execution s) (pc_invocation_id c) = Some (xrow k q)" "completes C q c"
    by (auto simp only: krow_inject)
  from exec_row_version [OF inv c(2)] obtain w q0 where w: "w \<in> versions s" "xrow k q = xrow (wkey w) q0" "es_invocation_id (px_step q0) = pc_invocation_id c" "belongs w q0"
    "read_work_item_by_invocation C s (pc_invocation_id c) = Ok (Some w)" .
  then have q: "q0 = q" "k = wkey w" by simp_all
  note iv = w(3) [unfolded q(1)]
  have qs: "px_state q = Succeeded" using c(3) by (simp add: completes_def)
  have same: "c' = c \<and> ev = None \<and> t' = t" if "exec_in s w j q" "compl_in C s w j q c' ev t'" for j c' ev t'
  proof -
    have "pc_request_id c' = r" using that c(1,3) iv by (simp add: compl_in_def completion_of_def completes_def exec_in_def)
    with that(2) row show ?thesis by (simp add: compl_in_def)
  qed
  have nd: "\<not> done_with C s w j e" if "exec_in s w j q" for j e
  proof
    assume "done_with C s w j e"
    then obtain q' c' t' where "exec_in s w j q'" "compl_in C s w j q' c' (Some e) t'" unfolding done_with_def by blast
    moreover from this that have "q' = q" by (simp add: exec_in_def)
    ultimately show False using same [OF that, of c' "Some e" t'] by simp
  qed
  have x: "exec_in s w (wnext w) q" and sc: "state_coherent C s w (wi_state w)"
  proof -
    have "exec_in s w (wnext w) q \<and> state_coherent C s w (wi_state w)"
    proof (cases rule: exec_row_at [OF inv w(1) c(2) [unfolded q(2)] iv w(4) [unfolded q(1)]])
      case (1 e)
      then show ?thesis using nd by blast
    qed simp
    then show "exec_in s w (wnext w) q" "state_coherent C s w (wi_state w)" by simp_all
  qed
  have "\<not> halted s w" using x qs by (auto simp: halted_def exec_in_def)
  with sc nd [OF x] have run: "wi_state w = Claimed \<or> wi_state w = InProgress" by (cases "wi_state w") (auto split: if_splits)
  then have "running C s w" using sc by auto
  then obtain c' where "compl_in C s w (wnext w) q c' None (pc_created_at c')" using x qs by (auto simp: running_def exec_in_def request_state_fits_def)
  with same [OF x this] have ci: "compl_in C s w (wnext w) q c None (pc_created_at c)" by simp
  from pending_completion_valid [OF inv w(1) x qs ci run] w(5) have "completion_work_item C s c = Ok (w, False)" by (simp add: completion_work_item_def)
  then show ?thesis using that ci by (simp add: compl_in_def completion_of_def)
qed

text \<open>Every gate row is that of a work item under review, done, or blocked by the gate.\<close>

lemma gate_row_state:
  assumes inv: "wf_inv C s" and row: "om_get (ws_gate s) r = Some row"
  obtains w e g st ev t where "w \<in> versions s" "row = grow (wkey w) g st ev t" "gate_in C s w e g st ev t" "wi_terminal_evidence w = Some e"
    "read_work_item_by_plan C s (pg_plan_id g) = Ok (Some w)"
    "st = ''pending'' \<and> wi_state w = InReview \<and> ev = None \<and> t = pg_created_at g \<or> st = ''completed'' \<and> wi_state w = Done \<or> st = ''timed_out'' \<and> wi_state w = Blocked"
proof -
  from gate_row_version [OF inv row] obtain w g st ev t where w: "w \<in> versions s" "row = grow (wkey w) g st ev t" "pg_request_id g = r" "pg_plan_id g = ep_plan_id (wi_plan w)"
    "pg_plan_digest g = ep_request_digest (wi_plan w)" "wi_terminal_evidence w \<noteq> None" "read_work_item_by_plan C s (pg_plan_id g) = Ok (Some w)" .
  obtain e where e: "wi_terminal_evidence w = Some e" using w(6) by blast
  have sc: "state_coherent C s w (wi_state w)" using wf_invD(7) [OF inv w(1)] by (simp add: coherent_def)
  have ck: "stored_state_check C w (wi_state w) = Ok ()" using version_frame [OF inv w(1)] by simp
  have "\<exists>g' st' ev' t'. gate_in C s w e g' st' ev' t' \<and> (st' = ''pending'' \<and> wi_state w = InReview \<and> ev' = None \<and> t' = pg_created_at g'
      \<or> st' = ''completed'' \<and> wi_state w = Done \<or> st' = ''timed_out'' \<and> wi_state w = Blocked)"
  proof (cases "wi_state w")
    case InReview
    with sc e show ?thesis by fastforce
  next
    case Done
    with sc e show ?thesis by fastforce
  next
    case Blocked
    with sc ck e show ?thesis by (fastforce split: if_splits)
  qed (use ck e in \<open>auto split: if_splits\<close>)
  then obtain g' st' ev' t' where g: "gate_in C s w e g' st' ev' t'" "st' = ''pending'' \<and> wi_state w = InReview \<and> ev' = None \<and> t' = pg_created_at g'
      \<or> st' = ''completed'' \<and> wi_state w = Done \<or> st' = ''timed_out'' \<and> wi_state w = Blocked" by blast
  have row': "om_get (ws_gate s) (pg_request_id g') = Some (grow (wkey w) g' st' ev' t')" "pg_plan_id g' = ep_plan_id (wi_plan w)" using g(1) by (auto simp only: gate_in_def gate_of_def)
  have "r = pg_request_id g'" by (rule gates_unique [OF wf_invD(6) [OF inv] row row'(1)]) (simp add: w(2,4) row'(2))
  with row row'(1) w(2) have "g' = g" "st' = st" "ev' = ev" "t' = t" by simp_all
  with that [OF w(1,2) _ e w(7)] g show ?thesis by simp
qed

lemma open_gate:
  assumes inv: "wf_inv C s" and row: "om_get (ws_gate s) r = Some (grow k g ''pending'' ev t)"
  obtains w where "gate_work_item C s g = Ok (w, False)" "pg_schema_version g = WORKFLOW_SCHEMA_VERSION" "w \<in> versions s" "wid w = (k, pg_plan_id g)"
proof -
  from gate_row_state [OF inv row] obtain w e g' st ev' t' where w: "w \<in> versions s" "grow k g ''pending'' ev t = grow (wkey w) g' st ev' t'"
    "gate_in C s w e g' st ev' t'" "wi_terminal_evidence w = Some e" "read_work_item_by_plan C s (pg_plan_id g') = Ok (Some w)"
    "st = ''pending'' \<and> wi_state w = InReview \<and> ev' = None \<and> t' = pg_created_at g' \<or> st = ''completed'' \<and> wi_state w = Done \<or> st = ''timed_out'' \<and> wi_state w = Blocked" .
  then have "g' = g" "st = ''pending''" and k: "k = wkey w" by simp_all
  with w have w: "w \<in> versions s" "gate_in C s w e g ''pending'' None (pg_created_at g)" "wi_terminal_evidence w = Some e"
    "read_work_item_by_plan C s (pg_plan_id g) = Ok (Some w)" "wi_state w = InReview" by simp_all
  have fr: "frame_ok C w" "stored_state_check C w InReview = Ok ()" using version_frame [OF inv w(1)] w(5) by simp_all
  have n: "unat (wi_next_step_ordinal w) + 1 = length (wsteps w)" "wi_gate_evidence w = None" "wi_blocker_code w = None"
    using fr frame_plan(2) [OF fr(1)] w(3) by (auto simp: frame_ok_def split: if_splits)
  have g: "om_get (ws_gate s) (pg_request_id g) = Some (grow (wkey w) g ''pending'' None (pg_created_at g))" "gate_of C w e g" using w(2) by (simp_all add: gate_in_def)
  have "gate_outcome w g (grow (wkey w) g ''pending'' None (pg_created_at g)) = Ok False" using n w(5) by (simp add: gate_outcome_def)
  then have "validate_gate_request C s w g = Ok False"
    using g w(3) frame_plan(2) [OF fr(1)] by (simp add: validate_gate_request_def gate_of_def Let_def)
  with w(4) have "gate_work_item C s g = Ok (w, False)" by (simp add: gate_work_item_def)
  then show ?thesis using that w(1) g(2) k by (simp add: gate_of_def wid_def)
qed

lemma read_pending_ok:
  assumes "\<And>k row. (k, row) \<in> set rows \<Longrightarrow> is_open row \<Longrightarrow> \<exists>v. request row = Json v \<and> schema v = WORKFLOW_SCHEMA_VERSION \<and> Q v"
  shows "\<exists>vs. read_pending is_open updated request schema limit rows = Ok vs \<and> (\<forall>v \<in> set vs. Q v)"
proof -
  let ?f = "\<lambda>(_, row). try_bind (decode_payload (request row)) (\<lambda>v. if schema v \<noteq> WORKFLOW_SCHEMA_VERSION then Err corrupt_store else Ok v)"
  have "\<exists>vs. try_collect ?f xs = Ok vs \<and> (\<forall>v \<in> set vs. Q v)" if "set xs \<subseteq> set (filter (is_open \<circ> snd) rows)" for xs
    using that
  proof (induction xs)
    case (Cons x xs)
    obtain k row where x: "x = (k, row)" by (cases x)
    with Cons.prems assms [of k row] obtain v where "request row = Json v" "schema v = WORKFLOW_SCHEMA_VERSION" "Q v" by auto
    with Cons x show ?case by auto
  qed simp
  from this [of "take (page_limit limit) (sort_key (\<lambda>(key, row). (updated row, key)) (filter (is_open \<circ> snd) rows))"] show ?thesis
    unfolding read_pending_def by (metis (no_types, lifting) set_take_subset set_sort)
qed

end
