(* ===== verification/Workflow_Progress.thy ===== *)
theory Workflow_Progress
  imports Workflow_Outbox
begin

text \<open>
  Progress of the workflow core: with the organization's authority unchanged, the ports
  answering and the deadlines ahead, every open request of a work item is recorded, and the work
  item is carried through its remaining steps and its gate to done.
\<close>

section \<open>Runs\<close>

definition runs_to :: "wf_codec \<Rightarrow> execution_plan set \<Rightarrow> workflow_store \<Rightarrow> workflow_store \<Rightarrow> bool" where
  "runs_to C P s s' \<longleftrightarrow> (\<forall>calls. \<exists>calls'. (wf_step C P)\<^sup>*\<^sup>* (s, calls) (s', calls'))"

lemma runs_to_refl: "runs_to C P s s"
  unfolding runs_to_def by blast

lemma runs_to_trans: "runs_to C P s s' \<Longrightarrow> runs_to C P s' s'' \<Longrightarrow> runs_to C P s s''"
  unfolding runs_to_def by (meson rtranclp_trans)

lemma finish_runs:
  assumes begun: "\<And>call calls. begun = Ok (Inr call) \<Longrightarrow> wf_step C P (s, calls) (s, insert call calls)"
  shows "runs_to C P s (snd (finish C fault begun s))"
proof (cases "\<exists>call. begun = Ok (Inr call)")
  case True
  then obtain call where call: "begun = Ok (Inr call)" by blast
  have "(wf_step C P)\<^sup>*\<^sup>* (s, calls) (snd (run_call C fault call s), insert call calls)" for calls
    using begun [OF call, of calls] wf_step.recording [of call "insert call calls" C P s fault] by (meson insertI1 r_into_rtranclp rtranclp.rtrancl_into_rtrancl)
  then show ?thesis unfolding runs_to_def by (auto simp: finish_def call)
next
  case False
  then have "snd (finish C fault begun s) = s" by (auto simp: finish_def split: sum.split)
  then show ?thesis by (simp add: runs_to_refl)
qed

text \<open>A reconciliation is a run.\<close>

lemma reconcile_runs:
  "runs_to C P s (snd (reconcile_execution C fault org xp q now s))"
  "runs_to C P s (snd (reconcile_completion_evidence C fault org cp c now s))"
  "runs_to C P s (snd (reconcile_gate_evidence C fault org gp g now s))"
  unfolding reconcile_halves by (rule finish_runs; rule wf_step.intros; assumption)+

section \<open>Writes that succeed\<close>

definition in_column :: "u64 \<Rightarrow> bool" where
  "in_column v \<longleftrightarrow> uint v < 2 ^ 63"

lemma sql_in_column [simp]: "in_column v \<Longrightarrow> sql_u64 v = Ok (uint v)"
  by (simp add: sql_u64_def in_column_def)

lemma put_ok:
  assumes inv: "wf_inv C s" and s1: "ws_items s1 = ws_items s" and cur: "current_at s (wkey w) w"
    and w': "wkey w' = wkey w" "wi_plan w' = wi_plan w" "in_column (wi_version w')"
  shows "put_work_item C w' s1 = Ok (s1\<lparr>ws_items := om_insert (wkey w') \<lparr>ir_version = uint (wi_version w'), ir_payload = Json w'\<rparr> (ws_items s)\<rparr>)"
proof -
  have "read_work_item C s1 t p i = read_work_item C s t p i" for t p i by (simp add: read_work_item_def s1)
  moreover have "read_work_item C s (wi_tenant_id w') (wi_project_id w') (wi_work_item_id w') = Ok (Some w)"
    using read_work_item_current(1) [OF wf_invD(2) [OF inv]] cur w'(1) by (simp add: wkey_def)
  ultimately show ?thesis using w' by (simp add: put_work_item_def write_current_work_item_def wkey_def s1)
qed

lemma audit_ok: "in_column now \<Longrightarrow> \<exists>l. append_audit w ev b a d p now s = Ok (s\<lparr>ws_audit := l\<rparr>)"
  by (auto simp: append_audit_def)

lemma read_by_invocation_ok:
  assumes inv: "wf_inv C s" and w: "w \<in> versions s" and x: "exec_in s w j q"
  shows "read_work_item_by_invocation C s (es_invocation_id (wsteps w ! j)) = Ok (Some w)"
proof -
  have row: "om_get (ws_execution s) (es_invocation_id (wsteps w ! j)) = Some (xrow (wkey w) q)" using x by (simp add: exec_in_def)
  from exec_row_version [OF inv row] obtain v q' where v: "v \<in> versions s" "xrow (wkey w) q = xrow (wkey v) q'" "belongs v q'"
    "read_work_item_by_invocation C s (es_invocation_id (wsteps w ! j)) = Ok (Some v)" by metis
  then have "wid w = wid v" using x by (simp add: wid_def belongs_def exec_in_def)
  with version_unique [OF wf_invD(2,3) [OF inv] w v(1)] v(4) show ?thesis by simp
qed

section \<open>A work item and the authority that acts for it\<close>

definition works_for :: "wf_codec \<Rightarrow> runtime_authority \<Rightarrow> u64 \<Rightarrow> work_item_execution \<Rightarrow> bool" where
  "works_for C a now w \<longleftrightarrow> authority_validate a = Ok () \<and> authority_matches (wi_plan w) a \<and> wi_updated_at w \<le> now
     \<and> in_column now \<and> now < ep_deadline (wi_plan w) \<and> (\<forall>st \<in> set (wsteps w). now < es_deadline st)"

definition organization_of :: "runtime_authority \<Rightarrow> organization_port" where
  "organization_of a = \<lparr>op_readiness = Ready, op_before = Ok a, op_after = Ok a\<rparr>"

lemma pre_io_ok: "works_for C a now w \<Longrightarrow> t \<le> now \<Longrightarrow> validate_pre_io_authority C w a (authority_digest C a) t now = Ok ()"
  by (auto simp: validate_pre_io_authority_def works_for_def)

lemma authority_after_ok: "works_for C a now w \<Longrightarrow> t \<le> now \<Longrightarrow> authority_after C (organization_of a) w a (authority_digest C a) t now = Ok a"
  by (simp add: authority_after_def organization_of_def ensure_same_authority_def pre_io_ok)

text \<open>The tables after a recording.\<close>

definition written :: "work_item_execution \<Rightarrow> workflow_store \<Rightarrow> workflow_store \<Rightarrow> bool" where
  "written w s s' \<longleftrightarrow> ws_items s' = om_insert (wkey w) \<lparr>ir_version = uint (wi_version w), ir_payload = Json w\<rparr> (ws_items s)"

lemma written_current: "wf_inv C s \<Longrightarrow> written w s s' \<Longrightarrow> current_at s' (wkey w) w"
  using wf_invD(1) by (fastforce simp: written_def current_at_def tables_wf_def)

section \<open>An execution that succeeds\<close>

definition succeeding :: execution_port where
  "succeeding = \<lparr>xp_readiness = Ready, xp_reconcile = Ok Succeeded\<rparr>"

lemma execution_recorded:
  assumes inv: "wf_inv C s" and cur: "current_at s (wkey w) w" and x: "exec_in s w (wnext w) q" "request_state_fits w (px_state q)"
    and a: "works_for C a now w" "px_authority_digest q = authority_digest C a" "px_updated_at q \<le> now"
    and v: "in_column (saturating_add (wi_version w) 1)"
    and free: "om_get (ws_completion s) (pc_request_id (build_completion_request C w q a now)) = None"
  defines "w' \<equiv> w\<lparr>wi_version := saturating_add (wi_version w) 1, wi_updated_at := now, wi_blocker_code := None\<rparr>"
    and "c \<equiv> build_completion_request C w q a now" and "q' \<equiv> observed_request q Succeeded now"
  shows "\<exists>s'. reconcile_execution C None (organization_of a) succeeding q now s = (Ok w', s') \<and> written w' s s'
    \<and> ws_execution s' = om_insert (es_invocation_id (px_step q)) (xrow (wkey w) q') (ws_execution s)
    \<and> ws_completion s' = om_insert (pc_request_id c) (krow (wkey w) c None now) (ws_completion s) \<and> ws_gate s' = ws_gate s"
proof -
  have w: "w \<in> versions s" using cur by (simp add: versions_def)
  have fr: "frame_ok C w" "stored_state_check C w (wi_state w) = Ok ()" using version_frame [OF inv w] by simp_all
  have st: "wi_state w = Claimed \<or> wi_state w = InProgress" using x(2) by (auto simp: request_state_fits_def)
  then have none: "wi_terminal_evidence w = None \<and> wi_gate_evidence w = None \<and> wi_blocker_code w = None" using fr(2) by auto
  have step: "px_step q = wsteps w ! wnext w" "om_get (ws_execution s) (es_invocation_id (px_step q)) = Some (xrow (wkey w) q)" using x(1) by (simp_all add: exec_in_def)
  have rd: "read_work_item_by_invocation C s (es_invocation_id (px_step q)) = Ok (Some w)" using read_by_invocation_ok [OF inv w x(1)] by (simp add: step)
  have val: "validate_execution_request s w q = Ok ()" using execution_request_iff [OF inv w] x none by simp
  have n: "wnext w < length (wsteps w)" using fr(1) by (simp add: frame_ok_def)
  have dl: "now < es_deadline (px_step q)" "now < ep_deadline (wi_plan w)" using a(1) n by (auto simp: works_for_def step(1))
  have obs: "observe_execution C (organization_of a) succeeding q now s = Ok (Succeeded, a)"
    using dl pre_io_ok [OF a(1,3)] authority_after_ok [OF a(1,3)]
    by (simp add: not_le observe_execution_def execution_work_item_def rd val organization_of_def succeeding_def require_ready_def a(2))
  let ?s1 = "s\<lparr>ws_execution := om_insert (es_invocation_id (px_step q)) (xrow (wkey w) q') (ws_execution s)\<rparr>"
  let ?s2 = "?s1\<lparr>ws_completion := om_insert (pc_request_id c) (krow (wkey w) c None now) (ws_completion s)\<rparr>"
  have col: "in_column now" and le: "wi_updated_at w \<le> now" "authority_validate a = Ok ()" "authority_matches (wi_plan w) a" using a(1) by (simp_all add: works_for_def)
  have w'_eq: "observed_work_item w Succeeded now = w'" using st none by (simp add: observed_work_item_def w'_def)
  have u: "update_execution q q' now s = Ok ?s1"
    using col step(2) by (simp add: update_execution_def q'_def observed_request_def xrow_def)
  have ns: "px_state q \<noteq> Succeeded" using x(2) by (auto simp: request_state_fits_def)
  have bc: "build_completion_request C w' q a now = c" by (simp add: c_def w'_def build_completion_request_def)
  have key: "wkey w' = wkey w" by (simp add: w'_def wkey_def)
  have "completion_row_of_invocation ?s1 (pc_invocation_id c) = None"
    using no_completion_row [OF inv step(2) ns] by (simp add: completion_row_of_invocation_def c_def build_completion_request_def Let_def)
  then have ins: "insert_completion_request C w' q a now ?s1 = Ok ?s2"
    using free col key unfolding insert_completion_request_def bc c_def [symmetric] by (simp add: krow_def wkey_def)
  have pw: "put_work_item C w' ?s2 = Ok (?s2\<lparr>ws_items := om_insert (wkey w') \<lparr>ir_version = uint (wi_version w'), ir_payload = Json w'\<rparr> (ws_items s)\<rparr>)" (is "_ = Ok ?s3")
    by (rule put_ok [OF inv _ cur]) (use v in \<open>simp_all add: w'_def wkey_def\<close>)
  from audit_ok [OF col] obtain l where l: "append_audit w' ''execution_reconciled'' (Some (wi_state w)) (wi_state w') (authority_digest C a)
        (step_digest C (px_step q)) now ?s3 = Ok (?s3\<lparr>ws_audit := l\<rparr>)" by blast
  have tx: "record_execution_tx C q Succeeded a now s = Ok (?s3\<lparr>ws_audit := l\<rparr>, w')"
    using rd val a(2,3) le u ins pw l
    by (simp add: not_less record_execution_tx_def validate_monotonic_time_def record_observed_def bounded_observation_def w'_eq q'_def [symmetric])
  then show ?thesis
    by (intro exI [of _ "?s3\<lparr>ws_audit := l\<rparr>"]) (simp add: reconcile_execution_def then_store_def obs record_execution_observation_def le wf_transact_def written_def)
qed

section \<open>A step whose evidence is delivered\<close>

text \<open>Evidence that seals what the step promised.\<close>

definition sealed_evidence :: "wf_codec \<Rightarrow> execution_step \<Rightarrow> pending_completion \<Rightarrow> u64 \<Rightarrow> execution_evidence" where
  "sealed_evidence C st c now =
     (let outputs = map (\<lambda>o'. \<lparr>so_name = ox_name o', so_kind = ox_kind o', so_digest_algorithm = ox_digest_algorithm o', so_digest = ex_digest\<rparr>) (es_outputs st);
          artifacts = map (\<lambda>x. \<lparr>sa_artifact_kind = ax_artifact_kind x, sa_media_type = ax_media_type x, sa_paths = ax_required_paths x,
            sa_digest = ex_digest\<rparr>) (es_artifacts st)
      in execution_evidence_new ''receipt'' (pc_invocation_id c) (pc_plan_digest c) (pc_step_digest c)
           (sealed_output_bundle_digest C outputs artifacts) outputs artifacts now)"

definition delivering :: "execution_evidence \<Rightarrow> completion_port" where
  "delivering e = \<lparr>cp_readiness = Ready, cp_evidence = Ok e\<rparr>"

definition sha_is_256 :: "wf_codec \<Rightarrow> bool" where
  "sha_is_256 C \<longleftrightarrow> (\<forall>b. length (wc_sha C b) = 32)"

lemma receipt_identifier: "validate_identifier ''receipt'' = Ok ()"
  by code_simp

lemma zip_map_self: "zip xs (map f xs) = map (\<lambda>x. (x, f x)) xs"
  by (induction xs) simp_all

lemma sealed_evidence_sel [simp]:
  "ee_schema_version (sealed_evidence C st c now) = WORKFLOW_SCHEMA_VERSION" "ee_invocation_id (sealed_evidence C st c now) = pc_invocation_id c"
  "ee_plan_digest (sealed_evidence C st c now) = pc_plan_digest c" "ee_step_digest (sealed_evidence C st c now) = pc_step_digest c"
  "ee_receipt_id (sealed_evidence C st c now) = ''receipt''" "ee_completed_at (sealed_evidence C st c now) = now"
  by (simp_all add: sealed_evidence_def execution_evidence_new_def Let_def)

lemma sealed_descriptors: "validate_sealed_descriptors C st (sealed_evidence C st c now) = Ok ()"
  by (simp add: validate_sealed_descriptors_def sealed_evidence_def execution_evidence_new_def Let_def zip_map_self sealed_output_matches_def
      sealed_artifact_matches_def validate_digest_def ex_digest_valid)

lemma bundle_digest: "sha_is_256 C \<Longrightarrow> validate_digest (sealed_output_bundle_digest C outputs artifacts) = Ok ()"
  by (simp add: sealed_output_bundle_digest_def canonical_sha256_def validate_digest_def canonical_digest_valid sha_is_256_def)

lemma receipt_ok:
  assumes "sha_is_256 C" and "List.find (\<lambda>st. es_step_id st = pc_step_id c) (wsteps w) = Some st" and "pc_created_at c \<le> now" and "now \<le> es_deadline st" and "now \<le> ep_deadline (wi_plan w)"
  shows "receipt_check C w c (sealed_evidence C st c now) now = Ok (sealed_evidence C st c now)"
  using assms bundle_digest [OF assms(1)] receipt_identifier
  by (simp add: receipt_check_def sealed_evidence_def execution_evidence_new_def Let_def zip_map_self validate_digest_def ex_digest_valid not_less)

lemma completion_reaches:
  assumes inv: "wf_inv C s" and w: "w \<in> versions s" and x: "exec_in s w (wnext w) q" "px_state q = Succeeded"
    and c: "compl_in C s w (wnext w) q c None (pc_created_at c)" and st: "wi_state w = Claimed \<or> wi_state w = InProgress"
    and a: "works_for C a now w" "pc_authority_digest c = authority_digest C a" "pc_created_at c \<le> now" and sha: "sha_is_256 C"
    and e: "e = sealed_evidence C (wsteps w ! wnext w) c now" and rec: "record_completed C w c e a now s = Ok (s', w')"
  shows "reconcile_completion_evidence C None (organization_of a) (delivering e) c now s = (Ok w', s')"
proof -
  have fr: "frame_ok C w" using version_frame [OF inv w] by simp
  have n: "wnext w < length (wsteps w)" using fr by (simp add: frame_ok_def)
  have k: "pc_invocation_id c = es_invocation_id (wsteps w ! wnext w)" "pc_step_id c = es_step_id (wsteps w ! wnext w)"
    "om_get (ws_completion s) (pc_request_id c) = Some (krow (wkey w) c None (pc_created_at c))" using c by (auto simp only: compl_in_def completion_of_def)
  have find: "List.find (\<lambda>st. es_step_id st = pc_step_id c) (wsteps w) = Some (wsteps w ! wnext w)" using step_find [OF fr n] by (simp add: k(2))
  have rd: "read_work_item_by_invocation C s (pc_invocation_id c) = Ok (Some w)" using read_by_invocation_ok [OF inv w x(1)] by (simp add: k(1))
  have val: "validate_completion_request C s w c = Ok False" by (rule pending_completion_valid [OF inv w x c st])
  have dl: "now \<le> es_deadline (wsteps w ! wnext w)" "now \<le> ep_deadline (wi_plan w)" using a(1) n by (auto simp: works_for_def intro: less_imp_le)
  have au: "authority_validate a = Ok ()" "authority_matches (wi_plan w) a" "wi_updated_at w \<le> now" using a(1) by (simp_all add: works_for_def)
  have obs: "observe_completion C (organization_of a) (delivering e) w c now = Ok (e, a)"
    using pre_io_ok [OF a(1,3)] authority_after_ok [OF a(1,3)] receipt_ok [OF sha find a(3) dl]
    by (simp add: observe_completion_def a(2) delivering_def organization_of_def e)
  have ev: "validate_execution_evidence c e now (es_deadline (wsteps w ! wnext w)) (ep_deadline (wi_plan w)) = Ok ()"
    using a(3) dl by (simp add: validate_execution_evidence_def e not_less)
  have "record_terminal_tx C c e a now s = Ok (s', w')"
    using rd val a(2,3) au find ev k(3) rec by (simp add: record_terminal_tx_def validate_monotonic_time_def not_less)
  moreover have "completion_work_item C s c = Ok (w, False)" by (simp add: completion_work_item_def rd val)
  ultimately show ?thesis
    using obs au by (simp add: reconcile_completion_evidence_def then_store_def require_ready_def organization_of_def delivering_def
        record_terminal_evidence_def wf_transact_def)
qed

lemma complete_row_ok:
  assumes "in_column now" and "om_get (ws_completion s) (pc_request_id c) = Some (krow k c None t)"
  shows "complete_row c e now s = Ok (s\<lparr>ws_completion := om_insert (pc_request_id c) (krow k c (Some e) now) (ws_completion s)\<rparr>)"
  using assms by (simp add: complete_row_def krow_def)

lemma next_recorded:
  fixes a :: runtime_authority
  assumes inv: "wf_inv C s" and cur: "current_at s (wkey w) w" and c: "compl_in C s w (wnext w) q c None t" and col: "in_column now"
    and v: "in_column (saturating_add (wi_version w) 1)" and n: "wnext w + 1 < length (wsteps w)"
    and free: "om_get (ws_execution s) (es_invocation_id (wsteps w ! (wnext w + 1))) = None"
  defines "w' \<equiv> w\<lparr>wi_next_step_ordinal := saturating_add (wi_next_step_ordinal w) 1, wi_state := InProgress,
      wi_version := saturating_add (wi_version w) 1, wi_updated_at := now\<rparr>"
    and "q' \<equiv> first_pending C (wi_plan w) (wsteps w ! (wnext w + 1)) (authority_digest C a) now"
  shows "\<exists>s'. record_completed C w c e a now s = Ok (s', w') \<and> written w' s s'
    \<and> ws_execution s' = om_insert (es_invocation_id (wsteps w ! (wnext w + 1))) (xrow (wkey w) q') (ws_execution s)
    \<and> ws_completion s' = om_insert (pc_request_id c) (krow (wkey w) c (Some e) now) (ws_completion s) \<and> ws_gate s' = ws_gate s"
proof -
  have fr: "frame_ok C w" using current_at_row(3) [OF wf_invD(2) [OF inv] cur] by (simp add: stored_ok_iff)
  let ?s1 = "s\<lparr>ws_completion := om_insert (pc_request_id c) (krow (wkey w) c (Some e) now) (ws_completion s)\<rparr>"
  let ?s2 = "?s1\<lparr>ws_execution := om_insert (es_invocation_id (wsteps w ! (wnext w + 1))) (xrow (wkey w) q') (ws_execution s)\<rparr>"
  have s1: "complete_row c e now s = Ok ?s1" by (rule complete_row_ok [OF col, of _ _ _ t]) (use c in \<open>simp add: compl_in_def\<close>)
  have s2: "insert_execution (wi_plan w) q' ?s1 = Ok ?s2"
    using col free frame_key [OF fr] by (auto simp: insert_execution_def q'_def first_pending_def xrow_def wkey_def)
  have s3: "put_work_item C w' ?s2 = Ok (?s2\<lparr>ws_items := om_insert (wkey w') \<lparr>ir_version = uint (wi_version w'), ir_payload = Json w'\<rparr> (ws_items s)\<rparr>)" (is "_ = Ok ?s3")
    by (rule put_ok [OF inv _ cur]) (use v in \<open>simp_all add: w'_def wkey_def\<close>)
  from audit_ok [OF col] obtain l where l: "append_audit w' ''terminal_execution_evidence_recorded'' (Some (wi_state w)) InProgress
       (authority_digest C a) (ee_output_bundle_digest e) now ?s3 = Ok (?s3\<lparr>ws_audit := l\<rparr>)" by blast
  have adv: "advance_work_item C w e a now ?s1 = Ok (?s2, w\<lparr>wi_next_step_ordinal := saturating_add (wi_next_step_ordinal w) 1, wi_state := InProgress\<rparr>)"
    using n s2 by (simp add: advance_work_item_def q'_def Let_def)
  have "record_completed C w c e a now s = Ok (?s3\<lparr>ws_audit := l\<rparr>, w')"
    using s3 l by (simp add: record_completed_def s1 adv w'_def [symmetric])
  then show ?thesis by (auto simp: written_def)
qed

lemma review_recorded:
  assumes inv: "wf_inv C s" and cur: "current_at s (wkey w) w" and c: "compl_in C s w (wnext w) q c None t" and col: "in_column now"
    and v: "in_column (saturating_add (wi_version w) 1)" and n: "\<not> wnext w + 1 < length (wsteps w)" and e: "ee_completed_at e \<le> now"
    and free: "gate_row_of_plan s (ep_plan_id (wi_plan w)) = None" "om_get (ws_gate s) (gate_request_identity C (ep_plan_id (wi_plan w)) (ep_request_digest (wi_plan w)) (ee_receipt_id e)) = None"
  defines "w' \<equiv> w\<lparr>wi_terminal_evidence := Some e, wi_state := InReview, wi_version := saturating_add (wi_version w) 1, wi_updated_at := now\<rparr>"
  shows "\<exists>s' g. record_completed C w c e a now s = Ok (s', w') \<and> written w' s s' \<and> ws_execution s' = ws_execution s
    \<and> ws_completion s' = om_insert (pc_request_id c) (krow (wkey w) c (Some e) now) (ws_completion s)
    \<and> ws_gate s' = om_insert (pg_request_id g) (grow (wkey w) g ''pending'' None now) (ws_gate s)
    \<and> gate_of C w' e g \<and> pg_created_at g = now \<and> pg_authority_digest g = authority_digest C a"
proof -
  have fr: "frame_ok C w" using current_at_row(3) [OF wf_invD(2) [OF inv] cur] by (simp add: stored_ok_iff)
  let ?w1 = "w\<lparr>wi_terminal_evidence := Some e, wi_state := InReview\<rparr>"
  obtain g where g: "build_gate_request C ?w1 a e now = Ok g" using frame_plan(2) [OF fr] by (auto simp: build_gate_request_def Let_def)
  note go = build_gate_OkD [OF g e]
  have gid: "pg_request_id g = gate_request_identity C (ep_plan_id (wi_plan w)) (ep_request_digest (wi_plan w)) (ee_receipt_id e)" "pg_authority_digest g = authority_digest C a"
    using g frame_plan(2) [OF fr] by (auto simp: build_gate_request_def Let_def)
  let ?s1 = "s\<lparr>ws_completion := om_insert (pc_request_id c) (krow (wkey w) c (Some e) now) (ws_completion s)\<rparr>"
  let ?s2 = "?s1\<lparr>ws_gate := om_insert (pg_request_id g) (grow (wkey w) g ''pending'' None now) (ws_gate s)\<rparr>"
  have s1: "complete_row c e now s = Ok ?s1" by (rule complete_row_ok [OF col, of _ _ _ t]) (use c in \<open>simp add: compl_in_def\<close>)
  have "gate_row_of_plan ?s1 (pg_plan_id g) = None" using free(1) go(3) by (simp add: gate_row_of_plan_def)
  then have s2: "insert_gate_request ?w1 g now ?s1 = Ok ?s2" using free(2) col by (simp add: insert_gate_request_def gid(1) grow_def wkey_def)
  have s3: "put_work_item C w' ?s2 = Ok (?s2\<lparr>ws_items := om_insert (wkey w') \<lparr>ir_version = uint (wi_version w'), ir_payload = Json w'\<rparr> (ws_items s)\<rparr>)" (is "_ = Ok ?s3")
    by (rule put_ok [OF inv _ cur]) (use v in \<open>simp_all add: w'_def wkey_def\<close>)
  from audit_ok [OF col] obtain l where l: "append_audit w' ''terminal_execution_evidence_recorded'' (Some (wi_state w)) InReview
       (authority_digest C a) (ee_output_bundle_digest e) now ?s3 = Ok (?s3\<lparr>ws_audit := l\<rparr>)" by blast
  have adv: "advance_work_item C w e a now ?s1 = Ok (?s2, ?w1)" using n s2 g by (simp add: advance_work_item_def Let_def)
  have rec: "record_completed C w c e a now s = Ok (?s3\<lparr>ws_audit := l\<rparr>, w')"
    using s3 l by (simp add: record_completed_def s1 adv w'_def [symmetric])
  have "gate_of C w' e g" using go(1) by (simp add: gate_of_def w'_def)
  with rec go(2) gid(2) show ?thesis by (intro exI [of _ "?s3\<lparr>ws_audit := l\<rparr>"] exI [of _ g]) (simp add: written_def)
qed

section \<open>A gate that passes\<close>

definition passing_evidence :: "pending_gate \<Rightarrow> u64 \<Rightarrow> gate_evidence" where
  "passing_evidence g now = gate_evidence_new ''receipt'' (gx_profile_generation (pg_expectation g)) (gx_profile_digest (pg_expectation g))
     (pg_subject_digest g) (pg_required_checks_digest g) now"

definition passing :: "gate_evidence \<Rightarrow> gate_port" where
  "passing ge = \<lparr>gp_readiness = Ready, gp_evidence = Ok ge\<rparr>"

lemma gate_profile: "frame_ok C w \<Longrightarrow> gx_profile_id (es_gate_expectation (last (wsteps w))) = WORK_ITEM_GATE_PROFILE"
proof -
  assume fr: "frame_ok C w"
  have "validate_step (last (wsteps w)) = Ok ()"
    using validate_canonical_OkD(13) [OF frame_plan(1) [OF fr], of "length (wsteps w) - 1"] frame_plan(2) [OF fr] by (simp add: last_conv_nth)
  then show ?thesis by (simp add: validate_step_def gate_expectation_validate_def split: if_splits)
qed

lemma gate_recorded:
  assumes inv: "wf_inv C s" and cur: "current_at s (wkey w) w" and st: "wi_state w = InReview" and e: "wi_terminal_evidence w = Some e"
    and g: "gate_in C s w e g ''pending'' None (pg_created_at g)"
    and a: "works_for C a now w" "pg_authority_digest g = authority_digest C a" "pg_created_at g \<le> now" and v: "in_column (saturating_add (wi_version w) 1)"
  defines "w' \<equiv> w\<lparr>wi_gate_evidence := Some (passing_evidence g now), wi_state := Done, wi_version := saturating_add (wi_version w) 1, wi_updated_at := now\<rparr>"
  shows "\<exists>s'. reconcile_gate_evidence C None (organization_of a) (passing (passing_evidence g now)) g now s = (Ok w', s') \<and> written w' s s'"
proof -
  let ?ge = "passing_evidence g now"
  have w: "w \<in> versions s" using cur by (simp add: versions_def)
  have fr: "frame_ok C w" using version_frame [OF inv w] by simp
  have row: "om_get (ws_gate s) (pg_request_id g) = Some (grow (wkey w) g ''pending'' None (pg_created_at g))" and go: "gate_of C w e g" using g by (simp_all add: gate_in_def)
  from open_gate [OF inv row] obtain u where u: "gate_work_item C s g = Ok (u, False)" "u \<in> versions s" "wid u = (wkey w, pg_plan_id g)" .
  have "wid u = wid w" using u(3) go by (simp add: wid_def gate_of_def)
  with version_unique [OF wf_invD(2,3) [OF inv] u(2) w] u(1) have gw: "gate_work_item C s g = Ok (w, False)" by simp
  then have rd: "read_work_item_by_plan C s (pg_plan_id g) = Ok (Some w)" "validate_gate_request C s w g = Ok False"
    by (auto simp: gate_work_item_def)
  have au: "authority_validate a = Ok ()" "authority_matches (wi_plan w) a" "wi_updated_at w \<le> now" "in_column now" "\<not> ep_deadline (wi_plan w) < now"
    using a(1) by (auto simp: works_for_def)
  have profile: "gx_profile_id (pg_expectation g) = WORK_ITEM_GATE_PROFILE" using gate_profile [OF fr] go by (simp add: gate_of_def)
  have obs: "observe_gate C (organization_of a) (passing ?ge) w g now = Ok (Some ?ge, a)"
    using pre_io_ok [OF a(1,3)] authority_after_ok [OF a(1,3)] a(3) profile au(5) receipt_identifier
    by (simp add: observe_gate_def a(2) organization_of_def passing_def gate_receipt_check_def passing_evidence_def gate_evidence_new_def not_less)
  have ev: "validate_gate_evidence g ?ge now (ep_deadline (wi_plan w)) = Ok ()"
    using a(3) profile au(5) by (simp add: validate_gate_evidence_def passing_evidence_def gate_evidence_new_def not_less)
  let ?s1 = "s\<lparr>ws_gate := om_insert (pg_request_id g) (grow (wkey w) g ''completed'' (Some ?ge) now) (ws_gate s)\<rparr>"
  have s1: "close_gate_row g ''completed'' (Some (Json ?ge)) now s = Ok ?s1" using au(4) row by (simp add: close_gate_row_def grow_def)
  have s2: "put_work_item C w' ?s1 = Ok (?s1\<lparr>ws_items := om_insert (wkey w') \<lparr>ir_version = uint (wi_version w'), ir_payload = Json w'\<rparr> (ws_items s)\<rparr>)" (is "_ = Ok ?s2")
    by (rule put_ok [OF inv _ cur]) (use v in \<open>simp_all add: w'_def wkey_def\<close>)
  from audit_ok [OF au(4)] obtain l where l: "append_audit w' ''independent_work_item_gate_recorded'' (Some InReview) Done (authority_digest C a)
         (ge_subject_digest ?ge) now ?s2 = Ok (?s2\<lparr>ws_audit := l\<rparr>)" by blast
  have "ge_passed ?ge" by (simp add: passing_evidence_def gate_evidence_new_def)
  then have "record_gate_passed C w g ?ge a now s = Ok (?s2\<lparr>ws_audit := l\<rparr>, w')"
    using s1 s2 l st e by (simp add: record_gate_passed_def w'_def [symmetric])
  then have "record_gate_tx C g ?ge a now s = Ok (?s2\<lparr>ws_audit := l\<rparr>, w')"
    using rd au a(2,3) ev row by (simp add: record_gate_tx_def validate_monotonic_time_def not_less)
  moreover have "op_readiness (organization_of a) = Ready" "gp_readiness (passing ?ge) = Ready" by (simp_all add: organization_of_def passing_def)
  ultimately show ?thesis
    using obs gw au(1) by (simp add: reconcile_gate_evidence_def then_store_def require_ready_def record_gate_evidence_def wf_transact_def written_def)
qed

section \<open>Stages of a work item\<close>

definition completion_id :: "wf_codec \<Rightarrow> work_item_execution \<Rightarrow> nat \<Rightarrow> string" where
  "completion_id C w j = completion_request_identity C (ep_plan_id (wi_plan w)) (es_step_id (wsteps w ! j)) (es_invocation_id (wsteps w ! j))
     (ep_request_digest (wi_plan w))"

definition gate_id :: "wf_codec \<Rightarrow> work_item_execution \<Rightarrow> string \<Rightarrow> string" where
  "gate_id C w receipt = gate_request_identity C (ep_plan_id (wi_plan w)) (ep_request_digest (wi_plan w)) receipt"

text \<open>
  The identities the work item still needs are its own: no other request has the identity of one of
  its requests, the invocations to come are unused, and no other work item has a gate under its plan.
\<close>

definition identities_free :: "wf_codec \<Rightarrow> workflow_store \<Rightarrow> work_item_execution \<Rightarrow> bool" where
  "identities_free C s w \<longleftrightarrow> inj_on (completion_id C w) {..<length (wsteps w)}
     \<and> (\<forall>j row. j < length (wsteps w) \<longrightarrow> om_get (ws_completion s) (completion_id C w j) = Some row \<longrightarrow> kr_invocation_id row = es_invocation_id (wsteps w ! j))
     \<and> (\<forall>j. wnext w < j \<longrightarrow> j < length (wsteps w) \<longrightarrow> om_get (ws_execution s) (es_invocation_id (wsteps w ! j)) = None)
     \<and> (\<forall>receipt row. om_get (ws_gate s) (gate_id C w receipt) = Some row \<longrightarrow> gr_plan_id row = ep_plan_id (wi_plan w))
     \<and> (wi_terminal_evidence w = None \<longrightarrow> gate_row_of_plan s (ep_plan_id (wi_plan w)) = None)"

definition versions_left :: "work_item_execution \<Rightarrow> bool" where
  "versions_left w \<longleftrightarrow> unat (wi_version w) + 2 * (length (wsteps w) - wnext w) + 2 < 2 ^ 63"

definition ready :: "wf_codec \<Rightarrow> execution_plan set \<Rightarrow> runtime_authority \<Rightarrow> u64 \<Rightarrow> workflow_store \<Rightarrow> work_item_execution \<Rightarrow> bool" where
  "ready C P a now s w \<longleftrightarrow> sys_inv C P (s, {}) \<and> current_at s (wkey w) w \<and> works_for C a now w \<and> identities_free C s w"

definition awaiting :: "wf_codec \<Rightarrow> runtime_authority \<Rightarrow> u64 \<Rightarrow> workflow_store \<Rightarrow> work_item_execution \<Rightarrow> bool" where
  "awaiting C a now s w \<longleftrightarrow> (\<exists>q. exec_in s w (wnext w) q \<and> request_state_fits w (px_state q) \<and> px_authority_digest q = authority_digest C a
     \<and> px_updated_at q \<le> now)"

definition executed :: "wf_codec \<Rightarrow> runtime_authority \<Rightarrow> u64 \<Rightarrow> workflow_store \<Rightarrow> work_item_execution \<Rightarrow> bool" where
  "executed C a now s w \<longleftrightarrow> wi_state w \<in> {Claimed, InProgress} \<and> (\<exists>q c. exec_in s w (wnext w) q \<and> px_state q = Succeeded
     \<and> compl_in C s w (wnext w) q c None (pc_created_at c) \<and> pc_authority_digest c = authority_digest C a \<and> pc_created_at c \<le> now)"

definition reviewed :: "wf_codec \<Rightarrow> runtime_authority \<Rightarrow> u64 \<Rightarrow> workflow_store \<Rightarrow> work_item_execution \<Rightarrow> bool" where
  "reviewed C a now s w \<longleftrightarrow> wi_state w = InReview \<and> (\<exists>e g. wi_terminal_evidence w = Some e \<and> gate_in C s w e g ''pending'' None (pg_created_at g)
     \<and> pg_authority_digest g = authority_digest C a \<and> pg_created_at g \<le> now)"

lemma version_step:
  assumes "unat v + k < 2 ^ 63" and "0 < k"
  shows "in_column (saturating_add v 1)" and "unat (saturating_add (v :: u64) 1) = unat v + 1"
proof -
  show u: "unat (saturating_add v 1) = unat v + 1" using assms by (simp add: unat_saturating_add)
  have "uint (saturating_add v 1) = int (unat v + 1)" unfolding u [symmetric] by simp
  moreover have "unat v + 1 < 2 ^ 63" using assms by simp
  ultimately show "in_column (saturating_add v 1)" unfolding in_column_def by (metis of_nat_less_iff of_nat_numeral of_nat_power)
qed

lemma runs_inv:
  assumes "runs_to C P s s'" and "sys_inv C P (s, {})" and "digests_bind C P"
  shows "sys_inv C P (s', {})"
proof -
  from assms(1) obtain calls where "(wf_step C P)\<^sup>*\<^sup>* (s, {}) (s', calls)" unfolding runs_to_def by blast
  from steps_inv [OF this assms(2,3)] show ?thesis by (simp add: sys_inv_def)
qed

lemma works_for_later: "works_for C a now w \<Longrightarrow> wi_plan w' = wi_plan w \<Longrightarrow> wi_updated_at w' = now \<Longrightarrow> works_for C a now w'"
  by (simp add: works_for_def)

lemma ids_plan: "wi_plan w' = wi_plan w \<Longrightarrow> completion_id C w' = completion_id C w" "wi_plan w' = wi_plan w \<Longrightarrow> gate_id C w' = gate_id C w"
  by (simp_all add: completion_id_def gate_id_def fun_eq_iff)

text \<open>The identities stay free while the work item uses up its own.\<close>

lemma identities_free_step:
  assumes free: "identities_free C s w" and w': "wi_plan w' = wi_plan w" "wnext w \<le> wnext w'" "wi_terminal_evidence w' = None \<longrightarrow> wi_terminal_evidence w = None"
    and n: "wnext w < length (wsteps w)"
    and k: "\<And>r row. om_get (ws_completion s') r = Some row \<Longrightarrow> om_get (ws_completion s) r = Some row
      \<or> r = completion_id C w (wnext w) \<and> kr_invocation_id row = es_invocation_id (wsteps w ! wnext w)"
    and x: "\<And>j. wnext w' < j \<Longrightarrow> j < length (wsteps w) \<Longrightarrow> om_get (ws_execution s) (es_invocation_id (wsteps w ! j)) = None
      \<Longrightarrow> om_get (ws_execution s') (es_invocation_id (wsteps w ! j)) = None"
    and g: "ws_gate s' = ws_gate s"
  shows "identities_free C s' w'"
proof -
  have inj: "inj_on (completion_id C w) {..<length (wsteps w)}"
    and kf: "\<And>j row. j < length (wsteps w) \<Longrightarrow> om_get (ws_completion s) (completion_id C w j) = Some row \<Longrightarrow> kr_invocation_id row = es_invocation_id (wsteps w ! j)"
    and xf: "\<And>j. wnext w < j \<Longrightarrow> j < length (wsteps w) \<Longrightarrow> om_get (ws_execution s) (es_invocation_id (wsteps w ! j)) = None"
    and gf: "\<forall>receipt row. om_get (ws_gate s) (gate_id C w receipt) = Some row \<longrightarrow> gr_plan_id row = ep_plan_id (wi_plan w)"
      "wi_terminal_evidence w = None \<longrightarrow> gate_row_of_plan s (ep_plan_id (wi_plan w)) = None"
    using free unfolding identities_free_def by blast+
  have "kr_invocation_id row = es_invocation_id (wsteps w ! j)"
    if "j < length (wsteps w)" "om_get (ws_completion s') (completion_id C w j) = Some row" for j row
    using k [OF that(2)] kf [OF that(1)] inj_onD [OF inj, of j "wnext w"] that(1) n by auto
  moreover have "om_get (ws_execution s') (es_invocation_id (wsteps w ! j)) = None" if "wnext w' < j" "j < length (wsteps w)" for j
    using x [OF that] xf [of j] that w'(2) by simp
  moreover have "gate_row_of_plan s' = gate_row_of_plan s" by (simp add: fun_eq_iff gate_row_of_plan_def g)
  ultimately show ?thesis
    unfolding identities_free_def ids_plan [OF w'(1)] w'(1) g using inj gf w'(3) by auto
qed

lemma readyD:
  assumes "ready C P a now s w"
  shows "wf_inv C s" and "w \<in> versions s" and "current_at s (wkey w) w" and "works_for C a now w" and "identities_free C s w"
    and "wnext w < length (wsteps w)" and "om_wf (ws_execution s)" and "om_wf (ws_completion s)" and "om_wf (ws_gate s)" and "in_column now"
    and "ep_created_at (wi_plan w) \<le> now" and "sys_inv C P (s, {})"
proof -
  show inv: "wf_inv C s" and cur: "current_at s (wkey w) w" and wf: "works_for C a now w" and "identities_free C s w" and "sys_inv C P (s, {})"
    using assms by (simp_all add: ready_def sys_inv_def)
  show w: "w \<in> versions s" using cur by (simp add: versions_def)
  show "wnext w < length (wsteps w)" "ep_created_at (wi_plan w) \<le> now" using version_frame [OF inv w] wf by (auto simp: frame_ok_def works_for_def)
  show "om_wf (ws_execution s)" "om_wf (ws_completion s)" "om_wf (ws_gate s)" using wf_invD(1) [OF inv] by (simp_all add: tables_wf_def)
  show "in_column now" using wf by (simp add: works_for_def)
qed

definition same_plan :: "work_item_execution \<Rightarrow> work_item_execution \<Rightarrow> bool" where
  "same_plan w w' \<longleftrightarrow> wkey w' = wkey w \<and> wi_plan w' = wi_plan w"

lemma same_plan_trans: "same_plan w w' \<Longrightarrow> same_plan w' w'' \<Longrightarrow> same_plan w w''"
  by (simp add: same_plan_def)

lemma stage_execute:
  assumes r: "ready C P a now s w" and aw: "awaiting C a now s w" and v: "unat (wi_version w) + 1 < 2 ^ 63" and bind: "digests_bind C P"
  shows "\<exists>s' w'. runs_to C P s s' \<and> ready C P a now s' w' \<and> executed C a now s' w' \<and> same_plan w w' \<and> wnext w' = wnext w
    \<and> unat (wi_version w') = unat (wi_version w) + 1"
proof -
  note R = readyD [OF r]
  from aw obtain q where q: "exec_in s w (wnext w) q" "request_state_fits w (px_state q)" "px_authority_digest q = authority_digest C a" "px_updated_at q \<le> now"
    by (auto simp: awaiting_def)
  have st: "wi_state w \<in> {Claimed, InProgress}" using q(2) by (auto simp: request_state_fits_def)
  have step: "px_step q = wsteps w ! wnext w" "om_get (ws_execution s) (es_invocation_id (px_step q)) = Some (xrow (wkey w) q)" using q(1) by (simp_all add: exec_in_def)
  let ?c = "build_completion_request C w q a now" and ?q = "observed_request q Succeeded now"
  let ?w = "w\<lparr>wi_version := saturating_add (wi_version w) 1, wi_updated_at := now, wi_blocker_code := None\<rparr>"
  have cid: "pc_request_id ?c = completion_id C w (wnext w)" "pc_invocation_id ?c = es_invocation_id (wsteps w ! wnext w)"
    by (simp_all add: build_completion_request_def completion_id_def Let_def step(1))
  have "om_get (ws_completion s) (pc_request_id ?c) = None"
  proof (rule ccontr)
    assume "om_get (ws_completion s) (pc_request_id ?c) \<noteq> None"
    then obtain row where row: "om_get (ws_completion s) (completion_id C w (wnext w)) = Some row" by (auto simp: cid(1))
    with R(5,6) have "kr_invocation_id row = es_invocation_id (px_step q)" by (simp add: identities_free_def step(1))
    moreover have "px_state q \<noteq> Succeeded" using q(2) by (auto simp: request_state_fits_def)
    moreover have "row \<in> set (om_values (ws_completion s))" using om_values_set [OF R(8)] row by blast
    ultimately show False using no_completion_row [OF R(1) step(2)] by (auto simp: completion_row_of_invocation_def find_None_iff)
  qed
  from execution_recorded [OF R(1,3) q(1,2) R(4) q(3,4) version_step(1) [OF v] this] obtain s' where s':
    "reconcile_execution C None (organization_of a) succeeding q now s = (Ok ?w, s')" "written ?w s s'"
    "ws_execution s' = om_insert (es_invocation_id (px_step q)) (xrow (wkey w) ?q) (ws_execution s)"
    "ws_completion s' = om_insert (pc_request_id ?c) (krow (wkey w) ?c None now) (ws_completion s)" "ws_gate s' = ws_gate s" by auto
  have run: "runs_to C P s s'" using reconcile_runs(1) [of C P s None "organization_of a" succeeding q now] s'(1) by simp
  have key: "wkey ?w = wkey w" by (simp add: wkey_def)
  have ge: "om_get (ws_execution s') i = (if i = es_invocation_id (px_step q) then Some (xrow (wkey w) ?q) else om_get (ws_execution s) i)" for i
    using R(7) by (simp add: s'(3))
  have gc: "om_get (ws_completion s') i = (if i = pc_request_id ?c then Some (krow (wkey w) ?c None now) else om_get (ws_completion s) i)" for i
    using R(8) by (simp add: s'(4))
  have "inj_on (\<lambda>j. es_invocation_id (wsteps w ! j)) {..<length (wsteps w)}"
    using frame_plan(5) version_frame [OF R(1,2)] by (auto simp: inj_on_def distinct_conv_nth)
  then have other: "es_invocation_id (wsteps w ! j) \<noteq> es_invocation_id (wsteps w ! wnext w)" if "wnext w < j" "j < length (wsteps w)" for j
    using that R(6) by (auto dest: inj_onD)
  have "identities_free C s' ?w"
    by (rule identities_free_step [OF R(5)]) (use R(6) other in \<open>auto simp: gc ge cid step(1) s'(5) split: if_splits\<close>)
  then have "ready C P a now s' ?w"
    using runs_inv [OF run R(12) bind] written_current [OF R(1) s'(2)] works_for_later [OF R(4)] by (simp add: ready_def)
  moreover have ex: "exec_in s' ?w (wnext ?w) ?q" using q(1,4) by (auto simp: exec_in_def ge key observed_request_def intro: order_trans)
  moreover have co: "compl_in C s' ?w (wnext ?w) ?q ?c None (pc_created_at ?c)"
    using build_completion_of [OF step(1) q(3) R(11)] by (simp add: compl_in_def gc key completion_of_def observed_request_def)
  moreover have "pc_authority_digest ?c = authority_digest C a" "pc_created_at ?c \<le> now" by (simp_all add: build_completion_request_def Let_def)
  moreover have "px_state ?q = Succeeded" "wi_state ?w \<in> {Claimed, InProgress}" using st by (simp_all add: observed_request_def)
  ultimately have "executed C a now s' ?w" unfolding executed_def by blast
  with run \<open>ready C P a now s' ?w\<close> key version_step(2) [OF v] show ?thesis by (intro exI [of _ s'] exI [of _ ?w]) (simp add: same_plan_def)
qed

lemma other_invocation:
  assumes "frame_ok C w" and "j < length (wsteps w)" and "k < length (wsteps w)" and "j \<noteq> k"
  shows "es_invocation_id (wsteps w ! j) \<noteq> es_invocation_id (wsteps w ! k)"
  using frame_plan(5) [OF assms(1)] assms(2-4) by (auto simp: distinct_conv_nth)

lemma stage_next:
  assumes r: "ready C P a now s w" and ex: "executed C a now s w" and v: "unat (wi_version w) + 1 < 2 ^ 63" and bind: "digests_bind C P" and sha: "sha_is_256 C"
    and n: "wnext w + 1 < length (wsteps w)"
  shows "\<exists>s' w'. runs_to C P s s' \<and> ready C P a now s' w' \<and> awaiting C a now s' w' \<and> same_plan w w' \<and> wnext w' = wnext w + 1
    \<and> unat (wi_version w') = unat (wi_version w) + 1"
proof -
  note R = readyD [OF r]
  have fr: "frame_ok C w" using version_frame [OF R(1,2)] by simp
  from ex obtain q c where x: "exec_in s w (wnext w) q" "px_state q = Succeeded" and c: "compl_in C s w (wnext w) q c None (pc_created_at c)"
    and b: "pc_authority_digest c = authority_digest C a" "pc_created_at c \<le> now" and st: "wi_state w = Claimed \<or> wi_state w = InProgress"
    by (auto simp: executed_def)
  define e where "e = sealed_evidence C (wsteps w ! wnext w) c now"
  let ?w = "w\<lparr>wi_next_step_ordinal := saturating_add (wi_next_step_ordinal w) 1, wi_state := InProgress,
      wi_version := saturating_add (wi_version w) 1, wi_updated_at := now\<rparr>"
  let ?q = "first_pending C (wi_plan w) (wsteps w ! (wnext w + 1)) (authority_digest C a) now"
  have free: "om_get (ws_execution s) (es_invocation_id (wsteps w ! (wnext w + 1))) = None" using R(5) n by (simp add: identities_free_def)
  from next_recorded [OF R(1,3) c R(10) version_step(1) [OF v] n free] obtain s' where s': "record_completed C w c e a now s = Ok (s', ?w)" "written ?w s s'"
    "ws_execution s' = om_insert (es_invocation_id (wsteps w ! (wnext w + 1))) (xrow (wkey w) ?q) (ws_execution s)"
    "ws_completion s' = om_insert (pc_request_id c) (krow (wkey w) c (Some e) now) (ws_completion s)" "ws_gate s' = ws_gate s" by auto
  have run: "runs_to C P s s'" using reconcile_runs(2) [of C P s None "organization_of a" "delivering e" c now]
    completion_reaches [OF R(1,2) x c st R(4) b sha e_def s'(1)] by simp
  have key: "wkey ?w = wkey w" by (simp add: wkey_def)
  have len: "length (wsteps w) \<le> 32" by (rule frame_plan(6) [OF fr])
  have nx: "wnext ?w = wnext w + 1" using n len by (simp add: unat_saturating_add)
  have cid: "pc_request_id c = completion_id C w (wnext w)" "pc_invocation_id c = es_invocation_id (wsteps w ! wnext w)"
    using c by (simp_all add: compl_in_def completion_of_def completion_id_def)
  have ge: "om_get (ws_execution s') i = (if i = es_invocation_id (wsteps w ! (wnext w + 1)) then Some (xrow (wkey w) ?q) else om_get (ws_execution s) i)" for i
    using R(7) by (simp add: s'(3))
  have gc: "om_get (ws_completion s') i = (if i = pc_request_id c then Some (krow (wkey w) c (Some e) now) else om_get (ws_completion s) i)" for i
    using R(8) by (simp add: s'(4))
  have "identities_free C s' ?w"
    by (rule identities_free_step [OF R(5)])
      (use R(6) nx other_invocation [OF fr _ n] in \<open>auto simp: gc ge cid s'(5) split: if_splits\<close>)
  then have rd: "ready C P a now s' ?w"
    using runs_inv [OF run R(12) bind] written_current [OF R(1) s'(2)] works_for_later [OF R(4)] by (simp add: ready_def)
  have "exec_in s' ?w (wnext ?w) ?q" unfolding nx by (simp add: exec_in_def ge key first_pending_def)
  then have "awaiting C a now s' ?w" unfolding awaiting_def by (intro exI [of _ ?q]) (simp add: first_pending_def request_state_fits_def)
  with run rd key nx version_step(2) [OF v] show ?thesis by (intro exI [of _ s'] exI [of _ ?w]) (simp add: same_plan_def)
qed

lemma stage_review:
  assumes r: "ready C P a now s w" and ex: "executed C a now s w" and v: "unat (wi_version w) + 1 < 2 ^ 63" and bind: "digests_bind C P" and sha: "sha_is_256 C"
    and n: "\<not> wnext w + 1 < length (wsteps w)"
  shows "\<exists>s' w'. runs_to C P s s' \<and> sys_inv C P (s', {}) \<and> current_at s' (wkey w') w' \<and> works_for C a now w' \<and> reviewed C a now s' w' \<and> same_plan w w'
    \<and> unat (wi_version w') = unat (wi_version w) + 1"
proof -
  note R = readyD [OF r]
  from ex obtain q c where x: "exec_in s w (wnext w) q" "px_state q = Succeeded" and c: "compl_in C s w (wnext w) q c None (pc_created_at c)"
    and b: "pc_authority_digest c = authority_digest C a" "pc_created_at c \<le> now" and st: "wi_state w = Claimed \<or> wi_state w = InProgress"
    by (auto simp: executed_def)
  define e where "e = sealed_evidence C (wsteps w ! wnext w) c now"
  have ee: "ee_completed_at e \<le> now" by (simp add: e_def)
  have none: "wi_terminal_evidence w = None" using version_frame [OF R(1,2)] st by auto
  have gp: "gate_row_of_plan s (ep_plan_id (wi_plan w)) = None" using R(5) none by (simp add: identities_free_def)
  have "om_get (ws_gate s) (gate_id C w r) = None" for r
  proof (rule ccontr)
    assume "om_get (ws_gate s) (gate_id C w r) \<noteq> None"
    then obtain row where row: "om_get (ws_gate s) (gate_id C w r) = Some row" by blast
    with R(5) have "gr_plan_id row = ep_plan_id (wi_plan w)" by (auto simp: identities_free_def)
    with gate_row_of_plan(2) [OF R(9) wf_invD(6) [OF R(1)]] gp row show False by blast
  qed
  then have gi: "om_get (ws_gate s) (gate_request_identity C (ep_plan_id (wi_plan w)) (ep_request_digest (wi_plan w)) (ee_receipt_id e)) = None" by (simp add: gate_id_def)
  let ?w = "w\<lparr>wi_terminal_evidence := Some e, wi_state := InReview, wi_version := saturating_add (wi_version w) 1, wi_updated_at := now\<rparr>"
  from review_recorded [OF R(1,3) c R(10) version_step(1) [OF v] n ee gp gi, of a] obtain s' g where s': "record_completed C w c e a now s = Ok (s', ?w)" "written ?w s s'"
    "ws_gate s' = om_insert (pg_request_id g) (grow (wkey w) g ''pending'' None now) (ws_gate s)"
    and g: "gate_of C ?w e g" "pg_created_at g = now" "pg_authority_digest g = authority_digest C a" by auto
  have run: "runs_to C P s s'" using reconcile_runs(2) [of C P s None "organization_of a" "delivering e" c now]
    completion_reaches [OF R(1,2) x c st R(4) b sha e_def s'(1)] by simp
  have key: "wkey ?w = wkey w" by (simp add: wkey_def)
  have "gate_in C s' ?w e g ''pending'' None (pg_created_at g)" using g R(9) by (simp add: gate_in_def s'(3) key)
  then have "reviewed C a now s' ?w" unfolding reviewed_def using g by auto
  with run runs_inv [OF run R(12) bind] written_current [OF R(1) s'(2)] works_for_later [OF R(4)] key version_step(2) [OF v]
  show ?thesis by (intro exI [of _ s'] exI [of _ ?w]) (simp add: same_plan_def)
qed

lemma stage_gate:
  assumes inv: "sys_inv C P (s, {})" and cur: "current_at s (wkey w) w" and a: "works_for C a now w" and rv: "reviewed C a now s w" and v: "unat (wi_version w) + 1 < 2 ^ 63"
  shows "\<exists>s' w'. runs_to C P s s' \<and> current_at s' (wkey w') w' \<and> wi_state w' = Done \<and> same_plan w w'"
proof -
  have wf: "wf_inv C s" using inv by (simp add: sys_inv_def)
  from rv obtain e g where g: "wi_state w = InReview" "wi_terminal_evidence w = Some e" "gate_in C s w e g ''pending'' None (pg_created_at g)"
    "pg_authority_digest g = authority_digest C a" "pg_created_at g \<le> now" by (auto simp: reviewed_def)
  let ?w = "w\<lparr>wi_gate_evidence := Some (passing_evidence g now), wi_state := Done, wi_version := saturating_add (wi_version w) 1, wi_updated_at := now\<rparr>"
  from gate_recorded [OF wf cur g(1-3) a g(4,5) version_step(1) [OF v]] obtain s' where
    s': "reconcile_gate_evidence C None (organization_of a) (passing (passing_evidence g now)) g now s = (Ok ?w, s')" "written ?w s s'" by auto
  have "runs_to C P s s'" using reconcile_runs(3) [of C P s None "organization_of a" "passing (passing_evidence g now)" g now] s'(1) by simp
  with written_current [OF wf s'(2)] show ?thesis by (intro exI [of _ s'] exI [of _ ?w]) (simp add: same_plan_def wkey_def)
qed

section \<open>To the end\<close>

definition finishes :: "wf_codec \<Rightarrow> execution_plan set \<Rightarrow> workflow_store \<Rightarrow> work_item_execution \<Rightarrow> bool" where
  "finishes C P s w \<longleftrightarrow> (\<exists>s' w'. runs_to C P s s' \<and> current_at s' (wkey w') w' \<and> wi_state w' = Done \<and> same_plan w w')"

lemma finishes_run: "runs_to C P s s' \<Longrightarrow> same_plan w w' \<Longrightarrow> finishes C P s' w' \<Longrightarrow> finishes C P s w"
  unfolding finishes_def using runs_to_trans same_plan_trans by meson

lemma executed_finishes:
  assumes bind: "digests_bind C P" and sha: "sha_is_256 C"
  shows "ready C P a now s w \<Longrightarrow> executed C a now s w \<Longrightarrow> unat (wi_version w) + 2 * (length (wsteps w) - wnext w) < 2 ^ 63 \<Longrightarrow> finishes C P s w"
proof (induction "length (wsteps w) - wnext w" arbitrary: s w rule: less_induct)
  case less
  note R = readyD [OF less.prems(1)]
  have v: "unat (wi_version w) + 1 < 2 ^ 63" using less.prems(3) R(6) by simp
  show ?case
  proof (cases "wnext w + 1 < length (wsteps w)")
    case True
    from stage_next [OF less.prems(1,2) v bind sha True] obtain s1 w1 where w1: "runs_to C P s s1" "ready C P a now s1 w1" "awaiting C a now s1 w1"
      "same_plan w w1" "wnext w1 = wnext w + 1" "unat (wi_version w1) = unat (wi_version w) + 1" by blast
    have v1: "unat (wi_version w1) + 1 < 2 ^ 63" using less.prems(3) w1(6) True by simp
    from stage_execute [OF w1(2,3) v1 bind] obtain s2 w2 where w2: "runs_to C P s1 s2" "ready C P a now s2 w2" "executed C a now s2 w2"
      "same_plan w1 w2" "wnext w2 = wnext w1" "unat (wi_version w2) = unat (wi_version w1) + 1" by blast
    have plan: "wsteps w2 = wsteps w" using w1(4) w2(4) by (simp add: same_plan_def)
    have "unat (wi_version w2) + 2 * (length (wsteps w2) - wnext w2) < 2 ^ 63" using less.prems(3) True w1(5,6) w2(5,6) plan by simp
    moreover have "length (wsteps w2) - wnext w2 < length (wsteps w) - wnext w" using True w1(5) w2(5) plan by simp
    ultimately have "finishes C P s2 w2" by (rule less.hyps [OF _ w2(2,3), rotated])
    then show ?thesis using finishes_run [OF w1(1,4)] finishes_run [OF w2(1,4)] by blast
  next
    case False
    from stage_review [OF less.prems(1,2) v bind sha False] obtain s1 w1 where w1: "runs_to C P s s1" "sys_inv C P (s1, {})" "current_at s1 (wkey w1) w1"
      "works_for C a now w1" "reviewed C a now s1 w1" "same_plan w w1" "unat (wi_version w1) = unat (wi_version w) + 1" by blast
    have v1: "unat (wi_version w1) + 1 < 2 ^ 63" using less.prems(3) w1(7) R(6) by simp
    from stage_gate [OF w1(2-5) v1] have "finishes C P s1 w1" unfolding finishes_def by blast
    then show ?thesis using finishes_run [OF w1(1,6)] by blast
  qed
qed

text \<open>The requests of the current step and of the gate were issued under the authority \<open>a\<close>, not after \<open>now\<close>.\<close>

definition issued_under :: "wf_codec \<Rightarrow> runtime_authority \<Rightarrow> u64 \<Rightarrow> workflow_store \<Rightarrow> work_item_execution \<Rightarrow> bool" where
  "issued_under C a now s w \<longleftrightarrow>
     (\<forall>q. exec_in s w (wnext w) q \<longrightarrow> px_authority_digest q = authority_digest C a \<and> px_updated_at q \<le> now)
     \<and> (\<forall>q c ev t. compl_in C s w (wnext w) q c ev t \<longrightarrow> pc_created_at c \<le> now)
     \<and> (\<forall>e g st ev t. gate_in C s w e g st ev t \<longrightarrow> pg_authority_digest g = authority_digest C a \<and> pg_created_at g \<le> now)"

lemma open_work_item_finishes:
  assumes inv: "sys_inv C P (s, {})" and bind: "digests_bind C P" and sha: "sha_is_256 C" and cur: "current_at s (wkey w) w" and st: "wi_state w \<in> {Claimed, InProgress, InReview}"
    and a: "works_for C a now w" "issued_under C a now s w" and free: "identities_free C s w" "versions_left w"
  shows "finishes C P s w"
proof -
  have wf: "wf_inv C s" using inv by (simp add: sys_inv_def)
  have w: "w \<in> versions s" using cur by (simp add: versions_def)
  have sc: "state_coherent C s w (wi_state w)" using wf_invD(7) [OF wf w] by (simp add: coherent_def)
  have r: "ready C P a now s w" using inv cur a(1) free(1) by (simp add: ready_def)
  have v: "unat (wi_version w) + 1 < 2 ^ 63" using free(2) by (simp add: versions_left_def)
  show ?thesis
  proof (cases "wi_state w = InReview")
    case True
    with sc a(2) have "reviewed C a now s w" unfolding reviewed_def issued_under_def by fastforce
    from stage_gate [OF inv cur a(1) this v] show ?thesis unfolding finishes_def .
  next
    case False
    with st have run: "wi_state w \<in> {Claimed, InProgress}" by simp
    then have "running C s w" using sc by auto
    then obtain q where q: "exec_in s w (wnext w) q" "request_state_fits w (px_state q) \<or> px_state q = Succeeded \<and> (\<exists>c. compl_in C s w (wnext w) q c None (pc_created_at c))"
      by (auto simp: running_def)
    have au: "px_authority_digest q = authority_digest C a" "px_updated_at q \<le> now" using a(2) q(1) by (auto simp: issued_under_def)
    from q(2) show ?thesis
    proof (elim disjE conjE exE)
      assume "request_state_fits w (px_state q)"
      then have "awaiting C a now s w" unfolding awaiting_def using q(1) au by blast
      from stage_execute [OF r this v bind] obtain s1 w1 where w1: "runs_to C P s s1" "ready C P a now s1 w1" "executed C a now s1 w1"
        "same_plan w w1" "wnext w1 = wnext w" "unat (wi_version w1) = unat (wi_version w) + 1" by blast
      have "unat (wi_version w1) + 2 * (length (wsteps w1) - wnext w1) < 2 ^ 63" using free(2) w1(4-6) by (simp add: versions_left_def same_plan_def)
      from executed_finishes [OF bind sha w1(2,3) this] have "finishes C P s1 w1" .
      then show ?thesis using finishes_run [OF w1(1,4)] by blast
    next
      fix c assume c: "px_state q = Succeeded" "compl_in C s w (wnext w) q c None (pc_created_at c)"
      have "pc_authority_digest c = authority_digest C a" using c(2) au(1) by (simp add: compl_in_def completion_of_def)
      moreover have "pc_created_at c \<le> now" using a(2) c(2) unfolding issued_under_def by blast
      ultimately have "executed C a now s w" unfolding executed_def using run q(1) c by blast
      from executed_finishes [OF bind sha r this] free(2) show ?thesis by (simp add: versions_left_def)
    qed
  qed
qed

end
