(* ===== verification/Workflow_Example.thy ===== *)
theory Workflow_Example
  imports Workflow_Progress
begin

text \<open>
  A plan of two steps, admitted into an empty store and carried to the end by the reconcilers.  The codec keeps the last byte of what it hashes, and serializes of each value what
  tells the two steps apart.
\<close>

definition exw_codec :: wf_codec where
  "exw_codec = \<lparr>wc_sha = (\<lambda>b. replicate 31 0 @ [last b]),
     wc_json = (\<lambda>v. case v of CanonCompletionId pid sid iid d \<Rightarrow> [ucast sid] | _ \<Rightarrow> [0])\<rparr>"

definition exw_principal :: principal_authority where
  "exw_principal = \<lparr>pa_schema_version = 1, pa_principal_id = ''owner'', pa_principal_generation = 1, pa_authority_digest = ex_digest\<rparr>"

definition exw_plan :: execution_plan where
  "exw_plan = \<lparr>ep_schema_version = 1, ep_plan_id = 7, ep_tenant_id = ''tenant'', ep_project_id = ''project'', ep_work_item_id = ''work'',
     ep_agent_id = AgentId 1, ep_workspace_id = ''project:work'', ep_assignment_version = 1, ep_assignment_digest = ex_digest,
     ep_organization_generation = 1, ep_organization_digest = ex_digest, ep_principal = exw_principal, ep_profile_id = ''profile'',
     ep_profile_generation = 1, ep_profile_digest = ex_digest, ep_runtime_key = ''runtime'', ep_runtime_generation = 1,
     ep_runtime_digest = ex_digest, ep_policy_generation = 1, ep_policy_digest = ex_digest, ep_created_at = 1, ep_deadline = 1000,
     ep_steps = [ex_step 0, ex_step 1], ep_request_digest = replicate 64 (CHR ''0'')\<rparr>"

definition exw_authority :: runtime_authority where
  "exw_authority = \<lparr>ra_schema_version = 1, ra_tenant_id = ''tenant'', ra_project_id = ''project'', ra_work_item_id = ''work'',
     ra_agent_id = AgentId 1, ra_assignment_version = 1, ra_assignment_digest = ex_digest, ra_organization_generation = 1,
     ra_organization_digest = ex_digest, ra_principal = exw_principal, ra_profile_id = ''profile'', ra_profile_generation = 1,
     ra_profile_digest = ex_digest, ra_runtime_key = ''runtime'', ra_runtime_generation = 1, ra_runtime_digest = ex_digest,
     ra_policy_generation = 1, ra_policy_digest = ex_digest, ra_active = True, ra_capabilities = {''file.write''}\<rparr>"

definition exw_organization :: organization_port where
  "exw_organization = \<lparr>op_readiness = Ready, op_before = Ok exw_authority, op_after = Ok exw_authority\<rparr>"

text \<open>The plan, its authority and its admission are accepted.\<close>

lemma exw_texts:
  "validate_domain_id ''tenant'' = Ok ()" "validate_domain_id ''project'' = Ok ()" "validate_domain_id ''work'' = Ok ()"
  "validate_identifier ''owner'' = Ok ()" "validate_identifier ''profile'' = Ok ()" "validate_identifier ''runtime'' = Ok ()"
  "validate_identifier ''file.write'' = Ok ()" "validate_workspace_binding ''project:work'' ''project'' ''work'' = Ok ()"
  by code_simp+

lemma exw_zero_valid: "validate_sha256 (replicate 64 (CHR ''0''))"
proof -
  have "is_ascii_hexdigit (CHR ''0'') \<and> \<not> is_ascii_uppercase (CHR ''0'')" by code_simp
  then show ?thesis by (simp add: validate_sha256_def list_all_iff)
qed

lemma exw_principal_valid: "principal_validate exw_principal = Ok ()"
  by (simp add: principal_validate_def exw_principal_def exw_texts validate_digest_def ex_digest_valid WORKFLOW_SCHEMA_VERSION_def)

lemma exw_plan_digest: "plan_digest exw_codec p = replicate 64 (CHR ''0'')"
proof -
  have "hex_string (replicate 31 0 @ [0]) = replicate 64 (CHR ''0'')" by code_simp
  then show ?thesis by (simp add: plan_digest_def canonical_sha256_def canonical_digest_of_def hex_sha256_def exw_codec_def)
qed

lemma exw_step_sel [simp]:
  "es_step_id (ex_step n) = 1 + ucast n" "es_invocation_id (ex_step n) = 101 + ucast n" "es_ordinal (ex_step n) = n"
  "es_workspace_id (ex_step n) = ''project:work''" "es_deadline (ex_step n) = 1000" "es_gate_expectation (ex_step n) = ex_gate"
  "es_capabilities (ex_step n) = {''file.write''}"
  by (simp_all add: ex_step_def)

lemma exw_plan_sel [simp]:
  "ep_steps exw_plan = [ex_step 0, ex_step 1]" "ep_request_digest exw_plan = replicate 64 (CHR ''0'')" "ep_plan_id exw_plan = 7"
  "ep_tenant_id exw_plan = ''tenant''" "ep_project_id exw_plan = ''project''" "ep_work_item_id exw_plan = ''work''"
  "ep_created_at exw_plan = 1" "ep_deadline exw_plan = 1000" "ep_workspace_id exw_plan = ''project:work''"
  by (simp_all add: exw_plan_def)

lemma exw_times [simp]: "\<not> (1000 :: u64) \<le> 1" "\<not> (1000 :: u64) \<le> 10" "(10 :: u64) < 1000" "(1 :: u64) \<le> 10"
  by code_simp+

lemma exw_steps_valid: "validate_steps exw_plan ex_gate {} {} 0 [ex_step 0, ex_step 1] = Ok ()"
  by (simp add: ex_step_valid)

lemma exw_plan_valid: "validate_canonical exw_codec exw_plan = Ok ()"
proof -
  have "length (wc_json exw_codec (CanonPlan exw_plan)) = 1" by (simp add: exw_codec_def)
  then show ?thesis
    using exw_steps_valid by (simp add: validate_canonical_def exw_plan_digest exw_texts MAX_PLAN_BYTES_def del: validate_steps.simps)
      (simp add: exw_plan_def EXECUTION_PLAN_SCHEMA_VERSION_def MAX_PLAN_STEPS_def exw_principal_valid exw_texts validate_digest_def
        ex_digest_valid exw_zero_valid)
qed

lemma exw_authority_valid: "authority_validate exw_authority = Ok ()"
  by (simp add: authority_validate_def exw_authority_def exw_texts exw_principal_valid validate_digest_def ex_digest_valid
      WORKFLOW_SCHEMA_VERSION_def validate_identifiers_def)

lemma exw_authority_matches: "authority_matches exw_plan exw_authority"
  by (simp add: authority_matches_def exw_plan_def exw_authority_def)

text \<open>The store after the admission.\<close>

definition exw_item :: work_item_execution where
  "exw_item = claimed_work_item exw_plan 1 10"

definition exw_admitted :: workflow_store where
  "exw_admitted = snd (core_admit_plan exw_codec None exw_organization exw_plan 10 empty_store)"

definition exw_request :: pending_execution where
  "exw_request = first_pending exw_codec exw_plan (ex_step 0) (authority_digest exw_codec exw_authority) 10"

lemma exw_in_column: "in_column 10" "in_column 1"
  by (simp_all add: in_column_def)

lemma exw_admissible: "validate_at exw_codec exw_plan 10 = Ok ()"
  by (simp add: validate_at_def exw_plan_valid linorder_not_less)

lemma exw_admission_tx:
  "\<exists>l. admit_plan_tx exw_codec exw_plan exw_authority 10 empty_store = Ok (\<lparr>
     ws_items = [(wkey exw_item, \<lparr>ir_version = 1, ir_payload = Json exw_item\<rparr>)],
     ws_operations = [((operation_namespace exw_plan, 7), \<lparr>or_request_digest = ep_request_digest exw_plan, or_response = RespWorkItem exw_item, or_created_at = 10\<rparr>)],
     ws_execution = [(101, xrow (wkey exw_item) exw_request)], ws_completion = [], ws_gate = [], ws_audit = l\<rparr>, False, exw_item)"
  by (simp add: admit_plan_tx_def read_operation_def read_work_item_def empty_store_def exw_admissible record_admission_def Let_def
      put_work_item_def write_current_work_item_def insert_execution_def append_audit_def insert_operation_def exw_item_def exw_request_def
      exw_in_column wkey_def xrow_def WORKFLOW_SCHEMA_VERSION_def)

lemma exw_admission:
  shows "core_admit_plan exw_codec None exw_organization exw_plan 10 empty_store = (Ok (False, exw_item), exw_admitted)"
    and "ws_items exw_admitted = [(wkey exw_item, \<lparr>ir_version = 1, ir_payload = Json exw_item\<rparr>)]"
    and "ws_operations exw_admitted = [((operation_namespace exw_plan, 7),
      \<lparr>or_request_digest = ep_request_digest exw_plan, or_response = RespWorkItem exw_item, or_created_at = 10\<rparr>)]"
    and "ws_execution exw_admitted = [(101, xrow (wkey exw_item) exw_request)]"
    and "ws_completion exw_admitted = []" and "ws_gate exw_admitted = []"
proof -
  have p: "core_admit_plan exw_codec None exw_organization exw_plan 10 empty_store
    = wf_transact None (admit_plan_tx exw_codec exw_plan exw_authority 10) empty_store"
    by (simp add: core_admit_plan_def then_store_def exw_plan_valid exw_organization_def require_ready_def admit_plan_def
        exw_authority_valid exw_authority_matches)
  from exw_admission_tx obtain l where "admit_plan_tx exw_codec exw_plan exw_authority 10 empty_store = Ok (\<lparr>
     ws_items = [(wkey exw_item, \<lparr>ir_version = 1, ir_payload = Json exw_item\<rparr>)],
     ws_operations = [((operation_namespace exw_plan, 7), \<lparr>or_request_digest = ep_request_digest exw_plan, or_response = RespWorkItem exw_item, or_created_at = 10\<rparr>)],
     ws_execution = [(101, xrow (wkey exw_item) exw_request)], ws_completion = [], ws_gate = [], ws_audit = l\<rparr>, False, exw_item)" by blast
  with p show "core_admit_plan exw_codec None exw_organization exw_plan 10 empty_store = (Ok (False, exw_item), exw_admitted)"
    "ws_items exw_admitted = [(wkey exw_item, \<lparr>ir_version = 1, ir_payload = Json exw_item\<rparr>)]"
    "ws_operations exw_admitted = [((operation_namespace exw_plan, 7),
      \<lparr>or_request_digest = ep_request_digest exw_plan, or_response = RespWorkItem exw_item, or_created_at = 10\<rparr>)]"
    "ws_execution exw_admitted = [(101, xrow (wkey exw_item) exw_request)]" "ws_completion exw_admitted = []" "ws_gate exw_admitted = []"
    by (simp_all add: exw_admitted_def wf_transact_def)
qed

lemma exw_bind: "digests_bind exw_codec {exw_plan}"
  by (simp add: digests_bind_def)

lemma exw_reachable: "wf_reachable exw_codec {exw_plan} exw_admitted {}"
  unfolding wf_reachable_def exw_admitted_def by (rule r_into_rtranclp) (rule wf_step.admit, simp)

lemma exw_inv: "sys_inv exw_codec {exw_plan} (exw_admitted, {})"
  by (rule wf_reachable_inv [OF exw_reachable exw_bind])

lemma exw_current: "current_at exw_admitted (wkey exw_item) exw_item"
  by (simp add: current_at_def exw_admission)

lemma exw_sha: "sha_is_256 exw_codec"
  by (simp add: sha_is_256_def exw_codec_def)

lemma exw_item_sel [simp]:
  "wi_plan exw_item = exw_plan" "wi_state exw_item = Claimed" "wi_version exw_item = 1" "wi_next_step_ordinal exw_item = 0" "wi_updated_at exw_item = 10"
  "wi_terminal_evidence exw_item = None"
  by (simp_all add: exw_item_def)

lemma exw_works: "works_for exw_codec exw_authority 10 exw_item"
  by (simp add: works_for_def exw_authority_valid exw_authority_matches exw_in_column)

lemma exw_issued: "issued_under exw_codec exw_authority 10 exw_admitted exw_item"
  by (auto simp: issued_under_def exec_in_def compl_in_def gate_in_def exw_admission exw_request_def first_pending_def)

lemma exw_completion_ids: "completion_id exw_codec exw_item 0 \<noteq> completion_id exw_codec exw_item 1"
proof -
  have "hex_string (replicate 31 0 @ [1]) \<noteq> hex_string (replicate 31 0 @ [2])" by code_simp
  then show ?thesis
    by (simp add: completion_id_def completion_request_identity_def canonical_sha256_def canonical_digest_of_def hex_sha256_def exw_codec_def)
qed

lemma exw_free: "identities_free exw_codec exw_admitted exw_item"
  using exw_completion_ids
  by (auto simp: identities_free_def exw_admission inj_on_def lessThan_Suc gate_row_of_plan_def om_values_def less_Suc_eq nth_Cons')

lemma exw_left: "versions_left exw_item"
  by (simp add: versions_left_def)

lemma exw_finishes: "finishes exw_codec {exw_plan} exw_admitted exw_item"
  using open_work_item_finishes [OF exw_inv exw_bind exw_sha exw_current _ exw_works exw_issued exw_free exw_left] by simp

end
