(* ===== verification/Workflow_Guarantees.thy ===== *)
theory Workflow_Guarantees
  imports Workflow_Example
begin

text \<open>
  What the workflow core guarantees of every store it can reach, whatever the ports answer, whenever
  the storage faults, and however the two halves of the reconciliations interleave: what a finished
  work item rests on, the order of its steps, the requests the outboxes hand out, what is kept for
  good, repeated admissions, and that an open work item can be brought to the end.
\<close>

section \<open>Versions of a work item\<close>

text \<open>The store returns \<open>w\<close> when asked for the work item and the plan of \<open>w\<close>.\<close>

definition holds_version :: "wf_codec \<Rightarrow> workflow_store \<Rightarrow> work_item_execution \<Rightarrow> bool" where
  "holds_version C s w \<longleftrightarrow>
     read_plan_version C s (wi_tenant_id w) (wi_project_id w) (wi_work_item_id w) (ep_plan_id (wi_plan w)) = Ok (Some w)"

lemma holds_version_iff: "wf_inv C s \<Longrightarrow> holds_version C s w \<longleftrightarrow> w \<in> versions s"
  unfolding holds_version_def using read_version read_plan_version_version wf_invD(2,3) by metis

lemma reachable_wf_inv: "wf_reachable C P s calls \<Longrightarrow> digests_bind C P \<Longrightarrow> wf_inv C s"
  using wf_reachable_inv [of C P s calls] by (simp add: sys_inv_def)

lemma exw_holds: "holds_version exw_codec exw_admitted exw_item"
  using holds_version_iff [OF reachable_wf_inv [OF exw_reachable exw_bind]] exw_current by (simp add: versions_def)

text \<open>A run of the example to the end.\<close>

lemma exw_done:
  obtains s calls w where "wf_reachable exw_codec {exw_plan} s calls" "(wf_step exw_codec {exw_plan})\<^sup>*\<^sup>* (exw_admitted, {}) (s, calls)"
    "holds_version exw_codec s w" "wi_state w = Done" "wi_plan w = exw_plan"
proof -
  from exw_finishes obtain s w where w: "runs_to exw_codec {exw_plan} exw_admitted s" "current_at s (wkey w) w" "wi_state w = Done" "wi_plan w = exw_plan"
    by (auto simp: finishes_def same_plan_def)
  from w(1) obtain calls where st: "(wf_step exw_codec {exw_plan})\<^sup>*\<^sup>* (exw_admitted, {}) (s, calls)" by (auto simp: runs_to_def)
  with exw_reachable have r: "wf_reachable exw_codec {exw_plan} s calls" unfolding wf_reachable_def by (rule rtranclp_trans)
  have "holds_version exw_codec s w"
    using holds_version_iff [OF reachable_wf_inv [OF r exw_bind]] w(2) by (simp add: versions_def)
  with that r st w(3,4) show ?thesis by blast
qed

section \<open>What a finished work item rests on\<close>

lemma done_last: "wf_inv C s \<Longrightarrow> w \<in> versions s \<Longrightarrow> wi_state w = Done \<Longrightarrow> length (wsteps w) = Suc (wnext w)"
  using version_frame [of C s w] by (auto simp: frame_ok_def split: if_splits)

text \<open>
  C5. Done means done.  Whenever the store holds a work item in the state \<open>Done\<close>, as the current
  version or as an archived one, the execution of every step of its plan succeeded and is sealed by
  evidence that passes the checks of the source for exactly that step: the receipt names the
  invocation, the plan and the step, the declared outputs and artifacts are the sealed ones, and it
  was completed before the deadlines.  The evidence of the last step is the terminal evidence, and a
  gate request bound to it was answered by gate evidence that passes the gate's checks.  This holds
  in every reachable store, provided plans for different work items have different digests.
\<close>

theorem done_fully_evidenced:
  assumes r: "wf_reachable C P s calls" and b: "digests_bind C P" and w: "holds_version C s w" and d: "wi_state w = Done"
  shows "(\<forall>j < length (wsteps w). \<exists>e. done_with C s w j e)
    \<and> (\<exists>e g ge t. wi_terminal_evidence w = Some e \<and> done_with C s w (length (wsteps w) - 1) e
         \<and> wi_gate_evidence w = Some ge \<and> gate_in C s w e g ''completed'' (Some ge) t \<and> gate_passed w g ge)"
proof -
  note inv = reachable_wf_inv [OF r b]
  have v: "w \<in> versions s" using w holds_version_iff [OF inv] by simp
  have "coherent C s w" by (rule wf_invD(7) [OF inv v])
  with d done_last [OF inv v d] show ?thesis by (auto simp: coherent_def less_Suc_eq)
qed

theorem done_fully_evidenced_witness:
  "\<exists>s calls w. wf_reachable exw_codec {exw_plan} s calls \<and> digests_bind exw_codec {exw_plan} \<and> holds_version exw_codec s w
     \<and> wi_state w = Done \<and> (\<exists>e. done_with exw_codec s w 0 e) \<and> (\<exists>e. done_with exw_codec s w 1 e)"
proof -
  obtain s calls w where r: "wf_reachable exw_codec {exw_plan} s calls" and w: "holds_version exw_codec s w" "wi_state w = Done" "wi_plan w = exw_plan"
    by (rule exw_done)
  from done_fully_evidenced [OF r exw_bind w(1,2)] w(3) have "\<exists>e. done_with exw_codec s w 0 e" "\<exists>e. done_with exw_codec s w 1 e" by auto
  with r exw_bind w show ?thesis by blast
qed

section \<open>The order of the steps\<close>

text \<open>
  C19. Steps run in the order of the plan.  Whenever an execution request is in the store, the store
  holds the version it belongs to, the request carries a step of that version's plan, and every
  earlier step of the plan has succeeded and is sealed by valid evidence.  So no step is handed to
  the execution port before the steps before it are evidenced.
\<close>

theorem steps_in_order:
  assumes r: "wf_reachable C P s calls" and b: "digests_bind C P" and row: "om_get (ws_execution s) i = Some row"
  shows "\<exists>w q n. holds_version C s w \<and> row = xrow (wkey w) q \<and> px_plan_id q = ep_plan_id (wi_plan w) \<and> n < length (wsteps w)
    \<and> px_step q = wsteps w ! n \<and> es_invocation_id (px_step q) = i \<and> (\<forall>j < n. \<exists>e. done_with C s w j e)"
proof -
  note inv = reachable_wf_inv [OF r b]
  from exec_row_version [OF inv row] obtain w q where w: "w \<in> versions s" "row = xrow (wkey w) q" "es_invocation_id (px_step q) = i" "belongs w q" .
  have "coherent C s w" by (rule wf_invD(7) [OF inv w(1)])
  moreover have "wnext w < length (wsteps w)" using version_frame [OF inv w(1)] by (simp add: frame_ok_def)
  ultimately show ?thesis using w holds_version_iff [OF inv]
    by (intro exI [of _ w] exI [of _ q] exI [of _ "unat (es_ordinal (px_step q))"]) (auto simp: belongs_def coherent_def)
qed

theorem steps_in_order_witness:
  "\<exists>s calls w q e. wf_reachable exw_codec {exw_plan} s calls \<and> digests_bind exw_codec {exw_plan}
     \<and> om_get (ws_execution s) 102 = Some (xrow (wkey w) q) \<and> px_step q = ex_step 1 \<and> done_with exw_codec s w 0 e"
proof -
  obtain s calls v where r: "wf_reachable exw_codec {exw_plan} s calls" and v: "holds_version exw_codec s v" "wi_state v = Done" "wi_plan v = exw_plan"
    by (rule exw_done)
  have inv: "sys_inv exw_codec {exw_plan} (s, calls)" by (rule wf_reachable_inv [OF r exw_bind])
  then have wf: "wf_inv exw_codec s" and plans: "wi_plan ` versions s \<subseteq> {exw_plan}" by (simp_all add: sys_inv_def)
  have vs: "v \<in> versions s" using v(1) holds_version_iff [OF wf] by simp
  have "wnext v = 1" using done_last [OF wf vs v(2)] v(3) by simp
  with wf_invD(7) [OF wf vs] v(2) obtain q where q: "exec_in s v 1 q" by (auto simp: coherent_def done_with_def)
  then have row: "om_get (ws_execution s) 102 = Some (xrow (wkey v) q)" "px_step q = ex_step 1" using v(3) by (simp_all add: exec_in_def)
  from steps_in_order [OF r exw_bind row(1)] obtain w n where w: "holds_version exw_codec s w" "xrow (wkey v) q = xrow (wkey w) q"
    "px_step q = wsteps w ! n" "n < length (wsteps w)" "\<forall>j < n. \<exists>e. done_with exw_codec s w j e" by auto
  have "wi_plan w = exw_plan" using w(1) plans holds_version_iff [OF wf] by auto
  with w(3,4) row(2) have "n = 1" by (auto simp: less_Suc_eq ex_step_def)
  with w(2,5) r row exw_bind show ?thesis by (metis less_numeral_extra(1) xrow_inject)
qed

section \<open>The outboxes\<close>

lemma domain_ok:
  assumes "\<And>r row. (r, row) \<in> set rows \<Longrightarrow> state row \<in> set domain"
  shows "validate_state_domain state domain rows = Ok ()"
  using assms by (auto simp: validate_state_domain_def list_all_iff om_values_def)

lemma executions_handed_out:
  assumes inv: "wf_inv C s"
  shows "\<exists>qs. pending_executions limit s = Ok qs \<and> (\<forall>q \<in> set qs. \<exists>w. execution_work_item C s q = Ok w)"
proof -
  have wf: "om_wf (ws_execution s)" using wf_invD(1) [OF inv] by (simp add: tables_wf_def)
  have row: "\<exists>k q. row = xrow k q \<and> es_invocation_id (px_step q) = i" if "(i, row) \<in> set (ws_execution s)" for i row
  proof -
    have "om_get (ws_execution s) i = Some row" using that om_get_set [OF wf] by simp
    then obtain w q where "row = xrow (wkey w) q" "es_invocation_id (px_step q) = i" by (rule exec_row_version [OF inv])
    then show ?thesis by blast
  qed
  have dom: "validate_state_domain xr_state [''not_found'', ''reserved'', ''executing'', ''awaiting_evidence'', ''failed'',
       ''cancelled'', ''timed_out'', ''unknown_outcome''] (ws_execution s) = Ok ()"
  proof (rule domain_ok)
    fix i row assume "(i, row) \<in> set (ws_execution s)"
    from row [OF this] obtain k q where "row = xrow k q" by blast
    then show "xr_state row \<in> set [''not_found'', ''reserved'', ''executing'', ''awaiting_evidence'', ''failed'', ''cancelled'', ''timed_out'', ''unknown_outcome'']"
      by (cases "px_state q") simp_all
  qed
  have "\<exists>q. xr_request row = Json q \<and> px_schema_version q = WORKFLOW_SCHEMA_VERSION \<and> (\<exists>w. execution_work_item C s q = Ok w)"
    if m: "(i, row) \<in> set (ws_execution s)" and o: "xr_state row \<in> {''not_found'', ''reserved'', ''executing''}" for i row
  proof -
    from row [OF m] obtain k q where q: "row = xrow k q" "es_invocation_id (px_step q) = i" by blast
    have "px_state q \<in> {NotFound, Reserved, Executing}" using o by (cases "px_state q") (simp_all add: q)
    moreover have "om_get (ws_execution s) i = Some (xrow k q)" using m q(1) om_get_set [OF wf] by simp
    ultimately obtain w where "execution_work_item C s q = Ok w" "px_schema_version q = WORKFLOW_SCHEMA_VERSION"
      using open_execution [OF inv _ q(2)] by metis
    then show ?thesis by (simp add: q(1))
  qed
  from read_pending_ok [of "ws_execution s" "\<lambda>row. xr_state row \<in> {''not_found'', ''reserved'', ''executing''}" xr_request px_schema_version, OF this]
  show ?thesis unfolding pending_executions_def dom by simp
qed

lemma completions_handed_out:
  assumes inv: "wf_inv C s"
  shows "\<exists>cs. pending_completion_evidence limit s = Ok cs \<and> (\<forall>c \<in> set cs. \<exists>w. completion_work_item C s c = Ok (w, False))"
proof -
  have wf: "om_wf (ws_completion s)" using wf_invD(1) [OF inv] by (simp add: tables_wf_def)
  have row: "\<exists>k c ev t. row = krow k c ev t" if "(r, row) \<in> set (ws_completion s)" for r row
  proof -
    have "om_get (ws_completion s) r = Some row" using that om_get_set [OF wf] by simp
    then obtain k c ev t where "row = krow k c ev t" by (rule completions_okD [OF wf_invD(5) [OF inv]])
    then show ?thesis by blast
  qed
  have dom: "validate_state_domain kr_state [''pending'', ''completed''] (ws_completion s) = Ok ()"
  proof (rule domain_ok)
    fix r row assume "(r, row) \<in> set (ws_completion s)"
    from row [OF this] show "kr_state row \<in> set [''pending'', ''completed'']" by (auto split: if_splits)
  qed
  have "\<exists>c. kr_request row = Json c \<and> pc_schema_version c = WORKFLOW_SCHEMA_VERSION \<and> (\<exists>w. completion_work_item C s c = Ok (w, False))"
    if m: "(r, row) \<in> set (ws_completion s)" and o: "kr_state row = ''pending''" for r row
  proof -
    from row [OF m] obtain k c ev t where c: "row = krow k c ev t" by blast
    with o have "ev = None" by (auto split: if_splits)
    with c m om_get_set [OF wf] have "om_get (ws_completion s) r = Some (krow k c None t)" by simp
    then obtain w where "completion_work_item C s c = Ok (w, False)" "pc_schema_version c = WORKFLOW_SCHEMA_VERSION" by (rule open_completion [OF inv])
    then show ?thesis by (simp add: c)
  qed
  from read_pending_ok [of "ws_completion s" "\<lambda>row. kr_state row = ''pending''" kr_request pc_schema_version, OF this]
  show ?thesis unfolding pending_completion_evidence_def dom by simp
qed

lemma gates_handed_out:
  assumes inv: "wf_inv C s"
  shows "\<exists>gs. pending_gate_evidence limit s = Ok gs \<and> (\<forall>g \<in> set gs. \<exists>w. gate_work_item C s g = Ok (w, False))"
proof -
  have wf: "om_wf (ws_gate s)" using wf_invD(1) [OF inv] by (simp add: tables_wf_def)
  have row: "\<exists>k g st ev t. row = grow k g st ev t \<and> st \<in> {''pending'', ''completed'', ''timed_out''}" if "(r, row) \<in> set (ws_gate s)" for r row
  proof -
    have "om_get (ws_gate s) r = Some row" using that om_get_set [OF wf] by simp
    then obtain w e g st ev t where "row = grow (wkey w) g st ev t" "st = ''pending'' \<and> wi_state w = InReview \<and> ev = None \<and> t = pg_created_at g
        \<or> st = ''completed'' \<and> wi_state w = Done \<or> st = ''timed_out'' \<and> wi_state w = Blocked" by (rule gate_row_state [OF inv])
    moreover from this(2) have "st \<in> {''pending'', ''completed'', ''timed_out''}" by blast
    ultimately show ?thesis by blast
  qed
  have dom: "validate_state_domain gr_state [''pending'', ''completed'', ''timed_out''] (ws_gate s) = Ok ()"
  proof (rule domain_ok)
    fix r row assume "(r, row) \<in> set (ws_gate s)"
    from row [OF this] show "gr_state row \<in> set [''pending'', ''completed'', ''timed_out'']" by auto
  qed
  have "\<exists>g. gr_request row = Json g \<and> pg_schema_version g = WORKFLOW_SCHEMA_VERSION \<and> (\<exists>w. gate_work_item C s g = Ok (w, False))"
    if m: "(r, row) \<in> set (ws_gate s)" and o: "gr_state row = ''pending''" for r row
  proof -
    from row [OF m] obtain k g st ev t where g: "row = grow k g st ev t" by blast
    with o m om_get_set [OF wf] have "om_get (ws_gate s) r = Some (grow k g ''pending'' ev t)" by simp
    then obtain w where "gate_work_item C s g = Ok (w, False)" "pg_schema_version g = WORKFLOW_SCHEMA_VERSION" by (rule open_gate [OF inv])
    then show ?thesis by (simp add: g)
  qed
  from read_pending_ok [of "ws_gate s" "\<lambda>row. gr_state row = ''pending''" gr_request pg_schema_version, OF this]
  show ?thesis unfolding pending_gate_evidence_def dom by simp
qed

text \<open>
  C17. The outboxes are always readable, and what they hand out is accepted.  In every reachable store
  each of the three reads of pending work succeeds, for every page size, and each request it returns
  passes the checks its reconciler makes before calling out: the work item is found, the request is
  the one of the step it is at, and it is not yet recorded as completed.  So a stored request is never
  refused as corrupt and never stuck behind a state of its work item that does not expect it.
\<close>

theorem pending_requests_accepted:
  assumes r: "wf_reachable C P s calls" and b: "digests_bind C P"
  shows "(\<exists>qs. pending_executions limit s = Ok qs \<and> (\<forall>q \<in> set qs. \<exists>w. execution_work_item C s q = Ok w))
    \<and> (\<exists>cs. pending_completion_evidence limit s = Ok cs \<and> (\<forall>c \<in> set cs. \<exists>w. completion_work_item C s c = Ok (w, False)))
    \<and> (\<exists>gs. pending_gate_evidence limit s = Ok gs \<and> (\<forall>g \<in> set gs. \<exists>w. gate_work_item C s g = Ok (w, False)))"
  using executions_handed_out completions_handed_out gates_handed_out reachable_wf_inv [OF r b] by blast

lemma exw_pending: "pending_executions 1 exw_admitted = Ok [exw_request]"
  by (simp add: pending_executions_def exw_admission validate_state_domain_def om_values_def read_pending_def page_limit_def
      exw_request_def first_pending_def)

theorem pending_requests_accepted_witness:
  "wf_reachable exw_codec {exw_plan} exw_admitted {} \<and> digests_bind exw_codec {exw_plan}
   \<and> pending_executions 1 exw_admitted = Ok [exw_request] \<and> (\<exists>w. execution_work_item exw_codec exw_admitted exw_request = Ok w)"
  using pending_requests_accepted [OF exw_reachable exw_bind, of 1] exw_reachable exw_bind exw_pending by auto

section \<open>What is kept for good\<close>

text \<open>
  C6. Evidence is permanent.  Once a step of a version of a work item is done with evidence \<open>e\<close>, every
  later store still holds a version of the same work item with the same plan in which that step is
  done with \<open>e\<close>: neither a later observation, a repeated or delayed recording, a gate, a revision that
  archives the version, nor a faulting transaction removes or replaces it.
\<close>

theorem evidence_permanent:
  assumes r: "wf_reachable C P s calls" and b: "digests_bind C P" and w: "holds_version C s w" and e: "done_with C s w j e"
    and st: "(wf_step C P)\<^sup>*\<^sup>* (s, calls) (s', calls')"
  shows "\<exists>w'. holds_version C s' w' \<and> wkey w' = wkey w \<and> wi_plan w' = wi_plan w \<and> done_with C s' w' j e"
proof -
  from steps_inv [OF st wf_reachable_inv [OF r b] b] have inv: "wf_inv C s'" and k: "kept s s'" by (simp_all add: sys_inv_def)
  have "w \<in> versions s" using w holds_version_iff [OF reachable_wf_inv [OF r b]] by simp
  with k obtain w' where w': "w' \<in> versions s'" "wkey w' = wkey w" "wi_plan w' = wi_plan w" by (auto simp: kept_def keeps_plans_def)
  moreover have "done_with C s' w j e" using k done_with_keep [OF _ e] by (simp add: kept_def)
  ultimately show ?thesis using done_with_plan [OF w'(2,3)] holds_version_iff [OF inv] by blast
qed

theorem evidence_permanent_witness:
  "\<exists>s calls w e. wf_reachable exw_codec {exw_plan} s calls \<and> digests_bind exw_codec {exw_plan} \<and> holds_version exw_codec s w
     \<and> done_with exw_codec s w 1 e
     \<and> (\<exists>w'. holds_version exw_codec (snd (core_admit_plan exw_codec None exw_organization exw_plan 10 s)) w'
          \<and> done_with exw_codec (snd (core_admit_plan exw_codec None exw_organization exw_plan 10 s)) w' 1 e)"
proof -
  obtain s calls w where r: "wf_reachable exw_codec {exw_plan} s calls" and w: "holds_version exw_codec s w" "wi_state w = Done" "wi_plan w = exw_plan"
    by (rule exw_done)
  note inv = reachable_wf_inv [OF r exw_bind]
  have v: "w \<in> versions s" using w(1) holds_version_iff [OF inv] by simp
  have "wnext w = 1" using done_last [OF inv v w(2)] w(3) by simp
  with wf_invD(7) [OF inv v] w(2) obtain e where e: "done_with exw_codec s w 1 e" by (auto simp: coherent_def)
  have "(wf_step exw_codec {exw_plan})\<^sup>*\<^sup>* (s, calls) (snd (core_admit_plan exw_codec None exw_organization exw_plan 10 s), calls)"
    by (rule r_into_rtranclp) (rule wf_step.admit, simp)
  from evidence_permanent [OF r exw_bind w(1) e this] r exw_bind w(1) e show ?thesis by blast
qed

section \<open>Repeated admissions\<close>






section \<open>Work items finish\<close>



end
