(* ===== verification/Spec2Isabelle.thy ===== *)
theory Spec2Isabelle
  imports Anti_Entropy Cluster_Peers Control_Server Cluster_Safety Workflow_Guarantees
begin

text \<open>
  Verification library of project-sentinel: the ownership control plane of its cluster and the
  work-item core of its workflow engine.

  \<^bold>\<open>The program.\<close>  A cluster of daemons shares a set of scopes (the world and one per agent).  At any
  time one node is to own a scope and write to it.  A coordinator, the chef, issues snapshots of owner
  terms, each with an epoch; every node stores the latest snapshot together with local overlays
  (retirements and transitions), keeps an in-memory registry of it, and hands out write guards from
  the registry.  A handoff retires the source, installs a snapshot with the next epoch, replicates it
  and lets the target commit.  The nodes talk over a control plane with certificate-pinned peers,
  framed messages and a response cache, and over it also exchange heartbeats and advertisements of
  the content blocks they hold.  Independently of that, the workflow core admits execution plans for
  work items and drives each through its steps: it asks an execution port to run a step, a completion
  port for sealed evidence of it, and at the end a gate port for a verdict, through three outbox
  tables of one transactional store.

  \<^bold>\<open>Theories and sources.\<close>  Paths are under \<open>src/\<close>.
  \<^item> \<open>Prelude\<close>, \<open>Ordered_Map\<close>, \<open>Codec\<close>: \<open>Result\<close> as a sum with \<open>?\<close> as \<^const>\<open>try_bind\<close>, fixed-width
    integers as words with checked and saturating arithmetic, ordered tables (locale \<open>kv_table\<close>),
    prefix codes (locale \<open>prefix_code\<close>).
  \<^item> \<open>Scope\<close>, \<open>Owner_Snapshot\<close>, \<open>Owner_Registry\<close>: \<open>crates/sentinel-common/src/types.rs\<close>, \<open>cluster.rs\<close>
    and \<open>fencing.rs\<close>: scopes, canonical snapshots and their validation, the registry and its guards.
  \<^item> \<open>Cluster_Meta\<close>: \<open>crates/sentinel-redb/src/cluster_meta.rs\<close>, the durable owner store.
  \<^item> \<open>Owner_Control\<close>, \<open>Handoff\<close>, \<open>Owner_Boot\<close>: \<open>owner_handler.rs\<close>, \<open>handoff.rs\<close>, \<open>operator_api.rs\<close> and
    \<open>orchestrator.rs\<close> of \<open>services/sentinel-daemon/src\<close>: the owner requests, the handoff saga with its RPC
    transport, the materialisation of scopes, the boot of a node.
  \<^item> \<open>Handoff_Transport\<close>, \<open>Handoff_Progress\<close>, \<open>Handoff_Completes\<close>: the contract of the transport seam
    (locale \<open>handoff_seam\<close>, interpreted on the RPC transport), and that a handoff with working
    transport and storage commits.
  \<^item> \<open>Authority_Invariant\<close>, \<open>Authority_Steps\<close>, \<open>Authority_Restart\<close>, \<open>Cluster\<close>, \<open>Cluster_Safety\<close>: the cluster
    as a transition system over the operations above, and its invariant.
  \<^item> \<open>Control_Envelope\<close>, \<open>Idempotency\<close>, \<open>Peer_Registry\<close>, \<open>Control_Server\<close>: \<open>envelope.rs\<close>, \<open>idempotency.rs\<close>,
    \<open>cert.rs\<close>, \<open>handler.rs\<close> and \<open>server.rs\<close> of \<open>crates/sentinel-cluster-control/src\<close>; \<open>Cluster_Peers\<close>:
    the peer table of \<open>cluster_control.rs\<close>.  The locale \<open>confined_handler\<close> is what each handler of the
    chain keeps.
  \<^item> \<open>Membership\<close>, \<open>Membership_Runtime\<close>, \<open>Block_Ref\<close>, \<open>Block_Map\<close>, \<open>Anti_Entropy\<close>: the membership view and its
    loop, block references, the gossiped holder map and the inventory pages; both merges are
    instances of the locale \<open>lww_merge\<close>.
  \<^item> \<open>Workflow_Text\<close>, \<open>Workflow_Data\<close>, \<open>Workflow_Plan\<close>: \<open>model.rs\<close>, \<open>digest.rs\<close> and \<open>error.rs\<close> of
    \<open>crates/sentinel-workflow/src\<close>; \<open>Workflow_Store\<close> and \<open>Workflow_Operations\<close>: \<open>store.rs\<close>,
    \<open>store/revisions.rs\<close> and \<open>store/readiness.rs\<close>, one transaction per operation; \<open>Workflow_Engine\<close>:
    \<open>engine.rs\<close> and \<open>port.rs\<close>.
  \<^item> \<open>Workflow_Invariant\<close>, \<open>Workflow_Steps\<close>, \<open>Workflow_Evidence\<close>, \<open>Workflow_Admission\<close>: the invariant of the
    workflow store and that every transaction keeps it; \<open>Workflow_Safety\<close>: the core as a transition
    system, an instance of the locale \<open>evolving_system\<close>; \<open>Workflow_Outbox\<close>, \<open>Workflow_Progress\<close>: open requests are accepted, open work items finish;
    \<open>Workflow_Example\<close>, \<open>Workflow_Guarantees\<close>: a concrete run and the resulting properties.

  \<^bold>\<open>State and effects.\<close>  A Rust struct is a record, an enum a datatype, a \<open>Result\<close> a sum with the error
  on the left; every early return is a branch.  Operations pass their state explicitly.  A storage
  call takes a flag that makes it fail; a transaction that fails leaves the store as it was.  A JSON
  cell holds the decoded value or is garbled.  Time is an argument.  Hash-map order is an argument
  where it is visible.  SHA-256, JSON and address printing are parameters; a theorem that relies on one
  of their properties says so in its hypotheses (\<^const>\<open>digests_bind\<close>: plans for different work
  items have different digests; \<^const>\<open>sha_is_256\<close>: a digest has 32 bytes).

  \<^bold>\<open>The cluster.\<close>  \<^const>\<open>cluster_step\<close> interleaves, without conditions other than those of the code:
  any number of handoffs at once, each in its phases; deliveries of any message ever sent, late or
  repeatedly; local installs; materialisations; restarts; failing storage.  The code does not order
  the handoffs of one scope, and \<open>overlapping_handoffs_split_brain\<close> shows a run of two overlapping
  handoffs after which two nodes accept the same writes.  The safety theorem \<open>no_split_brain\<close> is
  therefore about the runs that \<^const>\<open>orderly\<close> describes: a handoff begins when no other one of
  its scope is still unpublished and the chef's registry agrees with its store on the scope, and an
  \<open>OwnerCommit\<close> executes while its epoch is the current one and no later handoff of the scope is under
  way.  Epochs are 64-bit; a handoff at the last epoch fails with an overflow error, as in the code.

  \<^bold>\<open>The workflow core.\<close>  A reconciler reads the store, calls a port without a lock and writes in a second
  transaction; \<^const>\<open>wf_step\<close> makes the two halves separate steps and keeps every begun call
  forever, so it may be written late, twice or never, between any other operations.  Ports, clocks and
  faults are arbitrary.  The invariant ties each stored version of a work item, current or archived, to
  its rows in the three outboxes.

  \<^bold>\<open>What the lemmas show.\<close>  Cluster: exclusive ownership in orderly runs, handoffs that never steal and do
  complete, retirements durable before they are acknowledged, registries that fail closed, exact guard
  validation, installations that are monotone, atomic and round-trip.  Control plane: no peer changes
  another node's records, only the chef changes ownership, a repeated request has one effect, one run
  of a handler per key, revocable trust, an atomic peer table, round-tripping frames.  Gossip:
  convergence, suppression of older statements, complete paging, detection of silent nodes.  Workflow:
  a finished work item is evidenced step by step and passed by its gate, evidence is permanent, steps
  run in order, outboxes are readable and their requests accepted, admission is idempotent, no open
  work item is stuck, and an admitted step is confined to the paths and commands it declares.

  \<^bold>\<open>Bounds and loops.\<close>  All loops are structural recursion or have a measure; there is no fuel.  The page
  loop of the inventory is shown to end.  Limits of the code (frame size, plan size, number of steps,
  cache capacity, not-found retries) are its constants.  Timestamps and versions of the workflow store
  are 64-bit words written to signed columns, with the failing conversion as a branch.

  \<^bold>\<open>Not modelled.\<close>  QUIC and TLS, file systems, process start-up and the accept loops (I/O); the company
  domain, adaptive sessions, read caches and schema migration of the workflow database; the agent
  runtime, world simulation, sandboxes, inference, telemetry and front ends, which take no part in the
  two protocols.  Locks are taken at the granularity of the operations that hold them.
\<close>

end
